(* ===== verification/Go_Prelude.thy ===== *)
theory Go_Prelude
  imports Complex_Main "HOL-Library.Word" "HOL-Library.Monad_Syntax"
begin

unbundle bit_operations_syntax

text \<open>
  The part of Go that the repository's core relies on, shared by every other theory.

  \<^item> Machine integers: \<open>byte\<close>, \<open>uint16\<close> and \<open>uint32\<close> are words of 8, 16 and 32 bits;
    Go's \<open>int\<close> values that count bytes are \<open>nat\<close>, signed ones are \<open>int\<close>.
  \<^item> Run-time panics: an index or slice expression that is out of range panics in Go, so
    \<open>idx\<close>, \<open>gslice\<close> and the \<open>binary.LittleEndian\<close> readers return an \<open>option\<close> and \<open>None\<close> is
    the panic. (Go bounds the end of a slice expression by the capacity; the model bounds it by
    the length, so a computation that returns \<open>Some\<close> here does not panic in Go.)
\<close>

named_theorems panic_free \<open>facts that discharge run-time checks\<close>
named_theorems codec \<open>round-trip and width facts of the wire codecs\<close>

section \<open>Machine integers and byte strings\<close>

type_synonym byte = "8 word"
type_synonym uint16 = "16 word"
type_synonym uint32 = "32 word"
type_synonym bytes = "byte list"

text \<open>Conversions such as \<open>int8(b)\<close> and \<open>int32(u)\<close> read the same bits as two's complement.\<close>

definition int8 :: "byte \<Rightarrow> int" where
  "int8 b = sint b"

definition int16 :: "uint16 \<Rightarrow> int" where
  "int16 u = sint u"

definition int32 :: "uint32 \<Rightarrow> int" where
  "int32 u = sint u"

lemma int8_range: "- 128 \<le> int8 b" "int8 b \<le> 127"
  using sint_ge [of b] sint_lt [of b] by (simp_all add: int8_def)

lemma int32_range: "- (2 ^ 31) \<le> int32 u" "int32 u < 2 ^ 31"
  using sint_ge [of u] sint_lt [of u] by (simp_all add: int32_def)

lemma int32_eq_0 [simp]: "int32 u = 0 \<longleftrightarrow> u = 0"
  by (metis int32_def signed_0 word_eq_iff_signed)

section \<open>Run-time checks\<close>

definition idx :: "'a list \<Rightarrow> nat \<Rightarrow> 'a option" where
  "idx b i = (if i < length b then Some (b ! i) else None)"

definition gslice :: "'a list \<Rightarrow> nat \<Rightarrow> nat \<Rightarrow> 'a list option" where
  "gslice b i j = (if i \<le> j \<and> j \<le> length b then Some (take (j - i) (drop i b)) else None)"

lemma idx_Some [panic_free]: "i < length b \<Longrightarrow> idx b i = Some (b ! i)"
  by (simp add: idx_def)

lemma slice_Some [panic_free]:
  "i \<le> j \<Longrightarrow> j \<le> length b \<Longrightarrow> gslice b i j = Some (take (j - i) (drop i b))"
  by (simp add: gslice_def)

lemma idx_eq_Some_iff: "idx b i = Some x \<longleftrightarrow> i < length b \<and> x = b ! i"
  by (auto simp: idx_def)

lemma slice_length: "gslice b i j = Some s \<Longrightarrow> length s = j - i"
  by (auto simp: gslice_def split: if_splits)

lemma slice_all [simp]: "gslice b 0 (length b) = Some b"
  by (simp add: gslice_def)

section \<open>Little-endian integers (package \<open>encoding/binary\<close>)\<close>

definition le_u16 :: "bytes \<Rightarrow> uint16 option" where
  "le_u16 b = (if length b < 2 then None
     else Some (ucast (b ! 0) OR push_bit 8 (ucast (b ! 1))))"

definition le_u32 :: "bytes \<Rightarrow> uint32 option" where
  "le_u32 b = (if length b < 4 then None
     else Some (ucast (b ! 0) OR push_bit 8 (ucast (b ! 1)) OR push_bit 16 (ucast (b ! 2))
       OR push_bit 24 (ucast (b ! 3))))"

definition put_u16 :: "uint16 \<Rightarrow> bytes" where
  "put_u16 v = [ucast v, ucast (drop_bit 8 v)]"

definition put_u32 :: "uint32 \<Rightarrow> bytes" where
  "put_u32 v = [ucast v, ucast (drop_bit 8 v), ucast (drop_bit 16 v), ucast (drop_bit 24 v)]"

lemma length_put_u16 [simp]: "length (put_u16 v) = 2"
  by (simp add: put_u16_def)

lemma length_put_u32 [simp]: "length (put_u32 v) = 4"
  by (simp add: put_u32_def)

lemma le_u16_Some [panic_free]: "2 \<le> length b \<Longrightarrow> \<exists>v. le_u16 b = Some v"
  by (simp add: le_u16_def)

lemma le_u32_Some [panic_free]: "4 \<le> length b \<Longrightarrow> \<exists>v. le_u32 b = Some v"
  by (simp add: le_u32_def)

lemma u16_split:
  "ucast (ucast v :: byte) OR push_bit 8 (ucast (ucast (drop_bit 8 v) :: byte)) = (v :: uint16)"
  by (rule bit_eqI) (auto simp: bit_simps)

lemma u32_split:
  "ucast (ucast v :: byte) OR push_bit 8 (ucast (ucast (drop_bit 8 v) :: byte))
     OR push_bit 16 (ucast (ucast (drop_bit 16 v) :: byte))
     OR push_bit 24 (ucast (ucast (drop_bit 24 v) :: byte)) = (v :: uint32)"
proof (rule bit_word_eqI)
  fix n assume "n < LENGTH(32)"
  then show "bit (ucast (ucast v :: byte) OR push_bit 8 (ucast (ucast (drop_bit 8 v) :: byte))
     OR push_bit 16 (ucast (ucast (drop_bit 16 v) :: byte))
     OR push_bit 24 (ucast (ucast (drop_bit 24 v) :: byte)) :: uint32) n = bit v n"
    by (cases "n < 16"; cases "n < 24") (auto simp: bit_simps)
qed

lemma u32_join:
  fixes a b c d :: byte
  defines "v \<equiv> (ucast a OR push_bit 8 (ucast b) OR push_bit 16 (ucast c) OR push_bit 24 (ucast d) :: uint32)"
  shows "ucast v = a" "ucast (drop_bit 8 v) = b" "ucast (drop_bit 16 v) = c" "ucast (drop_bit 24 v) = d"
  unfolding v_def by (rule bit_eqI; auto simp: bit_simps dest: bit_imp_le_length)+

lemma le_u16_put [codec, simp]: "le_u16 (put_u16 v @ bs) = Some v"
  by (simp add: le_u16_def put_u16_def u16_split)

lemma le_u32_put [codec, simp]: "le_u32 (put_u32 v @ bs) = Some v"
  by (simp add: le_u32_def put_u32_def u32_split)

lemma le_u32_put_only [codec, simp]: "le_u32 (put_u32 v) = Some v"
  using le_u32_put [of v "[]"] by simp

lemma put_u32_le [codec]:
  assumes "length b = 4" and "le_u32 b = Some v"
  shows "put_u32 v = b"
proof -
  from assms(1) obtain w x y z where b: "b = [w, x, y, z]"
    by (auto simp: numeral_eq_Suc length_Suc_conv)
  from assms(2) show ?thesis
    by (auto simp: b le_u32_def put_u32_def u32_join simp del: drop_bit_or)
qed

lemma split_map_filter_first:
  assumes "y \<in> set (List.map_filter f xs)"
  shows "\<exists>us x vs. xs = us @ x # vs \<and> f x = Some y \<and> y \<notin> set (List.map_filter f us)"
proof -
  from assms have "\<exists>x \<in> set xs. f x = Some y" by (force simp: List.map_filter_def)
  then obtain us x vs where "xs = us @ x # vs" "f x = Some y" "\<forall>u \<in> set us. f u \<noteq> Some y"
    using split_list_first_prop [of xs "\<lambda>x. f x = Some y"] by blast
  then show ?thesis by (force simp: List.map_filter_def)
qed

end
