(* ===== verification/Go_Strings.thy ===== *)
theory Go_Strings
  imports Go_Prelude "HOL-Library.Sublist"
begin

text \<open>
  Go strings and the functions of the packages \<open>strings\<close>, \<open>encoding/hex\<close>, \<open>fmt\<close> and
  \<open>strconv\<close> that the sources call. A Go string is a sequence of bytes, and so is a HOL string;
  \<open>string(b)\<close> and \<open>[]byte(s)\<close> keep the bytes.

  \<open>strings.TrimSpace\<close> removes Unicode white space: the UTF-8 encodings of the whole (finite)
  class are listed, so the model is exact for every string. \<open>strings.ToLower\<close> and
  \<open>strings.EqualFold\<close> depend on the Unicode case tables, which are not part of the sources; the
  definitions that use them take them as arguments, and \<open>ascii_lower\<close> and \<open>ascii_fold_eq\<close> are
  what they compute on ASCII strings.
\<close>

section \<open>Bytes and strings\<close>

definition string_of_bytes :: "bytes \<Rightarrow> string" where
  "string_of_bytes b = map (\<lambda>x. char_of (unat x)) b"

definition bytes_of_string :: "string \<Rightarrow> bytes" where
  "bytes_of_string s = map (\<lambda>c. word_of_nat (of_char c)) s"

lemma length_string_of_bytes [simp]: "length (string_of_bytes b) = length b"
  by (simp add: string_of_bytes_def)

lemma length_bytes_of_string [simp]: "length (bytes_of_string s) = length s"
  by (simp add: bytes_of_string_def)

lemma string_of_bytes_simps [simp]:
  "string_of_bytes [] = []" "string_of_bytes (x # xs) = char_of (unat x) # string_of_bytes xs"
  "string_of_bytes (xs @ ys) = string_of_bytes xs @ string_of_bytes ys"
  by (simp_all add: string_of_bytes_def)

lemma bytes_of_string_simps [simp]:
  "bytes_of_string [] = []"
  "bytes_of_string (c # s) = word_of_nat (of_char c) # bytes_of_string s"
  "bytes_of_string (s @ t) = bytes_of_string s @ bytes_of_string t"
  by (simp_all add: bytes_of_string_def)

lemma of_char_less_256: "(of_char c :: nat) < 256"
  by simp

lemma string_of_bytes_of_string [codec, simp]: "string_of_bytes (bytes_of_string s) = s"
  by (induction s) (simp_all add: unat_of_nat)

lemma unat_byte_less: "unat (x :: byte) < 256"
  using unsigned_less [of x] by simp

lemma char_of_unat_inverse [simp]: "word_of_nat (unat (b :: byte) mod 256) = b"
  using unat_byte_less [of b] by simp

lemma bytes_of_string_of_bytes [codec, simp]: "bytes_of_string (string_of_bytes b) = b"
  by (induction b) simp_all

lemma string_of_bytes_inj [simp]: "string_of_bytes a = string_of_bytes b \<longleftrightarrow> a = b"
  by (metis bytes_of_string_of_bytes)

section \<open>Package \<open>encoding/hex\<close>\<close>

datatype hex_error = InvalidByteError char | ErrLength

definition hex_digit :: "nat \<Rightarrow> char" where
  "hex_digit n = (if n < 10 then char_of (48 + n) else char_of (87 + n))"

definition from_hex_digit :: "char \<Rightarrow> nat option" where
  "from_hex_digit c = (let n = of_char c :: nat in
     if 48 \<le> n \<and> n \<le> 57 then Some (n - 48)
     else if 97 \<le> n \<and> n \<le> 102 then Some (n - 87)
     else if 65 \<le> n \<and> n \<le> 70 then Some (n - 55)
     else None)"

definition hex_EncodeToString :: "bytes \<Rightarrow> string" where
  "hex_EncodeToString b =
     concat (map (\<lambda>x. [hex_digit (unat x div 16), hex_digit (unat x mod 16)]) b)"

fun hex_DecodeString :: "string \<Rightarrow> hex_error + bytes" where
  "hex_DecodeString [] = Inr []"
| "hex_DecodeString [p] = (if from_hex_digit p = None then Inl (InvalidByteError p) else Inl ErrLength)"
| "hex_DecodeString (p # q # rest) =
     (case from_hex_digit p of
        None \<Rightarrow> Inl (InvalidByteError p)
      | Some a \<Rightarrow>
          (case from_hex_digit q of
             None \<Rightarrow> Inl (InvalidByteError q)
           | Some b \<Rightarrow>
               (case hex_DecodeString rest of
                  Inl e \<Rightarrow> Inl e
                | Inr bs \<Rightarrow> Inr (word_of_nat (16 * a + b) # bs))))"

lemma from_hex_digit_hex_digit [simp]: "n < 16 \<Longrightarrow> from_hex_digit (hex_digit n) = Some n"
  by (auto simp: from_hex_digit_def hex_digit_def)

lemma from_hex_digit_less: "from_hex_digit c = Some n \<Longrightarrow> n < 16"
  by (auto simp: from_hex_digit_def Let_def split: if_splits)

lemma hex_EncodeToString_simps [simp]:
  "hex_EncodeToString [] = []"
  "hex_EncodeToString (x # b) = hex_digit (unat x div 16) # hex_digit (unat x mod 16) # hex_EncodeToString b"
  by (simp_all add: hex_EncodeToString_def)

lemma hex_EncodeToString_eq_Nil [simp]: "hex_EncodeToString b = [] \<longleftrightarrow> b = []"
  by (cases b) simp_all

lemma length_hex_EncodeToString [simp]: "length (hex_EncodeToString b) = 2 * length b"
  by (induction b) simp_all

lemma byte_nibbles [simp]: "word_of_nat (16 * (unat x div 16) + unat x mod 16) = (x :: byte)"
  by simp

lemma hex_decode_encode [codec, simp]: "hex_DecodeString (hex_EncodeToString b) = Inr b"
proof (induction b)
  case (Cons x b)
  have "unat x div 16 < 16" using unat_byte_less [of x] by linarith
  then show ?case by (simp add: Cons.IH)
qed simp

lemma hex_encode_inj [simp]: "hex_EncodeToString a = hex_EncodeToString b \<longleftrightarrow> a = b"
  by (metis hex_decode_encode sum.inject(2))

lemma hex_decode_length: "hex_DecodeString s = Inr b \<Longrightarrow> length s = 2 * length b"
  by (induction s arbitrary: b rule: hex_DecodeString.induct)
    (auto split: option.splits sum.splits if_splits)

text \<open>Decoding succeeds exactly on strings of hex digits of even length.\<close>

lemma hex_decode_ok_iff:
  "(\<exists>b. hex_DecodeString s = Inr b) \<longleftrightarrow>
     even (length s) \<and> list_all (\<lambda>c. from_hex_digit c \<noteq> None) s"
proof (induction s rule: hex_DecodeString.induct)
  case (3 p q rest)
  then show ?case
    by (cases "from_hex_digit p"; cases "from_hex_digit q"; cases "hex_DecodeString rest") auto
qed auto

section \<open>Package \<open>strings\<close>\<close>

text \<open>The UTF-8 encodings of the characters for which \<open>unicode.IsSpace\<close> holds.\<close>

definition space_encodings :: "string list" where
  "space_encodings =
     map (\<lambda>n. [char_of n]) [9 :: nat, 10, 11, 12, 13, 32]
     @ [[CHR 0xC2, CHR 0x85], [CHR 0xC2, CHR 0xA0], [CHR 0xE1, CHR 0x9A, CHR 0x80]]
     @ map (\<lambda>n. [CHR 0xE2, CHR 0x80, char_of n]) [0x80 ..< 0x8B :: nat]
     @ [[CHR 0xE2, CHR 0x80, CHR 0xA8], [CHR 0xE2, CHR 0x80, CHR 0xA9], [CHR 0xE2, CHR 0x80, CHR 0xAF],
        [CHR 0xE2, CHR 0x81, CHR 0x9F], [CHR 0xE3, CHR 0x80, CHR 0x80]]"

function trim_enc :: "string list \<Rightarrow> string \<Rightarrow> string" where
  "trim_enc encs s =
     (case find (\<lambda>p. p \<noteq> [] \<and> prefix p s) encs of
        None \<Rightarrow> s
      | Some p \<Rightarrow> trim_enc encs (drop (length p) s))"
  by pat_completeness auto
termination
  by (relation "measure (\<lambda>(encs, s). length s)")
    (auto simp: find_Some_iff prefix_def)

declare trim_enc.simps [simp del]

definition TrimSpace :: "string \<Rightarrow> string" where
  "TrimSpace s = rev (trim_enc (map rev space_encodings) (rev (trim_enc space_encodings s)))"

lemma trim_enc_suffix: "suffix (trim_enc encs s) s"
proof (induction encs s rule: trim_enc.induct)
  case (1 encs s)
  show ?case
    by (subst trim_enc.simps)
      (auto split: option.split intro: suffix_order.trans [OF 1 suffix_drop])
qed

lemma trim_enc_fixed: "find (\<lambda>p. p \<noteq> [] \<and> prefix p (trim_enc encs s)) encs = None"
proof (induction encs s rule: trim_enc.induct)
  case (1 encs s)
  then show ?case by (auto simp: trim_enc.simps [of encs s] split: option.split)
qed

lemma trim_enc_idem [simp]: "trim_enc encs (trim_enc encs s) = trim_enc encs s"
  by (subst trim_enc.simps) (simp add: trim_enc_fixed)

lemma length_TrimSpace: "length (TrimSpace s) \<le> length s"
  unfolding TrimSpace_def
  by (metis length_rev suffix_length_le trim_enc_suffix order_trans)

definition HasPrefix :: "string \<Rightarrow> string \<Rightarrow> bool" where
  "HasPrefix s p = prefix p s"

definition Contains :: "string \<Rightarrow> string \<Rightarrow> bool" where
  "Contains s sub = sublist sub s"

definition TrimPrefix :: "string \<Rightarrow> string \<Rightarrow> string" where
  "TrimPrefix s p = (if prefix p s then drop (length p) s else s)"

text \<open>\<open>strings.FieldsFunc\<close> for a predicate on ASCII characters.\<close>

function FieldsFunc :: "(char \<Rightarrow> bool) \<Rightarrow> string \<Rightarrow> string list" where
  "FieldsFunc p s =
     (case dropWhile p s of
        [] \<Rightarrow> []
      | c # t \<Rightarrow> (c # takeWhile (\<lambda>x. \<not> p x) t) # FieldsFunc p (dropWhile (\<lambda>x. \<not> p x) t))"
  by pat_completeness auto
termination
proof (relation "measure (\<lambda>(p, s). length s)")
  fix p :: "char \<Rightarrow> bool" and s c t
  assume "dropWhile p s = c # t"
  then have "length (c # t) \<le> length s"
    by (metis length_dropWhile_le)
  then show "((p, dropWhile (\<lambda>x. \<not> p x) t), p, s) \<in> measure (\<lambda>(p, s). length s)"
    using length_dropWhile_le [of "\<lambda>x. \<not> p x" t] by simp
qed simp

declare FieldsFunc.simps [simp del]

text \<open>\<open>strings.Split\<close> with a one-byte separator, \<open>strings.Join\<close>.\<close>

fun Split :: "char \<Rightarrow> string \<Rightarrow> string list" where
  "Split sep [] = [[]]"
| "Split sep (c # s) =
     (if c = sep then [] # Split sep s
      else (case Split sep s of [] \<Rightarrow> [[c]] | f # fs \<Rightarrow> (c # f) # fs))"

fun Join :: "string \<Rightarrow> string list \<Rightarrow> string" where
  "Join sep [] = []"
| "Join sep [x] = x"
| "Join sep (x # y # ys) = x @ sep @ Join sep (y # ys)"

lemma Split_neq_Nil [simp]: "Split sep s \<noteq> []"
  by (cases s) (auto split: list.split)

lemma Join_Split: "Join [sep] (Split sep s) = s"
proof (induction s)
  case (Cons c s)
  obtain f fs where fs: "Split sep s = f # fs" by (cases "Split sep s") auto
  with Cons.IH show ?case by (cases fs) auto
qed simp

lemma FieldsFunc_nonempty: "f \<in> set (FieldsFunc p s) \<Longrightarrow> f \<noteq> [] \<and> list_all (\<lambda>c. \<not> p c) f"
proof (induction p s rule: FieldsFunc.induct)
  case (1 p s)
  show ?case
  proof (cases "dropWhile p s")
    case (Cons c t)
    with "1.prems" consider "f = c # takeWhile (\<lambda>x. \<not> p x) t"
      | "f \<in> set (FieldsFunc p (dropWhile (\<lambda>x. \<not> p x) t))"
      by (auto simp: FieldsFunc.simps [of p s])
    then show ?thesis
    proof cases
      case 1
      moreover from Cons have "\<not> p c" by (simp add: dropWhile_eq_Cons_conv)
      ultimately show ?thesis by (auto simp: list_all_iff dest: set_takeWhileD)
    next
      case 2
      with "1.IH" [OF Cons] show ?thesis by simp
    qed
  next
    case Nil
    then have "FieldsFunc p s = []" by (subst FieldsFunc.simps) (simp only: list.case)
    with "1.prems" show ?thesis by simp
  qed
qed

lemma FieldsFunc_Nil [simp]: "FieldsFunc p [] = []"
  by (simp add: FieldsFunc.simps)

lemma FieldsFunc_sep [simp]: "p c \<Longrightarrow> FieldsFunc p (c # s) = FieldsFunc p s"
  by (simp add: FieldsFunc.simps [of p "c # s"] FieldsFunc.simps [of p s])

lemma FieldsFunc_field:
  assumes "f \<noteq> []" and "list_all (\<lambda>c. \<not> p c) f" and "s = [] \<or> p (hd s)"
  shows "FieldsFunc p (f @ s) = f # FieldsFunc p s"
proof -
  obtain c t where f: "f = c # t" using assms(1) by (cases f) auto
  have t: "\<forall>x \<in> set t. \<not> p x" and c: "\<not> p c"
    using assms(2) by (auto simp: f list_all_iff)
  have "takeWhile (\<lambda>x. \<not> p x) (t @ s) = t" "dropWhile (\<lambda>x. \<not> p x) (t @ s) = s"
    using t assms(3) by (cases s; simp add: takeWhile_append2 dropWhile_append2)+
  then show ?thesis using c by (subst FieldsFunc.simps) (simp add: f)
qed

text \<open>Fields joined by a separator are found again.\<close>

lemma FieldsFunc_Join:
  assumes "\<forall>f \<in> set fs. f \<noteq> [] \<and> list_all (\<lambda>c. \<not> p c) f" and "p sep"
  shows "FieldsFunc p (Join [sep] fs) = fs"
  using assms(1)
proof (induction "[sep]" fs rule: Join.induct)
  case (2 x)
  then show ?case using FieldsFunc_field [of x p "[]"] by simp
next
  case (3 x y ys)
  then have "FieldsFunc p (x @ sep # Join [sep] (y # ys)) = x # FieldsFunc p (sep # Join [sep] (y # ys))"
    using assms(2) by (intro FieldsFunc_field) auto
  with 3 assms(2) show ?case by simp
qed simp

definition ascii_lower_char :: "char \<Rightarrow> char" where
  "ascii_lower_char c = (let n = of_char c :: nat in if 65 \<le> n \<and> n \<le> 90 then char_of (n + 32) else c)"

definition ascii_lower :: "string \<Rightarrow> string" where
  "ascii_lower s = map ascii_lower_char s"

definition ascii_fold_eq :: "string \<Rightarrow> string \<Rightarrow> bool" where
  "ascii_fold_eq s t = (ascii_lower s = ascii_lower t)"

section \<open>Formatting integers (package \<open>fmt\<close>)\<close>

fun show_nat :: "nat \<Rightarrow> string" where
  "show_nat n = (if n < 10 then [hex_digit n] else show_nat (n div 10) @ [hex_digit (n mod 10)])"

declare show_nat.simps [simp del]

text \<open>\<open>%0kx\<close> for a value of at most \<open>k\<close> hex digits.\<close>

fun hex_pad :: "nat \<Rightarrow> nat \<Rightarrow> string" where
  "hex_pad 0 n = []"
| "hex_pad (Suc k) n = hex_pad k (n div 16) @ [hex_digit (n mod 16)]"

lemma length_hex_pad [simp]: "length (hex_pad k n) = k"
  by (induction k arbitrary: n) simp_all

end
