(* ===== verification/Go_Float.thy ===== *)
theory Go_Float
  imports Go_Prelude "HOL-Library.Log_Nat"
begin

text \<open>
  \<open>float64\<close> values, \<open>time.Time\<close> and \<open>time.Duration\<close>.

  A finite \<open>float64\<close> is the rational number it stands for, and an arithmetic operation is the
  exact operation followed by rounding to 53 significant bits, ties to even (IEEE 754 binary64).
  The sources reach magnitudes between \<open>10^-6\<close> and \<open>2^31\<close>, so neither overflow nor subnormal
  numbers arise. \<open>f64_round_exact\<close> shows that a value with at most 53 significant bits is kept,
  which is why the signal-to-noise ratios of the protocol (multiples of a quarter) are decoded
  without any error, and \<open>f64_round_eq_0\<close> that a non-zero coordinate stays non-zero.
\<close>

type_synonym f64 = rat

definition pow2 :: "int \<Rightarrow> rat" where
  "pow2 e = (if 0 \<le> e then 2 ^ nat e else 1 / 2 ^ nat (- e))"

definition f64_exponent :: "rat \<Rightarrow> int" where
  "f64_exponent x =
     (let (n, d) = quotient_of \<bar>x\<bar>;
          e = int (floorlog 2 (nat n)) - int (floorlog 2 (nat d))
      in if pow2 e \<le> \<bar>x\<bar> then e else e - 1)"

definition round_half_even :: "rat \<Rightarrow> int" where
  "round_half_even y =
     (let f = \<lfloor>y\<rfloor>; r = y - of_int f
      in if r < 1 / 2 then f else if 1 / 2 < r then f + 1 else if even f then f else f + 1)"

definition f64_round :: "rat \<Rightarrow> f64" where
  "f64_round x =
     (if x = 0 then 0
      else let u = pow2 (f64_exponent x - 52) in of_int (round_half_even (x / u)) * u)"

definition f64_of_int :: "int \<Rightarrow> f64" where
  "f64_of_int i = f64_round (of_int i)"

definition f64_div :: "f64 \<Rightarrow> f64 \<Rightarrow> f64" where
  "f64_div x y = f64_round (x / y)"

lemma pow2_pos [simp]: "0 < pow2 e"
  by (simp add: pow2_def)

lemma pow2_neq_0 [simp]: "pow2 e \<noteq> 0"
  using pow2_pos [of e] by linarith

lemma abs_pow2 [simp]: "\<bar>pow2 e\<bar> = pow2 e"
  by (simp add: less_imp_le)

lemma pow2_powi: "pow2 e = 2 powi e"
  by (simp add: pow2_def power_int_def field_simps)

lemma pow2_add: "pow2 (a + b) = pow2 a * pow2 b"
  by (simp add: pow2_powi power_int_add)

lemma pow2_diff: "pow2 (a - b) = pow2 a / pow2 b"
  by (simp add: pow2_powi power_int_diff)

lemma pow2_mono: "a \<le> b \<Longrightarrow> pow2 a \<le> pow2 b"
  by (simp add: pow2_powi power_int_increasing)

lemma pow2_less_iff: "pow2 a < pow2 b \<longleftrightarrow> a < b"
  by (metis linorder_not_less pow2_mono pow2_powi power_int_strict_increasing one_less_numeral_iff semiring_norm(76))

lemma pow2_nat: "pow2 (int n) = 2 ^ n"
  by (simp add: pow2_def)

lemma floorlog_pow2:
  assumes "0 < (n :: nat)"
  shows "pow2 (int (floorlog 2 n) - 1) \<le> of_nat n" "of_nat n < pow2 (int (floorlog 2 n))"
proof -
  have b: "2 ^ (floorlog 2 n - 1) \<le> n" "n < 2 ^ floorlog 2 n" "0 < floorlog 2 n"
    using assms floorlog_bounds [of n 2] by (auto simp: floorlog_def)
  then have e: "int (floorlog 2 n) - 1 = int (floorlog 2 n - 1)" by simp
  show "pow2 (int (floorlog 2 n) - 1) \<le> of_nat n"
    unfolding e pow2_nat using b(1) by (metis of_nat_le_iff of_nat_numeral of_nat_power)
  show "of_nat n < pow2 (int (floorlog 2 n))"
    unfolding pow2_nat using b(2) by (metis of_nat_less_iff of_nat_numeral of_nat_power)
qed

text \<open>The exponent is the one of the leading binary digit.\<close>

lemma f64_exponent_bounds:
  assumes "x \<noteq> 0"
  shows "pow2 (f64_exponent x) \<le> \<bar>x\<bar>" "\<bar>x\<bar> < pow2 (f64_exponent x + 1)"
proof -
  obtain n d where q: "quotient_of \<bar>x\<bar> = (n, d)" by force
  then have d: "0 < d" and x: "\<bar>x\<bar> = of_int n / of_int d"
    by (auto simp: quotient_of_denom_pos quotient_of_div)
  from x d assms have n: "0 < n"
    by (metis abs_ge_zero divide_nonpos_pos of_int_0_less_iff of_int_le_0_iff linorder_not_less
        order_antisym abs_eq_0)
  define a b where "a = int (floorlog 2 (nat n))" and "b = int (floorlog 2 (nat d))"
  have n': "pow2 (a - 1) \<le> of_int n" "of_int n < pow2 a"
    using floorlog_pow2 [of "nat n"] n by (auto simp: a_def)
  have d': "pow2 (b - 1) \<le> of_int d" "of_int d < pow2 b"
    using floorlog_pow2 [of "nat d"] d by (auto simp: b_def)
  have "pow2 (a - 1) / pow2 b < \<bar>x\<bar>"
    unfolding x using n' d' d n
    by (intro order.strict_trans1 [OF divide_right_mono [OF n'(1)] divide_strict_left_mono])
      (auto simp: less_imp_le)
  then have lo: "pow2 (a - b - 1) < \<bar>x\<bar>" by (simp add: pow2_diff ac_simps)
  have "\<bar>x\<bar> < pow2 a / pow2 (b - 1)"
    unfolding x using n' d' d n
    by (intro order.strict_trans2 [OF divide_strict_right_mono [OF n'(2)] divide_left_mono])
      (auto simp: less_imp_le)
  then have hi: "\<bar>x\<bar> < pow2 (a - b + 1)"
    by (simp add: pow2_diff pow2_add field_simps)
  have "f64_exponent x = (if pow2 (a - b) \<le> \<bar>x\<bar> then a - b else a - b - 1)"
    by (simp add: f64_exponent_def q a_def b_def Let_def)
  with lo hi show "pow2 (f64_exponent x) \<le> \<bar>x\<bar>" "\<bar>x\<bar> < pow2 (f64_exponent x + 1)"
    by (auto split: if_splits)
qed

lemma round_half_even_of_int [simp]: "round_half_even (of_int k) = k"
  by (simp add: round_half_even_def)

lemma round_half_even_nonzero:
  assumes "1 \<le> \<bar>y\<bar>"
  shows "round_half_even y \<noteq> 0"
proof (cases "1 \<le> y")
  case True
  define f where "f = \<lfloor>y\<rfloor>"
  from True have "1 \<le> f" by (simp only: f_def le_floor_iff of_int_1)
  then show ?thesis by (auto simp: round_half_even_def Let_def f_def [symmetric])
next
  case False
  with assms have y: "y \<le> - 1" by (auto split: abs_split)
  then have "\<lfloor>y\<rfloor> \<le> - 1" unfolding floor_le_iff by simp
  moreover have "\<lfloor>y\<rfloor> = - 1 \<Longrightarrow> y = - 1"
    using y by (metis of_int_floor_le of_int_minus of_int_1 order_antisym)
  ultimately show ?thesis by (auto simp: round_half_even_def Let_def)
qed

text \<open>A value with at most 53 significant bits is not changed by rounding.\<close>

lemma f64_round_exact:
  assumes x: "x = of_int m * pow2 k" and m: "\<bar>m\<bar> < 2 ^ 53"
  shows "f64_round x = x"
proof (cases "x = 0")
  case False
  define e where "e = f64_exponent x"
  have "\<bar>x\<bar> = of_int \<bar>m\<bar> * pow2 k"
    using pow2_pos [of k] by (simp add: x abs_mult)
  also have "\<dots> < pow2 53 * pow2 k"
    using m pow2_pos [of k] pow2_nat [of 53]
    by (intro mult_strict_right_mono) (simp_all flip: of_int_less_iff [where 'a = rat])
  finally have "pow2 e < pow2 (53 + k)"
    using f64_exponent_bounds(1) [OF False] by (simp add: e_def pow2_add)
  then have "e - 52 \<le> k" by (simp add: pow2_less_iff)
  then obtain j where k: "k = e - 52 + int j"
    by (metis zle_iff_zadd)
  have "x / pow2 (e - 52) = of_int (m * 2 ^ j)"
    using pow2_pos [of "e - 52"] by (simp add: x k pow2_add pow2_nat)
  then have "f64_round x = of_int (m * 2 ^ j) * pow2 (e - 52)"
    using False by (simp add: f64_round_def e_def Let_def del: of_int_mult of_int_power)
  also have "\<dots> = x"
    by (simp add: x k pow2_add pow2_nat)
  finally show ?thesis .
qed (simp add: f64_round_def)

lemma f64_of_int_exact [simp]: "\<bar>i\<bar> < 2 ^ 53 \<Longrightarrow> f64_of_int i = of_int i"
  unfolding f64_of_int_def by (rule f64_round_exact [where m = i and k = 0]) (simp_all add: pow2_def)

lemma f64_round_eq_0 [simp]: "f64_round x = 0 \<longleftrightarrow> x = 0"
proof (cases "x = 0")
  case False
  define u where "u = pow2 (f64_exponent x - 52)"
  have u: "0 < u" by (simp add: u_def)
  have "pow2 (f64_exponent x) = u * 2 ^ 52"
    by (simp add: u_def pow2_diff pow2_nat [of 52, simplified])
  then have "1 \<le> \<bar>x / u\<bar>"
    using f64_exponent_bounds(1) [OF False] u by (simp add: abs_divide field_simps)
  then have "round_half_even (x / u) \<noteq> 0"
    by (rule round_half_even_nonzero)
  with False u show ?thesis by (simp add: f64_round_def u_def [symmetric] Let_def)
qed (simp add: f64_round_def)

text \<open>A signal-to-noise ratio is sent as a signed byte in quarters of a decibel.\<close>

definition quarter :: "int \<Rightarrow> f64" where
  "quarter i = f64_div (f64_of_int i) 4"

lemma quarter_exact [simp]:
  assumes "\<bar>i\<bar> < 2 ^ 53"
  shows "quarter i = of_int i / 4"
proof -
  have "f64_round (of_int i / 4) = of_int i / 4"
    using assms by (intro f64_round_exact [where m = i and k = "-2"]) (simp_all add: pow2_def)
  with assms show ?thesis by (simp add: quarter_def f64_div_def)
qed

text \<open>A coordinate is sent as a signed 32-bit integer in millionths of a degree.\<close>

definition micro_degrees :: "uint32 \<Rightarrow> f64" where
  "micro_degrees u = f64_div (f64_of_int (int32 u)) 1000000"

lemma micro_degrees_eq_0 [simp]: "micro_degrees u = 0 \<longleftrightarrow> u = 0"
proof -
  have "\<bar>int32 u\<bar> < 2 ^ 53"
    using int32_range [of u] by (simp add: abs_less_iff)
  then show ?thesis by (simp add: micro_degrees_def f64_div_def)
qed

section \<open>Time\<close>

record go_time =
  t_unix :: int
  t_nsec :: nat

text \<open>\<open>time.Time{}\<close> is the first of January of the year 1.\<close>

definition zero_time :: go_time where
  "zero_time = \<lparr>t_unix = - 62135596800, t_nsec = 0\<rparr>"

definition IsZero :: "go_time \<Rightarrow> bool" where
  "IsZero t = (t = zero_time)"

definition time_Unix :: "int \<Rightarrow> go_time" where
  "time_Unix s = \<lparr>t_unix = s, t_nsec = 0\<rparr>"

lemma t_unix_time_Unix [simp]: "t_unix (time_Unix s) = s"
  by (simp add: time_Unix_def)

lemma IsZero_time_Unix [simp]: "IsZero (time_Unix s) \<longleftrightarrow> s = - 62135596800"
  by (simp add: IsZero_def zero_time_def time_Unix_def)

lemma time_Unix_inj [simp]: "time_Unix s = time_Unix s' \<longleftrightarrow> s = s'"
  by (simp add: time_Unix_def)

type_synonym duration = int

definition millisecond :: duration where
  "millisecond = 1000000"

definition second :: duration where
  "second = 1000 * millisecond"

end
