(* ===== verification/Companion_Types.thy ===== *)
theory Companion_Types
  imports Go_Strings Go_Float
begin

text \<open>
  The vocabulary of the companion protocol: the command, response and push codes of
  \<open>protocol/companion/codes.go\<close>, the commands of \<open>protocol/companion/commands.go\<close>, the messages of
  \<open>protocol/companion/messages.go\<close> and \<open>protocol/raw.go\<close>, the statistics records of
  \<open>protocol/companion/stats.go\<close> and the command names of \<open>protocol/companion/cmdnames.go\<close>.
  A Go struct is a record, the type switch over \<open>protocol.Message\<close> and \<open>protocol.Command\<close> is a
  datatype with one constructor per struct, and a nil-able pointer field is an option.
\<close>

section \<open>Codes\<close>

abbreviation (input) cmdAppStart :: byte where "cmdAppStart \<equiv> 1"
abbreviation (input) cmdSendTxtMsg :: byte where "cmdSendTxtMsg \<equiv> 2"
abbreviation (input) cmdSendChannelTxt :: byte where "cmdSendChannelTxt \<equiv> 3"
abbreviation (input) cmdGetContacts :: byte where "cmdGetContacts \<equiv> 4"
abbreviation (input) cmdGetDeviceTime :: byte where "cmdGetDeviceTime \<equiv> 5"
abbreviation (input) cmdSetDeviceTime :: byte where "cmdSetDeviceTime \<equiv> 6"
abbreviation (input) cmdSendSelfAdvert :: byte where "cmdSendSelfAdvert \<equiv> 7"
abbreviation (input) cmdSyncNextMessage :: byte where "cmdSyncNextMessage \<equiv> 10"
abbreviation (input) cmdReboot :: byte where "cmdReboot \<equiv> 19"
abbreviation (input) cmdGetBattery :: byte where "cmdGetBattery \<equiv> 20"
abbreviation (input) cmdDeviceQuery :: byte where "cmdDeviceQuery \<equiv> 22"
abbreviation (input) cmdSendLogin :: byte where "cmdSendLogin \<equiv> 26"
abbreviation (input) cmdSendStatusReq :: byte where "cmdSendStatusReq \<equiv> 27"
abbreviation (input) cmdHasConnection :: byte where "cmdHasConnection \<equiv> 28"
abbreviation (input) cmdLogout :: byte where "cmdLogout \<equiv> 29"
abbreviation (input) cmdGetChannel :: byte where "cmdGetChannel \<equiv> 31"
abbreviation (input) cmdSetChannel :: byte where "cmdSetChannel \<equiv> 32"
abbreviation (input) cmdSendTracePath :: byte where "cmdSendTracePath \<equiv> 36"
abbreviation (input) cmdSendControlData :: byte where "cmdSendControlData \<equiv> 55"
abbreviation (input) cmdGetStats :: byte where "cmdGetStats \<equiv> 56"
abbreviation (input) cmdSendMeshPacket :: byte where "cmdSendMeshPacket \<equiv> 65"

abbreviation (input) StatsTypeCore :: byte where "StatsTypeCore \<equiv> 0"
abbreviation (input) StatsTypeRadio :: byte where "StatsTypeRadio \<equiv> 1"
abbreviation (input) StatsTypePackets :: byte where "StatsTypePackets \<equiv> 2"

abbreviation (input) controlNodeDiscoverReq :: byte where "controlNodeDiscoverReq \<equiv> 0x80"
abbreviation (input) controlNodeDiscoverResp :: byte where "controlNodeDiscoverResp \<equiv> 0x90"

abbreviation (input) respOK :: byte where "respOK \<equiv> 0"
abbreviation (input) respErr :: byte where "respErr \<equiv> 1"
abbreviation (input) respContactsStart :: byte where "respContactsStart \<equiv> 2"
abbreviation (input) respContact :: byte where "respContact \<equiv> 3"
abbreviation (input) respEndOfContacts :: byte where "respEndOfContacts \<equiv> 4"
abbreviation (input) respSelfInfo :: byte where "respSelfInfo \<equiv> 5"
abbreviation (input) respSent :: byte where "respSent \<equiv> 6"
abbreviation (input) respContactMsgRecv :: byte where "respContactMsgRecv \<equiv> 7"
abbreviation (input) respChannelMsgRecv :: byte where "respChannelMsgRecv \<equiv> 8"
abbreviation (input) respCurrTime :: byte where "respCurrTime \<equiv> 9"
abbreviation (input) respNoMoreMessages :: byte where "respNoMoreMessages \<equiv> 10"
abbreviation (input) respBatteryVoltage :: byte where "respBatteryVoltage \<equiv> 12"
abbreviation (input) respDeviceInfo :: byte where "respDeviceInfo \<equiv> 13"
abbreviation (input) respContactMsgRecvV3 :: byte where "respContactMsgRecvV3 \<equiv> 16"
abbreviation (input) respChannelMsgRecvV3 :: byte where "respChannelMsgRecvV3 \<equiv> 17"
abbreviation (input) respChannelInfo :: byte where "respChannelInfo \<equiv> 18"
abbreviation (input) respStats :: byte where "respStats \<equiv> 24"

abbreviation (input) pushAdvert :: byte where "pushAdvert \<equiv> 0x80"
abbreviation (input) pushSendConfirmed :: byte where "pushSendConfirmed \<equiv> 0x82"
abbreviation (input) pushMsgWaiting :: byte where "pushMsgWaiting \<equiv> 0x83"
abbreviation (input) pushLoginSuccess :: byte where "pushLoginSuccess \<equiv> 0x85"
abbreviation (input) pushLoginFail :: byte where "pushLoginFail \<equiv> 0x86"
abbreviation (input) pushStatusResp :: byte where "pushStatusResp \<equiv> 0x87"
abbreviation (input) pushLogRxData :: byte where "pushLogRxData \<equiv> 0x88"
abbreviation (input) pushTraceData :: byte where "pushTraceData \<equiv> 0x89"
abbreviation (input) pushNewAdvert :: byte where "pushNewAdvert \<equiv> 0x8A"
abbreviation (input) pushControlData :: byte where "pushControlData \<equiv> 0x8E"

abbreviation (input) ErrNotFound :: byte where "ErrNotFound \<equiv> 2"

definition isPush :: "byte \<Rightarrow> bool" where
  "isPush code = (code AND 0x80 \<noteq> 0)"

lemma isPush_iff: "isPush code \<longleftrightarrow> 128 \<le> code"
proof -
  have "code AND 0x80 \<noteq> 0 \<longleftrightarrow> bit code 7"
    using and_exp_eq_0_iff_not_bit [of code 7] by simp
  also have "\<dots> \<longleftrightarrow> bit (uint code) 7"
    by (simp add: bit_uint_iff)
  also have "\<dots> \<longleftrightarrow> odd (uint code div 128)"
    by (simp add: bit_iff_odd)
  also have "uint code div 128 = (if 128 \<le> uint code then 1 else 0)"
    using unsigned_less [of code, where 'a = int] unsigned_greater_eq [of code] by auto
  finally show ?thesis by (simp add: isPush_def word_le_def)
qed

section \<open>Command names\<close>

definition commandNames :: "(byte \<times> string) list" where
  "commandNames =
    [(1, ''CMD_APP_START''), (2, ''CMD_SEND_TXT_MSG''), (3, ''CMD_SEND_CHANNEL_TXT_MSG''),
     (4, ''CMD_GET_CONTACTS''), (5, ''CMD_GET_DEVICE_TIME''), (6, ''CMD_SET_DEVICE_TIME''),
     (7, ''CMD_SEND_SELF_ADVERT''), (8, ''CMD_SET_ADVERT_NAME''), (9, ''CMD_ADD_UPDATE_CONTACT''),
     (10, ''CMD_SYNC_NEXT_MESSAGE''), (11, ''CMD_SET_RADIO_PARAMS''), (12, ''CMD_SET_TX_POWER''),
     (13, ''CMD_RESET_PATH''), (14, ''CMD_SET_ADVERT_LATLON''), (15, ''CMD_REMOVE_CONTACT''),
     (16, ''CMD_SHARE_CONTACT''), (17, ''CMD_EXPORT_CONTACT''), (18, ''CMD_IMPORT_CONTACT''),
     (19, ''CMD_REBOOT''), (20, ''CMD_GET_BATTERY''), (22, ''CMD_DEVICE_QUERY''),
     (26, ''CMD_SEND_LOGIN''), (27, ''CMD_SEND_STATUS_REQ''), (28, ''CMD_HAS_CONNECTION''),
     (29, ''CMD_LOGOUT''), (31, ''CMD_GET_CHANNEL''), (32, ''CMD_SET_CHANNEL''),
     (36, ''CMD_SEND_TRACE_PATH''), (55, ''CMD_SEND_CONTROL_DATA''), (56, ''CMD_GET_STATS''),
     (65, ''CMD_SEND_RAW_PACKET'')]"

definition CommandName :: "byte \<Rightarrow> string" where
  "CommandName code =
     (case map_of commandNames code of
        Some name \<Rightarrow> name
      | None \<Rightarrow> ''CMD(0x'' @ hex_pad 2 (unat code) @ '')'')"

section \<open>Commands\<close>

record set_channel =
  sc_Index :: byte
  sc_Name :: string
  sc_Secret :: bytes

record send_text_message =
  st_DestPublicKey :: bytes
  st_Text :: string
  st_Timestamp :: go_time
  st_TxtType :: byte
  st_Attempt :: byte

record send_channel_text_message =
  sct_Channel :: byte
  sct_Text :: string
  sct_Timestamp :: go_time
  sct_TxtType :: byte

record send_trace_path =
  stp_Tag :: uint32
  stp_Auth :: uint32
  stp_Flags :: byte
  stp_Path :: bytes

record send_node_discover_req =
  snd_Filter :: byte
  snd_PrefixOnly :: bool
  snd_Tag :: uint32

datatype command =
    AppStart string
  | DeviceQuery
  | GetDeviceTime
  | SetDeviceTime go_time
  | GetBatteryVoltage
  | GetStats byte
  | SendSelfAdvert bool
  | Reboot
  | GetContacts uint32
  | GetChannel byte
  | SetChannel set_channel
  | SyncNextMessage
  | SendTextMessage send_text_message
  | SendLogin bytes string
  | SendStatusReq bytes
  | HasConnection bytes
  | Logout bytes
  | SendChannelTextMessage send_channel_text_message
  | SendTracePath send_trace_path
  | SendNodeDiscoverReq send_node_discover_req
  | SendMeshPacket byte bytes

section \<open>Messages\<close>

record self_info =
  si_AdvType :: byte
  si_TxPower :: byte
  si_MaxTxPower :: byte
  si_PublicKey :: string
  si_AdvLat :: f64
  si_AdvLon :: f64
  si_RadioFreq :: uint32
  si_RadioBW :: uint32
  si_RadioSF :: byte
  si_RadioCR :: byte
  si_Name :: string

record device_info =
  di_FirmwareCode :: byte
  di_Model :: string
  di_BuildDate :: string
  di_Version :: string

record stats_core =
  sco_BatteryMV :: uint16
  sco_UptimeSecs :: uint32
  sco_ErrorFlags :: uint16
  sco_QueueLen :: byte

record stats_radio =
  sr_NoiseFloor :: int
  sr_LastRSSI :: int
  sr_LastSNR :: f64
  sr_TxAirSecs :: uint32
  sr_RxAirSecs :: uint32

record stats_packets =
  sp_Received :: uint32
  sp_Sent :: uint32
  sp_FloodTx :: uint32
  sp_DirectTx :: uint32
  sp_FloodRx :: uint32
  sp_DirectRx :: uint32
  sp_RecvErrors :: uint32

record stats_response =
  s_Type :: byte
  s_Core :: "stats_core option"
  s_Radio :: "stats_radio option"
  s_Packets :: "stats_packets option"

record advert =
  a_PublicKey :: string
  a_Name :: string
  a_Type :: byte
  a_HasPath :: bool
  a_OutPathEnc :: byte
  a_OutPath :: bytes
  a_Latitude :: f64
  a_Longitude :: f64
  a_LastAdvert :: go_time
  a_LastMod :: uint32

record send_confirmed =
  scf_Code :: uint32
  scf_RoundTrip :: duration

record contact_frame =
  c_PublicKey :: string
  c_Type :: byte
  c_Flags :: byte
  c_HasPath :: bool
  c_OutPathEnc :: byte
  c_OutPath :: bytes
  c_Name :: string
  c_LastAdvert :: go_time
  c_Latitude :: f64
  c_Longitude :: f64
  c_LastMod :: go_time

record channel_info =
  ci_Index :: byte
  ci_Name :: string
  ci_Secret :: bytes

record sent =
  sn_Result :: byte
  sn_ExpectedAck :: uint32
  sn_SuggestedTimeout :: duration

record contact_message =
  cm_SenderPrefix :: string
  cm_PathLen :: byte
  cm_TxtType :: byte
  cm_Timestamp :: go_time
  cm_SNR :: f64
  cm_Text :: string

record channel_message =
  chm_Channel :: byte
  chm_PathLen :: byte
  chm_TxtType :: byte
  chm_Timestamp :: go_time
  chm_SNR :: f64
  chm_Text :: string

record trace_data =
  td_Tag :: uint32
  td_Auth :: uint32
  td_Flags :: byte
  td_Path :: bytes
  td_SNRs :: "f64 list"

record control_data =
  cd_SNR :: f64
  cd_RSSI :: int
  cd_PathLen :: byte
  cd_PayloadType :: byte
  cd_Payload :: bytes

record node_discover_resp =
  nd_Tag :: uint32
  nd_NodeType :: byte
  nd_PublicKey :: string
  nd_SNRUp :: f64
  nd_SNRDown :: f64
  nd_RSSI :: int
  nd_PathLen :: byte

record login_success =
  ls_Permissions :: byte
  ls_PublicKeyPrefix :: bytes
  ls_Tag :: int
  ls_NewPermissions :: byte

record login_fail =
  lf_PublicKeyPrefix :: bytes

record repeater_stats =
  rs_BattMilliVolts :: uint16
  rs_CurrTxQueueLen :: uint16
  rs_NoiseFloor :: int
  rs_LastRSSI :: int
  rs_NPacketsRecv :: uint32
  rs_NPacketsSent :: uint32
  rs_TotalAirTimeSecs :: uint32
  rs_TotalUpTimeSecs :: uint32
  rs_NSentFlood :: uint32
  rs_NSentDirect :: uint32
  rs_NRecvFlood :: uint32
  rs_NRecvDirect :: uint32
  rs_ErrEvents :: uint16
  rs_LastSNR :: int
  rs_NDirectDups :: uint16
  rs_NFloodDups :: uint16
  rs_TotalRxAirTimeSecs :: uint32
  rs_NRecvErrors :: uint32

record status_response =
  sre_PublicKeyPrefix :: bytes
  sre_Stats :: "repeater_stats option"
  sre_Text :: string

datatype message =
    RawMessage byte bytes bool
  | OK
  | Err byte
  | SelfInfo self_info
  | DeviceInfo device_info
  | CurrentTime go_time
  | BatteryVoltage uint16
  | StatsResponse stats_response
  | Advert advert
  | SendConfirmed send_confirmed
  | MsgWaiting
  | ContactsStart uint32
  | ContactFrame contact_frame
  | EndOfContacts uint32
  | ChannelInfo channel_info
  | NoMoreMessages
  | Sent sent
  | ContactMessage contact_message
  | ChannelMessage channel_message
  | TraceData trace_data
  | ControlData control_data
  | NodeDiscoverResp node_discover_resp
  | LoginSuccess login_success
  | LoginFail login_fail
  | StatusResponse status_response

text \<open>The \<open>Async\<close> methods: whether the device emitted the message without a request.\<close>

fun Async :: "message \<Rightarrow> bool" where
  "Async (RawMessage _ _ push) = push"
| "Async OK = False"
| "Async (Err _) = False"
| "Async (SelfInfo _) = False"
| "Async (DeviceInfo _) = False"
| "Async (CurrentTime _) = False"
| "Async (BatteryVoltage _) = False"
| "Async (StatsResponse _) = False"
| "Async (Advert _) = True"
| "Async (SendConfirmed _) = True"
| "Async MsgWaiting = True"
| "Async (ContactsStart _) = False"
| "Async (ContactFrame _) = False"
| "Async (EndOfContacts _) = False"
| "Async (ChannelInfo _) = False"
| "Async NoMoreMessages = False"
| "Async (Sent _) = False"
| "Async (ContactMessage _) = False"
| "Async (ChannelMessage _) = False"
| "Async (TraceData _) = True"
| "Async (ControlData _) = True"
| "Async (NodeDiscoverResp _) = True"
| "Async (LoginSuccess _) = True"
| "Async (LoginFail _) = True"
| "Async (StatusResponse _) = True"

end
