(* ===== verification/Pathhash.thy ===== *)
theory Pathhash
  imports Go_Strings
begin

text \<open>
  Path hashes: \<open>protocol/pathhash/pathhash.go\<close>. A mesh path is a string of per-hop hashes of one
  width. Two encodings of the width exist: the trace flags byte (width \<open>1 << bits\<close>, one of
  1, 2, 4 and 8) and the path metadata byte of a contact (bits 6 and 7 hold the width minus one,
  bits 0 to 5 the hop count). The theory models every function of the file and shows that the
  encodings agree, that no function panics, and that parsing, splitting and printing a path are
  inverse to each other.
\<close>

datatype pathhash_error =
    UnsupportedTraceHashSize int
  | EmptyOutPath
  | Empty3ByteOutPath
  | UnsupportedOutPathHashSize int
  | EmptyPath
  | InvalidPathHash string
  | PathHashWidth string int int
  | InvalidPathHex string hex_error
  | PathExceedsMaximum

definition OutPathUnknown :: byte where
  "OutPathUnknown = 0xff"

definition MaxPathSize :: nat where
  "MaxPathSize = 64"

definition HashSizeFromTraceFlags :: "byte \<Rightarrow> int" where
  "HashSizeFromTraceFlags flags = push_bit (unat (flags AND 0x03)) 1"

definition TraceFlagsFromHashSize :: "int \<Rightarrow> pathhash_error + byte" where
  "TraceFlagsFromHashSize sz =
     (if sz = 1 then Inr 0
      else if sz = 2 then Inr 1
      else if sz = 4 then Inr 2
      else if sz = 8 then Inr 3
      else Inl (UnsupportedTraceHashSize sz))"

definition HashSizeFromPathMeta :: "byte \<Rightarrow> int" where
  "HashSizeFromPathMeta encoded = uint (drop_bit 6 encoded) + 1"

definition HopCountFromPathMeta :: "byte \<Rightarrow> int" where
  "HopCountFromPathMeta encoded = uint (encoded AND 0x3f)"

definition PathBytes :: "byte \<Rightarrow> bytes \<Rightarrow> bytes option" where
  "PathBytes encoded raw =
     (let n = HopCountFromPathMeta encoded * HashSizeFromPathMeta encoded
      in if n \<le> 0 then Some []
         else gslice raw 0 (if int (length raw) < n then length raw else nat n))"

definition NearestTraceHashSize :: "int \<Rightarrow> int" where
  "NearestTraceHashSize n = (if n \<le> 1 then 1 else if n \<le> 2 then 2 else if n \<le> 4 then 4 else 8)"

definition is_hex_char :: "char \<Rightarrow> bool" where
  "is_hex_char r = (let n = of_char r :: nat in
     (48 \<le> n \<and> n \<le> 57) \<or> (97 \<le> n \<and> n \<le> 102) \<or> (65 \<le> n \<and> n \<le> 70))"

definition HexPrefixByteLen :: "string \<Rightarrow> nat" where
  "HexPrefixByteLen s0 =
     (let s = TrimSpace s0
      in if s = [] \<or> list_ex (\<lambda>c. c = CHR '','' \<or> c = CHR '' '') s then 0
         else if list_ex (\<lambda>r. \<not> is_hex_char r) s then 0
         else if length s mod 2 \<noteq> 0 then 0
         else length s div 2)"

definition IsDirectOutPath :: "byte \<Rightarrow> bool" where
  "IsDirectOutPath encoded = (encoded \<noteq> OutPathUnknown \<and> HopCountFromPathMeta encoded = 0)"

definition HasStoredOutPath :: "byte \<Rightarrow> bytes \<Rightarrow> bool option" where
  "HasStoredOutPath encoded raw =
     (if encoded = OutPathUnknown \<or> HopCountFromPathMeta encoded = 0 then Some False
      else do { p \<leftarrow> PathBytes encoded raw; Some (0 < length p) })"

text \<open>The loop of \<open>TracePathFromOutPath\<close> that keeps two bytes of each three-byte hop: the index
  \<open>i\<close> and the number of iterations left.\<close>

fun down_convert :: "bytes \<Rightarrow> nat \<Rightarrow> nat \<Rightarrow> bytes option" where
  "down_convert path i 0 = Some []"
| "down_convert path i (Suc n) =
     (let off = i * 3
      in if length path < off + 2 then Some []
         else do {
           hop \<leftarrow> gslice path off (off + 2);
           rest \<leftarrow> down_convert path (i + 1) n;
           Some (hop @ rest)
         })"

definition TracePathFromOutPath ::
    "byte \<Rightarrow> bytes \<Rightarrow> (pathhash_error + bytes \<times> int \<times> byte) option" where
  "TracePathFromOutPath encoded raw =
     (let pathHashSize = HashSizeFromPathMeta encoded; hopCount = HopCountFromPathMeta encoded
      in do {
        path \<leftarrow> PathBytes encoded raw;
        if length path = 0 then Some (Inl EmptyOutPath)
        else if pathHashSize \<in> {1, 2, 4, 8} then
          Some (case TraceFlagsFromHashSize pathHashSize of
                  Inl err \<Rightarrow> Inl err
                | Inr flags \<Rightarrow> Inr (path, pathHashSize, flags))
        else if pathHashSize = 3 then do {
          tracePath \<leftarrow> down_convert path 0 (nat hopCount);
          if length tracePath = 0 then Some (Inl Empty3ByteOutPath)
          else Some (case TraceFlagsFromHashSize 2 of
                       Inl err \<Rightarrow> Inl err
                     | Inr flags \<Rightarrow> Inr (tracePath, 2, flags))
        }
        else Some (Inl (UnsupportedOutPathHashSize pathHashSize))
      })"

definition TraceFlagsFromPathMeta :: "byte \<Rightarrow> pathhash_error + byte" where
  "TraceFlagsFromPathMeta encoded =
     (let hashSize = HashSizeFromPathMeta encoded
      in TraceFlagsFromHashSize (if hashSize = 3 then 2 else hashSize))"

definition is_path_sep :: "char \<Rightarrow> bool" where
  "is_path_sep r = (r = CHR '','' \<or> r = CHR '' '')"

definition IsHexTraceTarget :: "string \<Rightarrow> bool" where
  "IsHexTraceTarget s =
     (let fields = FieldsFunc is_path_sep (TrimSpace s)
      in fields \<noteq> [] \<and>
         list_all (\<lambda>f. f \<noteq> [] \<and> length f mod 2 = 0 \<and> list_all is_hex_char f) fields)"

text \<open>The loop of \<open>ParsePath\<close> over the remaining fields.\<close>

fun parse_hops :: "int \<Rightarrow> string list \<Rightarrow> pathhash_error + bytes" where
  "parse_hops hashSize [] = Inr []"
| "parse_hops hashSize (f # fs) =
     (if int (length f) \<noteq> hashSize * 2 then Inl (PathHashWidth f (int (length f)) (hashSize * 2))
      else (case hex_DecodeString f of
              Inl err \<Rightarrow> Inl (InvalidPathHex f err)
            | Inr b \<Rightarrow> (case parse_hops hashSize fs of Inl e \<Rightarrow> Inl e | Inr path \<Rightarrow> Inr (b @ path))))"

definition ParsePath :: "string \<Rightarrow> pathhash_error + bytes \<times> int" where
  "ParsePath s =
     (case FieldsFunc is_path_sep s of
        [] \<Rightarrow> Inl EmptyPath
      | f # fs \<Rightarrow>
          (let hashSize = int (length f) div 2
           in if hashSize = 0 \<or> length f mod 2 \<noteq> 0 then Inl (InvalidPathHash f)
              else (case TraceFlagsFromHashSize hashSize of
                      Inl err \<Rightarrow> Inl err
                    | Inr _ \<Rightarrow>
                        (case parse_hops hashSize (f # fs) of
                           Inl err \<Rightarrow> Inl err
                         | Inr path \<Rightarrow>
                             if MaxPathSize < length path then Inl PathExceedsMaximum
                             else Inr (path, hashSize)))))"

text \<open>The loop of \<open>Split\<close>, from index \<open>i\<close>.\<close>

function split_hops :: "bytes \<Rightarrow> nat \<Rightarrow> nat \<Rightarrow> bytes list option" where
  "split_hops path hashSize i =
     (if i < length path \<and> 0 < hashSize then do {
        hop \<leftarrow> gslice path i (i + hashSize);
        hops \<leftarrow> split_hops path hashSize (i + hashSize);
        Some (hop # hops)
      } else Some [])"
  by pat_completeness auto
termination
  by (relation "measure (\<lambda>(path, hashSize, i). length path - i)") auto

declare split_hops.simps [simp del]

definition Split_path :: "bytes \<Rightarrow> int \<Rightarrow> bytes list option" where
  "Split_path path hashSize =
     (if hashSize \<le> 0 \<or> length path = 0 \<or> int (length path) mod hashSize \<noteq> 0 then Some []
      else split_hops path (nat hashSize) 0)"

definition FormatHop :: "bytes \<Rightarrow> string" where
  "FormatHop hop = hex_EncodeToString hop"

section \<open>The two width encodings\<close>

lemma flags_low_bits: "flags AND 3 \<in> {0, 1, 2, 3 :: byte}"
proof -
  have "unat (flags AND 3) \<le> 3"
    using word_and_le1 [of flags 3] by (simp add: word_le_nat_alt)
  then have "unat (flags AND 3) \<in> {0, 1, 2, 3}" by auto
  then obtain k where "flags AND 3 = word_of_nat k" "k \<in> {0, 1, 2, 3}"
    by (metis of_nat_unat ucast_id)
  then show ?thesis by auto
qed

lemma HashSizeFromTraceFlags_cases: "HashSizeFromTraceFlags flags \<in> {1, 2, 4, 8}"
  using flags_low_bits [of flags] by (auto simp: HashSizeFromTraceFlags_def)

lemma TraceFlagsFromHashSize_Inr:
  "TraceFlagsFromHashSize sz = Inr f \<Longrightarrow> sz \<in> {1, 2, 4, 8} \<and> HashSizeFromTraceFlags f = sz"
  by (auto simp: TraceFlagsFromHashSize_def HashSizeFromTraceFlags_def split: if_splits)

lemma TraceFlags_of_HashSize:
  "TraceFlagsFromHashSize (HashSizeFromTraceFlags flags) = Inr (flags AND 3)"
  using flags_low_bits [of flags]
  by (auto simp: TraceFlagsFromHashSize_def HashSizeFromTraceFlags_def)

lemma TraceFlagsFromHashSize_ok_iff:
  "(\<exists>f. TraceFlagsFromHashSize sz = Inr f) \<longleftrightarrow> sz \<in> {1, 2, 4, 8}"
  by (auto simp: TraceFlagsFromHashSize_def)

lemma NearestTraceHashSize_cases: "NearestTraceHashSize n \<in> {1, 2, 4, 8}"
  by (auto simp: NearestTraceHashSize_def)

lemma HashSizeFromPathMeta_range: "1 \<le> HashSizeFromPathMeta e" "HashSizeFromPathMeta e \<le> 4"
proof -
  have "uint (drop_bit 6 e) < 4"
    using unsigned_less [of e, where 'a = int] by (simp add: drop_bit_eq_div uint_div)
  then show "1 \<le> HashSizeFromPathMeta e" "HashSizeFromPathMeta e \<le> 4"
    by (auto simp: HashSizeFromPathMeta_def)
qed

lemma HopCountFromPathMeta_range: "0 \<le> HopCountFromPathMeta e" "HopCountFromPathMeta e < 64"
proof -
  have "uint (e AND 0x3f) \<le> uint (0x3f :: byte)"
    using word_and_le1 [of e "0x3f"] by (simp add: word_le_def)
  then show "0 \<le> HopCountFromPathMeta e" "HopCountFromPathMeta e < 64"
    by (auto simp: HopCountFromPathMeta_def)
qed

section \<open>Stored paths\<close>

lemma PathBytes_Some [panic_free]:
  "PathBytes e raw = Some (take (nat (HopCountFromPathMeta e * HashSizeFromPathMeta e)) raw)"
  using HopCountFromPathMeta_range [of e] HashSizeFromPathMeta_range [of e]
  by (auto simp: PathBytes_def Let_def gslice_def)

lemma HasStoredOutPath_Some [panic_free]:
  "HasStoredOutPath e raw = Some (e \<noteq> OutPathUnknown \<and> HopCountFromPathMeta e \<noteq> 0 \<and> raw \<noteq> [])"
proof -
  have "HopCountFromPathMeta e \<noteq> 0 \<Longrightarrow> 0 < HopCountFromPathMeta e * HashSizeFromPathMeta e"
    using HopCountFromPathMeta_range [of e] HashSizeFromPathMeta_range [of e]
    by (intro mult_pos_pos) linarith+
  then show ?thesis
    by (auto simp: HasStoredOutPath_def PathBytes_Some)
qed

text \<open>The down-conversion keeps the first two bytes of every hop; a stored path that ends inside
  a hop contributes what is left of it.\<close>

fun hop_prefixes :: "nat \<Rightarrow> bytes \<Rightarrow> bytes" where
  "hop_prefixes 0 path = []"
| "hop_prefixes (Suc n) path =
     (if length path < 2 then [] else take 2 path @ hop_prefixes n (drop 3 path))"

lemma down_convert_eq [panic_free]: "down_convert path i n = Some (hop_prefixes n (drop (i * 3) path))"
proof (induction path i n rule: down_convert.induct)
  case (2 path i n)
  show ?case
  proof (cases "length path < i * 3 + 2")
    case False
    with 2 show ?thesis by (simp add: Let_def gslice_def ac_simps)
  next
    case True
    then have "length path - i * 3 < 2" by arith
    with True show ?thesis by (simp add: Let_def)
  qed
qed simp

lemma length_hop_prefixes: "even (length (hop_prefixes n path))" "length (hop_prefixes n path) \<le> 2 * n"
  by (induction n path rule: hop_prefixes.induct) auto

lemma TracePathFromOutPath_returns [panic_free]: "\<exists>r. TracePathFromOutPath e raw = Some r"
  by (auto simp: TracePathFromOutPath_def Let_def PathBytes_Some down_convert_eq)

lemma HashSizeFromPathMeta_cases: "HashSizeFromPathMeta e \<in> {1, 2, 3, 4}"
  using HashSizeFromPathMeta_range [of e] by auto

text \<open>A trace path and its flags always agree, and the path is not empty.\<close>

lemma TracePathFromOutPath_Inr:
  assumes "TracePathFromOutPath e raw = Some (Inr (path, sz, flags))"
  shows "path \<noteq> [] \<and> HashSizeFromTraceFlags flags = sz
    \<and> TraceFlagsFromPathMeta e = Inr flags
    \<and> (HashSizeFromPathMeta e \<noteq> 3 \<longrightarrow> PathBytes e raw = Some path)
    \<and> (HashSizeFromPathMeta e = 3 \<longrightarrow> sz = 2 \<and>
        path = hop_prefixes (nat (HopCountFromPathMeta e)) (the (PathBytes e raw)))"
  using assms HashSizeFromPathMeta_cases [of e]
  by (auto simp: TracePathFromOutPath_def Let_def PathBytes_Some down_convert_eq
      TraceFlagsFromPathMeta_def TraceFlagsFromHashSize_def HashSizeFromTraceFlags_def
      split: if_splits)

section \<open>Splitting, printing and parsing\<close>

lemma split_hops_concat:
  assumes "\<forall>h \<in> set hops. length h = n" and "0 < n"
  shows "split_hops (pre @ concat hops) n (length pre) = Some hops"
  using assms
proof (induction hops arbitrary: pre)
  case Nil
  then show ?case by (simp add: split_hops.simps)
next
  case (Cons h hops)
  have "split_hops ((pre @ h) @ concat hops) n (length (pre @ h)) = Some hops"
    using Cons by (intro Cons.IH) auto
  with Cons.prems show ?case
    by (simp add: split_hops.simps [of _ _ "length pre"] gslice_def)
qed

lemma Split_path_concat:
  assumes "\<forall>h \<in> set hops. int (length h) = n" and "0 < n"
  shows "Split_path (concat hops) n = Some hops"
proof -
  have len: "length (concat hops) = nat n * length hops"
    using assms by (induction hops) auto
  have "split_hops (concat hops) (nat n) 0 = Some hops"
    using split_hops_concat [of hops "nat n" "[]"] assms by force
  with assms len show ?thesis
    by (auto simp: Split_path_def)
qed

lemma split_hops_returns:
  assumes "0 < n" and "n dvd length path - i" and "i \<le> length path"
  shows "\<exists>hops. split_hops path n i = Some hops \<and> concat hops = drop i path
    \<and> (\<forall>h \<in> set hops. length h = n)"
  using assms
proof (induction path n i rule: split_hops.induct)
  case (1 path n i)
  show ?case
  proof (cases "i < length path")
    case True
    with "1.prems" have le: "i + n \<le> length path"
      by (metis dvd_imp_le le_diff_conv2 add.commute zero_less_diff)
    have "n dvd length path - (i + n)"
      using "1.prems"(2) by (metis diff_diff_left dvd_diff_nat dvd_refl)
    with "1.IH" [of "take n (drop i path)"] True le "1.prems"(1) obtain hops where
      h: "split_hops path n (i + n) = Some hops" "concat hops = drop (i + n) path"
         "\<forall>h \<in> set hops. length h = n"
      by (auto simp: gslice_def)
    have "split_hops path n i = Some (take n (drop i path) # hops)"
      using True le "1.prems"(1) h(1) by (simp add: split_hops.simps [of path n i] gslice_def)
    moreover have "take n (drop i path) @ drop (i + n) path = drop i path"
      by (metis append_take_drop_id drop_drop add.commute)
    ultimately show ?thesis using h le by auto
  next
    case False
    then have "split_hops path n i = Some []" by (simp add: split_hops.simps [of path n i])
    with False show ?thesis by simp
  qed
qed

lemma from_hex_digit_is_hex: "from_hex_digit c \<noteq> None \<longleftrightarrow> is_hex_char c"
  by (auto simp: from_hex_digit_def is_hex_char_def Let_def)

lemma hex_digit_no_sep: "n < 16 \<Longrightarrow> \<not> is_path_sep (hex_digit n)"
  by (auto simp: is_path_sep_def hex_digit_def char_of_eq_iff take_bit_eq_mod)

lemma FormatHop_no_sep: "list_all (\<lambda>c. \<not> is_path_sep c) (FormatHop hop)"
proof (induction hop)
  case (Cons x hop)
  have "unat x div 16 < 16" using unat_byte_less [of x] by linarith
  with Cons show ?case by (simp add: FormatHop_def hex_digit_no_sep)
qed (simp add: FormatHop_def)

lemma parse_hops_FormatHop:
  "\<forall>h \<in> set hops. int (length h) = n \<Longrightarrow> parse_hops n (map FormatHop hops) = Inr (concat hops)"
  by (induction hops) (auto simp: FormatHop_def)

lemma ParsePath_Join:
  assumes "hops \<noteq> []" and "\<forall>h \<in> set hops. int (length h) = n" and "n \<in> {1, 2, 4, 8}"
    and "length (concat hops) \<le> MaxPathSize" and "is_path_sep sep"
  shows "ParsePath (Join [sep] (map FormatHop hops)) = Inr (concat hops, n)"
proof -
  have "FieldsFunc is_path_sep (Join [sep] (map FormatHop hops)) = map FormatHop hops"
    using assms(2,3,5) FormatHop_no_sep by (intro FieldsFunc_Join) (auto simp: FormatHop_def)
  moreover obtain h hs where h: "hops = h # hs" using assms(1) by (cases hops) auto
  moreover have "length (FormatHop h) = nat (2 * n)"
    using assms(2) by (auto simp: h FormatHop_def)
  moreover from assms(3) obtain f where "TraceFlagsFromHashSize n = Inr f"
    using TraceFlagsFromHashSize_ok_iff by metis
  ultimately show ?thesis
    using assms parse_hops_FormatHop [OF assms(2)]
    by (auto simp: ParsePath_def Let_def)
qed

lemma parse_hops_Inr:
  "parse_hops n fs = Inr path \<Longrightarrow> int (length path) = n * int (length fs)"
  by (induction fs arbitrary: path)
    (auto simp: algebra_simps dest!: hex_decode_length split: if_splits sum.splits)

text \<open>What a successful parse guarantees.\<close>

lemma ParsePath_Inr:
  assumes "ParsePath s = Inr (path, n)"
  shows "n \<in> {1, 2, 4, 8} \<and> path \<noteq> [] \<and> length path \<le> MaxPathSize \<and> n dvd int (length path)"
proof -
  from assms obtain f fs fl where f: "FieldsFunc is_path_sep s = f # fs"
    and fl: "TraceFlagsFromHashSize n = Inr fl" and n: "n = int (length f) div 2"
    and p: "parse_hops n (f # fs) = Inr path" and l: "length path \<le> MaxPathSize"
    by (auto simp: ParsePath_def Let_def split: list.splits sum.splits if_splits)
  have "n \<in> {1, 2, 4, 8}" using fl by (auto dest: TraceFlagsFromHashSize_Inr)
  moreover from p have len: "int (length path) = n * int (length (f # fs))" by (rule parse_hops_Inr)
  ultimately have "path \<noteq> []" by auto
  with \<open>n \<in> _\<close> len l show ?thesis by auto
qed

text \<open>Splitting a parsed path and printing its hops gives an equivalent path text.\<close>

lemma Split_path_of_multiple:
  assumes "0 < n" and "n dvd int (length path)"
  shows "\<exists>hops. Split_path path n = Some hops \<and> concat hops = path \<and> (\<forall>h \<in> set hops. int (length h) = n)"
proof (cases "path = []")
  case False
  have "nat n dvd length path - 0" using assms by (metis diff_zero int_nat_eq of_nat_dvd_iff order_less_imp_le)
  with split_hops_returns [of "nat n" path 0] assms obtain hops where
    "split_hops path (nat n) 0 = Some hops" "concat hops = path" "\<forall>h \<in> set hops. length h = nat n"
    by auto
  with False assms show ?thesis by (auto simp: Split_path_def)
qed (use assms in \<open>simp add: Split_path_def\<close>)

section \<open>Properties\<close>

text \<open>The two encodings of the hash width agree. The flags computed for a width decode to that
  width, the width of any flags byte is supported and encodes to the low bits of the byte, and a
  width is supported exactly when it is 1, 2, 4 or 8.\<close>

theorem trace_flags_roundtrip:
  "TraceFlagsFromHashSize (HashSizeFromTraceFlags flags) = Inr (flags AND 3) \<and>
   (\<forall>f. TraceFlagsFromHashSize sz = Inr f \<longrightarrow> HashSizeFromTraceFlags f = sz) \<and>
   ((\<exists>f. TraceFlagsFromHashSize sz = Inr f) \<longleftrightarrow> sz \<in> {1, 2, 4, 8})"
  using TraceFlags_of_HashSize TraceFlagsFromHashSize_Inr TraceFlagsFromHashSize_ok_iff by blast

theorem trace_flags_roundtrip_witness:
  "TraceFlagsFromHashSize 4 = Inr 2 \<and> HashSizeFromTraceFlags 2 = 4"
  using trace_flags_roundtrip [of 2 4] by (simp add: TraceFlagsFromHashSize_def)

text \<open>Parsing, splitting and printing a path are inverse. The printed form of a non-empty list
  of hops of one supported width, at most \<open>MaxPathSize\<close> bytes in all, separated by commas or
  spaces, is parsed to the concatenation of the hops and their width, and splitting that at the
  width gives the hops back.\<close>

theorem path_text_roundtrip:
  assumes "hops \<noteq> []" and "\<forall>h \<in> set hops. int (length h) = n" and "n \<in> {1, 2, 4, 8}"
    and "length (concat hops) \<le> MaxPathSize" and "is_path_sep sep"
  shows "ParsePath (Join [sep] (map FormatHop hops)) = Inr (concat hops, n) \<and>
    Split_path (concat hops) n = Some hops"
  using ParsePath_Join [OF assms] Split_path_concat [OF assms(2)] assms(3) by auto

theorem path_text_roundtrip_witness:
  "ParsePath (Join '','' (map FormatHop [[0xa1, 0xb2], [0xc3, 0xd4]])) = Inr (concat [[0xa1, 0xb2], [0xc3, 0xd4]], 2) \<and>
    Split_path (concat [[0xa1, 0xb2], [0xc3, 0xd4]]) 2 = Some [[0xa1, 0xb2], [0xc3, 0xd4]]"
  by (rule path_text_roundtrip) (simp_all add: MaxPathSize_def is_path_sep_def)

text \<open>Every parsed path is well formed: its width is supported, it is not empty, it fits the
  path limit, and splitting it at its width succeeds and loses nothing.\<close>

theorem parsed_path_well_formed:
  assumes "ParsePath s = Inr (path, n)"
  shows "n \<in> {1, 2, 4, 8} \<and> path \<noteq> [] \<and> length path \<le> MaxPathSize \<and>
    (\<exists>hops. Split_path path n = Some hops \<and> concat hops = path \<and> (\<forall>h \<in> set hops. int (length h) = n))"
proof -
  from ParsePath_Inr [OF assms] have p: "n \<in> {1, 2, 4, 8}" "path \<noteq> []" "length path \<le> MaxPathSize"
      "n dvd int (length path)" by auto
  with Split_path_of_multiple [of n path] show ?thesis by auto
qed

theorem parsed_path_well_formed_witness:
  "length [0x25 :: byte] \<le> MaxPathSize \<and>
    (\<exists>hops. Split_path [0x25] 1 = Some hops \<and> concat hops = [0x25] \<and> list_all (\<lambda>h. int (length h) = 1) hops)"
proof -
  have "FormatHop [0x25] = ''25''" by code_simp
  then have "ParsePath ''25'' = Inr ([0x25], 1)"
    using ParsePath_Join [of "[[0x25]]" 1 "CHR '',''"] by (simp add: MaxPathSize_def is_path_sep_def)
  from parsed_path_well_formed [OF this] show ?thesis by (auto simp: list_all_iff)
qed

text \<open>Converting a stored out-path to a trace path never panics, and a converted path agrees
  with its flags. The result is not empty and the width equals the one its flags announce; widths
  1, 2 and 4 keep the stored bytes, and width 3 keeps the first two bytes of every hop.\<close>

theorem out_path_conversion:
  "\<exists>r. TracePathFromOutPath e raw = Some r \<and>
    (\<forall>path sz flags. r = Inr (path, sz, flags) \<longrightarrow>
       path \<noteq> [] \<and> HashSizeFromTraceFlags flags = sz \<and> TraceFlagsFromPathMeta e = Inr flags \<and>
       (HashSizeFromPathMeta e \<noteq> 3 \<longrightarrow> PathBytes e raw = Some path) \<and>
       (HashSizeFromPathMeta e = 3 \<longrightarrow> sz = 2 \<and>
          path = hop_prefixes (nat (HopCountFromPathMeta e)) (the (PathBytes e raw))))"
  using TracePathFromOutPath_returns [of e raw] TracePathFromOutPath_Inr [of e raw] by blast

theorem out_path_conversion_witness:
  "\<exists>r. TracePathFromOutPath 0x82 [1, 2, 3, 4, 5, 6, 7] = Some r \<and>
    (\<forall>path sz flags. r = Inr (path, sz, flags) \<longrightarrow> sz = 2 \<and>
       path = hop_prefixes 2 (the (PathBytes 0x82 [1, 2, 3, 4, 5, 6, 7])))"
proof -
  have "HashSizeFromPathMeta 0x82 = 3" "HopCountFromPathMeta 0x82 = 2"
    by (simp_all add: HashSizeFromPathMeta_def HopCountFromPathMeta_def)
  with out_path_conversion [of "0x82" "[1, 2, 3, 4, 5, 6, 7]"] show ?thesis by simp blast
qed

end
