(* ===== verification/Companion_Decode.thy ===== *)
theory Companion_Decode
  imports Companion_Types Pathhash
begin

text \<open>
  Decoding of companion packets: \<open>protocol/companion/decode.go\<close> and the parts of
  \<open>protocol/companion/stats.go\<close> it calls. Every index and slice expression of the source is an
  \<open>option\<close>-valued operation whose \<open>None\<close> is a run-time panic, so that the guards of the decoders
  are part of the model; the lemmas show that they are sufficient for every input. A packet with an
  unknown or short body degrades to a \<open>RawMessage\<close>.
\<close>

section \<open>Helpers\<close>

fun indexByte_from :: "bytes \<Rightarrow> byte \<Rightarrow> nat \<Rightarrow> int" where
  "indexByte_from [] c i = - 1"
| "indexByte_from (x # b) c i = (if x = c then int i else indexByte_from b c (Suc i))"

definition indexByte :: "bytes \<Rightarrow> byte \<Rightarrow> int" where
  "indexByte b c = indexByte_from b c 0"

definition trim_right_nul :: "string \<Rightarrow> string" where
  "trim_right_nul s = rev (dropWhile (\<lambda>c. c = CHR 0x00) (rev s))"

definition trimString :: "bytes \<Rightarrow> string option" where
  "trimString b = do {
     b' \<leftarrow> (let i = indexByte b 0 in if 0 \<le> i then gslice b 0 (nat i) else Some b);
     Some (trim_right_nul (string_of_bytes b'))
   }"

definition splitStrings :: "bytes \<Rightarrow> string list" where
  "splitStrings b =
     (let raw = FieldsFunc (\<lambda>r. r = CHR 0x00 \<or> r = CHR 0x0A \<or> r = CHR 0x0D) (string_of_bytes b)
      in filter (\<lambda>s. s \<noteq> []) (map TrimSpace raw))"

text \<open>The loop of \<open>printableTokens\<close>: the bytes left, the current run and the tokens so far.\<close>

definition flush_token :: "bytes \<Rightarrow> string list \<Rightarrow> string list" where
  "flush_token cur out =
     (let t = TrimSpace (string_of_bytes cur) in if 2 \<le> length t then out @ [t] else out)"

fun printable_loop :: "bytes \<Rightarrow> bytes \<Rightarrow> string list \<Rightarrow> string list" where
  "printable_loop [] cur out = flush_token cur out"
| "printable_loop (c # b) cur out =
     (if 0x20 \<le> c \<and> c < 0x7f then printable_loop b (cur @ [c]) out
      else printable_loop b [] (flush_token cur out))"

definition printableTokens :: "bytes \<Rightarrow> string list" where
  "printableTokens b = printable_loop b [] []"

definition isDigit :: "char \<Rightarrow> bool" where
  "isDigit c = (let n = of_char c :: nat in 48 \<le> n \<and> n \<le> 57)"

definition isLetterRune :: "char \<Rightarrow> bool" where
  "isLetterRune r = (let n = of_char r :: nat in (97 \<le> n \<and> n \<le> 122) \<or> (65 \<le> n \<and> n \<le> 90))"

definition looksLikeVersion :: "string \<Rightarrow> bool option" where
  "looksLikeVersion tok = do {
     v \<leftarrow> (if 2 \<le> length tok then do {
             c0 \<leftarrow> idx tok 0;
             if c0 = CHR ''v'' \<or> c0 = CHR ''V'' then do { c1 \<leftarrow> idx tok 1; Some (isDigit c1) }
             else Some False
           } else Some False);
     if v then Some True
     else do { c0 \<leftarrow> idx tok 0; Some (isDigit c0 \<and> Contains tok ''.'') }
   }"

definition looksLikeDate :: "string \<Rightarrow> bool" where
  "looksLikeDate tok = (Contains tok ''-'' \<and> list_ex isLetterRune tok)"

text \<open>The closures \<open>get\<close> and \<open>u32\<close> of \<open>decodeSelfInfo\<close> and \<open>decodeContact\<close>.\<close>

definition get_at :: "bytes \<Rightarrow> nat \<Rightarrow> byte option" where
  "get_at b i = (if i < length b then idx b i else Some 0)"

definition u32_at :: "bytes \<Rightarrow> nat \<Rightarrow> uint32 option" where
  "u32_at b i = (if i + 4 \<le> length b then do { s \<leftarrow> gslice b i (i + 4); le_u32 s } else Some 0)"

definition u32_slice :: "bytes \<Rightarrow> nat \<Rightarrow> nat \<Rightarrow> uint32 option" where
  "u32_slice b i j = do { s \<leftarrow> gslice b i j; le_u32 s }"

definition u16_slice :: "bytes \<Rightarrow> nat \<Rightarrow> nat \<Rightarrow> uint16 option" where
  "u16_slice b i j = do { s \<leftarrow> gslice b i j; le_u16 s }"

section \<open>Statistics\<close>

definition RepeaterStatsSize :: nat where
  "RepeaterStatsSize = 56"

definition ParseRepeaterStats :: "bytes \<Rightarrow> repeater_stats option option" where
  "ParseRepeaterStats b =
     (if length b < RepeaterStatsSize then Some None
      else do {
        batt \<leftarrow> u16_slice b 0 2; queue \<leftarrow> u16_slice b 2 4;
        noise \<leftarrow> u16_slice b 4 6; rssi \<leftarrow> u16_slice b 6 8;
        recv \<leftarrow> u32_slice b 8 12; sent \<leftarrow> u32_slice b 12 16;
        air \<leftarrow> u32_slice b 16 20; up \<leftarrow> u32_slice b 20 24;
        sentFlood \<leftarrow> u32_slice b 24 28; sentDirect \<leftarrow> u32_slice b 28 32;
        recvFlood \<leftarrow> u32_slice b 32 36; recvDirect \<leftarrow> u32_slice b 36 40;
        errs \<leftarrow> u16_slice b 40 42; snr \<leftarrow> u16_slice b 42 44;
        ddups \<leftarrow> u16_slice b 44 46; fdups \<leftarrow> u16_slice b 46 48;
        rxair \<leftarrow> u32_slice b 48 52; recvErrs \<leftarrow> u32_slice b 52 56;
        Some (Some \<lparr>rs_BattMilliVolts = batt, rs_CurrTxQueueLen = queue, rs_NoiseFloor = int16 noise,
          rs_LastRSSI = int16 rssi, rs_NPacketsRecv = recv, rs_NPacketsSent = sent,
          rs_TotalAirTimeSecs = air, rs_TotalUpTimeSecs = up, rs_NSentFlood = sentFlood,
          rs_NSentDirect = sentDirect, rs_NRecvFlood = recvFlood, rs_NRecvDirect = recvDirect,
          rs_ErrEvents = errs, rs_LastSNR = int16 snr, rs_NDirectDups = ddups, rs_NFloodDups = fdups,
          rs_TotalRxAirTimeSecs = rxair, rs_NRecvErrors = recvErrs\<rparr>)
      })"

definition decodeStatusData :: "bytes \<Rightarrow> (repeater_stats option \<times> string) option" where
  "decodeStatusData b = do {
     r \<leftarrow> ParseRepeaterStats b;
     case r of
       Some stats \<Rightarrow> Some (Some stats, [])
     | None \<Rightarrow> do { t \<leftarrow> trimString b; Some (None, t) }
   }"

definition decodeStatsResponse :: "bytes \<Rightarrow> stats_response option" where
  "decodeStatsResponse b =
     (if length b = 0 then Some \<lparr>s_Type = 0, s_Core = None, s_Radio = None, s_Packets = None\<rparr>
      else do {
        typ \<leftarrow> idx b 0;
        body \<leftarrow> gslice b 1 (length b);
        let s = \<lparr>s_Type = typ, s_Core = None, s_Radio = None, s_Packets = None\<rparr>;
        if typ = StatsTypeCore then
          (if length body < 9 then Some s
           else do {
             batt \<leftarrow> u16_slice body 0 2; up \<leftarrow> u32_slice body 2 6;
             errs \<leftarrow> u16_slice body 6 8; q \<leftarrow> idx body 8;
             Some (s\<lparr>s_Core := Some \<lparr>sco_BatteryMV = batt, sco_UptimeSecs = up,
               sco_ErrorFlags = errs, sco_QueueLen = q\<rparr>\<rparr>)
           })
        else if typ = StatsTypeRadio then
          (if length body < 12 then Some s
           else do {
             noise \<leftarrow> u16_slice body 0 2; rssi \<leftarrow> idx body 2; snr \<leftarrow> idx body 3;
             tx \<leftarrow> u32_slice body 4 8; rx \<leftarrow> u32_slice body 8 12;
             Some (s\<lparr>s_Radio := Some \<lparr>sr_NoiseFloor = int16 noise, sr_LastRSSI = int8 rssi,
               sr_LastSNR = quarter (int8 snr), sr_TxAirSecs = tx, sr_RxAirSecs = rx\<rparr>\<rparr>)
           })
        else if typ = StatsTypePackets then
          (if length body < 28 then Some s
           else do {
             recv \<leftarrow> u32_slice body 0 4; sent \<leftarrow> u32_slice body 4 8;
             ftx \<leftarrow> u32_slice body 8 12; dtx \<leftarrow> u32_slice body 12 16;
             frx \<leftarrow> u32_slice body 16 20; drx \<leftarrow> u32_slice body 20 24;
             errs \<leftarrow> u32_slice body 24 28;
             Some (s\<lparr>s_Packets := Some \<lparr>sp_Received = recv, sp_Sent = sent, sp_FloodTx = ftx,
               sp_DirectTx = dtx, sp_FloodRx = frx, sp_DirectRx = drx, sp_RecvErrors = errs\<rparr>\<rparr>)
           })
        else Some s
      })"

section \<open>Identity and device information\<close>

definition decodeSelfInfo :: "bytes \<Rightarrow> self_info option" where
  "decodeSelfInfo b = do {
     advType \<leftarrow> get_at b 0;
     txPower \<leftarrow> get_at b 1;
     maxTxPower \<leftarrow> get_at b 2;
     publicKey \<leftarrow> (if 35 \<le> length b then do { k \<leftarrow> gslice b 3 35; Some (hex_EncodeToString k) }
                   else Some []);
     lat \<leftarrow> u32_at b 35;
     lon \<leftarrow> u32_at b 39;
     freq \<leftarrow> u32_at b 47;
     bw \<leftarrow> u32_at b 51;
     sf \<leftarrow> get_at b 55;
     cr \<leftarrow> get_at b 56;
     name \<leftarrow> (if 57 < length b then do { n \<leftarrow> gslice b 57 (length b); trimString n } else Some []);
     Some \<lparr>si_AdvType = advType, si_TxPower = txPower, si_MaxTxPower = maxTxPower,
       si_PublicKey = publicKey, si_AdvLat = micro_degrees lat, si_AdvLon = micro_degrees lon,
       si_RadioFreq = freq, si_RadioBW = bw, si_RadioSF = sf, si_RadioCR = cr, si_Name = name\<rparr>
   }"

text \<open>The loop of \<open>decodeDeviceInfo\<close> over the tokens.\<close>

fun device_info_tokens :: "string list \<Rightarrow> device_info \<Rightarrow> device_info option" where
  "device_info_tokens [] d = Some d"
| "device_info_tokens (tok # toks) d = do {
     v \<leftarrow> looksLikeVersion tok;
     device_info_tokens toks
       (if v then (if di_Version d = [] then d\<lparr>di_Version := tok\<rparr> else d)
        else if looksLikeDate tok then (if di_BuildDate d = [] then d\<lparr>di_BuildDate := tok\<rparr> else d)
        else (if di_Model d = [] then d\<lparr>di_Model := tok\<rparr> else d))
   }"

definition decodeDeviceInfo :: "bytes \<Rightarrow> device_info option" where
  "decodeDeviceInfo b = do {
     code \<leftarrow> (if 0 < length b then idx b 0 else Some 0);
     device_info_tokens (printableTokens b)
       \<lparr>di_FirmwareCode = code, di_Model = [], di_BuildDate = [], di_Version = []\<rparr>
   }"

section \<open>Contacts, adverts and channels\<close>

definition empty_advert :: advert where
  "empty_advert = \<lparr>a_PublicKey = [], a_Name = [], a_Type = 0, a_HasPath = False, a_OutPathEnc = 0,
     a_OutPath = [], a_Latitude = 0, a_Longitude = 0, a_LastAdvert = zero_time, a_LastMod = 0\<rparr>"

definition decodeAdvert :: "bytes \<Rightarrow> advert option" where
  "decodeAdvert b =
     (if 32 \<le> length b then do {
        k \<leftarrow> gslice b 0 32;
        rest \<leftarrow> gslice b 32 (length b);
        name \<leftarrow> trimString rest;
        Some (empty_advert\<lparr>a_PublicKey := hex_EncodeToString k, a_Name := name\<rparr>)
      } else do {
        name \<leftarrow> trimString b;
        Some (empty_advert\<lparr>a_Name := name\<rparr>)
      })"

definition advertFromContact :: "contact_frame \<Rightarrow> advert" where
  "advertFromContact c =
     (let lastMod = (if \<not> IsZero (c_LastMod c) then word_of_int (t_unix (c_LastMod c)) else 0)
      in \<lparr>a_PublicKey = c_PublicKey c, a_Name = c_Name c, a_Type = c_Type c, a_HasPath = c_HasPath c,
          a_OutPathEnc = c_OutPathEnc c, a_OutPath = c_OutPath c, a_Latitude = c_Latitude c,
          a_Longitude = c_Longitude c, a_LastAdvert = c_LastAdvert c, a_LastMod = lastMod\<rparr>)"

definition decodeSendConfirmed :: "bytes \<Rightarrow> send_confirmed option" where
  "decodeSendConfirmed b = do {
     code \<leftarrow> (if 4 \<le> length b then u32_slice b 0 4 else Some 0);
     rtt \<leftarrow> (if 8 \<le> length b then do { ms \<leftarrow> u32_slice b 4 8; Some (uint ms * millisecond) } else Some 0);
     Some \<lparr>scf_Code = code, scf_RoundTrip = rtt\<rparr>
   }"

definition unix_or_zero :: "uint32 \<Rightarrow> go_time" where
  "unix_or_zero t = (if t \<noteq> 0 then time_Unix (uint t) else zero_time)"

definition decodeContact :: "bytes \<Rightarrow> contact_frame option" where
  "decodeContact b = do {
     publicKey \<leftarrow> (if 32 \<le> length b then do { k \<leftarrow> gslice b 0 32; Some (hex_EncodeToString k) }
                   else Some []);
     typ \<leftarrow> (if 32 < length b then idx b 32 else Some 0);
     flags \<leftarrow> (if 33 < length b then idx b 33 else Some 0);
     (enc, hasPath) \<leftarrow> (if 34 < length b then do { e \<leftarrow> idx b 34; Some (e, e \<noteq> 0xff) }
                        else Some (0, False));
     outPath \<leftarrow> (if 99 \<le> length b then gslice b 35 99 else Some []);
     name \<leftarrow> (if 131 \<le> length b then do { n \<leftarrow> gslice b 99 131; trimString n } else Some []);
     lastAdvert \<leftarrow> u32_at b 131;
     lat \<leftarrow> u32_at b 135;
     lon \<leftarrow> u32_at b 139;
     lastMod \<leftarrow> u32_at b 143;
     Some \<lparr>c_PublicKey = publicKey, c_Type = typ, c_Flags = flags, c_HasPath = hasPath,
       c_OutPathEnc = enc, c_OutPath = outPath, c_Name = name,
       c_LastAdvert = unix_or_zero lastAdvert, c_Latitude = micro_degrees lat,
       c_Longitude = micro_degrees lon, c_LastMod = unix_or_zero lastMod\<rparr>
   }"

definition decodeChannelInfo :: "bytes \<Rightarrow> channel_info option" where
  "decodeChannelInfo b = do {
     index \<leftarrow> (if 0 < length b then idx b 0 else Some 0);
     name \<leftarrow> (if 33 \<le> length b then do { n \<leftarrow> gslice b 1 33; trimString n } else Some []);
     secret \<leftarrow> (if 49 \<le> length b then gslice b 33 49 else Some []);
     Some \<lparr>ci_Index = index, ci_Name = name, ci_Secret = secret\<rparr>
   }"

section \<open>Messages\<close>

definition decodeSent :: "bytes \<Rightarrow> sent option" where
  "decodeSent b = do {
     result \<leftarrow> (if 0 < length b then idx b 0 else Some 0);
     ack \<leftarrow> (if 5 \<le> length b then u32_slice b 1 5 else Some 0);
     timeout \<leftarrow> (if 9 \<le> length b then do { ms \<leftarrow> u32_slice b 5 9; Some (uint ms * millisecond) }
                 else Some 0);
     Some \<lparr>sn_Result = result, sn_ExpectedAck = ack, sn_SuggestedTimeout = timeout\<rparr>
   }"

definition decodeContactMessage :: "bytes \<Rightarrow> bool \<Rightarrow> contact_message option" where
  "decodeContactMessage b v3 = do {
     snr \<leftarrow> (if v3 \<and> 0 < length b then do { x \<leftarrow> idx b 0; Some (quarter (int8 x)) } else Some 0);
     let off = (if v3 then 3 else 0);
     prefix \<leftarrow> (if off + 6 \<le> length b then do { k \<leftarrow> gslice b off (off + 6); Some (hex_EncodeToString k) }
                else Some []);
     pathLen \<leftarrow> (if off + 6 < length b then idx b (off + 6) else Some 0);
     txtType \<leftarrow> (if off + 7 < length b then idx b (off + 7) else Some 0);
     ts \<leftarrow> (if off + 12 \<le> length b then do { u \<leftarrow> u32_slice b (off + 8) (off + 12); Some (time_Unix (uint u)) }
            else Some zero_time);
     let textOff = (if txtType = 2 \<and> off + 12 + 4 \<le> length b then off + 12 + 4 else off + 12);
     text \<leftarrow> (if textOff < length b then do { t \<leftarrow> gslice b textOff (length b); trimString t } else Some []);
     Some \<lparr>cm_SenderPrefix = prefix, cm_PathLen = pathLen, cm_TxtType = txtType,
       cm_Timestamp = ts, cm_SNR = snr, cm_Text = text\<rparr>
   }"

definition decodeChannelMessage :: "bytes \<Rightarrow> bool \<Rightarrow> channel_message option" where
  "decodeChannelMessage b v3 = do {
     snr \<leftarrow> (if v3 \<and> 0 < length b then do { x \<leftarrow> idx b 0; Some (quarter (int8 x)) } else Some 0);
     let off = (if v3 then 3 else 0);
     channel \<leftarrow> (if off < length b then idx b off else Some 0);
     pathLen \<leftarrow> (if off + 1 < length b then idx b (off + 1) else Some 0);
     txtType \<leftarrow> (if off + 2 < length b then idx b (off + 2) else Some 0);
     ts \<leftarrow> (if off + 7 \<le> length b then do { u \<leftarrow> u32_slice b (off + 3) (off + 7); Some (time_Unix (uint u)) }
            else Some zero_time);
     text \<leftarrow> (if off + 7 < length b then do { t \<leftarrow> gslice b (off + 7) (length b); trimString t } else Some []);
     Some \<lparr>chm_Channel = channel, chm_PathLen = pathLen, chm_TxtType = txtType,
       chm_Timestamp = ts, chm_SNR = snr, chm_Text = text\<rparr>
   }"

section \<open>Pushes\<close>

definition decodeTraceData :: "bytes \<Rightarrow> trace_data option" where
  "decodeTraceData b =
     (if length b < 11 then Some \<lparr>td_Tag = 0, td_Auth = 0, td_Flags = 0, td_Path = [], td_SNRs = []\<rparr>
      else do {
        pbl \<leftarrow> idx b 1;
        let pathByteLen = unat pbl;
        flags \<leftarrow> idx b 2;
        tag \<leftarrow> u32_slice b 3 7;
        auth \<leftarrow> u32_slice b 7 11;
        let pathEnd = (if length b < 11 + pathByteLen then length b else 11 + pathByteLen);
        path \<leftarrow> gslice b 11 pathEnd;
        let pathSZ = unat (flags AND 0x03);
        let snrEnd = (if length b < pathEnd + drop_bit pathSZ pathByteLen then length b
                      else pathEnd + drop_bit pathSZ pathByteLen);
        snrs \<leftarrow> gslice b pathEnd snrEnd;
        last \<leftarrow> (if snrEnd < length b then do { s \<leftarrow> idx b snrEnd; Some [s] } else Some []);
        Some \<lparr>td_Tag = tag, td_Auth = auth, td_Flags = flags, td_Path = path,
          td_SNRs = map (\<lambda>s. quarter (int8 s)) (snrs @ last)\<rparr>
      })"

definition decodeLoginSuccess :: "bytes \<Rightarrow> login_success option" where
  "decodeLoginSuccess b = do {
     perms \<leftarrow> (if 0 < length b then idx b 0 else Some 0);
     prefix \<leftarrow> (if 7 \<le> length b then gslice b 1 7 else Some []);
     tag \<leftarrow> (if 11 \<le> length b then do { u \<leftarrow> u32_slice b 7 11; Some (int32 u) } else Some 0);
     newPerms \<leftarrow> (if 12 \<le> length b then idx b 11 else Some 0);
     Some \<lparr>ls_Permissions = perms, ls_PublicKeyPrefix = prefix, ls_Tag = tag, ls_NewPermissions = newPerms\<rparr>
   }"

definition decodeLoginFail :: "bytes \<Rightarrow> login_fail option" where
  "decodeLoginFail b = do {
     prefix \<leftarrow> (if 7 \<le> length b then gslice b 1 7 else Some []);
     Some \<lparr>lf_PublicKeyPrefix = prefix\<rparr>
   }"

definition decodeStatusResponse :: "bytes \<Rightarrow> status_response option" where
  "decodeStatusResponse b = do {
     prefix \<leftarrow> (if 7 \<le> length b then gslice b 1 7 else Some []);
     (stats, text) \<leftarrow> (if 7 < length b then do { d \<leftarrow> gslice b 7 (length b); decodeStatusData d }
                       else Some (None, []));
     Some \<lparr>sre_PublicKeyPrefix = prefix, sre_Stats = stats, sre_Text = text\<rparr>
   }"

definition decodeNodeDiscoverResp :: "bytes \<Rightarrow> f64 \<Rightarrow> int \<Rightarrow> byte \<Rightarrow> node_discover_resp option" where
  "decodeNodeDiscoverResp payload snr rssi pathLen = do {
     p0 \<leftarrow> idx payload 0;
     snrUp \<leftarrow> (if 2 \<le> length payload then do { x \<leftarrow> idx payload 1; Some (quarter (int8 x)) } else Some 0);
     tag \<leftarrow> (if 6 \<le> length payload then u32_slice payload 2 6 else Some 0);
     publicKey \<leftarrow> (if 6 < length payload then do {
         key \<leftarrow> gslice payload 6 (length payload);
         key' \<leftarrow> (if 32 \<le> length key then gslice key 0 32
                  else if 8 \<le> length key then gslice key 0 8
                  else Some key);
         Some (hex_EncodeToString key')
       } else Some []);
     Some \<lparr>nd_Tag = tag, nd_NodeType = p0 AND 0x0F, nd_PublicKey = publicKey, nd_SNRUp = snrUp,
       nd_SNRDown = snr, nd_RSSI = rssi, nd_PathLen = pathLen\<rparr>
   }"

definition decodeControlData :: "bytes \<Rightarrow> message option" where
  "decodeControlData b =
     (if length b < 4 then Some (RawMessage pushControlData b True)
      else do {
        b0 \<leftarrow> idx b 0;
        b1 \<leftarrow> idx b 1;
        let snr = quarter (int8 b0);
        let rssi = int8 b1;
        pathLen \<leftarrow> idx b 2;
        payload \<leftarrow> gslice b 3 (length b);
        p0 \<leftarrow> idx payload 0;
        if p0 AND 0xF0 = controlNodeDiscoverResp then
          do { r \<leftarrow> decodeNodeDiscoverResp payload snr rssi pathLen; Some (NodeDiscoverResp r) }
        else do {
          rest \<leftarrow> gslice payload 1 (length payload);
          Some (ControlData \<lparr>cd_SNR = snr, cd_RSSI = rssi, cd_PathLen = pathLen,
            cd_PayloadType = p0, cd_Payload = rest\<rparr>)
        }
      })"

section \<open>The packet decoder\<close>

definition decode :: "bytes \<Rightarrow> message option" where
  "decode packet =
     (if length packet = 0 then Some (RawMessage 0 [] False)
      else do {
        code \<leftarrow> idx packet 0;
        body \<leftarrow> gslice packet 1 (length packet);
        let raw = RawMessage code body (isPush code);
        if code = respOK then Some OK
        else if code = respErr then
          (if 0 < length body then do { e \<leftarrow> idx body 0; Some (Err e) } else Some (Err 0))
        else if code = respSelfInfo then map_option SelfInfo (decodeSelfInfo body)
        else if code = respDeviceInfo then map_option DeviceInfo (decodeDeviceInfo body)
        else if code = respCurrTime then
          (if length body < 4 then Some raw
           else do { secs \<leftarrow> le_u32 body; Some (CurrentTime (time_Unix (uint secs))) })
        else if code = respBatteryVoltage then
          (if length body < 2 then Some raw else map_option BatteryVoltage (le_u16 body))
        else if code = respStats then map_option StatsResponse (decodeStatsResponse body)
        else if code = respContactsStart then
          (if 4 \<le> length body then map_option ContactsStart (le_u32 body) else Some (ContactsStart 0))
        else if code = respContact then map_option ContactFrame (decodeContact body)
        else if code = respEndOfContacts then
          (if 4 \<le> length body then map_option EndOfContacts (le_u32 body) else Some (EndOfContacts 0))
        else if code = respChannelInfo then map_option ChannelInfo (decodeChannelInfo body)
        else if code = respNoMoreMessages then Some NoMoreMessages
        else if code = respSent then map_option Sent (decodeSent body)
        else if code = respContactMsgRecv \<or> code = respContactMsgRecvV3 then
          map_option ContactMessage (decodeContactMessage body (code = respContactMsgRecvV3))
        else if code = respChannelMsgRecv \<or> code = respChannelMsgRecvV3 then
          map_option ChannelMessage (decodeChannelMessage body (code = respChannelMsgRecvV3))
        else if code = pushAdvert then map_option Advert (decodeAdvert body)
        else if code = pushNewAdvert then
          map_option (\<lambda>c. Advert (advertFromContact c)) (decodeContact body)
        else if code = pushSendConfirmed then map_option SendConfirmed (decodeSendConfirmed body)
        else if code = pushMsgWaiting then Some MsgWaiting
        else if code = pushTraceData then map_option TraceData (decodeTraceData body)
        else if code = pushControlData then decodeControlData body
        else if code = pushLoginSuccess then map_option LoginSuccess (decodeLoginSuccess body)
        else if code = pushLoginFail then map_option LoginFail (decodeLoginFail body)
        else if code = pushStatusResp then map_option StatusResponse (decodeStatusResponse body)
        else Some raw
      })"

section \<open>No decoder panics\<close>

text \<open>The integers read at an offset, where the bytes are there.\<close>

definition rd16 :: "bytes \<Rightarrow> nat \<Rightarrow> uint16" where
  "rd16 b i = ucast (b ! i) OR push_bit 8 (ucast (b ! (i + 1)))"

definition rd32 :: "bytes \<Rightarrow> nat \<Rightarrow> uint32" where
  "rd32 b i = ucast (b ! i) OR push_bit 8 (ucast (b ! (i + 1))) OR push_bit 16 (ucast (b ! (i + 2)))
     OR push_bit 24 (ucast (b ! (i + 3)))"

lemma le_u16_rd [panic_free]: "2 \<le> length b \<Longrightarrow> le_u16 b = Some (rd16 b 0)"
  by (simp add: le_u16_def rd16_def)

lemma le_u32_rd [panic_free]: "4 \<le> length b \<Longrightarrow> le_u32 b = Some (rd32 b 0)"
  by (simp add: le_u32_def rd32_def numeral_eq_Suc)

lemma u16_slice_Some [panic_free]:
  "i + 2 \<le> j \<Longrightarrow> j \<le> length b \<Longrightarrow> u16_slice b i j = Some (rd16 b i)"
  by (simp add: u16_slice_def gslice_def le_u16_def rd16_def)

lemma u32_slice_Some [panic_free]:
  "i + 4 \<le> j \<Longrightarrow> j \<le> length b \<Longrightarrow> u32_slice b i j = Some (rd32 b i)"
  by (simp add: u32_slice_def gslice_def le_u32_def rd32_def)

lemma u32_at_Some [panic_free]: "u32_at b i = Some (if i + 4 \<le> length b then rd32 b i else 0)"
  using u32_slice_Some [of i "i + 4" b] by (simp add: u32_at_def u32_slice_def)

lemma get_at_Some [panic_free]: "get_at b i = Some (if i < length b then b ! i else 0)"
  by (simp add: get_at_def idx_def)

lemma rd32_append [simp]: "rd32 (b @ c) (length b + i) = rd32 c i"
  by (simp add: rd32_def nth_append add.assoc)

lemma rd32_put [codec, simp]: "rd32 (put_u32 v @ b) 0 = v"
  using le_u32_rd [of "put_u32 v @ b"] by simp

lemma indexByte_from_eq:
  "indexByte_from b c i =
     (if c \<in> set b then int (i + length (takeWhile (\<lambda>x. x \<noteq> c) b)) else - 1)"
  by (induction b c i rule: indexByte_from.induct) auto

lemma trim_right_nul_id: "CHR 0x00 \<notin> set s \<Longrightarrow> trim_right_nul s = s"
  by (cases s rule: rev_cases) (auto simp: trim_right_nul_def)

lemma char_of_unat_eq_nul [simp]: "char_of (unat (x :: byte)) = CHR 0x00 \<longleftrightarrow> x = 0"
proof -
  have "char_of (unat x) = CHR 0x00 \<longleftrightarrow> unat x mod 256 = 0"
    by (simp add: char_of_eq_iff take_bit_eq_mod)
  then show ?thesis using unat_byte_less [of x] by (simp add: unat_eq_zero)
qed

lemma nul_in_string [simp]: "CHR 0x00 \<in> set (string_of_bytes b) \<longleftrightarrow> 0 \<in> set b"
  by (induction b) (auto simp: eq_commute [of "CHR 0x00"])

text \<open>\<open>trimString\<close> returns the bytes before the first NUL; the trailing \<open>TrimRight\<close> never has
  anything left to trim.\<close>

lemma trimString_Some [panic_free]: "trimString b = Some (string_of_bytes (takeWhile (\<lambda>x. x \<noteq> 0) b))"
proof -
  have n: "0 \<notin> set (takeWhile (\<lambda>x. x \<noteq> (0 :: byte)) b)"
    by (auto dest: set_takeWhileD)
  show ?thesis
  proof (cases "0 \<in> set b")
    case True
    have "take (length (takeWhile (\<lambda>x. x \<noteq> 0) b)) b = takeWhile (\<lambda>x. x \<noteq> 0) b"
      by (rule takeWhile_eq_take [symmetric])
    with True n show ?thesis
      by (simp add: trimString_def indexByte_def indexByte_from_eq gslice_def length_takeWhile_le
          trim_right_nul_id)
  next
    case False
    then have "\<forall>x \<in> set b. x \<noteq> 0" by auto
    then have t: "takeWhile (\<lambda>x. x \<noteq> 0) b = b" by (rule takeWhile_eq_all_conv [THEN iffD2])
    from False show ?thesis
      by (simp add: trimString_def indexByte_def indexByte_from_eq trim_right_nul_id t)
  qed
qed

lemma looksLikeVersion_returns: "tok \<noteq> [] \<Longrightarrow> \<exists>v. looksLikeVersion tok = Some v"
  by (auto simp: looksLikeVersion_def idx_def Let_def)

lemma flush_token_long:
  "\<forall>t \<in> set out. 2 \<le> length t \<Longrightarrow> \<forall>t \<in> set (flush_token cur out). 2 \<le> length t"
  by (simp add: flush_token_def Let_def)

lemma printable_loop_long:
  "\<forall>t \<in> set out. 2 \<le> length t \<Longrightarrow> \<forall>t \<in> set (printable_loop b cur out). 2 \<le> length t"
proof (induction b cur out rule: printable_loop.induct)
  case (2 c b cur out)
  then show ?case using flush_token_long [of out cur] by simp
qed (simp add: flush_token_long)

lemma device_info_tokens_returns:
  "\<forall>t \<in> set toks. t \<noteq> [] \<Longrightarrow> \<exists>d'. device_info_tokens toks d = Some d'"
proof (induction toks d rule: device_info_tokens.induct)
  case (2 tok toks d)
  then obtain v where "looksLikeVersion tok = Some v"
    using looksLikeVersion_returns [of tok] by auto
  with 2 show ?case by simp
qed simp

lemmas decoder_defs =
  decodeStatsResponse_def decodeSelfInfo_def decodeAdvert_def decodeSendConfirmed_def
  decodeContact_def decodeChannelInfo_def decodeSent_def decodeContactMessage_def
  decodeChannelMessage_def decodeTraceData_def decodeLoginSuccess_def decodeLoginFail_def
  decodeNodeDiscoverResp_def

lemmas run_time_checks =
  idx_Some slice_Some u16_slice_Some u32_slice_Some u32_at_Some get_at_Some trimString_Some
  le_u16_rd le_u32_rd

lemma ParseRepeaterStats_returns: "\<exists>r. ParseRepeaterStats b = Some r"
  by (simp add: ParseRepeaterStats_def RepeaterStatsSize_def run_time_checks)

lemma decodeStatusData_returns: "\<exists>r. decodeStatusData b = Some r"
  using ParseRepeaterStats_returns [of b]
  by (auto simp: decodeStatusData_def trimString_Some split: option.split)

lemma decodeStatusResponse_returns: "\<exists>r. decodeStatusResponse b = Some r"
  using decodeStatusData_returns [of "drop 7 b"]
  by (auto simp: decodeStatusResponse_def run_time_checks)

lemma decodeStatsResponse_returns: "\<exists>r. decodeStatsResponse b = Some r"
  by (cases b) (simp_all add: decodeStatsResponse_def run_time_checks Let_def)

lemma decodeSelfInfo_returns: "\<exists>r. decodeSelfInfo b = Some r"
  by (simp add: decodeSelfInfo_def run_time_checks)

lemma decodeDeviceInfo_returns: "\<exists>r. decodeDeviceInfo b = Some r"
proof -
  have "\<forall>t \<in> set (printableTokens b). t \<noteq> []"
    using printable_loop_long [of "[]" b "[]"] by (fastforce simp: printableTokens_def)
  then show ?thesis
    using device_info_tokens_returns by (simp add: decodeDeviceInfo_def run_time_checks)
qed

lemma decodeAdvert_returns: "\<exists>r. decodeAdvert b = Some r"
  by (simp add: decodeAdvert_def run_time_checks)

lemma decodeSendConfirmed_returns: "\<exists>r. decodeSendConfirmed b = Some r"
  by (simp add: decodeSendConfirmed_def run_time_checks)

lemma decodeContact_returns: "\<exists>r. decodeContact b = Some r"
  by (simp add: decodeContact_def run_time_checks)

lemma decodeChannelInfo_returns: "\<exists>r. decodeChannelInfo b = Some r"
  by (simp add: decodeChannelInfo_def run_time_checks)

lemma decodeSent_returns: "\<exists>r. decodeSent b = Some r"
  by (simp add: decodeSent_def run_time_checks)

lemma decodeContactMessage_returns: "\<exists>r. decodeContactMessage b v3 = Some r"
  by (simp add: decodeContactMessage_def run_time_checks Let_def)

lemma decodeChannelMessage_returns: "\<exists>r. decodeChannelMessage b v3 = Some r"
  by (simp add: decodeChannelMessage_def run_time_checks Let_def)

lemma decodeTraceData_returns: "\<exists>r. decodeTraceData b = Some r"
  by (simp add: decodeTraceData_def run_time_checks Let_def)

lemma decodeLoginSuccess_returns: "\<exists>r. decodeLoginSuccess b = Some r"
  by (simp add: decodeLoginSuccess_def run_time_checks)

lemma decodeLoginFail_returns: "\<exists>r. decodeLoginFail b = Some r"
  by (simp add: decodeLoginFail_def run_time_checks)

lemma decodeNodeDiscoverResp_returns:
  "payload \<noteq> [] \<Longrightarrow> \<exists>r. decodeNodeDiscoverResp payload snr rssi pathLen = Some r"
  by (simp add: decodeNodeDiscoverResp_def run_time_checks)

lemma decodeControlData_cases:
  obtains (raw) "length b < 4" "decodeControlData b = Some (RawMessage pushControlData b True)"
  | (discover) r where "decodeControlData b = Some (NodeDiscoverResp r)"
  | (control) c where "decodeControlData b = Some (ControlData c)"
proof (cases "length b < 4")
  case True
  with raw show ?thesis by (simp add: decodeControlData_def)
next
  case False
  then have "drop 3 b \<noteq> []" by simp
  then obtain r where r: "decodeNodeDiscoverResp (drop 3 b) (quarter (int8 (b ! 0))) (int8 (b ! 1)) (b ! 2) = Some r"
    using decodeNodeDiscoverResp_returns by blast
  have "drop 3 b ! 0 = b ! 3" "b \<noteq> []" using False by auto
  with r False discover control show ?thesis
    by (cases "b ! 3 AND 0xF0 = controlNodeDiscoverResp")
      (simp_all add: decodeControlData_def run_time_checks Let_def)
qed

lemmas decoder_returns =
  decodeSelfInfo_returns decodeDeviceInfo_returns decodeStatsResponse_returns
  decodeContact_returns decodeChannelInfo_returns decodeSent_returns decodeContactMessage_returns
  decodeChannelMessage_returns decodeAdvert_returns decodeSendConfirmed_returns
  decodeTraceData_returns decodeLoginSuccess_returns decodeLoginFail_returns
  decodeStatusResponse_returns

section \<open>What the packet decoder returns\<close>

lemma decode_Nil [simp]: "decode [] = Some (RawMessage 0 [] False)"
  by (simp add: decode_def)

lemma decode_Cons_returns:
  "\<exists>m. decode (code # body) = Some m \<and> (Async m \<longleftrightarrow> isPush code)"
proof -
  obtain r1 r2 r3 r4 r5 r6 where r:
    "decodeSelfInfo body = Some r1" "decodeDeviceInfo body = Some r2"
    "decodeStatsResponse body = Some r3" "decodeContact body = Some r4"
    "decodeChannelInfo body = Some r5" "decodeSent body = Some r6"
    using decoder_returns(1-6) by metis
  obtain r7 r8 r9 r10 r11 where s:
    "decodeAdvert body = Some r7" "decodeSendConfirmed body = Some r8"
    "decodeTraceData body = Some r9" "decodeLoginSuccess body = Some r10"
    "decodeLoginFail body = Some r11"
    using decoder_returns(9-13) by metis
  obtain r12 r13 r14 where t:
    "decodeStatusResponse body = Some r12"
    "decodeContactMessage body (code = respContactMsgRecvV3) = Some r13"
    "decodeChannelMessage body (code = respChannelMsgRecvV3) = Some r14"
    using decoder_returns(7,8,14) by metis
  obtain c where c: "decodeControlData body = Some c" "Async c"
    by (cases body rule: decodeControlData_cases) auto
  show ?thesis
    using r s t c by (auto simp: decode_def run_time_checks Let_def isPush_def)
qed

lemma decode_returns: "\<exists>m. decode p = Some m"
  using decode_Cons_returns by (cases p) auto

lemma decode_Async: "decode p = Some m \<Longrightarrow> Async m \<longleftrightarrow> p \<noteq> [] \<and> isPush (hd p)"
  using decode_Cons_returns [of "hd p" "tl p"] by (cases p) auto

lemma decode_RawMessage:
  assumes "decode (code # body) = Some (RawMessage t b push)"
  shows "t = code \<and> b = body \<and> push = isPush code"
proof -
  have "code = pushControlData \<Longrightarrow> ?thesis"
    using assms by (cases body rule: decodeControlData_cases) (auto simp: decode_def run_time_checks Let_def isPush_def)
  then show ?thesis
    using assms by (auto simp: decode_def run_time_checks Let_def split: if_splits)
qed

section \<open>Properties\<close>

text \<open>C1: Decoding is total and routing is decided by the first byte. Every byte string, however
  short or malformed, is decoded to a message without a run-time panic, and the message is treated
  as an asynchronous push exactly when the packet is not empty and the high bit of its first byte is
  set.\<close>

theorem decode_total: "\<exists>m. decode p = Some m \<and> (Async m \<longleftrightarrow> p \<noteq> [] \<and> isPush (hd p))"
  using decode_returns [of p] decode_Async by blast

text \<open>Nothing of an unrecognised packet is lost. When the decoder falls back to a raw message
  for a non-empty packet, its type byte followed by its payload is the packet itself, and its push
  flag is the one the code byte implies.\<close>

theorem decode_raw_keeps_packet:
  assumes "decode p = Some (RawMessage t body push)" and "p \<noteq> []"
  shows "p = t # body \<and> push = isPush t"
  using assms decode_RawMessage [of "hd p" "tl p" t body push] by (cases p) auto

theorem decode_raw_keeps_packet_witness:
  "[0x81, 7, 9] = (0x81 :: byte) # [7, 9] \<and> True = isPush 0x81"
proof (rule decode_raw_keeps_packet)
  show "decode [0x81, 7, 9] = Some (RawMessage 0x81 [7, 9] True)"
    by (simp add: decode_def run_time_checks isPush_def)
qed simp

end
