(* ===== verification/Companion_Encode.thy ===== *)
theory Companion_Encode
  imports Companion_Decode
begin

text \<open>
  Encoding of commands: \<open>protocol/companion/commands.go\<close>. The clock is an argument: \<open>now\<close> is the
  time \<open>time.Now()\<close> returns where \<open>appendTimestamp\<close> reads it. The default branch of the source
  (a value that is none of the command structs) has no counterpart, since \<open>command\<close> has exactly
  those constructors.
\<close>

datatype encode_error =
    RecipientKeyTooShort nat
  | RepeaterKeyTooShort nat
  | MeshPacketEmpty

definition appName :: string where
  "appName = ''mc''"

definition appendTimestamp :: "go_time \<Rightarrow> bytes \<Rightarrow> go_time \<Rightarrow> bytes" where
  "appendTimestamp now buf t =
     (let t' = (if IsZero t then now else t) in buf @ put_u32 (word_of_int (t_unix t')))"

text \<open>\<open>copy(buf[lo:hi], src)\<close> and \<open>PutUint32(buf[lo:], v)\<close> on a buffer of fixed length.\<close>

definition copy_at :: "bytes \<Rightarrow> nat \<Rightarrow> nat \<Rightarrow> bytes \<Rightarrow> bytes" where
  "copy_at buf lo hi src =
     (let n = min (hi - lo) (length src) in take lo buf @ take n src @ drop (lo + n) buf)"

definition repeater_frame :: "byte \<Rightarrow> bytes \<Rightarrow> bytes \<Rightarrow> (encode_error + bytes) option" where
  "repeater_frame cmd key tail =
     (if length key < 32 then Some (Inl (RepeaterKeyTooShort (length key)))
      else do { k \<leftarrow> gslice key 0 32; Some (Inr ([cmd] @ k @ tail)) })"

fun encode :: "go_time \<Rightarrow> command \<Rightarrow> (encode_error + bytes) option" where
  "encode now (AppStart nm) =
     (let name = (if nm = [] then appName else nm)
      in Some (Inr ([cmdAppStart, 3] @ replicate 6 0 @ bytes_of_string name)))"
| "encode now DeviceQuery = Some (Inr [cmdDeviceQuery, 3])"
| "encode now GetDeviceTime = Some (Inr [cmdGetDeviceTime])"
| "encode now (SetDeviceTime t) =
     Some (Inr (copy_at ((replicate 5 0)[0 := cmdSetDeviceTime]) 1 5 (put_u32 (word_of_int (t_unix t)))))"
| "encode now GetBatteryVoltage = Some (Inr [cmdGetBattery])"
| "encode now (GetStats ctype) = Some (Inr [cmdGetStats, ctype])"
| "encode now (SendSelfAdvert flood) = Some (Inr [cmdSendSelfAdvert, if flood then 1 else 0])"
| "encode now Reboot = Some (Inr [cmdReboot])"
| "encode now (GetContacts since) =
     (if since = 0 then Some (Inr [cmdGetContacts])
      else Some (Inr (copy_at ((replicate 5 0)[0 := cmdGetContacts]) 1 5 (put_u32 since))))"
| "encode now (GetChannel index) = Some (Inr [cmdGetChannel, index])"
| "encode now (SetChannel c) =
     (let buf = (replicate 50 0)[0 := cmdSetChannel, 1 := sc_Index c];
          buf = copy_at buf 2 34 (bytes_of_string (sc_Name c));
          buf = copy_at buf 34 50 (sc_Secret c)
      in Some (Inr buf))"
| "encode now SyncNextMessage = Some (Inr [cmdSyncNextMessage])"
| "encode now (SendTextMessage m) =
     (if length (st_DestPublicKey m) < 6
      then Some (Inl (RecipientKeyTooShort (length (st_DestPublicKey m))))
      else do {
        let buf = [cmdSendTxtMsg, st_TxtType m, st_Attempt m];
        let buf = appendTimestamp now buf (st_Timestamp m);
        k \<leftarrow> gslice (st_DestPublicKey m) 0 6;
        Some (Inr (buf @ k @ bytes_of_string (st_Text m)))
      })"
| "encode now (SendLogin key password) = repeater_frame cmdSendLogin key (bytes_of_string password)"
| "encode now (SendStatusReq key) = repeater_frame cmdSendStatusReq key []"
| "encode now (HasConnection key) = repeater_frame cmdHasConnection key []"
| "encode now (Logout key) = repeater_frame cmdLogout key []"
| "encode now (SendChannelTextMessage m) =
     (let buf = [cmdSendChannelTxt, sct_TxtType m, sct_Channel m];
          buf = appendTimestamp now buf (sct_Timestamp m)
      in Some (Inr (buf @ bytes_of_string (sct_Text m))))"
| "encode now (SendTracePath m) =
     (let buf = [cmdSendTracePath] @ put_u32 (stp_Tag m) @ put_u32 (stp_Auth m) @ [stp_Flags m] @ stp_Path m
      in Some (Inr (if length buf \<le> 10 then buf @ [0x00] else buf)))"
| "encode now (SendNodeDiscoverReq m) =
     (let ctrl = (if snd_PrefixOnly m then controlNodeDiscoverReq OR 0x01 else controlNodeDiscoverReq)
      in Some (Inr ([cmdSendControlData, ctrl, snd_Filter m] @ put_u32 (snd_Tag m))))"
| "encode now (SendMeshPacket priority packet) =
     (if length packet = 0 then Some (Inl MeshPacketEmpty)
      else Some (Inr (copy_at ((replicate (2 + length packet) 0)[0 := cmdSendMeshPacket, 1 := priority])
             2 (2 + length packet) packet)))"

section \<open>Buffers\<close>

lemma length_copy_at: "lo + min (hi - lo) (length src) \<le> length buf \<Longrightarrow> length (copy_at buf lo hi src) = length buf"
  by (simp add: copy_at_def Let_def)

lemma copy_at_fill:
  "length buf = lo + length src \<Longrightarrow> hi = lo + length src \<Longrightarrow> copy_at buf lo hi src = take lo buf @ src"
  by (simp add: copy_at_def)

lemma replicate_5: "replicate 5 x = [x, x, x, x, x]"
  by (simp add: numeral_eq_Suc)

lemma encode_SetDeviceTime:
  "encode now (SetDeviceTime t) = Some (Inr (cmdSetDeviceTime # put_u32 (word_of_int (t_unix t))))"
  by (simp add: replicate_5 copy_at_fill)

lemma encode_GetContacts:
  "encode now (GetContacts since) =
     Some (Inr (cmdGetContacts # (if since = 0 then [] else put_u32 since)))"
  by (simp add: replicate_5 copy_at_fill)

lemma encode_SendMeshPacket:
  "packet \<noteq> [] \<Longrightarrow> encode now (SendMeshPacket p packet) = Some (Inr (cmdSendMeshPacket # p # packet))"
  by (simp add: copy_at_fill)

text \<open>The name and secret fields of \<open>SetChannel\<close> are cut or padded with NUL to their width.\<close>

definition pad_to :: "nat \<Rightarrow> bytes \<Rightarrow> bytes" where
  "pad_to n b = take n b @ replicate (n - length b) 0"

lemma length_pad_to [simp]: "length (pad_to n b) = n"
  by (simp add: pad_to_def)

lemma copy_at_pad:
  assumes "length pre = lo"
  shows "copy_at (pre @ replicate n 0 @ post) lo (lo + n) src = pre @ pad_to n src @ post"
  using assms by (auto simp: copy_at_def pad_to_def Let_def min_def)

lemma encode_SetChannel:
  "encode now (SetChannel c) =
     Some (Inr (cmdSetChannel # sc_Index c # pad_to 32 (bytes_of_string (sc_Name c)) @ pad_to 16 (sc_Secret c)))"
proof -
  have b: "(replicate 50 0)[0 := cmdSetChannel, Suc 0 := sc_Index c] =
      [cmdSetChannel, sc_Index c] @ replicate 32 0 @ replicate 16 (0 :: byte)"
    by (simp add: numeral_eq_Suc)
  have "copy_at (([cmdSetChannel, sc_Index c] @ pad_to 32 (bytes_of_string (sc_Name c))) @ replicate 16 0 @ [])
      34 (34 + 16) (sc_Secret c) =
    ([cmdSetChannel, sc_Index c] @ pad_to 32 (bytes_of_string (sc_Name c))) @ pad_to 16 (sc_Secret c) @ []"
    by (rule copy_at_pad) simp
  with copy_at_pad [of "[cmdSetChannel, sc_Index c]" 2 32 "replicate 16 0" "bytes_of_string (sc_Name c)"]
  show ?thesis by (simp add: Let_def b)
qed

section \<open>Opcodes\<close>

text \<open>The first byte of a frame tells the command.\<close>

fun opcode :: "command \<Rightarrow> byte" where
  "opcode (AppStart _) = cmdAppStart"
| "opcode DeviceQuery = cmdDeviceQuery"
| "opcode GetDeviceTime = cmdGetDeviceTime"
| "opcode (SetDeviceTime _) = cmdSetDeviceTime"
| "opcode GetBatteryVoltage = cmdGetBattery"
| "opcode (GetStats _) = cmdGetStats"
| "opcode (SendSelfAdvert _) = cmdSendSelfAdvert"
| "opcode Reboot = cmdReboot"
| "opcode (GetContacts _) = cmdGetContacts"
| "opcode (GetChannel _) = cmdGetChannel"
| "opcode (SetChannel _) = cmdSetChannel"
| "opcode SyncNextMessage = cmdSyncNextMessage"
| "opcode (SendTextMessage _) = cmdSendTxtMsg"
| "opcode (SendLogin _ _) = cmdSendLogin"
| "opcode (SendStatusReq _) = cmdSendStatusReq"
| "opcode (HasConnection _) = cmdHasConnection"
| "opcode (Logout _) = cmdLogout"
| "opcode (SendChannelTextMessage _) = cmdSendChannelTxt"
| "opcode (SendTracePath _) = cmdSendTracePath"
| "opcode (SendNodeDiscoverReq _) = cmdSendControlData"
| "opcode (SendMeshPacket _ _) = cmdSendMeshPacket"

lemmas encode_simps = encode_SetDeviceTime encode_GetContacts encode_SetChannel encode_SendMeshPacket
declare encode.simps(4,9,11,21) [simp del]

lemma encode_SendMeshPacket_cases:
  "encode now (SendMeshPacket p packet) =
     Some (if packet = [] then Inl MeshPacketEmpty else Inr (cmdSendMeshPacket # p # packet))"
  using encode_SendMeshPacket [of packet now p] by (auto simp: encode.simps(21))

lemma repeater_frame_eq [panic_free]:
  "repeater_frame cmd key tail =
     Some (if length key < 32 then Inl (RepeaterKeyTooShort (length key)) else Inr (cmd # take 32 key @ tail))"
  by (simp add: repeater_frame_def slice_Some)

lemma encode_returns [panic_free]: "\<exists>r. encode now c = Some r"
  by (cases c)
    (simp_all add: encode_simps encode_SendMeshPacket_cases repeater_frame_eq Let_def slice_Some)

lemma encode_opcode:
  assumes "encode now c = Some (Inr b)"
  shows "\<exists>rest. b = opcode c # rest"
  using assms
  by (cases c)
    (auto simp: encode_simps encode_SendMeshPacket_cases repeater_frame_eq slice_Some Let_def
       appendTimestamp_def split: if_splits)

lemma encode_opcode_hd: "encode now c = Some (Inr b) \<Longrightarrow> hd b = opcode c"
  using encode_opcode by fastforce

lemma opcode_named: "\<exists>name. map_of commandNames (opcode c) = Some name"
  by (cases c) (simp_all add: commandNames_def)

section \<open>Well-formed commands have distinct frames\<close>

text \<open>A timestamp the wire format can carry, and the commands whose fields fit their wire fields:
  keys and secrets of exactly the transmitted length, channel names without NUL of at most 32
  bytes, timestamps given explicitly, and a non-empty application name and trace path.\<close>

definition wire_time :: "go_time \<Rightarrow> bool" where
  "wire_time t = (0 \<le> t_unix t \<and> t_unix t < 2 ^ 32 \<and> t_nsec t = 0)"

fun wf_command :: "command \<Rightarrow> bool" where
  "wf_command (AppStart name) = (name \<noteq> [])"
| "wf_command (SetDeviceTime t) = wire_time t"
| "wf_command (SetChannel c) =
     (length (sc_Name c) \<le> 32 \<and> CHR 0x00 \<notin> set (sc_Name c) \<and> length (sc_Secret c) = 16)"
| "wf_command (SendTextMessage m) = (length (st_DestPublicKey m) = 6 \<and> wire_time (st_Timestamp m))"
| "wf_command (SendLogin key _) = (length key = 32)"
| "wf_command (SendStatusReq key) = (length key = 32)"
| "wf_command (HasConnection key) = (length key = 32)"
| "wf_command (Logout key) = (length key = 32)"
| "wf_command (SendChannelTextMessage m) = wire_time (sct_Timestamp m)"
| "wf_command (SendTracePath m) = (stp_Path m \<noteq> [])"
| "wf_command (SendMeshPacket _ packet) = (packet \<noteq> [])"
| "wf_command _ = True"

lemma put_u32_inj [simp]: "put_u32 a = put_u32 b \<longleftrightarrow> a = b"
  by (metis le_u32_put_only option.inject)

lemma put_u32_neq_Nil [simp]: "put_u32 v \<noteq> []" "[] \<noteq> put_u32 v"
  by (simp_all add: put_u32_def)

lemma put_u32_append_inj [simp]: "put_u32 a @ x = put_u32 b @ y \<longleftrightarrow> a = b \<and> x = y"
  by simp

lemma wire_time_word:
  "wire_time t \<Longrightarrow> wire_time t' \<Longrightarrow> (word_of_int (t_unix t) :: uint32) = word_of_int (t_unix t') \<Longrightarrow> t = t'"
  by (auto simp: wire_time_def word_of_int_eq_iff take_bit_int_eq_self intro!: go_time.equality)

lemma wire_time_not_zero: "wire_time t \<Longrightarrow> \<not> IsZero t"
  by (auto simp: wire_time_def IsZero_def zero_time_def)

lemma bytes_of_string_inj [simp]: "bytes_of_string s = bytes_of_string t \<longleftrightarrow> s = t"
  by (metis string_of_bytes_of_string)

lemma nul_in_bytes [simp]: "0 \<in> set (bytes_of_string s) \<longleftrightarrow> CHR 0x00 \<in> set s"
  using nul_in_string [of "bytes_of_string s"] by simp

text \<open>A NUL-padded field gives its contents back.\<close>

lemma takeWhile_pad_to:
  assumes "length b \<le> n" and "0 \<notin> set b"
  shows "takeWhile (\<lambda>x. x \<noteq> 0) (pad_to n b) = b"
proof -
  have "\<forall>x \<in> set b. x \<noteq> 0" using assms(2) by auto
  then show ?thesis using assms(1) by (simp add: pad_to_def takeWhile_append2)
qed

lemma pad_to_inj:
  "length a \<le> n \<Longrightarrow> length b \<le> n \<Longrightarrow> 0 \<notin> set a \<Longrightarrow> 0 \<notin> set b \<Longrightarrow> pad_to n a = pad_to n b \<longleftrightarrow> a = b"
  by (metis takeWhile_pad_to)

lemma pad_to_full [simp]: "length b = n \<Longrightarrow> pad_to n b = b"
  by (simp add: pad_to_def)

lemma encode_wf_ok: "wf_command c \<Longrightarrow> \<exists>b. encode now c = Some (Inr b)"
  by (cases c) (auto simp: encode_simps encode_SendMeshPacket_cases repeater_frame_eq slice_Some Let_def)

lemma encode_inj_text:
  assumes "wf_command (SendTextMessage m)" "wf_command (SendTextMessage m')"
    and "encode now (SendTextMessage m) = encode now (SendTextMessage m')"
  shows "m = m'"
  using assms wire_time_not_zero [of "st_Timestamp m"] wire_time_not_zero [of "st_Timestamp m'"]
  by (auto simp: slice_Some appendTimestamp_def Let_def
      intro!: send_text_message.equality dest: wire_time_word)

lemma encode_inj_channel_text:
  assumes "wf_command (SendChannelTextMessage m)" "wf_command (SendChannelTextMessage m')"
    and "encode now (SendChannelTextMessage m) = encode now (SendChannelTextMessage m')"
  shows "m = m'"
  using assms wire_time_not_zero [of "sct_Timestamp m"] wire_time_not_zero [of "sct_Timestamp m'"]
  by (auto simp: appendTimestamp_def Let_def
      intro!: send_channel_text_message.equality dest: wire_time_word)

lemma encode_inj_set_channel:
  assumes "wf_command (SetChannel c)" "wf_command (SetChannel c')"
    and "encode now (SetChannel c) = encode now (SetChannel c')"
  shows "c = c'"
  using assms by (auto simp: encode_SetChannel pad_to_inj intro!: set_channel.equality)

lemma encode_inj_node_discover:
  "encode now (SendNodeDiscoverReq m) = encode now (SendNodeDiscoverReq m') \<Longrightarrow> m = m'"
  by (auto simp: Let_def intro!: send_node_discover_req.equality split: if_splits)

lemma encode_inj_trace:
  assumes "stp_Path m \<noteq> []" "stp_Path m' \<noteq> []"
    and "encode now (SendTracePath m) = encode now (SendTracePath m')"
  shows "m = m'"
proof -
  have "\<not> length ([cmdSendTracePath] @ put_u32 t @ put_u32 a @ [f] @ p) \<le> 10" if "p \<noteq> []" for t a f p
    using that by (cases p) simp_all
  with assms show ?thesis
    by (auto simp: Let_def intro!: send_trace_path.equality)
qed

text \<open>The opcode determines the kind of command.\<close>

lemma opcode_inv:
  "opcode c = cmdAppStart \<longleftrightarrow> (\<exists>x. c = AppStart x)"
  "opcode c = cmdDeviceQuery \<longleftrightarrow> c = DeviceQuery"
  "opcode c = cmdGetDeviceTime \<longleftrightarrow> c = GetDeviceTime"
  "opcode c = cmdSetDeviceTime \<longleftrightarrow> (\<exists>x. c = SetDeviceTime x)"
  "opcode c = cmdGetBattery \<longleftrightarrow> c = GetBatteryVoltage"
  "opcode c = cmdGetStats \<longleftrightarrow> (\<exists>x. c = GetStats x)"
  "opcode c = cmdSendSelfAdvert \<longleftrightarrow> (\<exists>x. c = SendSelfAdvert x)"
  "opcode c = cmdReboot \<longleftrightarrow> c = Reboot"
  "opcode c = cmdGetContacts \<longleftrightarrow> (\<exists>x. c = GetContacts x)"
  "opcode c = cmdGetChannel \<longleftrightarrow> (\<exists>x. c = GetChannel x)"
  "opcode c = cmdSetChannel \<longleftrightarrow> (\<exists>x. c = SetChannel x)"
  "opcode c = cmdSyncNextMessage \<longleftrightarrow> c = SyncNextMessage"
  "opcode c = cmdSendTxtMsg \<longleftrightarrow> (\<exists>x. c = SendTextMessage x)"
  "opcode c = cmdSendLogin \<longleftrightarrow> (\<exists>x y. c = SendLogin x y)"
  "opcode c = cmdSendStatusReq \<longleftrightarrow> (\<exists>x. c = SendStatusReq x)"
  "opcode c = cmdHasConnection \<longleftrightarrow> (\<exists>x. c = HasConnection x)"
  "opcode c = cmdLogout \<longleftrightarrow> (\<exists>x. c = Logout x)"
  "opcode c = cmdSendChannelTxt \<longleftrightarrow> (\<exists>x. c = SendChannelTextMessage x)"
  "opcode c = cmdSendTracePath \<longleftrightarrow> (\<exists>x. c = SendTracePath x)"
  "opcode c = cmdSendControlData \<longleftrightarrow> (\<exists>x. c = SendNodeDiscoverReq x)"
  "opcode c = cmdSendMeshPacket \<longleftrightarrow> (\<exists>x y. c = SendMeshPacket x y)"
  by (cases c; simp)+

text \<open>Two well-formed commands with the same frame are equal.\<close>

lemma encode_inj:
  assumes "wf_command c" "wf_command c'" "encode now c = encode now c'"
  shows "c = c'"
proof -
  obtain b where "encode now c = Some (Inr b)" using encode_wf_ok [OF assms(1)] by blast
  with assms(3) have op: "opcode c' = opcode c" by (metis encode_opcode_hd)
  show ?thesis
  proof (cases c)
    case (SendTextMessage m)
    with op assms encode_inj_text show ?thesis by (auto simp: opcode_inv)
  next
    case (SendChannelTextMessage m)
    with op assms encode_inj_channel_text show ?thesis by (auto simp: opcode_inv)
  next
    case (SetChannel m)
    with op assms encode_inj_set_channel show ?thesis by (auto simp: opcode_inv)
  next
    case (SendNodeDiscoverReq m)
    with op assms(3) encode_inj_node_discover show ?thesis by (auto simp only: opcode_inv opcode.simps)
  next
    case (SendTracePath m)
    with op assms encode_inj_trace show ?thesis
      by (simp only: opcode_inv opcode.simps wf_command.simps) (metis wf_command.simps(10))
  qed (use op assms in \<open>auto simp: opcode_inv encode_simps encode_SendMeshPacket_cases repeater_frame_eq
      Let_def split: if_splits dest: wire_time_word\<close>)
qed

section \<open>Frames and their documented layouts\<close>

lemma rd32_drop: "i \<le> length b \<Longrightarrow> rd32 b i = rd32 (drop i b) 0"
  by (simp add: rd32_def ac_simps)

lemma decodeChannelInfo_layout:
  assumes "length nm \<le> 32" and "0 \<notin> set nm" and "length secret = 16"
  shows "decodeChannelInfo (i # pad_to 32 nm @ secret) =
    Some \<lparr>ci_Index = i, ci_Name = string_of_bytes nm, ci_Secret = secret\<rparr>"
  using assms by (simp add: decodeChannelInfo_def run_time_checks takeWhile_pad_to)

lemma decodeContact_layout:
  assumes "length key = 32" and "length path = 64" and "length nm \<le> 32" and "0 \<notin> set nm"
  shows "decodeContact (key @ [ctype, flags, enc] @ path @ pad_to 32 nm
      @ put_u32 la @ put_u32 lat @ put_u32 lon @ put_u32 lm) =
    Some \<lparr>c_PublicKey = hex_EncodeToString key, c_Type = ctype, c_Flags = flags,
      c_HasPath = (enc \<noteq> 0xff), c_OutPathEnc = enc, c_OutPath = path, c_Name = string_of_bytes nm,
      c_LastAdvert = unix_or_zero la, c_Latitude = micro_degrees lat, c_Longitude = micro_degrees lon,
      c_LastMod = unix_or_zero lm\<rparr>"
  using assms rd32_put [of lm "[]"]
  by (simp add: decodeContact_def run_time_checks nth_append takeWhile_pad_to
      rd32_drop [of 131] rd32_drop [of 135] rd32_drop [of 139] rd32_drop [of 143])

lemma decodeTraceData_layout:
  assumes "length hops * 2 ^ unat (flags AND 3) = length path" and "length path < 256"
    and "length snrs = length hops"
  shows "decodeTraceData ([r, word_of_nat (length path), flags] @ put_u32 tag @ put_u32 auth @ path
      @ snrs @ [final]) =
    Some \<lparr>td_Tag = tag, td_Auth = auth, td_Flags = flags, td_Path = path,
      td_SNRs = map (\<lambda>s. of_int (int8 s) / 4) (snrs @ [final])\<rparr>"
proof -
  let ?b = "[r, word_of_nat (length path), flags] @ put_u32 tag @ put_u32 auth @ path @ snrs @ [final]"
  have n: "unat (word_of_nat (length path) :: byte) = length path"
    using assms(2) by (simp add: unat_of_nat)
  have h: "drop_bit (unat (flags AND 3)) (length path) = length hops"
    by (simp add: drop_bit_eq_div flip: assms(1))
  have q: "quarter (int8 s) = of_int (int8 s) / 4" for s
    using int8_range [of s] by (intro quarter_exact) (simp add: abs_less_iff)
  have len: "length ?b = 12 + length path + length hops" by (simp add: assms(3))
  have "rd32 ?b 3 = tag" "rd32 ?b 7 = auth"
    by (simp_all add: rd32_drop [of 3] rd32_drop [of 7])
  moreover have "drop (11 + length path) ?b = snrs @ [final]"
    by (simp add: drop_Cons' put_u32_def)
  ultimately show ?thesis
    using assms(3) unfolding decodeTraceData_def
    by (simp add: run_time_checks n h q Let_def nth_append)
qed

text \<open>The commands the encoder refuses.\<close>

fun refused :: "command \<Rightarrow> bool" where
  "refused (SendTextMessage m) = (length (st_DestPublicKey m) < 6)"
| "refused (SendLogin key _) = (length key < 32)"
| "refused (SendStatusReq key) = (length key < 32)"
| "refused (HasConnection key) = (length key < 32)"
| "refused (Logout key) = (length key < 32)"
| "refused (SendMeshPacket _ packet) = (packet = [])"
| "refused _ = False"

lemma encode_refuses: "(\<exists>e. encode now c = Some (Inl e)) \<longleftrightarrow> refused c"
  by (cases c)
    (auto simp: encode_simps encode_SendMeshPacket_cases repeater_frame_eq slice_Some Let_def split: if_splits)

section \<open>Properties\<close>

text \<open>C18: Well-formed commands are encoded to distinct frames. For commands whose fields fit their
  wire fields, encoding succeeds, the frame starts with the opcode of the command, and two commands
  with the same frame are the same command.\<close>

theorem encode_uniquely_decodable:
  assumes "wf_command c" and "wf_command c'"
  shows "(\<exists>rest. encode now c = Some (Inr (opcode c # rest))) \<and>
    (encode now c = encode now c' \<longrightarrow> c = c')"
  using encode_wf_ok [OF assms(1), of now] encode_opcode [of now c] encode_inj [OF assms] by fastforce

theorem encode_uniquely_decodable_witness:
  "(\<exists>rest. encode zero_time (GetStats 1) = Some (Inr (opcode (GetStats 1) # rest))) \<and>
   encode zero_time (GetStats 1) \<noteq> encode zero_time (GetStats 2)"
  using encode_uniquely_decodable [of "GetStats 1" "GetStats 2" zero_time] by auto

text \<open>Encoding never panics and refuses exactly the commands the source refuses: a direct
  message to a key of fewer than six bytes, a repeater command with a key of fewer than 32 bytes,
  and an empty mesh packet. Every frame that is produced is labelled by a known command name.\<close>

theorem encode_total:
  "\<exists>r. encode now c = Some r \<and>
     ((\<exists>e. r = Inl e) \<longleftrightarrow> refused c) \<and>
     (\<forall>b. r = Inr b \<longrightarrow> (\<exists>name. map_of commandNames (hd b) = Some name))"
proof -
  obtain r where r: "encode now c = Some r" using encode_returns by blast
  have "map_of commandNames (hd b) = map_of commandNames (opcode c)" if "r = Inr b" for b
    using encode_opcode_hd [of now c b] r that by simp
  moreover have "(\<exists>e. r = Inl e) \<longleftrightarrow> refused c"
    using encode_refuses [of now c] r by auto
  ultimately show ?thesis using r opcode_named [of c] by auto
qed

theorem encode_total_witness:
  "(\<exists>e. encode zero_time (Logout []) = Some (Inl e)) \<and>
   (\<exists>b name. encode zero_time (GetStats 1) = Some (Inr b) \<and> map_of commandNames (hd b) = Some name)"
  using encode_total [of zero_time "Logout []"] encode_total [of zero_time "GetStats 1"] by auto

text \<open>Writing a channel slot and reading it back agree. For a channel whose name has at most 32
  bytes and no NUL and whose key has 16 bytes, the body of the set-channel frame is a
  channel-info body, and decoding it returns the same index, name and key.\<close>

theorem channel_frame_roundtrip:
  assumes "wf_command (SetChannel c)"
  shows "\<exists>body. encode now (SetChannel c) = Some (Inr (cmdSetChannel # body)) \<and>
    decode (respChannelInfo # body) =
      Some (ChannelInfo \<lparr>ci_Index = sc_Index c, ci_Name = sc_Name c, ci_Secret = sc_Secret c\<rparr>)"
proof -
  have "decodeChannelInfo (sc_Index c # pad_to 32 (bytes_of_string (sc_Name c)) @ sc_Secret c) =
      Some \<lparr>ci_Index = sc_Index c, ci_Name = sc_Name c, ci_Secret = sc_Secret c\<rparr>"
    using assms decodeChannelInfo_layout [of "bytes_of_string (sc_Name c)" "sc_Secret c" "sc_Index c"] by simp
  then show ?thesis
    using assms by (auto simp: encode_SetChannel decode_def run_time_checks Let_def)
qed

theorem channel_frame_roundtrip_witness:
  "\<exists>body. encode zero_time (SetChannel \<lparr>sc_Index = 2, sc_Name = ''test'', sc_Secret = replicate 16 7\<rparr>)
      = Some (Inr (cmdSetChannel # body)) \<and>
    decode (respChannelInfo # body) =
      Some (ChannelInfo \<lparr>ci_Index = 2, ci_Name = ''test'', ci_Secret = replicate 16 7\<rparr>)"
proof -
  have "wf_command (SetChannel \<lparr>sc_Index = 2, sc_Name = ''test'', sc_Secret = replicate 16 7\<rparr>)" by simp
  from channel_frame_roundtrip [OF this, of zero_time] show ?thesis by (simp only: set_channel.simps)
qed

text \<open>The contact decoder implements its documented layout. For a contact body built from a
  32-byte key, type, flags and path metadata, a 64-byte path, a NUL-padded name and the four
  little-endian integers, decoding returns exactly these fields; the contact has a path unless the
  metadata is 0xff, and a time of zero is the zero time.\<close>

theorem contact_frame_layout:
  assumes "length key = 32" and "length path = 64" and "length nm \<le> 32" and "0 \<notin> set nm"
  shows "decode (respContact # key @ [ctype, flags, enc] @ path @ pad_to 32 nm
      @ put_u32 la @ put_u32 lat @ put_u32 lon @ put_u32 lm) =
    Some (ContactFrame \<lparr>c_PublicKey = hex_EncodeToString key, c_Type = ctype, c_Flags = flags,
      c_HasPath = (enc \<noteq> 0xff), c_OutPathEnc = enc, c_OutPath = path, c_Name = string_of_bytes nm,
      c_LastAdvert = unix_or_zero la, c_Latitude = micro_degrees lat, c_Longitude = micro_degrees lon,
      c_LastMod = unix_or_zero lm\<rparr>)"
  using decodeContact_layout [OF assms, of ctype flags enc la lat lon lm]
  by (simp add: decode_def run_time_checks Let_def)

theorem contact_frame_layout_witness:
  "decode (respContact # replicate 32 1 @ [2, 0, 0x41] @ replicate 64 3 @ pad_to 32 [65, 66]
      @ put_u32 5 @ put_u32 6 @ put_u32 0 @ put_u32 0) =
    Some (ContactFrame \<lparr>c_PublicKey = hex_EncodeToString (replicate 32 1), c_Type = 2, c_Flags = 0,
      c_HasPath = ((0x41 :: byte) \<noteq> 0xff), c_OutPathEnc = 0x41, c_OutPath = replicate 64 3,
      c_Name = string_of_bytes [65, 66], c_LastAdvert = unix_or_zero 5, c_Latitude = micro_degrees 6,
      c_Longitude = micro_degrees 0, c_LastMod = unix_or_zero 0\<rparr>)"
  by (rule contact_frame_layout) simp_all

text \<open>The trace decoder implements its documented layout. A trace push whose path holds as many
  hashes of the width the flags announce as there are signal-to-noise bytes, plus a final one, is
  decoded to its tag, its path and the exact quarter-decibel values of all of them.\<close>

theorem trace_frame_layout:
  assumes "length snrs * 2 ^ unat (flags AND 3) = length path" and "length path < 256"
  shows "decode (pushTraceData # [r, word_of_nat (length path), flags] @ put_u32 tag @ put_u32 auth @ path
      @ snrs @ [final]) =
    Some (TraceData \<lparr>td_Tag = tag, td_Auth = auth, td_Flags = flags, td_Path = path,
      td_SNRs = map (\<lambda>s. of_int (int8 s) / 4) (snrs @ [final])\<rparr>)"
proof -
  let ?b = "[r, word_of_nat (length path), flags] @ put_u32 tag @ put_u32 auth @ path @ snrs @ [final]"
  have "decode (pushTraceData # ?b) = map_option TraceData (decodeTraceData ?b)"
    by (simp add: decode_def run_time_checks Let_def)
  then show ?thesis
    by (simp only: decodeTraceData_layout [OF assms refl] option.map)
qed

theorem trace_frame_layout_witness:
  "decode (pushTraceData # [0, word_of_nat (length [0x11, 0x22, 0x33, 0x44 :: byte]), 1] @ put_u32 9 @ put_u32 0
      @ [0x11, 0x22, 0x33, 0x44] @ [8, 0xf8] @ [4]) =
    Some (TraceData \<lparr>td_Tag = 9, td_Auth = 0, td_Flags = 1, td_Path = [0x11, 0x22, 0x33, 0x44],
      td_SNRs = map (\<lambda>s. of_int (int8 s) / 4) ([8, 0xf8] @ [4])\<rparr>)"
  by (rule trace_frame_layout) simp_all

end
