(* ===== verification/Go_Channel.thy ===== *)
theory Go_Channel
  imports Go_Prelude "HOL-Library.Monad_Syntax"
begin

text \<open>
  Buffered Go channels and the non-blocking operations the program performs on them, in the
  \<open>select\<close> statements with a \<open>default\<close> branch. \<open>None\<close> is a run-time panic: sending on a closed channel
  and closing a closed channel. The theory also holds the drop-oldest discipline shared by the
  event dispatcher and the BLE notification handler, as a locale that both interpret.
\<close>

section \<open>Channels\<close>

record 'a chan =
  ch_buf :: "'a list"
  ch_cap :: nat
  ch_open :: bool

definition make_chan :: "nat \<Rightarrow> 'a chan" where
  "make_chan n = \<lparr>ch_buf = [], ch_cap = n, ch_open = True\<rparr>"

definition chan_close :: "'a chan \<Rightarrow> 'a chan option" where
  "chan_close c = (if ch_open c then Some (c\<lparr>ch_open := False\<rparr>) else None)"

text \<open>\<open>select { case c <- v: default: }\<close>. The boolean tells whether the send was chosen; a channel
  with no free buffer slot takes the default branch.\<close>

definition try_send :: "'a \<Rightarrow> 'a chan \<Rightarrow> ('a chan \<times> bool) option" where
  "try_send v c =
     (if \<not> ch_open c then None
      else if length (ch_buf c) < ch_cap c then Some (c\<lparr>ch_buf := ch_buf c @ [v]\<rparr>, True)
      else Some (c, False))"

text \<open>\<open>select { case <-c: default: }\<close>: the oldest buffered value is removed and dropped.\<close>

definition try_drop :: "'a chan \<Rightarrow> 'a chan" where
  "try_drop c = c\<lparr>ch_buf := tl (ch_buf c)\<rparr>"

datatype 'a received = Value 'a | NotReady | Closed

definition try_recv :: "'a chan \<Rightarrow> 'a received \<times> 'a chan" where
  "try_recv c =
     (case ch_buf c of
        v # rest \<Rightarrow> (Value v, c\<lparr>ch_buf := rest\<rparr>)
      | [] \<Rightarrow> (if ch_open c then NotReady else Closed, c))"

definition chan_ok :: "'a chan \<Rightarrow> bool" where
  "chan_ok c \<longleftrightarrow> length (ch_buf c) \<le> ch_cap c"

lemma make_chan_sel [simp]:
  "ch_buf (make_chan n) = []" "ch_cap (make_chan n) = n" "ch_open (make_chan n)"
  by (simp_all add: make_chan_def)

lemma chan_ok_make [simp]: "chan_ok (make_chan n)"
  by (simp add: chan_ok_def)

lemma chan_ok_close: "chan_close c = Some c' \<Longrightarrow> chan_ok c \<Longrightarrow> chan_ok c' \<and> \<not> ch_open c' \<and> ch_buf c' = ch_buf c"
  by (auto simp: chan_close_def chan_ok_def split: if_splits)

lemma try_send_open: "ch_open c \<Longrightarrow> \<exists>c' sent. try_send v c = Some (c', sent)"
  by (auto simp: try_send_def)

lemma chan_ok_send: "try_send v c = Some (c', sent) \<Longrightarrow> chan_ok c \<Longrightarrow> chan_ok c' \<and> ch_open c' \<and> ch_cap c' = ch_cap c"
  by (auto simp: try_send_def chan_ok_def split: if_splits)

lemma chan_ok_recv: "try_recv c = (r, c') \<Longrightarrow> chan_ok c \<Longrightarrow> chan_ok c' \<and> ch_open c' = ch_open c"
  by (auto simp: try_recv_def chan_ok_def split: list.splits if_splits)

section \<open>Sending with the oldest value dropped\<close>

text \<open>
  The nested \<open>select\<close> of \<open>Dispatcher.Emit\<close> and \<open>ble.Conn.onNotify\<close>: try to send; when the buffer is
  full drop the oldest value and try again.
\<close>

definition send_drop_oldest :: "'a \<Rightarrow> 'a chan \<Rightarrow> 'a chan option" where
  "send_drop_oldest v c =
     do {
       (c1, sent) \<leftarrow> try_send v c;
       if sent then Some c1
       else do { (c2, _) \<leftarrow> try_send v (try_drop c1); Some c2 }
     }"

lemma send_drop_oldest_open:
  assumes "ch_open c" and "chan_ok c" and "0 < ch_cap c"
  shows "send_drop_oldest v c = Some (c\<lparr>ch_buf := drop (Suc (length (ch_buf c)) - ch_cap c) (ch_buf c) @ [v]\<rparr>)"
proof (cases "length (ch_buf c) < ch_cap c")
  case True
  then show ?thesis using assms by (simp add: send_drop_oldest_def try_send_def)
next
  case False
  with assms have "length (ch_buf c) = ch_cap c" by (simp add: chan_ok_def)
  moreover from this assms have "length (tl (ch_buf c)) < ch_cap c" by simp
  ultimately show ?thesis using assms(1)
    by (simp add: send_drop_oldest_def try_send_def try_drop_def drop_Suc)
qed

lemma send_drop_oldest_closed: "\<not> ch_open c \<Longrightarrow> send_drop_oldest v c = None"
  by (simp add: send_drop_oldest_def try_send_def)

text \<open>
  The contract: a bounded buffer whose \<open>push\<close> never fails, keeps the bound and drops from the front
  only. What a slow consumer then finds after any number of pushes is the most recent values.
\<close>

locale drop_oldest_buffer =
  fixes content :: "'s \<Rightarrow> 'a list" and bound :: "'s \<Rightarrow> nat" and good :: "'s \<Rightarrow> bool"
    and push :: "'a \<Rightarrow> 's \<Rightarrow> 's option"
  assumes good_bound: "good s \<Longrightarrow> 0 < bound s \<and> length (content s) \<le> bound s"
    and push_ok: "good s \<Longrightarrow> \<exists>s'. push v s = Some s' \<and> good s' \<and> bound s' = bound s \<and>
      content s' = drop (Suc (length (content s)) - bound s) (content s) @ [v]"
begin

fun push_all :: "'a list \<Rightarrow> 's \<Rightarrow> 's option" where
  "push_all [] s = Some s"
| "push_all (v # vs) s = Option.bind (push v s) (push_all vs)"

lemma push_all_content:
  "good s \<Longrightarrow> \<exists>s'. push_all vs s = Some s' \<and> good s' \<and> bound s' = bound s \<and>
     content s' = drop (length (content s @ vs) - bound s) (content s @ vs)"
proof (induction vs arbitrary: s)
  case Nil
  then show ?case using good_bound by simp
next
  case (Cons v vs)
  from push_ok [OF Cons.prems] obtain s1 where s1: "push v s = Some s1" "good s1" "bound s1 = bound s"
    and c1: "content s1 = drop (Suc (length (content s)) - bound s) (content s) @ [v]" by blast
  from Cons.IH [OF s1(2)] obtain s' where s': "push_all vs s1 = Some s'" "good s'" "bound s' = bound s1"
    and c': "content s' = drop (length (content s1 @ vs) - bound s1) (content s1 @ vs)" by blast
  let ?k = "Suc (length (content s)) - bound s"
  have k: "?k \<le> length (content s)" using good_bound [OF Cons.prems] by auto
  let ?xs = "content s @ v # vs"
  have "content s1 @ vs = drop ?k ?xs" using c1 k by simp
  then have "content s' = drop (length ?xs - ?k - bound s + ?k) ?xs"
    using c' s1(3) by (simp only: drop_drop length_drop)
  also have "length ?xs - ?k - bound s + ?k = length ?xs - bound s"
    using good_bound [OF Cons.prems] by auto
  finally show ?case using s1 s' by simp
qed

lemma newest_kept:
  assumes "good s" and "vs \<noteq> []"
  shows "\<exists>s'. push_all vs s = Some s' \<and> last (content s') = last vs \<and> content s' \<noteq> []"
proof -
  from push_all_content [OF assms(1)] obtain s' where s': "push_all vs s = Some s'"
    and c: "content s' = drop (length (content s @ vs) - bound s) (content s @ vs)" by blast
  from good_bound [OF assms(1)] assms(2)
  have "length (content s @ vs) - bound s < length (content s @ vs)" by simp
  then have "last (content s') = last (content s @ vs)" "content s' \<noteq> []"
    unfolding c by (rule last_drop, simp only: drop_eq_Nil not_le)
  with s' assms(2) show ?thesis by simp
qed

end

definition live_chan :: "'a chan \<Rightarrow> bool" where
  "live_chan c \<longleftrightarrow> ch_open c \<and> chan_ok c \<and> 0 < ch_cap c"

interpretation chan_buffer: drop_oldest_buffer ch_buf ch_cap live_chan send_drop_oldest
  by unfold_locales
    (auto simp: live_chan_def chan_ok_def send_drop_oldest_open)

end
