(* ===== verification/Request_Queue.thy ===== *)
theory Request_Queue
  imports Go_Channel
begin

text \<open>
  \<open>internal/queue/queue.go\<close> as a step relation. Any number of goroutines call \<open>Do\<close> or \<open>DoStream\<close>
  (both are \<open>run\<close>), one goroutine, the read loop, calls \<open>Deliver\<close>. Every step is one critical section
  or one channel operation of the source, so the relation has all interleavings: the read loop may
  load the waiter, the call may time out and the next call may register, before the loaded value is
  sent. A call is a number; \<open>fin i vs\<close> tells whether the collector of call \<open>i\<close>, after it was fed the
  responses \<open>vs\<close> one by one, reports completion at the last of them. \<open>c_accepted\<close> is a ghost field:
  the responses \<open>Deliver\<close> reported as delivered to the call.
\<close>

section \<open>Model\<close>

datatype ctx_error = Canceled | DeadlineExceeded

datatype 'e run_result = Completed | ErrResponseOverflow | SendFailed 'e | CtxErr ctx_error

datatype 'e phase =
    Pending                       \<comment> \<open>before \<open>sendMu.Lock()\<close>\<close>
  | Sending                       \<comment> \<open>waiter registered, \<open>send()\<close> not yet returned\<close>
  | Waiting                       \<comment> \<open>in the \<open>select\<close> loop\<close>
  | Returning "'e run_result"     \<comment> \<open>result chosen, deferred functions not yet run\<close>
  | Returned "'e run_result"

record ('v, 'e) call =
  c_phase :: "'e phase"
  c_responses :: "'v chan"
  c_overflow :: bool
  c_collected :: "'v list"
  c_accepted :: "'v list"

record ('v, 'e) queue =
  q_sendMu :: "nat option"
  q_waiter :: "nat option"
  q_calls :: "nat \<Rightarrow> ('v, 'e) call"
  q_loaded :: "(nat option \<times> 'v) option"

definition streamBuffer :: nat where
  "streamBuffer = 2048"

definition new_call :: "('v, 'e) call" where
  "new_call = \<lparr>c_phase = Pending, c_responses = make_chan streamBuffer, c_overflow = False,
     c_collected = [], c_accepted = []\<rparr>"

definition New_queue :: "('v, 'e) queue" where
  "New_queue = \<lparr>q_sendMu = None, q_waiter = None, q_calls = (\<lambda>_. new_call), q_loaded = None\<rparr>"

definition upd :: "nat \<Rightarrow> (('v, 'e) call \<Rightarrow> ('v, 'e) call) \<Rightarrow> ('v, 'e) queue \<Rightarrow> ('v, 'e) queue" where
  "upd i f q = q\<lparr>q_calls := (q_calls q)(i := f (q_calls q i))\<rparr>"

definition deliver_to :: "'v \<Rightarrow> ('v, 'e) call \<Rightarrow> ('v, 'e) call" where
  "deliver_to v c =
     (case try_send v (c_responses c) of
        Some (ch, True) \<Rightarrow> c\<lparr>c_responses := ch, c_accepted := c_accepted c @ [v]\<rparr>
      | _ \<Rightarrow> c\<lparr>c_overflow := True\<rparr>)"

text \<open>What \<open>Deliver\<close> returns for the waiter it loaded.\<close>

definition Deliver_result :: "nat option \<Rightarrow> 'v \<Rightarrow> ('v, 'e) queue \<Rightarrow> bool \<times> 'e run_result option" where
  "Deliver_result w v q =
     (case w of
        None \<Rightarrow> (False, None)
      | Some i \<Rightarrow>
          (case try_send v (c_responses (q_calls q i)) of
             Some (_, True) \<Rightarrow> (True, None)
           | _ \<Rightarrow> (False, Some ErrResponseOverflow)))"

inductive step :: "(nat \<Rightarrow> 'v list \<Rightarrow> bool) \<Rightarrow> ('v, 'e) queue \<Rightarrow> ('v, 'e) queue \<Rightarrow> bool" for "fin" where
  acquire: "c_phase (q_calls q i) = Pending \<Longrightarrow> q_sendMu q = None \<Longrightarrow>
    step fin q (upd i (\<lambda>c. c\<lparr>c_phase := Sending\<rparr>) (q\<lparr>q_sendMu := Some i, q_waiter := Some i\<rparr>))"
| sent: "c_phase (q_calls q i) = Sending \<Longrightarrow> step fin q (upd i (\<lambda>c. c\<lparr>c_phase := Waiting\<rparr>) q)"
| send_failed: "c_phase (q_calls q i) = Sending \<Longrightarrow>
    step fin q (upd i (\<lambda>c. c\<lparr>c_phase := Returning (SendFailed e)\<rparr>) q)"
| collect: "c_phase (q_calls q i) = Waiting \<Longrightarrow> try_recv (c_responses (q_calls q i)) = (Value v, ch) \<Longrightarrow>
    step fin q (upd i (\<lambda>c. c\<lparr>c_responses := ch, c_collected := c_collected c @ [v],
       c_phase := (if fin i (c_collected c @ [v]) then Returning Completed else Waiting)\<rparr>) q)"
| overflow: "c_phase (q_calls q i) = Waiting \<Longrightarrow> c_overflow (q_calls q i) \<Longrightarrow>
    step fin q (upd i (\<lambda>c. c\<lparr>c_overflow := False, c_phase := Returning ErrResponseOverflow\<rparr>) q)"
| ctx_done: "c_phase (q_calls q i) = Waiting \<Longrightarrow>
    step fin q (upd i (\<lambda>c. c\<lparr>c_phase := Returning (CtxErr e)\<rparr>) q)"
| release: "c_phase (q_calls q i) = Returning r \<Longrightarrow>
    step fin q (upd i (\<lambda>c. c\<lparr>c_phase := Returned r\<rparr>) (q\<lparr>q_sendMu := None, q_waiter := None\<rparr>))"
| load: "q_loaded q = None \<Longrightarrow> step fin q (q\<lparr>q_loaded := Some (q_waiter q, v)\<rparr>)"
| no_waiter: "q_loaded q = Some (None, v) \<Longrightarrow> step fin q (q\<lparr>q_loaded := None\<rparr>)"
| deliver: "q_loaded q = Some (Some i, v) \<Longrightarrow> step fin q (upd i (deliver_to v) (q\<lparr>q_loaded := None\<rparr>))"

inductive reachable :: "(nat \<Rightarrow> 'v list \<Rightarrow> bool) \<Rightarrow> ('v, 'e) queue \<Rightarrow> bool" for "fin" where
  start: "reachable fin New_queue"
| further: "reachable fin q \<Longrightarrow> step fin q q' \<Longrightarrow> reachable fin q'"

text \<open>The completion tests of \<open>Do\<close>, which stops at the first response, and of a stream whose
  collector is a function on a state.\<close>

definition Do_fin :: "'v list \<Rightarrow> bool" where
  "Do_fin vs \<longleftrightarrow> vs \<noteq> []"

text \<open>The sequential meaning of a call: the shortest prefix of the responses at which the collector
  reports completion.\<close>

fun run_from :: "('v list \<Rightarrow> bool) \<Rightarrow> 'v list \<Rightarrow> 'v list \<Rightarrow> 'v list option" where
  "run_from fn acc [] = None"
| "run_from fn acc (v # vs) = (if fn (acc @ [v]) then Some (acc @ [v]) else run_from fn (acc @ [v]) vs)"

definition run_prompt :: "('v list \<Rightarrow> bool) \<Rightarrow> 'v list \<Rightarrow> 'v list option" where
  "run_prompt fn vs = run_from fn [] vs"

section \<open>Invariant\<close>

fun active :: "'e phase \<Rightarrow> bool" where
  "active Pending = False"
| "active Sending = True"
| "active Waiting = True"
| "active (Returning _) = True"
| "active (Returned _) = False"

fun unfinished :: "'e phase \<Rightarrow> bool" where
  "unfinished (Returning Completed) = False"
| "unfinished (Returned Completed) = False"
| "unfinished _ = True"

definition no_prefix_fin :: "('v list \<Rightarrow> bool) \<Rightarrow> 'v list \<Rightarrow> bool" where
  "no_prefix_fin fn vs \<longleftrightarrow> (\<forall>n. 0 < n \<longrightarrow> n \<le> length vs \<longrightarrow> \<not> fn (take n vs))"

text \<open>Per call: the channel is open and within its bound; what was accepted is what was collected
  followed by what is still buffered; overflow is signalled only after a full buffer of responses;
  the collector reported completion exactly at the end of a completed call.\<close>

definition call_ok :: "('v list \<Rightarrow> bool) \<Rightarrow> ('v, 'e) call \<Rightarrow> bool" where
  "call_ok fn c \<longleftrightarrow>
     ch_open (c_responses c) \<and> ch_cap (c_responses c) = streamBuffer \<and> chan_ok (c_responses c) \<and>
     c_accepted c = c_collected c @ ch_buf (c_responses c) \<and>
     (c_overflow c \<or> c_phase c = Returning ErrResponseOverflow \<or> c_phase c = Returned ErrResponseOverflow
        \<longrightarrow> streamBuffer \<le> length (c_accepted c)) \<and>
     (if unfinished (c_phase c) then no_prefix_fin fn (c_collected c)
      else c_collected c \<noteq> [] \<and> fn (c_collected c) \<and> no_prefix_fin fn (butlast (c_collected c)))"

definition queue_ok :: "(nat \<Rightarrow> 'v list \<Rightarrow> bool) \<Rightarrow> ('v, 'e) queue \<Rightarrow> bool" where
  "queue_ok fin q \<longleftrightarrow>
     q_waiter q = q_sendMu q \<and>
     (\<forall>i. active (c_phase (q_calls q i)) \<longleftrightarrow> q_sendMu q = Some i) \<and>
     (\<forall>i. call_ok (fin i) (q_calls q i))"

lemma upd_sel [simp]:
  "q_sendMu (upd i f q) = q_sendMu q" "q_waiter (upd i f q) = q_waiter q" "q_loaded (upd i f q) = q_loaded q"
  "q_calls (upd i f q) = (q_calls q)(i := f (q_calls q i))"
  by (simp_all add: upd_def)

lemma call_ok_new [simp]: "call_ok fn new_call"
  by (simp add: call_ok_def new_call_def no_prefix_fin_def)

lemma queue_ok_New: "queue_ok fin New_queue"
  by (simp add: queue_ok_def New_queue_def) (simp add: new_call_def)

lemma no_prefix_fin_snoc: "no_prefix_fin fn (vs @ [v]) \<longleftrightarrow> no_prefix_fin fn vs \<and> \<not> fn (vs @ [v])"
  by (auto simp: no_prefix_fin_def le_Suc_eq)

lemma call_ok_collect:
  assumes ok: "call_ok fn c" and w: "c_phase c = Waiting" and r: "try_recv (c_responses c) = (Value v, ch)"
  shows "call_ok fn (c\<lparr>c_responses := ch, c_collected := c_collected c @ [v],
    c_phase := (if fn (c_collected c @ [v]) then Returning Completed else Waiting)\<rparr>)"
proof -
  from r obtain rest where b: "ch_buf (c_responses c) = v # rest" and ch: "ch = (c_responses c)\<lparr>ch_buf := rest\<rparr>"
    by (auto simp: try_recv_def split: list.splits if_splits)
  with ok w show ?thesis by (auto simp: call_ok_def chan_ok_def no_prefix_fin_snoc)
qed

lemma call_ok_deliver:
  assumes ok: "call_ok fn c" shows "call_ok fn (deliver_to v c)"
proof (cases "length (ch_buf (c_responses c)) < streamBuffer")
  case True
  with ok have "deliver_to v c =
      c\<lparr>c_responses := (c_responses c)\<lparr>ch_buf := ch_buf (c_responses c) @ [v]\<rparr>, c_accepted := c_accepted c @ [v]\<rparr>"
    by (simp add: deliver_to_def try_send_def call_ok_def)
  with ok True show ?thesis by (auto simp: call_ok_def chan_ok_def)
next
  case False
  with ok have "deliver_to v c = c\<lparr>c_overflow := True\<rparr>" by (simp add: deliver_to_def try_send_def call_ok_def)
  with ok False show ?thesis by (auto simp: call_ok_def)
qed

lemma deliver_to_phase [simp]: "c_phase (deliver_to v c) = c_phase c"
  by (simp add: deliver_to_def split: option.splits prod.splits bool.splits)

lemma call_ok_phase:
  "call_ok fn c \<Longrightarrow> unfinished (c_phase c) \<Longrightarrow> unfinished p \<Longrightarrow> p \<noteq> Returning ErrResponseOverflow \<Longrightarrow>
   p \<noteq> Returned ErrResponseOverflow \<Longrightarrow> call_ok fn (c\<lparr>c_phase := p\<rparr>)"
  by (auto simp: call_ok_def)

lemma call_ok_release:
  "call_ok fn c \<Longrightarrow> c_phase c = Returning r \<Longrightarrow> call_ok fn (c\<lparr>c_phase := Returned r\<rparr>)"
  by (cases r) (auto simp: call_ok_def)

lemma step_queue_ok:
  assumes "step fin q q'" and "queue_ok fin q" shows "queue_ok fin q'"
  using assms
proof (induction rule: step.induct)
  case (acquire q i)
  then show ?case by (auto simp: queue_ok_def call_ok_phase)
next
  case (sent q i)
  then have "active (c_phase (q_calls q i))" by simp
  with sent show ?case by (auto simp: queue_ok_def call_ok_phase)
next
  case (send_failed q i e)
  then have "active (c_phase (q_calls q i))" by simp
  with send_failed show ?case by (auto simp: queue_ok_def call_ok_phase)
next
  case (collect q i v ch)
  then have "active (c_phase (q_calls q i))" by simp
  moreover from collect have "call_ok (fin i) (q_calls q i)" by (simp add: queue_ok_def)
  from call_ok_collect [OF this collect(1, 2)] collect(3) calculation show ?case
    by (auto simp: queue_ok_def split: if_splits)
next
  case (overflow q i)
  then have "active (c_phase (q_calls q i))" by simp
  with overflow show ?case by (auto simp: queue_ok_def call_ok_def)
next
  case (ctx_done q i e)
  then have "active (c_phase (q_calls q i))" by simp
  with ctx_done show ?case by (auto simp: queue_ok_def call_ok_phase)
next
  case (release q i r)
  then have "active (c_phase (q_calls q i))" by simp
  with release show ?case by (auto simp: queue_ok_def call_ok_release)
next
  case (load q v)
  then show ?case by (simp add: queue_ok_def)
next
  case (no_waiter q v)
  then show ?case by (simp add: queue_ok_def)
next
  case (deliver q i v)
  then show ?case by (auto simp: queue_ok_def call_ok_deliver)
qed

lemma reachable_queue_ok: "reachable fin q \<Longrightarrow> queue_ok fin q"
  by (induction rule: reachable.induct) (auto simp: queue_ok_New step_queue_ok)

section \<open>Completed calls, and progress\<close>

lemma run_from_prefix:
  "no_prefix_fin (\<lambda>ws. fn (acc @ ws)) vs \<Longrightarrow> fn (acc @ vs @ [v]) \<Longrightarrow>
   run_from fn acc (vs @ v # rest) = Some (acc @ vs @ [v])"
proof (induction vs arbitrary: acc)
  case (Cons w ws)
  have "\<not> fn (acc @ [w])" using Cons.prems(1) by (force simp: no_prefix_fin_def dest: spec [of _ 1])
  moreover have "no_prefix_fin (\<lambda>us. fn ((acc @ [w]) @ us)) ws"
    using Cons.prems(1) by (force simp: no_prefix_fin_def dest: spec [of _ "Suc _"])
  ultimately show ?case using Cons.IH [of "acc @ [w]"] Cons.prems(2) by simp
qed simp

lemma call_ok_run_prompt:
  assumes "call_ok fn c" and "\<not> unfinished (c_phase c)"
  shows "run_prompt fn (c_accepted c) = Some (c_collected c)"
proof -
  from assms have c: "c_collected c \<noteq> []" "fn (c_collected c)" "no_prefix_fin fn (butlast (c_collected c))"
    "c_accepted c = c_collected c @ ch_buf (c_responses c)" by (simp_all add: call_ok_def)
  from c(1) obtain vs v where "c_collected c = vs @ [v]" by (metis rev_exhaust)
  with run_from_prefix [of fn "[]" vs v "ch_buf (c_responses c)"] c show ?thesis by (simp add: run_prompt_def)
qed

lemma run_prompt_Do: "run_prompt Do_fin vs = (case vs of [] \<Rightarrow> None | v # _ \<Rightarrow> Some [v])"
  by (simp add: run_prompt_def Do_fin_def split: list.splits)

text \<open>An active call can always be brought to its end by its own steps.\<close>

lemma waiting_releases:
  assumes "c_phase (q_calls q i) = Waiting"
  shows "\<exists>q'. (step fin)\<^sup>*\<^sup>* q q' \<and> q_sendMu q' = None"
proof -
  let ?q1 = "upd i (\<lambda>c. c\<lparr>c_phase := Returning (CtxErr Canceled)\<rparr>) q"
  let ?q2 = "upd i (\<lambda>c. c\<lparr>c_phase := Returned (CtxErr Canceled)\<rparr>) (?q1\<lparr>q_sendMu := None, q_waiter := None\<rparr>)"
  have "step fin q ?q1" by (rule step.ctx_done) (use assms in simp)
  moreover have "step fin ?q1 ?q2" by (rule step.release) simp
  ultimately show ?thesis by (intro exI [of _ ?q2]) auto
qed

lemma active_releases:
  assumes "active (c_phase (q_calls q i))"
  shows "\<exists>q'. (step fin)\<^sup>*\<^sup>* q q' \<and> q_sendMu q' = None"
proof (cases "c_phase (q_calls q i)")
  case Sending
  let ?q1 = "upd i (\<lambda>c. c\<lparr>c_phase := Waiting\<rparr>) q"
  have "step fin q ?q1" by (rule step.sent) (use Sending in simp)
  moreover from waiting_releases [of ?q1 i "fin"] obtain q' where "(step fin)\<^sup>*\<^sup>* ?q1 q'" "q_sendMu q' = None" by auto
  ultimately show ?thesis by (metis converse_rtranclp_into_rtranclp)
next
  case (Returning r)
  let ?q1 = "upd i (\<lambda>c. c\<lparr>c_phase := Returned r\<rparr>) (q\<lparr>q_sendMu := None, q_waiter := None\<rparr>)"
  have "step fin q ?q1" by (rule step.release) (use Returning in simp)
  then show ?thesis by (intro exI [of _ ?q1]) auto
qed (use assms waiting_releases in auto)

lemma reachable_steps: "(step fin)\<^sup>*\<^sup>* q q' \<Longrightarrow> reachable fin q \<Longrightarrow> reachable fin q'"
  by (induction rule: rtranclp_induct) (auto intro: reachable.further)

text \<open>Two runs. In the first a single call is answered. In the second a call times out after its
  command was sent, the next call registers, and the late response is accepted for that call
  although its own command was not sent yet: responses carry no correlation.\<close>

lemmas run_simps = New_queue_def new_call_def deliver_to_def try_send_def try_recv_def streamBuffer_def Do_fin_def

lemma answered_call:
  "\<exists>q :: ('v, 'e) queue. reachable (\<lambda>_. Do_fin) q \<and> c_phase (q_calls q 0) = Returned Completed \<and>
     c_accepted (q_calls q 0) = [v] \<and> c_collected (q_calls q 0) = [v]"
proof -
  let ?r = "reachable (\<lambda>_. Do_fin) :: ('v, 'e) queue \<Rightarrow> bool"
  let ?q1 = "upd 0 (\<lambda>c. c\<lparr>c_phase := Sending\<rparr>) ((New_queue :: ('v, 'e) queue)\<lparr>q_sendMu := Some 0, q_waiter := Some 0\<rparr>)"
  let ?q2 = "upd 0 (\<lambda>c. c\<lparr>c_phase := Waiting\<rparr>) ?q1"
  let ?q3 = "?q2\<lparr>q_loaded := Some (q_waiter ?q2, v)\<rparr>"
  let ?q4 = "upd 0 (deliver_to v) (?q3\<lparr>q_loaded := None\<rparr>)"
  have 1: "?r ?q1" by (rule reachable.further [OF reachable.start step.acquire]) (simp_all add: run_simps)
  have 2: "?r ?q2" by (rule reachable.further [OF 1 step.sent]) simp
  have 3: "?r ?q3" by (rule reachable.further [OF 2 step.load]) (simp add: run_simps)
  have 4: "?r ?q4" by (rule reachable.further [OF 3 step.deliver]) simp
  let ?ch = "snd (try_recv (c_responses (q_calls ?q4 0)))"
  let ?q5 = "upd 0 (\<lambda>c. c\<lparr>c_responses := ?ch, c_collected := c_collected c @ [v],
    c_phase := (if Do_fin (c_collected c @ [v]) then Returning Completed else Waiting)\<rparr>) ?q4"
  let ?q6 = "upd 0 (\<lambda>c. c\<lparr>c_phase := Returned Completed\<rparr>) (?q5\<lparr>q_sendMu := None, q_waiter := None\<rparr>)"
  have 5: "?r ?q5" by (rule reachable.further [OF 4 step.collect]) (simp_all add: run_simps)
  have 6: "?r ?q6" by (rule reachable.further [OF 5 step.release]) (simp add: run_simps)
  show ?thesis by (rule exI [of _ ?q6]) (use 6 in \<open>simp add: run_simps\<close>)
qed

lemma late_response_goes_to_next_call:
  "\<exists>q :: ('v, 'e) queue. reachable (\<lambda>_. Do_fin) q \<and>
     c_phase (q_calls q 0) = Returned (CtxErr DeadlineExceeded) \<and>
     c_phase (q_calls q 1) = Sending \<and> c_accepted (q_calls q 1) = [v]"
proof -
  let ?r = "reachable (\<lambda>_. Do_fin) :: ('v, 'e) queue \<Rightarrow> bool"
  let ?q1 = "upd 0 (\<lambda>c. c\<lparr>c_phase := Sending\<rparr>) ((New_queue :: ('v, 'e) queue)\<lparr>q_sendMu := Some 0, q_waiter := Some 0\<rparr>)"
  let ?q2 = "upd 0 (\<lambda>c. c\<lparr>c_phase := Waiting\<rparr>) ?q1"
  let ?q3 = "upd 0 (\<lambda>c. c\<lparr>c_phase := Returning (CtxErr DeadlineExceeded)\<rparr>) ?q2"
  let ?q4 = "upd 0 (\<lambda>c. c\<lparr>c_phase := Returned (CtxErr DeadlineExceeded)\<rparr>) (?q3\<lparr>q_sendMu := None, q_waiter := None\<rparr>)"
  let ?q5 = "upd 1 (\<lambda>c. c\<lparr>c_phase := Sending\<rparr>) (?q4\<lparr>q_sendMu := Some 1, q_waiter := Some 1\<rparr>)"
  let ?q6 = "?q5\<lparr>q_loaded := Some (q_waiter ?q5, v)\<rparr>"
  let ?q7 = "upd 1 (deliver_to v) (?q6\<lparr>q_loaded := None\<rparr>)"
  have 1: "?r ?q1" by (rule reachable.further [OF reachable.start step.acquire]) (simp_all add: run_simps)
  have 2: "?r ?q2" by (rule reachable.further [OF 1 step.sent]) simp
  have 3: "?r ?q3" by (rule reachable.further [OF 2 step.ctx_done]) simp
  have 4: "?r ?q4" by (rule reachable.further [OF 3 step.release]) simp
  have 5: "?r ?q5" by (rule reachable.further [OF 4 step.acquire]) (simp_all add: run_simps)
  have 6: "?r ?q6" by (rule reachable.further [OF 5 step.load]) (simp add: run_simps)
  have 7: "?r ?q7" by (rule reachable.further [OF 6 step.deliver]) simp
  show ?thesis by (rule exI [of _ ?q7]) (use 7 in \<open>simp add: run_simps\<close>)
qed

section \<open>Properties\<close>

text \<open>C3: Requests are served one at a time and in order. In every reachable state at most one call
  is active, and it is the one \<open>Deliver\<close> routes to; the responses accepted for a call are those its
  collector was fed followed by those still buffered, at most \<open>streamBuffer\<close>; a call that completed
  was fed the shortest run of its responses that completes it, as if it ran alone; and a call fails
  with an overflow only after at least \<open>streamBuffer\<close> responses were accepted for it.\<close>

theorem queue_serves_in_order:
  assumes "reachable fin q"
  shows "(\<forall>i j. active (c_phase (q_calls q i)) \<longrightarrow> active (c_phase (q_calls q j)) \<longrightarrow> i = j) \<and>
    (\<forall>i. active (c_phase (q_calls q i)) \<longleftrightarrow> q_waiter q = Some i) \<and>
    (\<forall>i. c_accepted (q_calls q i) = c_collected (q_calls q i) @ ch_buf (c_responses (q_calls q i)) \<and>
         length (ch_buf (c_responses (q_calls q i))) \<le> streamBuffer) \<and>
    (\<forall>i. c_phase (q_calls q i) = Returned Completed \<longrightarrow>
         run_prompt (fin i) (c_accepted (q_calls q i)) = Some (c_collected (q_calls q i))) \<and>
    (\<forall>i. c_phase (q_calls q i) = Returned ErrResponseOverflow \<longrightarrow>
         streamBuffer \<le> length (c_accepted (q_calls q i)))"
proof -
  from reachable_queue_ok [OF assms] have ok: "queue_ok fin q" .
  then have c: "\<And>i. call_ok (fin i) (q_calls q i)" by (simp add: queue_ok_def)
  have "run_prompt (fin i) (c_accepted (q_calls q i)) = Some (c_collected (q_calls q i))"
    if "c_phase (q_calls q i) = Returned Completed" for i
    using call_ok_run_prompt [OF c [of i]] that by simp
  moreover have "c_accepted (q_calls q i) = c_collected (q_calls q i) @ ch_buf (c_responses (q_calls q i))"
    "length (ch_buf (c_responses (q_calls q i))) \<le> streamBuffer"
    "c_phase (q_calls q i) = Returned ErrResponseOverflow \<longrightarrow> streamBuffer \<le> length (c_accepted (q_calls q i))" for i
    using c [of i] by (auto simp: call_ok_def chan_ok_def)
  moreover have "active (c_phase (q_calls q i)) \<longleftrightarrow> q_waiter q = Some i" for i
    using ok by (simp add: queue_ok_def)
  ultimately show ?thesis by simp
qed

theorem queue_serves_in_order_witness:
  "\<exists>q :: (int, int) queue. reachable (\<lambda>_. Do_fin) q \<and> c_phase (q_calls q 0) = Returned Completed \<and>
     run_prompt Do_fin (c_accepted (q_calls q 0)) = Some (c_collected (q_calls q 0))"
  using answered_call [of 7] queue_serves_in_order [of "\<lambda>_. Do_fin :: int list \<Rightarrow> bool"] by blast

text \<open>A \<open>Do\<close> call returns the first response accepted for it.\<close>

theorem Do_returns_first_response:
  assumes "reachable fin q" and "fin i = Do_fin" and "c_phase (q_calls q i) = Returned Completed"
  shows "\<exists>v rest. c_collected (q_calls q i) = [v] \<and> c_accepted (q_calls q i) = v # rest"
proof -
  from reachable_queue_ok [OF assms(1)] have "call_ok Do_fin (q_calls q i)"
    using assms(2) by (metis queue_ok_def)
  from call_ok_run_prompt [OF this] assms(3) show ?thesis
    by (auto simp: run_prompt_Do split: list.splits)
qed

theorem Do_returns_first_response_witness:
  "\<exists>(q :: (int, int) queue) v rest. reachable (\<lambda>_. Do_fin) q \<and>
     c_collected (q_calls q 0) = [v] \<and> c_accepted (q_calls q 0) = v # rest"
  using answered_call [of 7] Do_returns_first_response [of "\<lambda>_. Do_fin :: int list \<Rightarrow> bool" _ 0] by blast

text \<open>The queue cannot get stuck. From every reachable state the steps of the calls lead to a
  reachable state in which the send lock is free and no waiter is registered, so a pending call can
  start; and the read loop is never blocked: a loaded response can always be disposed of.\<close>

theorem queue_never_stuck:
  assumes "reachable fin q"
  shows "(\<exists>q'. (step fin)\<^sup>*\<^sup>* q q' \<and> reachable fin q' \<and> q_sendMu q' = None \<and> q_waiter q' = None) \<and>
    (\<exists>q'. q_loaded q \<noteq> None \<longrightarrow> step fin q q' \<and> q_loaded q' = None)"
proof (rule conjI)
  have ok: "queue_ok fin q" by (rule reachable_queue_ok [OF assms])
  have "\<exists>q'. (step fin)\<^sup>*\<^sup>* q q' \<and> q_sendMu q' = None"
  proof (cases "q_sendMu q")
    case (Some i)
    with ok have "active (c_phase (q_calls q i))" by (simp add: queue_ok_def)
    then show ?thesis by (rule active_releases)
  qed auto
  then obtain q' where q': "(step fin)\<^sup>*\<^sup>* q q'" "q_sendMu q' = None" by blast
  with assms have "reachable fin q'" by (metis reachable_steps)
  with q' reachable_queue_ok [of "fin" q']
  show "\<exists>q'. (step fin)\<^sup>*\<^sup>* q q' \<and> reachable fin q' \<and> q_sendMu q' = None \<and> q_waiter q' = None"
    by (auto simp: queue_ok_def)
next
  show "\<exists>q'. q_loaded q \<noteq> None \<longrightarrow> step fin q q' \<and> q_loaded q' = None"
  proof (cases "q_loaded q")
    case (Some wv)
    obtain w v where wv: "wv = (w, v)" by force
    show ?thesis
    proof (cases w)
      case None
      with Some wv have "step fin q (q\<lparr>q_loaded := None\<rparr>)" by (simp add: step.no_waiter)
      then show ?thesis by (intro exI [of _ "q\<lparr>q_loaded := None\<rparr>"]) simp
    next
      case (Some i)
      with \<open>q_loaded q = Some wv\<close> wv have "step fin q (upd i (deliver_to v) (q\<lparr>q_loaded := None\<rparr>))"
        by (simp add: step.deliver)
      then show ?thesis by (intro exI [of _ "upd i (deliver_to v) (q\<lparr>q_loaded := None\<rparr>)"]) simp
    qed
  qed simp
qed

theorem queue_never_stuck_witness:
  "\<exists>q'. (step (\<lambda>_. Do_fin))\<^sup>*\<^sup>* (New_queue :: (int, int) queue) q' \<and> q_waiter q' = None"
  using queue_never_stuck [OF reachable.start, of "\<lambda>_. Do_fin :: int list \<Rightarrow> bool"] by blast

end
