(* ===== verification/Dispatcher.thy ===== *)
theory Dispatcher
  imports Go_Channel "HOL-Library.AList"
begin

text \<open>
  \<open>internal/dispatcher/dispatcher.go\<close>: fan-out of events to subscribers. A channel is an address in
  \<open>d_heap\<close>, since a subscriber keeps its channel after it is removed from the map \<open>d_subs\<close>. Go visits
  a map in no fixed order; \<open>d_subs\<close> lists the entries in some order, and \<open>emit_to_content\<close> shows that
  the order has no influence. \<open>None\<close> is a panic (a send on a closed channel, a second close).
\<close>

section \<open>Model\<close>

record 'a dispatcher =
  d_heap :: "'a chan list"
  d_subs :: "(64 word \<times> nat) list"
  d_nextID :: "64 word"
  d_closed :: bool
  d_closeOnce :: bool

definition New_dispatcher :: "'a dispatcher" where
  "New_dispatcher = \<lparr>d_heap = [], d_subs = [], d_nextID = 0, d_closed = False, d_closeOnce = False\<rparr>"

text \<open>\<open>Subscribe\<close> returns the address of the channel and, unless the dispatcher is closed, the
  identifier its cancel function removes.\<close>

definition Subscribe :: "int \<Rightarrow> 'a dispatcher \<Rightarrow> nat \<times> 64 word option \<times> 'a dispatcher" where
  "Subscribe buffer d =
     (let buffer = (if buffer < 1 then 1 else buffer); a = length (d_heap d) in
      if d_closed d then
        (a, None, d\<lparr>d_heap := d_heap d @ [(make_chan 0)\<lparr>ch_open := False\<rparr>]\<rparr>)
      else
        (a, Some (d_nextID d),
         d\<lparr>d_heap := d_heap d @ [make_chan (nat buffer)],
           d_subs := AList.update (d_nextID d) a (d_subs d),
           d_nextID := d_nextID d + 1\<rparr>))"

definition close_at :: "nat \<Rightarrow> 'a chan list \<Rightarrow> 'a chan list option" where
  "close_at a h = do { c \<leftarrow> idx h a; c' \<leftarrow> chan_close c; Some (h[a := c']) }"

definition unsubscribe :: "64 word \<Rightarrow> 'a dispatcher \<Rightarrow> 'a dispatcher option" where
  "unsubscribe i d =
     (case map_of (d_subs d) i of
        None \<Rightarrow> Some d
      | Some a \<Rightarrow>
          do {
            h \<leftarrow> close_at a (d_heap d);
            Some (d\<lparr>d_subs := AList.delete i (d_subs d), d_heap := h\<rparr>)
          })"

text \<open>The function \<open>Subscribe\<close> hands out for cancelling.\<close>

definition cancel :: "64 word option \<Rightarrow> 'a dispatcher \<Rightarrow> 'a dispatcher option" where
  "cancel i d = (case i of None \<Rightarrow> Some d | Some i \<Rightarrow> unsubscribe i d)"

fun emit_to :: "'a \<Rightarrow> nat list \<Rightarrow> 'a chan list \<Rightarrow> 'a chan list option" where
  "emit_to ev [] h = Some h"
| "emit_to ev (a # as) h =
     do { c \<leftarrow> idx h a; c' \<leftarrow> send_drop_oldest ev c; emit_to ev as (h[a := c']) }"

definition Emit :: "'a \<Rightarrow> 'a dispatcher \<Rightarrow> 'a dispatcher option" where
  "Emit ev d =
     (if d_closed d then Some d
      else do { h \<leftarrow> emit_to ev (map snd (d_subs d)) (d_heap d); Some (d\<lparr>d_heap := h\<rparr>) })"

fun close_all :: "nat list \<Rightarrow> 'a chan list \<Rightarrow> 'a chan list option" where
  "close_all [] h = Some h"
| "close_all (a # as) h = do { h' \<leftarrow> close_at a h; close_all as h' }"

definition Close :: "'a dispatcher \<Rightarrow> 'a dispatcher option" where
  "Close d =
     (if d_closeOnce d then Some d
      else do {
        h \<leftarrow> close_all (map snd (d_subs d)) (d_heap d);
        Some (d\<lparr>d_closeOnce := True, d_closed := True, d_heap := h, d_subs := []\<rparr>)
      })"

text \<open>A subscriber takes the next event of its channel.\<close>

definition Receive :: "nat \<Rightarrow> 'a dispatcher \<Rightarrow> ('a received \<times> 'a dispatcher) option" where
  "Receive a d =
     do { c \<leftarrow> idx (d_heap d) a; let (r, c') = try_recv c; Some (r, d\<lparr>d_heap := (d_heap d)[a := c']\<rparr>) }"

section \<open>Invariant\<close>

text \<open>Every registered channel exists, is open, has room for at least one event and belongs to one
  subscriber; no buffer exceeds its capacity; a closed dispatcher has no subscriber.\<close>

definition dispatcher_ok :: "'a dispatcher \<Rightarrow> bool" where
  "dispatcher_ok d \<longleftrightarrow>
     distinct (map fst (d_subs d)) \<and> distinct (map snd (d_subs d)) \<and>
     (\<forall>a \<in> snd ` set (d_subs d). a < length (d_heap d) \<and> live_chan (d_heap d ! a)) \<and>
     list_all chan_ok (d_heap d) \<and>
     (d_closed d \<longrightarrow> d_subs d = []) \<and> d_closeOnce d = d_closed d"

lemma dispatcher_ok_New [simp]: "dispatcher_ok New_dispatcher"
  by (simp add: dispatcher_ok_def New_dispatcher_def)

lemma live_send:
  "live_chan c \<Longrightarrow> \<exists>c'. send_drop_oldest v c = Some c' \<and> live_chan c' \<and>
     ch_buf c' = drop (Suc (length (ch_buf c)) - ch_cap c) (ch_buf c) @ [v] \<and> ch_cap c' = ch_cap c"
  using chan_buffer.push_ok [of c v] by blast

lemma live_chan_ok: "live_chan c \<Longrightarrow> chan_ok c"
  by (simp add: live_chan_def)

lemma list_all_update: "list_all P xs \<Longrightarrow> P x \<Longrightarrow> list_all P (xs[i := x])"
  by (auto simp: list_all_iff dest!: set_update_subset_insert [THEN subsetD])

text \<open>What an event sent to a set of channels leaves in them.\<close>

definition emitted :: "'a \<Rightarrow> 'a chan \<Rightarrow> 'a chan" where
  "emitted ev c = c\<lparr>ch_buf := drop (Suc (length (ch_buf c)) - ch_cap c) (ch_buf c) @ [ev]\<rparr>"

lemma live_send_emitted: "live_chan c \<Longrightarrow> send_drop_oldest v c = Some (emitted v c)"
  by (simp add: live_chan_def send_drop_oldest_open emitted_def)

lemma live_emitted: "live_chan c \<Longrightarrow> live_chan (emitted v c)"
  using live_send live_send_emitted by fastforce

lemma emit_to_content:
  assumes "distinct as" and "\<forall>a \<in> set as. a < length h \<and> live_chan (h ! a)"
  shows "emit_to ev as h = Some (map (\<lambda>a. if a \<in> set as then emitted ev (h ! a) else h ! a) [0..<length h])"
  using assms
proof (induction as arbitrary: h)
  case Nil
  then show ?case by (simp add: map_nth)
next
  case (Cons a as)
  let ?h = "h[a := emitted ev (h ! a)]"
  have "emit_to ev as ?h = Some (map (\<lambda>x. if x \<in> set as then emitted ev (?h ! x) else ?h ! x) [0..<length ?h])"
    using Cons.prems by (intro Cons.IH) (auto simp: nth_list_update)
  also have "map (\<lambda>x. if x \<in> set as then emitted ev (?h ! x) else ?h ! x) [0..<length ?h] =
      map (\<lambda>x. if x \<in> set (a # as) then emitted ev (h ! x) else h ! x) [0..<length h]"
    using Cons.prems by (auto simp: nth_list_update)
  finally show ?case using Cons.prems by (simp add: idx_def live_send_emitted)
qed

lemma close_at_live:
  assumes "a < length h" and "live_chan (h ! a)"
  shows "close_at a h = Some (h[a := (h ! a)\<lparr>ch_open := False\<rparr>])"
  using assms by (simp add: close_at_def idx_def chan_close_def live_chan_def)

lemma close_all_live:
  assumes "distinct as" and "\<forall>a \<in> set as. a < length h \<and> live_chan (h ! a)"
  shows "\<exists>h'. close_all as h = Some h' \<and> length h' = length h \<and>
    (\<forall>a < length h. h' ! a = (if a \<in> set as then (h ! a)\<lparr>ch_open := False\<rparr> else h ! a))"
  using assms
proof (induction as arbitrary: h)
  case (Cons a as)
  let ?h = "h[a := (h ! a)\<lparr>ch_open := False\<rparr>]"
  from Cons.prems have "\<forall>b \<in> set as. b < length ?h \<and> live_chan (?h ! b)" by (auto simp: nth_list_update)
  with Cons.IH [of ?h] Cons.prems obtain h' where "close_all as ?h = Some h'" "length h' = length h"
    "\<forall>b < length h. h' ! b = (if b \<in> set as then (?h ! b)\<lparr>ch_open := False\<rparr> else ?h ! b)" by auto
  with Cons.prems show ?case by (auto simp: close_at_live nth_list_update)
qed simp

section \<open>Operations\<close>

lemma subs_live:
  "dispatcher_ok d \<Longrightarrow> \<forall>a \<in> set (map snd (d_subs d)). a < length (d_heap d) \<and> live_chan (d_heap d ! a)"
  by (simp add: dispatcher_ok_def)

lemma Emit_ok:
  assumes "dispatcher_ok d"
  shows "Emit ev d = Some (if d_closed d then d
    else d\<lparr>d_heap := map (\<lambda>a. if a \<in> snd ` set (d_subs d) then emitted ev (d_heap d ! a) else d_heap d ! a)
                      [0..<length (d_heap d)]\<rparr>)"
proof -
  have "distinct (map snd (d_subs d))" using assms by (simp add: dispatcher_ok_def)
  from emit_to_content [OF this subs_live [OF assms]] show ?thesis by (simp add: Emit_def)
qed

lemma dispatcher_ok_Emit:
  assumes ok: "dispatcher_ok d" and "Emit ev d = Some d'"
  shows "dispatcher_ok d'"
proof (cases "d_closed d")
  case True
  then show ?thesis using assms by (simp add: Emit_def)
next
  case False
  let ?f = "\<lambda>a. if a \<in> snd ` set (d_subs d) then emitted ev (d_heap d ! a) else d_heap d ! a"
  have d': "d' = d\<lparr>d_heap := map ?f [0..<length (d_heap d)]\<rparr>"
    using Emit_ok [OF ok, of ev] assms(2) False by simp
  have live: "\<forall>a \<in> snd ` set (d_subs d). a < length (d_heap d) \<and> live_chan (d_heap d ! a)"
    using subs_live [OF ok] by simp
  have "list_all chan_ok (map ?f [0..<length (d_heap d)])"
    using live ok by (auto simp: dispatcher_ok_def list_all_length intro: live_chan_ok live_emitted)
  with ok False live show ?thesis by (simp add: d' dispatcher_ok_def live_emitted)
qed

lemma subs_update:
  "set (AList.update i a xs) \<subseteq> insert (i, a) (set xs)"
  by (induction xs) auto

lemma distinct_snd_update:
  "distinct (map snd xs) \<Longrightarrow> a \<notin> snd ` set xs \<Longrightarrow> distinct (map snd (AList.update i a xs))"
proof (induction xs)
  case (Cons x xs)
  then show ?case using subs_update [of i a xs] by (cases x) force
qed simp

lemma dispatcher_ok_Subscribe:
  assumes ok: "dispatcher_ok d" and "Subscribe n d = (a, i, d')"
  shows "dispatcher_ok d' \<and> a = length (d_heap d) \<and> a < length (d_heap d') \<and>
    (i = None \<longrightarrow> ch_buf (d_heap d' ! a) = [] \<and> \<not> ch_open (d_heap d' ! a)) \<and>
    (\<forall>k. i = Some k \<longrightarrow> map_of (d_subs d') k = Some a \<and> d_heap d' ! a = make_chan (nat (max 1 n)))"
proof (cases "d_closed d")
  case True
  with assms show ?thesis
    by (auto simp: Subscribe_def dispatcher_ok_def chan_ok_def Let_def)
next
  case False
  let ?subs = "AList.update (d_nextID d) a (d_subs d)"
  from assms False have a: "a = length (d_heap d)" and i: "i = Some (d_nextID d)"
    and d': "d' = d\<lparr>d_heap := d_heap d @ [make_chan (nat (max 1 n))], d_subs := ?subs, d_nextID := d_nextID d + 1\<rparr>"
    by (auto simp: Subscribe_def Let_def max_def split: if_splits)
  have live: "live_chan (make_chan (nat (max 1 n)) :: 'a chan)" by (simp add: live_chan_def)
  have fresh: "a \<notin> snd ` set (d_subs d)" using ok a by (auto simp: dispatcher_ok_def)
  have "\<forall>b \<in> snd ` set ?subs. b < length (d_heap d') \<and> live_chan (d_heap d' ! b)"
    using subs_update [of "d_nextID d" a "d_subs d"] subs_live [OF ok] live a d'
    by (fastforce simp: nth_append)
  moreover have "distinct (map fst ?subs)" using ok by (simp add: dispatcher_ok_def distinct_update)
  moreover have "distinct (map snd ?subs)" using ok fresh by (simp add: dispatcher_ok_def distinct_snd_update)
  ultimately have "dispatcher_ok d'"
    using ok False d' by (simp add: dispatcher_ok_def live_chan_def)
  with a i d' show ?thesis by (simp add: update_conv)
qed

lemma snd_delete: "snd ` set (AList.delete i xs) \<subseteq> snd ` set xs"
  by (auto simp: AList.delete_eq)

lemma removed_not_in_rest:
  assumes "distinct (map snd xs)" and "map_of xs i = Some a" shows "a \<notin> snd ` set (AList.delete i xs)"
proof
  assume "a \<in> snd ` set (AList.delete i xs)"
  then obtain k where "(k, a) \<in> set xs" "k \<noteq> i" by (auto simp: AList.delete_eq)
  moreover have "(i, a) \<in> set xs" using assms(2) by (rule map_of_SomeD)
  moreover have "inj_on snd (set xs)" using assms(1) by (simp add: distinct_map)
  ultimately show False by (metis inj_on_eq_iff snd_conv prod.inject)
qed

lemma distinct_delete_both:
  assumes "distinct (map fst xs)" and "distinct (map snd xs)"
  shows "distinct (map fst (AList.delete i xs))" "distinct (map snd (AList.delete i xs))"
  using assms by (simp_all add: AList.delete_eq distinct_map_filter)

lemma unsubscribe_ok:
  assumes ok: "dispatcher_ok d"
  shows "\<exists>d'. unsubscribe i d = Some d' \<and> dispatcher_ok d' \<and> map_of (d_subs d') i = None \<and>
    (\<forall>a. map_of (d_subs d) i = Some a \<longrightarrow>
       \<not> ch_open (d_heap d' ! a) \<and> ch_buf (d_heap d' ! a) = ch_buf (d_heap d ! a)) \<and>
    (\<forall>k. k \<noteq> i \<longrightarrow> map_of (d_subs d') k = map_of (d_subs d) k)"
proof (cases "map_of (d_subs d) i")
  case None
  then show ?thesis using ok by (simp add: unsubscribe_def)
next
  case (Some a)
  let ?h = "(d_heap d)[a := (d_heap d ! a)\<lparr>ch_open := False\<rparr>]"
  let ?d = "d\<lparr>d_subs := AList.delete i (d_subs d), d_heap := ?h\<rparr>"
  have live: "\<And>b. b \<in> snd ` set (d_subs d) \<Longrightarrow> b < length (d_heap d) \<and> live_chan (d_heap d ! b)"
    using subs_live [OF ok] by auto
  from Some have "a \<in> snd ` set (d_subs d)" by (force dest: map_of_SomeD)
  from live [OF this] have a: "a < length (d_heap d)" "live_chan (d_heap d ! a)" by auto
  then have "unsubscribe i d = Some ?d" using Some by (simp add: unsubscribe_def close_at_live)
  moreover have "a \<notin> snd ` set (AList.delete i (d_subs d))"
    using ok Some by (intro removed_not_in_rest) (simp_all add: dispatcher_ok_def)
  then have "b < length ?h \<and> live_chan (?h ! b)" if "b \<in> snd ` set (AList.delete i (d_subs d))" for b
    using snd_delete [of i "d_subs d"] live [of b] that by (cases "b = a") (simp_all add: subset_iff)
  moreover have "distinct (map snd (AList.delete i (d_subs d)))" "distinct (map fst (AList.delete i (d_subs d)))"
    using ok distinct_delete_both [of "d_subs d" i] by (simp_all add: dispatcher_ok_def)
  moreover have "list_all chan_ok ?h"
    using ok a by (intro list_all_update) (auto simp: dispatcher_ok_def live_chan_def chan_ok_def)
  moreover have "d_closed d \<longrightarrow> AList.delete i (d_subs d) = []" using ok by (simp add: dispatcher_ok_def)
  ultimately have "unsubscribe i d = Some ?d" "dispatcher_ok ?d"
    using ok unfolding dispatcher_ok_def by simp_all
  with a Some show ?thesis by (simp add: delete_conv)
qed

lemma Close_ok:
  assumes ok: "dispatcher_ok d"
  shows "\<exists>d'. Close d = Some d' \<and> dispatcher_ok d' \<and> d_closed d' \<and> d_subs d' = [] \<and>
    (\<forall>a < length (d_heap d). ch_buf (d_heap d' ! a) = ch_buf (d_heap d ! a) \<and>
       (a \<in> snd ` set (d_subs d) \<longrightarrow> \<not> ch_open (d_heap d' ! a)))"
proof (cases "d_closed d")
  case True
  then show ?thesis using ok by (auto simp: Close_def dispatcher_ok_def)
next
  case False
  have "distinct (map snd (d_subs d))" using ok by (simp add: dispatcher_ok_def)
  from close_all_live [OF this subs_live [OF ok]] obtain h' where
    h': "close_all (map snd (d_subs d)) (d_heap d) = Some h'" "length h' = length (d_heap d)"
    and n: "\<forall>a < length (d_heap d). h' ! a =
      (if a \<in> set (map snd (d_subs d)) then (d_heap d ! a)\<lparr>ch_open := False\<rparr> else d_heap d ! a)" by blast
  have "list_all chan_ok h'"
    using ok h'(2) n by (auto simp: list_all_length dispatcher_ok_def chan_ok_def)
  with h' n False ok show ?thesis by (simp add: Close_def dispatcher_ok_def)
qed

lemma Receive_ok:
  assumes "dispatcher_ok d" and "Receive a d = Some (r, d')"
  shows "dispatcher_ok d'"
proof -
  obtain c c' where c: "a < length (d_heap d)" "c = d_heap d ! a" "try_recv c = (r, c')"
    and d': "d' = d\<lparr>d_heap := (d_heap d)[a := c']\<rparr>"
    using assms(2) by (auto simp: Receive_def idx_def Let_def split: prod.splits if_splits)
  from assms(1) c have "chan_ok c" by (auto simp: dispatcher_ok_def list_all_length)
  with c(3) have c': "chan_ok c'" "ch_open c' = ch_open c" "ch_cap c' = ch_cap c"
    by (auto simp: try_recv_def chan_ok_def split: list.splits)
  have "\<forall>b \<in> snd ` set (d_subs d). b < length (d_heap d') \<and> live_chan (d_heap d' ! b)"
    using subs_live [OF assms(1)] c c' d' by (auto simp: nth_list_update live_chan_def)
  moreover have "list_all chan_ok (d_heap d')"
    using assms(1) c' d' by (simp add: dispatcher_ok_def list_all_update)
  ultimately show ?thesis using assms(1) d' by (simp add: dispatcher_ok_def)
qed

section \<open>Every subscriber is a drop-oldest buffer\<close>

definition subscribed :: "nat \<Rightarrow> 'a dispatcher \<Rightarrow> bool" where
  "subscribed a d \<longleftrightarrow> dispatcher_ok d \<and> a \<in> snd ` set (d_subs d)"

lemma subscribed_live: "subscribed a d \<Longrightarrow> a < length (d_heap d) \<and> live_chan (d_heap d ! a) \<and> \<not> d_closed d"
  unfolding subscribed_def dispatcher_ok_def by (elim conjE, drule (1) bspec) auto

lemma Emit_subscribed:
  assumes "subscribed a d"
  shows "\<exists>d'. Emit ev d = Some d' \<and> subscribed a d' \<and> d_heap d' ! a = emitted ev (d_heap d ! a)"
proof -
  have ok: "dispatcher_ok d" and a: "a \<in> snd ` set (d_subs d)" using assms by (simp_all add: subscribed_def)
  from Emit_ok [OF ok, of ev] obtain d' where d': "Emit ev d = Some d'" by blast
  with Emit_ok [OF ok, of ev] subscribed_live [OF assms] a
  have "d_subs d' = d_subs d" "d_heap d' ! a = emitted ev (d_heap d ! a)" by auto
  with d' dispatcher_ok_Emit [OF ok d'] a show ?thesis by (simp add: subscribed_def)
qed

interpretation subscriber: drop_oldest_buffer
  "\<lambda>d. ch_buf (d_heap d ! a)" "\<lambda>d. ch_cap (d_heap d ! a)" "subscribed a" Emit for a
proof unfold_locales
  fix d :: "'a dispatcher"
  assume "subscribed a d"
  then show "0 < ch_cap (d_heap d ! a) \<and> length (ch_buf (d_heap d ! a)) \<le> ch_cap (d_heap d ! a)"
    using subscribed_live [of a d] by (simp add: live_chan_def chan_ok_def)
next
  fix d :: "'a dispatcher" and v
  assume "subscribed a d"
  from Emit_subscribed [OF this, of v] show "\<exists>d'. Emit v d = Some d' \<and> subscribed a d' \<and>
      ch_cap (d_heap d' ! a) = ch_cap (d_heap d ! a) \<and>
      ch_buf (d_heap d' ! a) =
        drop (Suc (length (ch_buf (d_heap d ! a))) - ch_cap (d_heap d ! a)) (ch_buf (d_heap d ! a)) @ [v]"
    by (auto simp: emitted_def)
qed

section \<open>Sequences of operations\<close>

text \<open>Whatever a client does with a dispatcher. A receive names a channel that was handed out.\<close>

datatype 'a dispatcher_op =
    DoSubscribe int
  | DoCancel "64 word option"
  | DoEmit 'a
  | DoReceive nat
  | DoClose

fun run_op :: "'a dispatcher_op \<Rightarrow> 'a dispatcher \<Rightarrow> 'a dispatcher option" where
  "run_op (DoSubscribe n) d = Some (snd (snd (Subscribe n d)))"
| "run_op (DoCancel i) d = cancel i d"
| "run_op (DoEmit ev) d = Emit ev d"
| "run_op (DoReceive a) d = (if a < length (d_heap d) then map_option snd (Receive a d) else Some d)"
| "run_op DoClose d = Close d"

fun run_ops :: "'a dispatcher_op list \<Rightarrow> 'a dispatcher \<Rightarrow> 'a dispatcher option" where
  "run_ops [] d = Some d"
| "run_ops (x # xs) d = Option.bind (run_op x d) (run_ops xs)"

fun emit_all :: "'a list \<Rightarrow> 'a dispatcher \<Rightarrow> 'a dispatcher option" where
  "emit_all [] d = Some d"
| "emit_all (v # vs) d = Option.bind (Emit v d) (emit_all vs)"

lemma emit_all_push_all: "emit_all vs d = subscriber.push_all vs d"
  by (induction vs arbitrary: d) (auto split: Option.bind_splits)

lemma run_op_ok:
  assumes ok: "dispatcher_ok d"
  shows "\<exists>d'. run_op x d = Some d' \<and> dispatcher_ok d'"
proof (cases x)
  case (DoSubscribe n)
  obtain a i d' where "Subscribe n d = (a, i, d')" by (metis prod_cases3)
  with dispatcher_ok_Subscribe [OF ok this] DoSubscribe show ?thesis by simp
next
  case (DoCancel i)
  show ?thesis
  proof (cases i)
    case (Some k)
    from unsubscribe_ok [OF ok, of k] DoCancel Some show ?thesis by (auto simp: cancel_def)
  qed (use ok DoCancel in \<open>simp add: cancel_def\<close>)
next
  case (DoEmit ev)
  then show ?thesis using Emit_ok [OF ok, of ev] dispatcher_ok_Emit [OF ok, of ev] by auto
next
  case (DoReceive a)
  obtain r c where "try_recv (d_heap d ! a) = (r, c)" by force
  then have "a < length (d_heap d) \<Longrightarrow> Receive a d = Some (r, d\<lparr>d_heap := (d_heap d)[a := c]\<rparr>)"
    by (simp add: Receive_def idx_def)
  with Receive_ok [OF ok, of a r] DoReceive ok show ?thesis by auto
next
  case DoClose
  then show ?thesis using Close_ok [OF ok] by auto
qed

lemma run_ops_ok: "dispatcher_ok d \<Longrightarrow> \<exists>d'. run_ops xs d = Some d' \<and> dispatcher_ok d'"
proof (induction xs arbitrary: d)
  case (Cons x xs)
  from run_op_ok [OF Cons.prems, of x] obtain d1 where "run_op x d = Some d1" "dispatcher_ok d1" by blast
  with Cons.IH [of d1] show ?case by simp
qed simp

section \<open>Properties\<close>

text \<open>C4: The dispatcher never panics. Any sequence of subscriptions, cancellations, emissions,
  receives and closes on a new dispatcher completes: no event is ever sent on a closed channel and
  no channel is closed twice. It ends in a state in which every registered channel is open and
  within its capacity.\<close>

theorem dispatcher_never_panics:
  "\<exists>d. run_ops ops New_dispatcher = Some d \<and> dispatcher_ok d"
  by (rule run_ops_ok) simp

text \<open>A slow subscriber loses only the oldest events. After any events are emitted, the channel
  of every subscriber holds exactly the most recent ones of what it held before followed by the
  new events, in order, up to its capacity; emitting never blocks and never fails.\<close>

theorem subscriber_keeps_newest:
  assumes "dispatcher_ok d" and "a \<in> snd ` set (d_subs d)"
  shows "\<exists>d'. emit_all evs d = Some d' \<and>
    ch_buf (d_heap d' ! a) =
      (let all = ch_buf (d_heap d ! a) @ evs in drop (length all - ch_cap (d_heap d ! a)) all)"
proof -
  have "subscribed a d" using assms by (simp add: subscribed_def)
  from subscriber.push_all_content [OF this, of evs] show ?thesis
    by (auto simp: emit_all_push_all Let_def)
qed

theorem subscriber_keeps_newest_witness:
  "\<exists>d'. emit_all [10, 20, 30 :: int] (snd (snd (Subscribe 2 New_dispatcher))) = Some d' \<and>
    ch_buf (d_heap d' ! 0) = [20, 30]"
proof -
  let ?d = "snd (snd (Subscribe 2 New_dispatcher)) :: int dispatcher"
  have d: "Subscribe 2 New_dispatcher = (0, Some 0, ?d)" and h: "d_heap ?d = [make_chan 2]"
    and s: "d_subs ?d = [(0, 0)]"
    by (simp_all add: Subscribe_def New_dispatcher_def Let_def)
  have "dispatcher_ok ?d" using dispatcher_ok_Subscribe [OF dispatcher_ok_New d] by simp
  from subscriber_keeps_newest [OF this, of 0 "[10, 20, 30]"] show ?thesis
    using h s by (simp add: Let_def)
qed

text \<open>Ending a subscription ends the stream. Cancelling closes exactly the channel of that
  subscriber, which keeps its buffered events, and leaves all others registered; closing the
  dispatcher does so for all, after which emitting changes nothing.\<close>

theorem unsubscribe_and_close_end_streams:
  assumes "dispatcher_ok d"
  shows "(\<exists>d'. unsubscribe i d = Some d' \<and> map_of (d_subs d') i = None \<and>
      (\<forall>a. map_of (d_subs d) i = Some a \<longrightarrow>
         \<not> ch_open (d_heap d' ! a) \<and> ch_buf (d_heap d' ! a) = ch_buf (d_heap d ! a)) \<and>
      (\<forall>k. k \<noteq> i \<longrightarrow> map_of (d_subs d') k = map_of (d_subs d) k)) \<and>
    (\<exists>d'. Close d = Some d' \<and> Emit ev d' = Some d' \<and>
      (\<forall>a \<in> snd ` set (d_subs d).
         \<not> ch_open (d_heap d' ! a) \<and> ch_buf (d_heap d' ! a) = ch_buf (d_heap d ! a)))"
proof (rule conjI)
  from Close_ok [OF assms] obtain d' where d': "Close d = Some d'" "d_closed d'"
    "\<forall>a < length (d_heap d). ch_buf (d_heap d' ! a) = ch_buf (d_heap d ! a) \<and>
       (a \<in> snd ` set (d_subs d) \<longrightarrow> \<not> ch_open (d_heap d' ! a))" by blast
  have "\<forall>a \<in> snd ` set (d_subs d). a < length (d_heap d)" using subs_live [OF assms] by simp
  with d' show "\<exists>d'. Close d = Some d' \<and> Emit ev d' = Some d' \<and>
      (\<forall>a \<in> snd ` set (d_subs d).
         \<not> ch_open (d_heap d' ! a) \<and> ch_buf (d_heap d' ! a) = ch_buf (d_heap d ! a))"
    by (auto simp: Emit_def)
qed (use unsubscribe_ok [OF assms] in blast)

theorem unsubscribe_and_close_end_streams_witness:
  "\<exists>d'. unsubscribe 0 (snd (snd (Subscribe 2 New_dispatcher)) :: int dispatcher) = Some d' \<and>
    \<not> ch_open (d_heap d' ! 0)"
proof -
  let ?d = "snd (snd (Subscribe 2 New_dispatcher)) :: int dispatcher"
  have d: "Subscribe 2 New_dispatcher = (0, Some 0, ?d)" and s: "d_subs ?d = [(0, 0)]"
    by (simp_all add: Subscribe_def New_dispatcher_def Let_def)
  have "dispatcher_ok ?d" using dispatcher_ok_Subscribe [OF dispatcher_ok_New d] by simp
  from unsubscribe_and_close_end_streams [OF this, of 0] s show ?thesis by auto
qed

end
