(* ===== verification/Client_Types.thy ===== *)
theory Client_Types
  imports Companion_Encode Pathhash Request_Queue Dispatcher
begin

text \<open>
  The data of the root package \<open>meshcore\<close> and its pure functions: contacts and their lookup
  (\<open>contacts.go\<close>), events and their translation (\<open>events.go\<close>), receipts and messages (\<open>messages.go\<close>),
  channels (\<open>channels.go\<close>), the errors of \<open>client.go\<close>.

  \<open>strings.ToLower\<close> and \<open>strings.EqualFold\<close> use the Unicode case tables; they are the fields of a
  \<open>unicode\<close> argument of every definition that calls them. \<open>unicode_ok\<close> states the documented behaviour
  that is used: both act on ASCII text by folding \<open>A-Z\<close>, and folding is an equivalence.
  \<open>ascii_text\<close> is the instance for ASCII text.
\<close>

section \<open>Case folding\<close>

record unicode =
  ToLower :: "string \<Rightarrow> string"
  EqualFold :: "string \<Rightarrow> string \<Rightarrow> bool"

definition is_ascii :: "string \<Rightarrow> bool" where
  "is_ascii s = list_all (\<lambda>c. of_char c < (128 :: nat)) s"

definition unicode_ok :: "unicode \<Rightarrow> bool" where
  "unicode_ok u \<longleftrightarrow>
     (\<forall>s. is_ascii s \<longrightarrow> ToLower u s = ascii_lower s) \<and>
     (\<forall>s t. is_ascii s \<longrightarrow> is_ascii t \<longrightarrow> EqualFold u s t = ascii_fold_eq s t) \<and>
     (\<forall>s. EqualFold u s s) \<and> (\<forall>s t. EqualFold u s t \<longrightarrow> EqualFold u t s) \<and>
     (\<forall>s t r. EqualFold u s t \<longrightarrow> EqualFold u t r \<longrightarrow> EqualFold u s r)"

definition ascii_text :: unicode where
  "ascii_text = \<lparr>ToLower = ascii_lower, EqualFold = ascii_fold_eq\<rparr>"

lemma unicode_ok_ascii: "unicode_ok ascii_text"
  by (simp add: unicode_ok_def ascii_text_def ascii_fold_eq_def)

section \<open>Contacts\<close>

text \<open>\<open>ContactUnset\<close> is the zero value of the string type, the empty string.\<close>

datatype contact_type = ContactUnset | ContactUnknown | ContactChat | ContactRepeater | ContactRoom | ContactSensor

definition contactType :: "byte \<Rightarrow> contact_type" where
  "contactType b =
     (if b = 1 then ContactChat else if b = 2 then ContactRepeater else if b = 3 then ContactRoom
      else if b = 4 then ContactSensor else ContactUnknown)"

record contact =
  ct_Name :: string
  ct_PublicKey :: string
  ct_Type :: contact_type
  ct_HasPath :: bool
  ct_OutPathEnc :: byte
  ct_OutPath :: bytes
  ct_Latitude :: f64
  ct_Longitude :: f64
  ct_LastAdvert :: go_time
  ct_LastMod :: uint32

definition contactLastModU32 :: "go_time \<Rightarrow> uint32" where
  "contactLastModU32 t = (if IsZero t then 0 else word_of_int (t_unix t))"

definition cloneBytes :: "bytes \<Rightarrow> bytes" where
  "cloneBytes b = (if length b = 0 then [] else [] @ b)"

lemma cloneBytes_eq [simp]: "cloneBytes b = b"
  by (simp add: cloneBytes_def)

definition fromCompanionContact :: "contact_frame \<Rightarrow> contact" where
  "fromCompanionContact m =
     \<lparr>ct_Name = c_Name m, ct_PublicKey = c_PublicKey m, ct_Type = contactType (c_Type m),
      ct_HasPath = c_HasPath m, ct_OutPathEnc = c_OutPathEnc m, ct_OutPath = cloneBytes (c_OutPath m),
      ct_Latitude = c_Latitude m, ct_Longitude = c_Longitude m, ct_LastAdvert = c_LastAdvert m,
      ct_LastMod = contactLastModU32 (c_LastMod m)\<rparr>"

text \<open>A contact of which only the name is known, as in \<open>Contact{Name: n}\<close>.\<close>

definition named_contact :: "string \<Rightarrow> contact" where
  "named_contact n =
     \<lparr>ct_Name = n, ct_PublicKey = [], ct_Type = ContactUnset, ct_HasPath = False, ct_OutPathEnc = 0,
      ct_OutPath = [], ct_Latitude = 0, ct_Longitude = 0, ct_LastAdvert = zero_time, ct_LastMod = 0\<rparr>"

definition contactFromAdvert :: "advert \<Rightarrow> contact" where
  "contactFromAdvert m =
     \<lparr>ct_Name = a_Name m, ct_PublicKey = a_PublicKey m, ct_Type = contactType (a_Type m),
      ct_HasPath = a_HasPath m, ct_OutPathEnc = a_OutPathEnc m, ct_OutPath = cloneBytes (a_OutPath m),
      ct_Latitude = a_Latitude m, ct_Longitude = a_Longitude m, ct_LastAdvert = a_LastAdvert m,
      ct_LastMod = a_LastMod m\<rparr>"

section \<open>Errors\<close>

datatype go_error =
    EncodeError encode_error
  | CtxError ctx_error
  | OverflowError
  | IOError string
  | DeviceError byte
  | ErrUnsupportedCapability
  | ErrUnexpectedResponse
  | NoContactMatching string
  | ContactAmbiguous string nat
  | InvalidPublicKey string hex_error
  | PublicKeyTooShort
  | ConnectionClosed
  | EventStreamClosed
  | ChannelNameRequired
  | ChannelKeyLength nat
  | NoFreeChannelSlot
  | NoChannelAt int
  | NoChannelMatching string
  | DeviceRejectedChannelMessage byte
  | DeviceRejectedChannelWrite byte
  | DeviceRejectedMeshPacket byte
  | NotARepeater string contact_type
  | RepeaterNoUsableKey string
  | RepeaterLoginRejected string
  | RepeaterCommandEmpty
  | UnexpectedHasConnection message
  | WaitingFor string string ctx_error
  | TraceNoUsableKey string
  | TraceContact string pathhash_error
  | TraceTarget string go_error
  | TracePathError pathhash_error
  | TraceNoResponse string ctx_error
  | RFTruncatedFrame
  | RFUnexpectedType byte
  | RFTruncatedPayload nat
  | AppStartFailed go_error
  | HandshakeFailed go_error
  | HandshakeTimedOut ctx_error
  | ExpectedSelfInfo message

section \<open>Contact lookup\<close>

fun match_loop :: "unicode \<Rightarrow> string \<Rightarrow> string \<Rightarrow> contact list \<Rightarrow> contact list \<Rightarrow> contact + contact list" where
  "match_loop u q query partial [] = Inr partial"
| "match_loop u q query partial (ct # cts) =
     (let name = ToLower u (ct_Name ct) in
      if name = q \<or> EqualFold u (ct_PublicKey ct) query then Inl ct
      else if Contains name q \<or> HasPrefix (ToLower u (ct_PublicKey ct)) q
        then match_loop u q query (partial @ [ct]) cts
      else match_loop u q query partial cts)"

definition matchContact :: "unicode \<Rightarrow> contact list \<Rightarrow> string \<Rightarrow> go_error + contact" where
  "matchContact u contacts query =
     (case match_loop u (ToLower u (TrimSpace query)) query [] contacts of
        Inl ct \<Rightarrow> Inr ct
      | Inr partial \<Rightarrow>
          (case partial of
             [ct] \<Rightarrow> Inr ct
           | [] \<Rightarrow> Inl (NoContactMatching query)
           | _ \<Rightarrow> Inl (ContactAmbiguous query (length partial))))"

definition FindContact :: "unicode \<Rightarrow> contact list \<Rightarrow> string \<Rightarrow> contact option" where
  "FindContact u contacts query =
     (case matchContact u contacts query of Inl _ \<Rightarrow> None | Inr ct \<Rightarrow> Some ct)"

text \<open>The two criteria of the lookup.\<close>

definition exact_match :: "unicode \<Rightarrow> string \<Rightarrow> contact \<Rightarrow> bool" where
  "exact_match u query ct \<longleftrightarrow>
     ToLower u (ct_Name ct) = ToLower u (TrimSpace query) \<or> EqualFold u (ct_PublicKey ct) query"

definition partial_match :: "unicode \<Rightarrow> string \<Rightarrow> contact \<Rightarrow> bool" where
  "partial_match u query ct \<longleftrightarrow>
     Contains (ToLower u (ct_Name ct)) (ToLower u (TrimSpace query)) \<or>
     HasPrefix (ToLower u (ct_PublicKey ct)) (ToLower u (TrimSpace query))"

lemma match_loop_eq:
  "match_loop u (ToLower u (TrimSpace query)) query partial cts =
     (case find (exact_match u query) cts of
        Some ct \<Rightarrow> Inl ct
      | None \<Rightarrow> Inr (partial @ filter (partial_match u query) cts))"
  by (induction cts arbitrary: partial) (auto simp: Let_def exact_match_def partial_match_def split: option.splits)

lemma matchContact_eq:
  "matchContact u contacts query =
     (case find (exact_match u query) contacts of
        Some ct \<Rightarrow> Inr ct
      | None \<Rightarrow>
          (case filter (partial_match u query) contacts of
             [ct] \<Rightarrow> Inr ct
           | [] \<Rightarrow> Inl (NoContactMatching query)
           | _ \<Rightarrow> Inl (ContactAmbiguous query (length (filter (partial_match u query) contacts)))))"
  by (simp add: matchContact_def match_loop_eq split: option.splits list.splits)

section \<open>Messages and receipts\<close>

record receipt =
  rc_To :: string
  rc_AckCode :: uint32
  rc_Timeout :: duration
  rc_QueuedAt :: go_time

definition ID :: "receipt \<Rightarrow> string" where
  "ID r = hex_pad 8 (unat (rc_AckCode r))"

record ack =
  ak_Code :: string
  ak_RTT :: duration

record msg =
  m_From :: string
  m_Channel :: string
  m_Text :: string
  m_TxtType :: byte
  m_Timestamp :: go_time
  m_SNR :: f64
  m_PathLen :: byte

definition decodeKey :: "string \<Rightarrow> go_error + bytes" where
  "decodeKey hexKey =
     (case hex_DecodeString hexKey of
        Inl e \<Rightarrow> Inl (InvalidPublicKey hexKey e)
      | Inr b \<Rightarrow> if length b < 6 then Inl PublicKeyTooShort else Inr b)"

definition receiptFrom :: "go_time \<Rightarrow> message \<Rightarrow> string \<Rightarrow> go_error + receipt" where
  "receiptFrom now m to =
     (case m of
        Sent s \<Rightarrow> Inr \<lparr>rc_To = to, rc_AckCode = sn_ExpectedAck s, rc_Timeout = sn_SuggestedTimeout s, rc_QueuedAt = now\<rparr>
      | _ \<Rightarrow> Inl ErrUnexpectedResponse)"

definition channelReceiptFrom :: "go_time \<Rightarrow> message \<Rightarrow> string \<Rightarrow> go_error + receipt" where
  "channelReceiptFrom now m to =
     (case m of
        OK \<Rightarrow> Inr \<lparr>rc_To = to, rc_AckCode = 0, rc_Timeout = 0, rc_QueuedAt = now\<rparr>
      | Sent s \<Rightarrow> Inr \<lparr>rc_To = to, rc_AckCode = sn_ExpectedAck s, rc_Timeout = sn_SuggestedTimeout s, rc_QueuedAt = now\<rparr>
      | Err code \<Rightarrow> Inl (DeviceRejectedChannelMessage code)
      | _ \<Rightarrow> Inl ErrUnexpectedResponse)"

record channel =
  cn_Index :: int
  cn_Name :: string
  cn_Secret :: bytes

definition ChannelDisplayName :: "string \<Rightarrow> string" where
  "ChannelDisplayName name = (if HasPrefix name ''#'' then name else ''#'' @ name)"

section \<open>Events\<close>

record rf_received =
  rf_Timestamp :: go_time
  rf_SNR :: f64
  rf_RSSI :: int
  rf_Bytes :: bytes

record message_received =
  mr_From :: contact
  mr_Channel :: string
  mr_Text :: string
  mr_TxtType :: byte
  mr_Timestamp :: go_time

text \<open>\<open>TelemetryReceived\<close> is declared in the source and never constructed.\<close>

datatype event =
    MessageReceived message_received
  | MessageAcknowledged string duration
  | MessagesWaiting
  | AdvertisementReceived contact
  | Disconnected go_error
  | RepeaterLoginSucceeded string byte int
  | RepeaterLoginFailed string
  | RepeaterStatusReceived string "repeater_stats option" string
  | RawEvent byte bytes
  | RFPacketReceived rf_received

datatype rf_direction = RFRx | RFTx

record rf_packet =
  rp_Timestamp :: go_time
  rp_Direction :: rf_direction
  rp_SNR :: f64
  rp_RSSI :: int
  rp_Priority :: byte
  rp_Bytes :: bytes

record raw_packet =
  raw_Timestamp :: go_time
  raw_Direction :: string
  raw_Bytes :: bytes
  raw_Type :: byte
  raw_Async :: bool
  raw_DecodedType :: string
  raw_DecodeError :: string

fun hex32_loop :: "nat \<Rightarrow> uint32 \<Rightarrow> string \<Rightarrow> string" where
  "hex32_loop 0 v b = b"
| "hex32_loop (Suc i) v b = hex32_loop i (drop_bit 4 v) (b[i := hex_digit (unat (v AND 0xf))])"

definition hex32 :: "uint32 \<Rightarrow> string" where
  "hex32 v = hex32_loop 8 v (replicate 8 (CHR 0x00))"

definition decodeRFPacketLogPayload :: "bytes \<Rightarrow> go_time \<Rightarrow> (go_error + rf_received) option" where
  "decodeRFPacketLogPayload payload timestamp =
     (if length payload < 2 then Some (Inl (RFTruncatedPayload (length payload)))
      else do {
        b0 \<leftarrow> idx payload 0;
        b1 \<leftarrow> idx payload 1;
        rest \<leftarrow> gslice payload 2 (length payload);
        Some (Inr \<lparr>rf_Timestamp = timestamp, rf_SNR = quarter (int8 b0), rf_RSSI = int8 b1, rf_Bytes = cloneBytes rest\<rparr>)
      })"

definition DecodeRFPacketReceived :: "bytes \<Rightarrow> go_time \<Rightarrow> (go_error + rf_received) option" where
  "DecodeRFPacketReceived frame timestamp =
     (if length frame = 0 then Some (Inl RFTruncatedFrame)
      else do {
        b0 \<leftarrow> idx frame 0;
        if b0 \<noteq> 0x88 then Some (Inl (RFUnexpectedType b0))
        else do { payload \<leftarrow> gslice frame 1 (length frame); decodeRFPacketLogPayload payload timestamp }
      })"

definition hex_prefix :: "bytes \<Rightarrow> string" where
  "hex_prefix b = (if length b > 0 then hex_EncodeToString b else [])"

text \<open>The outer option is a panic, the inner one the nil event.\<close>

fun translate :: "go_time \<Rightarrow> message \<Rightarrow> event option option" where
  "translate now (Advert m) = Some (Some (AdvertisementReceived (contactFromAdvert m)))"
| "translate now (SendConfirmed m) = Some (Some (MessageAcknowledged (hex32 (scf_Code m)) (scf_RoundTrip m)))"
| "translate now MsgWaiting = Some (Some MessagesWaiting)"
| "translate now (LoginSuccess m) =
     Some (Some (RepeaterLoginSucceeded (hex_prefix (ls_PublicKeyPrefix m)) (ls_Permissions m) (ls_Tag m)))"
| "translate now (LoginFail m) = Some (Some (RepeaterLoginFailed (hex_prefix (lf_PublicKeyPrefix m))))"
| "translate now (StatusResponse m) =
     Some (Some (RepeaterStatusReceived (hex_prefix (sre_PublicKeyPrefix m)) (sre_Stats m) (sre_Text m)))"
| "translate now (RawMessage t payload push) =
     (if t = 0x88 \<and> push then
        do {
          r \<leftarrow> decodeRFPacketLogPayload payload now;
          Some (Some (case r of Inr ev \<Rightarrow> RFPacketReceived ev | Inl _ \<Rightarrow> RawEvent t payload))
        }
      else Some (Some (RawEvent t payload)))"
| "translate now _ = Some None"

definition messageEvent :: "msg \<Rightarrow> event" where
  "messageEvent m = MessageReceived
     \<lparr>mr_From = named_contact (m_From m), mr_Channel = m_Channel m, mr_Text = m_Text m,
      mr_TxtType = m_TxtType m, mr_Timestamp = m_Timestamp m\<rparr>"

section \<open>Names and previews\<close>

fun msgType :: "message \<Rightarrow> string" where
  "msgType (RawMessage t _ _) = ''raw(0x'' @ hex_pad 2 (unat t) @ '')''"
| "msgType OK = ''companion.OK''"
| "msgType (Err _) = ''companion.Err''"
| "msgType (SelfInfo _) = ''companion.SelfInfo''"
| "msgType (DeviceInfo _) = ''companion.DeviceInfo''"
| "msgType (CurrentTime _) = ''companion.CurrentTime''"
| "msgType (BatteryVoltage _) = ''companion.BatteryVoltage''"
| "msgType (StatsResponse _) = ''companion.StatsResponse''"
| "msgType (Advert _) = ''companion.Advert''"
| "msgType (SendConfirmed _) = ''companion.SendConfirmed''"
| "msgType MsgWaiting = ''companion.MsgWaiting''"
| "msgType (ContactsStart _) = ''companion.ContactsStart''"
| "msgType (ContactFrame _) = ''companion.Contact''"
| "msgType (EndOfContacts _) = ''companion.EndOfContacts''"
| "msgType (ChannelInfo _) = ''companion.ChannelInfo''"
| "msgType NoMoreMessages = ''companion.NoMoreMessages''"
| "msgType (Sent _) = ''companion.Sent''"
| "msgType (ContactMessage _) = ''companion.ContactMessage''"
| "msgType (ChannelMessage _) = ''companion.ChannelMessage''"
| "msgType (TraceData _) = ''companion.TraceData''"
| "msgType (ControlData _) = ''companion.ControlData''"
| "msgType (NodeDiscoverResp _) = ''companion.NodeDiscoverResp''"
| "msgType (LoginSuccess _) = ''companion.LoginSuccess''"
| "msgType (LoginFail _) = ''companion.LoginFail''"
| "msgType (StatusResponse _) = ''companion.StatusResponse''"

text \<open>\<open>rawPacket\<close> without a decode error, which the companion decoder never returns.\<close>

definition rawPacket :: "go_time \<Rightarrow> bytes \<Rightarrow> message \<Rightarrow> raw_packet option" where
  "rawPacket now pkt m =
     do {
       t \<leftarrow> (if length pkt > 0 then idx pkt 0 else Some 0);
       Some \<lparr>raw_Timestamp = now, raw_Direction = ''in'', raw_Bytes = [] @ pkt, raw_Type = t,
         raw_Async = Async m, raw_DecodedType = msgType m, raw_DecodeError = []\<rparr>
     }"

definition outboundPacket :: "go_time \<Rightarrow> bytes \<Rightarrow> raw_packet option" where
  "outboundPacket now pkt =
     (let out = \<lparr>raw_Timestamp = now, raw_Direction = ''out'', raw_Bytes = [] @ pkt, raw_Type = 0,
        raw_Async = False, raw_DecodedType = [], raw_DecodeError = []\<rparr> in
      if length pkt > 0
      then do { t \<leftarrow> idx pkt 0; Some (out\<lparr>raw_Type := t, raw_DecodedType := CommandName t\<rparr>) }
      else Some out)"

lemma rawPacket_returns [panic_free]: "\<exists>r. rawPacket now pkt m = Some r"
  by (simp add: rawPacket_def idx_def)

lemma outboundPacket_returns [panic_free]: "\<exists>r. outboundPacket now pkt = Some r"
  by (simp add: outboundPacket_def idx_def Let_def)

text \<open>\<open>itoa\<close> of \<open>client.go\<close> fills a four-byte buffer from the back; \<open>None\<close> is an index below 0.\<close>

fun itoa_loop :: "nat \<Rightarrow> nat \<Rightarrow> string \<Rightarrow> string option" where
  "itoa_loop n pos b =
     (if n = 0 then Some (drop pos b)
      else case pos of
          0 \<Rightarrow> None
        | Suc p \<Rightarrow> itoa_loop (n div 10) p (b[p := char_of (48 + n mod 10)]))"

declare itoa_loop.simps [simp del]

definition itoa :: "nat \<Rightarrow> string option" where
  "itoa i = (if i = 0 then Some ''0'' else itoa_loop i 4 (replicate 4 (CHR 0x00)))"

definition DeviceError_Error :: "byte \<Rightarrow> string option" where
  "DeviceError_Error code = do { s \<leftarrow> itoa (unat code); Some (''meshcore: device returned error code '' @ s) }"

section \<open>Facts about the pure functions\<close>

lemma decodeRFPacketLogPayload_returns [panic_free]: "\<exists>r. decodeRFPacketLogPayload p t = Some r"
  by (cases "length p < 2") (auto simp: decodeRFPacketLogPayload_def idx_def gslice_def)

lemma translate_returns [panic_free]: "\<exists>r. translate now m = Some r"
proof (cases m)
  case (RawMessage t p push)
  then show ?thesis using decodeRFPacketLogPayload_returns [of p now] by (cases "t = 0x88 \<and> push") auto
qed auto

text \<open>Every push that carries an event of its own is translated; only trace, control and discovery
  data have none.\<close>

lemma translate_None_iff:
  "Async m \<Longrightarrow> translate now m = Some None \<longleftrightarrow>
     (\<exists>d. m = TraceData d) \<or> (\<exists>d. m = ControlData d) \<or> (\<exists>d. m = NodeDiscoverResp d)"
proof (cases m)
  case (RawMessage t p push)
  then show ?thesis using decodeRFPacketLogPayload_returns [of p now] by auto
qed auto

text \<open>The RF log frame is decoded to the packet bytes after the two signal bytes.\<close>

lemma RF_log_layout:
  "DecodeRFPacketReceived (0x88 # s # r # pkt) t =
     Some (Inr \<lparr>rf_Timestamp = t, rf_SNR = of_int (int8 s) / 4, rf_RSSI = int8 r, rf_Bytes = pkt\<rparr>)"
proof -
  have "\<bar>int8 s\<bar> < 2 ^ 53"
    using sint_ge [of s] sint_less [of s] by (simp add: int8_def abs_less_iff)
  then show ?thesis
    by (simp add: DecodeRFPacketReceived_def decodeRFPacketLogPayload_def idx_def gslice_def)
qed

text \<open>The hand-written formatters agree with \<open>fmt\<close>.\<close>

lemma hex32_loop_eq:
  "i \<le> length b \<Longrightarrow> hex32_loop i v b = hex_pad i (unat v) @ drop i b"
proof (induction i arbitrary: v b)
  case (Suc i)
  have "v AND 0xf = v AND mask 4" by (simp add: mask_numeral)
  then have m: "unat (v AND 0xf) = unat v mod 16"
    by (simp only: take_bit_eq_mask [symmetric] unsigned_take_bit_eq) (simp add: take_bit_eq_mod)
  have d: "unat (drop_bit 4 v) = unat v div 16"
    by (simp only: unat_drop_bit_eq) (simp add: drop_bit_eq_div)
  from Suc show ?case by (simp add: m d Cons_nth_drop_Suc [symmetric])
qed simp

lemma hex32_eq: "hex32 v = hex_pad 8 (unat v)"
  by (simp add: hex32_def hex32_loop_eq)

lemma itoa_loop_eq:
  "0 < n \<Longrightarrow> n < 10 ^ pos \<Longrightarrow> pos \<le> length b \<Longrightarrow> itoa_loop n pos b = Some (show_nat n @ drop pos b)"
proof (induction n arbitrary: pos b rule: less_induct)
  case (less n)
  then obtain p where p: "pos = Suc p" by (cases pos) auto
  let ?b = "b[p := char_of (48 + n mod 10)]"
  have step: "itoa_loop n pos b = itoa_loop (n div 10) p ?b"
    using less.prems p by (simp add: itoa_loop.simps [of n])
  have drop: "drop p ?b = char_of (48 + n mod 10) # drop pos b"
    using less.prems p by (simp add: Cons_nth_drop_Suc [symmetric])
  show ?case
  proof (cases "n div 10 = 0")
    case True
    then have "n < 10" by simp
    then show ?thesis using step drop less.prems
      by (simp add: True itoa_loop.simps [of 0] show_nat.simps [of n] hex_digit_def)
  next
    case False
    have "itoa_loop (n div 10) p ?b = Some (show_nat (n div 10) @ drop p ?b)"
      using less.prems p False by (intro less.IH) auto
    moreover have "\<not> n < 10" using False by auto
    ultimately show ?thesis using step drop by (simp add: show_nat.simps [of n] hex_digit_def)
  qed
qed

lemma itoa_byte: "itoa (unat (b :: byte)) = Some (show_nat (unat b))"
proof (cases "b = 0")
  case True
  moreover have "show_nat 0 = ''0''" by code_simp
  ultimately show ?thesis by (simp add: itoa_def)
next
  case False
  then have "0 < unat b" by (simp add: unat_gt_0)
  moreover have "unat b < 10 ^ 4" using unsigned_less [of b, where 'a = nat] by simp
  ultimately show ?thesis by (simp add: itoa_def itoa_loop_eq)
qed

section \<open>Properties\<close>

text \<open>The contact lookup is exact first, then unique. A query finds the first contact whose name
  or key it equals up to case; without one it finds the contact it matches partially if there is
  exactly one, it reports that nothing matches if there is none, and otherwise it refuses as
  ambiguous with the number of candidates. It never returns a contact that does not match.\<close>

theorem contact_lookup:
  "(\<forall>ct. matchContact u contacts query = Inr ct \<longleftrightarrow>
      find (exact_match u query) contacts = Some ct \<or>
      find (exact_match u query) contacts = None \<and> filter (partial_match u query) contacts = [ct]) \<and>
   (\<forall>e. matchContact u contacts query = Inl e \<longrightarrow>
      (\<forall>ct \<in> set contacts. \<not> exact_match u query ct) \<and>
      length (filter (partial_match u query) contacts) \<noteq> 1 \<and>
      e = (if filter (partial_match u query) contacts = [] then NoContactMatching query
           else ContactAmbiguous query (length (filter (partial_match u query) contacts))))"
proof (cases "find (exact_match u query) contacts")
  case None
  then have "\<forall>ct \<in> set contacts. \<not> exact_match u query ct" by (simp add: find_None_iff)
  with None show ?thesis by (auto simp: matchContact_eq split: list.splits)
qed (simp add: matchContact_eq)

theorem contact_lookup_witness:
  "matchContact ascii_text [named_contact ''Bob'', named_contact ''Bobby''] ''bob '' = Inr (named_contact ''Bob'')"
proof -
  have "TrimSpace ''bob '' = ''bob''" by code_simp
  moreover have "ascii_lower ''Bob'' = ascii_lower ''bob''" by code_simp
  ultimately have "exact_match ascii_text ''bob '' (named_contact ''Bob'')"
    by (simp add: exact_match_def named_contact_def ascii_text_def)
  then show ?thesis using contact_lookup [of ascii_text "[named_contact ''Bob'', named_contact ''Bobby'']" "''bob ''"]
    by simp
qed

text \<open>The texts of one acknowledgement agree. The code of the acknowledgement event, formatted by
  hand, is the identifier of the receipt with that code, which \<open>fmt\<close> formats, and has eight
  characters; and the hand-written decimal formatter, whose buffer has four bytes, is in bounds for
  every error code and prints it in decimal.\<close>

theorem formatted_codes_agree:
  "hex32 (rc_AckCode r) = ID r \<and> length (ID r) = 8 \<and>
   DeviceError_Error code = Some (''meshcore: device returned error code '' @ show_nat (unat code))"
  by (simp add: hex32_eq ID_def DeviceError_Error_def itoa_byte)

end
