(* ===== verification/Companion_Session.thy ===== *)
theory Companion_Session
  imports Client_Types
begin

text \<open>
  The session start of \<open>protocol/companion/protocol.go\<close>, capabilities (\<open>protocol/capabilities.go\<close>), the
  extension registry (\<open>protocol/registry.go\<close>) and the world a connection lives in.

  What the outside does is a script \<open>w_env\<close> of events, consumed in order by whoever waits: a packet
  arrives, a read fails, the caller's context is done, a derived context's deadline passes, a ticker
  fires, the clock advances, another goroutine closes the client. \<open>w_writes\<close> are the results of the
  coming \<open>WritePacket\<close> calls (success beyond its end), \<open>w_written\<close> the packets handed to them. An
  operation that needs another event when the script is exhausted is \<open>Blocked\<close>; \<open>Panicked\<close> is a
  run-time panic. Theorems about all scripts hold for every behaviour of the outside.
\<close>

section \<open>The world\<close>

datatype env =
    Recv bytes
  | ReadFailed go_error
  | CtxDone ctx_error
  | AttemptTimeout
  | Tick
  | Clock go_time
  | CloseCall

record world =
  w_written :: "bytes list"
  w_writes :: "go_error option list"
  w_now :: go_time
  w_env :: "env list"

datatype 'a outcome = Finished 'a | Blocked | Panicked

fun and_then :: "'a outcome \<Rightarrow> ('a \<Rightarrow> 'b outcome) \<Rightarrow> 'b outcome" where
  "and_then (Finished x) f = f x"
| "and_then Blocked f = Blocked"
| "and_then Panicked f = Panicked"

fun no_panic :: "'a option \<Rightarrow> 'a outcome" where
  "no_panic None = Panicked"
| "no_panic (Some x) = Finished x"

lemma and_then_Panicked_iff: "and_then m f = Panicked \<longleftrightarrow> m = Panicked \<or> (\<exists>x. m = Finished x \<and> f x = Panicked)"
  by (cases m) auto

lemma and_then_Blocked_iff: "and_then m f = Blocked \<longleftrightarrow> m = Blocked \<or> (\<exists>x. m = Finished x \<and> f x = Blocked)"
  by (cases m) auto

lemma and_then_Finished_iff: "and_then m f = Finished y \<longleftrightarrow> (\<exists>x. m = Finished x \<and> f x = Finished y)"
  by (cases m) auto

lemma no_panic_iff [simp]:
  "no_panic x = Panicked \<longleftrightarrow> x = None" "no_panic x = Finished y \<longleftrightarrow> x = Some y" "no_panic x \<noteq> Blocked"
  by (cases x; simp)+

definition WritePacket :: "bytes \<Rightarrow> ('w :: type) world_scheme \<Rightarrow> go_error option \<times> 'w world_scheme" where
  "WritePacket pkt w =
     (let w' = w\<lparr>w_written := w_written w @ [pkt]\<rparr> in
      case w_writes w of
        [] \<Rightarrow> (None, w')
      | r # rs \<Rightarrow> (r, w'\<lparr>w_writes := rs\<rparr>))"

section \<open>Capabilities\<close>

type_synonym capability = string

definition CapabilityContacts :: capability where "CapabilityContacts = ''contacts''"
definition CapabilityChannels :: capability where "CapabilityChannels = ''channels''"
definition CapabilityMessages :: capability where "CapabilityMessages = ''messages''"
definition CapabilityAcknowledgements :: capability where "CapabilityAcknowledgements = ''acknowledgements''"
definition CapabilityAdvertisements :: capability where "CapabilityAdvertisements = ''advertisements''"
definition CapabilityTelemetry :: capability where "CapabilityTelemetry = ''telemetry''"
definition CapabilityTracing :: capability where "CapabilityTracing = ''tracing''"
definition CapabilityRepeaterLogin :: capability where "CapabilityRepeaterLogin = ''repeater.login''"
definition CapabilityRepeaterCommands :: capability where "CapabilityRepeaterCommands = ''repeater.commands''"
definition CapabilityPrivateKeyExport :: capability where "CapabilityPrivateKeyExport = ''private-key-export''"

type_synonym capabilities = "(capability \<times> bool) list"

definition Has :: "capabilities \<Rightarrow> capability \<Rightarrow> bool" where
  "Has c cap = (map_of c cap = Some True)"

text \<open>\<open>sort.Strings\<close> orders by bytes.\<close>

fun bytes_le :: "string \<Rightarrow> string \<Rightarrow> bool" where
  "bytes_le [] t = True"
| "bytes_le (a # s) [] = False"
| "bytes_le (a # s) (b # t) =
     (of_char a < (of_char b :: nat) \<or> of_char a = (of_char b :: nat) \<and> bytes_le s t)"

fun insert_string :: "string \<Rightarrow> string list \<Rightarrow> string list" where
  "insert_string x [] = [x]"
| "insert_string x (y # ys) = (if bytes_le x y then x # y # ys else y # insert_string x ys)"

definition sort_Strings :: "string list \<Rightarrow> string list" where
  "sort_Strings xs = foldr insert_string xs []"

definition List_capabilities :: "capabilities \<Rightarrow> string list" where
  "List_capabilities c = sort_Strings (map fst (filter snd c))"

definition String_capabilities :: "capabilities \<Rightarrow> string" where
  "String_capabilities c = Join '', '' (List_capabilities c)"

definition Capabilities :: capabilities where
  "Capabilities =
     [(CapabilityContacts, True), (CapabilityChannels, True), (CapabilityMessages, True),
      (CapabilityAcknowledgements, True), (CapabilityAdvertisements, True), (CapabilityTracing, True),
      (CapabilityRepeaterLogin, True), (CapabilityRepeaterCommands, True)]"

lemmas capability_defs =
  CapabilityContacts_def CapabilityChannels_def CapabilityMessages_def CapabilityAcknowledgements_def
  CapabilityAdvertisements_def CapabilityTelemetry_def CapabilityTracing_def CapabilityRepeaterLogin_def
  CapabilityRepeaterCommands_def CapabilityPrivateKeyExport_def

section \<open>Extension registry\<close>

text \<open>A decoder is a function that may claim a packet.\<close>

type_synonym extension_decoder = "bytes \<Rightarrow> message option"

definition Register_extension :: "extension_decoder \<Rightarrow> extension_decoder list \<Rightarrow> extension_decoder list" where
  "Register_extension d ds = ds @ [d]"

fun Decode_extension :: "extension_decoder list \<Rightarrow> bytes \<Rightarrow> message option" where
  "Decode_extension [] packet = None"
| "Decode_extension (d # ds) packet =
     (case d packet of Some m \<Rightarrow> Some m | None \<Rightarrow> Decode_extension ds packet)"

lemma Decode_extension_append:
  "Decode_extension (ds @ es) p = (case Decode_extension ds p of Some m \<Rightarrow> Some m | None \<Rightarrow> Decode_extension es p)"
  by (induction ds) (auto split: option.splits)

section \<open>Handshake\<close>

record session_info =
  se_Name :: string
  se_PublicKey :: string
  se_FirmwareName :: string
  se_FirmwareVersion :: string
  se_ProtocolVersion :: string
  se_Capabilities :: capabilities
  se_RadioFreqKHz :: uint32
  se_RadioBWKHz :: uint32
  se_RadioSF :: byte
  se_RadioCR :: byte
  se_TxPowerDBm :: byte
  se_Latitude :: f64
  se_Longitude :: f64

definition ProtocolVersion :: string where
  "ProtocolVersion = ''companion-v3''"

definition FirmwareVersion :: "device_info \<Rightarrow> string" where
  "FirmwareVersion d =
     (if di_Version d \<noteq> [] then di_Version d
      else if di_FirmwareCode d \<noteq> 0 then ''v'' @ show_nat (unat (di_FirmwareCode d))
      else [])"

text \<open>\<open>readNext\<close> on the script. The second component of the result tells whether the caller's context
  is done now.\<close>

fun readNext :: "env list \<Rightarrow> 'w world_scheme \<Rightarrow> ((go_error + message) \<times> ctx_error option \<times> 'w world_scheme) outcome" where
  "readNext [] w = Blocked"
| "readNext (Recv pkt # es) w =
     (case decode pkt of
        None \<Rightarrow> Panicked
      | Some m \<Rightarrow> if \<not> Async m then Finished (Inr m, None, w\<lparr>w_env := es\<rparr>) else readNext es w)"
| "readNext (ReadFailed e # es) w = Finished (Inl e, None, w\<lparr>w_env := es\<rparr>)"
| "readNext (CtxDone e # es) w = Finished (Inl (CtxError e), Some e, w\<lparr>w_env := es\<rparr>)"
| "readNext (AttemptTimeout # es) w = Finished (Inl (CtxError DeadlineExceeded), None, w\<lparr>w_env := es\<rparr>)"
| "readNext (Clock t # es) w = readNext es (w\<lparr>w_now := t\<rparr>)"
| "readNext (Tick # es) w = readNext es w"
| "readNext (CloseCall # es) w = readNext es w"

lemma readNext_consumes: "readNext es w = Finished (r, d, w') \<Longrightarrow> length (w_env w') < length es"
  by (induction es w rule: readNext.induct) (auto split: option.splits if_splits)

function handshake :: "bytes \<Rightarrow> go_error option \<Rightarrow> ctx_error option \<Rightarrow> 'w world_scheme \<Rightarrow>
    ((go_error + self_info) \<times> ctx_error option \<times> 'w world_scheme) outcome" where
  "handshake start lastErr done w =
     (case done of
        Some e \<Rightarrow>
          (case lastErr of
             Some le \<Rightarrow> Finished (Inl (HandshakeFailed le), done, w)
           | None \<Rightarrow> Finished (Inl (HandshakeTimedOut e), done, w))
      | None \<Rightarrow>
          (case WritePacket start w of
             (Some err, w1) \<Rightarrow> Finished (Inl (AppStartFailed err), None, w1)
           | (None, w1) \<Rightarrow>
               (case readNext (w_env w1) w1 of
                  Blocked \<Rightarrow> Blocked
                | Panicked \<Rightarrow> Panicked
                | Finished (Inl err, d, w2) \<Rightarrow> handshake start (Some err) d w2
                | Finished (Inr m, d, w2) \<Rightarrow>
                    (case m of
                       SelfInfo self \<Rightarrow> Finished (Inr self, d, w2)
                     | _ \<Rightarrow> handshake start (Some (ExpectedSelfInfo m)) d w2))))"
  by pat_completeness auto
termination
  by (relation "measure (\<lambda>(_, _, _, w). length (w_env w))")
    (auto simp: WritePacket_def Let_def split: list.splits dest!: readNext_consumes)

declare handshake.simps [simp del]

definition deviceQuery :: "ctx_error option \<Rightarrow> 'w world_scheme \<Rightarrow>
    ((go_error + device_info) \<times> ctx_error option \<times> 'w world_scheme) outcome" where
  "deviceQuery done w =
     and_then (no_panic (encode (w_now w) DeviceQuery)) (\<lambda>q.
       case q of
         Inl e \<Rightarrow> Finished (Inl (EncodeError e), done, w)
       | Inr q \<Rightarrow>
           (case WritePacket q w of
              (Some err, w1) \<Rightarrow> Finished (Inl err, done, w1)
            | (None, w1) \<Rightarrow>
                (case done of
                   Some e \<Rightarrow> Finished (Inl (CtxError e), done, w1)
                 | None \<Rightarrow>
                     and_then (readNext (w_env w1) w1) (\<lambda>(r, d, w2).
                       case r of
                         Inl err \<Rightarrow> Finished (Inl err, d, w2)
                       | Inr (DeviceInfo dev) \<Rightarrow> Finished (Inr dev, d, w2)
                       | Inr _ \<Rightarrow> Finished (Inl ErrUnexpectedResponse, d, w2)))))"

fun query_attempts :: "nat \<Rightarrow> go_error option \<Rightarrow> ctx_error option \<Rightarrow> 'w world_scheme \<Rightarrow>
    ((go_error option + device_info) \<times> ctx_error option \<times> 'w world_scheme) outcome" where
  "query_attempts 0 lastErr done w = Finished (Inl lastErr, done, w)"
| "query_attempts (Suc n) lastErr done w =
     and_then (deviceQuery done w) (\<lambda>(r, d, w').
       case r of
         Inr dev \<Rightarrow> Finished (Inr dev, d, w')
       | Inl err \<Rightarrow> query_attempts n (Some err) d w')"

definition deviceQueryWithRetry where
  "deviceQueryWithRetry = query_attempts 3 None"

definition session_of :: "self_info \<Rightarrow> session_info" where
  "session_of self =
     \<lparr>se_Name = si_Name self, se_PublicKey = si_PublicKey self, se_FirmwareName = ''MeshCore'',
      se_FirmwareVersion = [], se_ProtocolVersion = ProtocolVersion, se_Capabilities = Capabilities,
      se_RadioFreqKHz = si_RadioFreq self, se_RadioBWKHz = si_RadioBW self, se_RadioSF = si_RadioSF self,
      se_RadioCR = si_RadioCR self, se_TxPowerDBm = si_TxPower self, se_Latitude = si_AdvLat self,
      se_Longitude = si_AdvLon self\<rparr>"

definition Initialize :: "string \<Rightarrow> 'w world_scheme \<Rightarrow> ((go_error + session_info) \<times> 'w world_scheme) outcome" where
  "Initialize AppName w =
     and_then (no_panic (encode (w_now w) (AppStart AppName))) (\<lambda>start.
       case start of
         Inl e \<Rightarrow> Finished (Inl (EncodeError e), w)
       | Inr start \<Rightarrow>
           and_then (handshake start None None w) (\<lambda>(r, d, w1).
             case r of
               Inl e \<Rightarrow> Finished (Inl e, w1)
             | Inr self \<Rightarrow>
                 and_then (deviceQueryWithRetry d w1) (\<lambda>(q, _, w2).
                   let si = session_of self in
                   case q of
                     Inl _ \<Rightarrow> Finished (Inr si, w2)
                   | Inr dev \<Rightarrow>
                       (let si = si\<lparr>se_FirmwareVersion := FirmwareVersion dev\<rparr>;
                            si = (if di_Model dev \<noteq> []
                                  then si\<lparr>se_FirmwareName := ''MeshCore ('' @ di_Model dev @ '')''\<rparr> else si)
                        in Finished (Inr si, w2)))))"

section \<open>Facts\<close>

lemma readNext_no_panic [simp]: "readNext es w \<noteq> Panicked"
  using decode_returns by (induction es w rule: readNext.induct) (auto split: option.splits)

lemma WritePacket_env [simp]:
  "WritePacket pkt w = (r, w') \<Longrightarrow> w_env w' = w_env w"
  by (auto simp: WritePacket_def Let_def split: list.splits)

fun self_of :: "message \<Rightarrow> self_info option" where
  "self_of (SelfInfo s) = Some s"
| "self_of _ = None"

text \<open>The branches of one turn of the handshake loop.\<close>

lemma handshake_done:
  "handshake start le (Some e) w =
     Finished (Inl (case le of Some x \<Rightarrow> HandshakeFailed x | None \<Rightarrow> HandshakeTimedOut e), Some e, w)"
  by (simp add: handshake.simps split: option.splits)

lemma handshake_turn:
  assumes "WritePacket start w = (r, w1)"
  shows "handshake start le None w =
    (case r of
       Some err \<Rightarrow> Finished (Inl (AppStartFailed err), None, w1)
     | None \<Rightarrow>
         and_then (readNext (w_env w1) w1) (\<lambda>(q, d, w2).
           case q of
             Inl err \<Rightarrow> handshake start (Some err) d w2
           | Inr m \<Rightarrow>
               (case self_of m of
                  Some self \<Rightarrow> Finished (Inr self, d, w2)
                | None \<Rightarrow> handshake start (Some (ExpectedSelfInfo m)) d w2)))"
proof (cases r)
  case None
  show ?thesis
  proof (cases "readNext (w_env w1) w1")
    case (Finished x)
    obtain q d w2 where "x = (q, d, w2)" by (cases x)
    with None Finished assms show ?thesis
      by (simp add: handshake.simps [of start le None w] split: sum.splits message.splits)
  qed (use None assms in \<open>simp_all add: handshake.simps [of start le None w]\<close>)
qed (use assms in \<open>simp add: handshake.simps [of start le None w]\<close>)

text \<open>Induction on the attempts: it is enough that a property of the pending state is passed on by
  every failed attempt.\<close>

lemma handshake_induct [case_names turn]:
  assumes "\<And>le dn w. (\<And>le' d w2. length (w_env w2) < length (w_env w) \<Longrightarrow> P le' d w2) \<Longrightarrow> P le dn w"
  shows "P le dn w"
  by (induction "length (w_env w)" arbitrary: le dn w rule: less_induct) (rule assms, blast)

lemma handshake_no_panic [simp]: "handshake start le dn w \<noteq> Panicked"
proof (induction le dn w rule: handshake_induct)
  case (turn le dn w)
  obtain r w1 where w1: "WritePacket start w = (r, w1)" by force
  have "readNext (w_env w1) w1 = Finished (q, d, w2) \<Longrightarrow> length (w_env w2) < length (w_env w)" for q d w2
    using readNext_consumes [of "w_env w1" w1 q d w2] w1 by simp
  with turn readNext_no_panic [of "w_env w1" w1] w1 show ?case
    by (cases dn; cases "readNext (w_env w1) w1")
      (auto simp: handshake_done handshake_turn split: option.splits sum.splits)
qed

text \<open>A context that ends ends the handshake.\<close>

lemma readNext_ctx:
  assumes "CtxDone e \<in> set es"
  shows "\<exists>r d w'. readNext es w = Finished (r, d, w') \<and> (d \<noteq> None \<or> CtxDone e \<in> set (w_env w'))"
  using assms decode_returns
  by (induction es w rule: readNext.induct) (auto split: option.splits)

lemma handshake_ctx:
  "dn \<noteq> None \<or> CtxDone e \<in> set (w_env w) \<Longrightarrow> \<exists>x. handshake start le dn w = Finished x"
proof (induction le dn w rule: handshake_induct)
  case (turn le dn w)
  show ?case
  proof (cases dn)
    case None
    obtain r w1 where w1: "WritePacket start w = (r, w1)" by force
    with turn(2) None have "CtxDone e \<in> set (w_env w1)" by simp
    from readNext_ctx [OF this, of w1] obtain q d w2 where
      q: "readNext (w_env w1) w1 = Finished (q, d, w2)" "d \<noteq> None \<or> CtxDone e \<in> set (w_env w2)" by blast
    from readNext_consumes [OF q(1)] w1 have "length (w_env w2) < length (w_env w)" by simp
    from turn(1) [OF this q(2)] q(1) w1 None show ?thesis
      by (auto simp: handshake_turn split: option.splits sum.splits)
  qed (simp add: handshake_done)
qed

text \<open>Events an attempt outlives, and events that end it without success.\<close>

fun is_ctx_done :: "env \<Rightarrow> bool" where
  "is_ctx_done (CtxDone _) = True"
| "is_ctx_done _ = False"

fun ends_attempt :: "env \<Rightarrow> bool" where
  "ends_attempt (Recv p) = (case decode p of Some m \<Rightarrow> \<not> Async m | None \<Rightarrow> False)"
| "ends_attempt (ReadFailed _) = True"
| "ends_attempt AttemptTimeout = True"
| "ends_attempt _ = False"

fun is_self_info :: "env \<Rightarrow> bool" where
  "is_self_info (Recv p) = (case decode p of Some (SelfInfo _) \<Rightarrow> True | _ \<Rightarrow> False)"
| "is_self_info _ = False"

lemma readNext_noise:
  assumes "\<forall>e \<in> set es. \<not> ends_attempt e \<and> \<not> is_ctx_done e"
  shows "\<exists>w'. w_env w' = w_env w \<and> w_writes w' = w_writes w \<and> w_written w' = w_written w \<and>
    readNext (es @ rest) w = readNext rest w'"
  using assms
proof (induction es arbitrary: w)
  case (Cons e es)
  then have "\<forall>e \<in> set es. \<not> ends_attempt e \<and> \<not> is_ctx_done e" by simp
  note IH = Cons.IH [OF this]
  show ?case
  proof (cases e)
    case (Recv p)
    obtain m where "decode p = Some m" using decode_returns by blast
    with Recv Cons.prems IH [of w] show ?thesis by auto
  next
    case (Clock t)
    from IH [of "w\<lparr>w_now := t\<rparr>"] Clock show ?thesis by auto
  qed (use Cons.prems IH [of w] in auto)
qed auto

lemma readNext_failed_attempt:
  assumes "ends_attempt e" and "\<not> is_ctx_done e" and "\<not> is_self_info e"
  shows "\<exists>q. readNext (e # es) w = Finished (q, None, w\<lparr>w_env := es\<rparr>) \<and>
    (\<forall>m. q = Inr m \<longrightarrow> self_of m = None)"
proof (cases e)
  case (Recv p)
  obtain m where "decode p = Some m" using decode_returns by blast
  with Recv assms show ?thesis by (cases m) auto
qed (use assms in auto)

lemma handshake_succeeds:
  assumes "\<forall>e \<in> set es. \<not> is_ctx_done e \<and> \<not> is_self_info e" and "decode pkt = Some (SelfInfo self)"
    and "w_env w = es @ Recv pkt # rest" and "w_writes w = []"
  shows "\<exists>w'. handshake start le None w = Finished (Inr self, None, w') \<and> w_env w' = rest \<and>
    w_written w' = w_written w @ replicate (Suc (length (filter ends_attempt es))) start"
  using assms
proof (induction "length es" arbitrary: es le w rule: less_induct)
  case less
  let ?w1 = "w\<lparr>w_written := w_written w @ [start]\<rparr>"
  have w1: "WritePacket start w = (None, ?w1)" using less.prems(4) by (simp add: WritePacket_def Let_def)
  show ?case
  proof (cases "\<exists>e \<in> set es. ends_attempt e")
    case False
    then have "\<forall>e \<in> set es. \<not> ends_attempt e \<and> \<not> is_ctx_done e" using less.prems(1) by blast
    from readNext_noise [OF this, of ?w1 "Recv pkt # rest"] obtain w2 where
      "w_written w2 = w_written w @ [start]" "readNext (w_env ?w1) ?w1 = readNext (Recv pkt # rest) w2"
      using less.prems(3) by auto
    moreover from this less.prems(2)
    have "readNext (w_env ?w1) ?w1 = Finished (Inr (SelfInfo self), None, w2\<lparr>w_env := rest\<rparr>)" by simp
    moreover have "filter ends_attempt es = []" using False by simp
    ultimately show ?thesis using w1 by (simp add: handshake_turn)
  next
    case True
    from split_list_first_prop [OF this] obtain ys e zs where
      es: "es = ys @ e # zs" "ends_attempt e" "\<forall>y \<in> set ys. \<not> ends_attempt y" by blast
    with less.prems(1) have "\<forall>y \<in> set ys. \<not> ends_attempt y \<and> \<not> is_ctx_done y" by auto
    from readNext_noise [OF this, of ?w1 "e # zs @ Recv pkt # rest"] obtain w2 where
      w2: "w_written w2 = w_written w @ [start]" "w_writes w2 = []"
      "readNext (w_env ?w1) ?w1 = readNext (e # zs @ Recv pkt # rest) w2"
      using less.prems(3, 4) es(1) by auto
    let ?w2 = "w2\<lparr>w_env := zs @ Recv pkt # rest\<rparr>"
    from readNext_failed_attempt [OF es(2), of "zs @ Recv pkt # rest" w2] less.prems(1) es(1) w2(3)
    obtain q where q: "readNext (w_env ?w1) ?w1 = Finished (q, None, ?w2)" "\<forall>m. q = Inr m \<longrightarrow> self_of m = None"
      by auto
    have IH: "\<exists>w'. handshake start le' None ?w2 = Finished (Inr self, None, w') \<and> w_env w' = rest \<and>
      w_written w' = w_written ?w2 @ replicate (Suc (length (filter ends_attempt zs))) start" for le'
      using less.prems(1, 2) es(1) w2(2) by (intro less.hyps) auto
    have "filter ends_attempt ys = []" using es(3) by simp
    then have "length (filter ends_attempt es) = Suc (length (filter ends_attempt zs))" using es by simp
    with IH q w1 w2(1) show ?thesis
      by (cases q) (auto simp: handshake_turn)
  qed
qed

lemma deviceQuery_no_panic [simp]: "deviceQuery dn w \<noteq> Panicked"
  by (auto simp: deviceQuery_def and_then_Panicked_iff split: sum.splits option.splits prod.splits message.splits)

lemma query_attempts_no_panic [simp]: "query_attempts n le dn w \<noteq> Panicked"
  by (induction n arbitrary: le dn w) (auto simp: and_then_Panicked_iff split: sum.splits)

lemma deviceQuery_done: "\<exists>r d w'. deviceQuery (Some e) w = Finished (r, d, w') \<and> d \<noteq> None"
  by (auto simp: deviceQuery_def split: prod.splits option.splits)

lemma deviceQuery_ctx:
  assumes "dn \<noteq> None \<or> CtxDone e \<in> set (w_env w)"
  shows "\<exists>r d w'. deviceQuery dn w = Finished (r, d, w') \<and> (d \<noteq> None \<or> CtxDone e \<in> set (w_env w'))"
proof (cases dn)
  case None
  obtain r w1 where w1: "WritePacket [cmdDeviceQuery, 3] w = (r, w1)" by force
  with assms None have "CtxDone e \<in> set (w_env w1)" by simp
  from readNext_ctx [OF this, of w1] w1 None \<open>CtxDone e \<in> set (w_env w1)\<close> show ?thesis
    by (auto simp: deviceQuery_def split: option.splits sum.splits message.splits)
qed (use deviceQuery_done in blast)

lemma query_attempts_ctx:
  "dn \<noteq> None \<or> CtxDone e \<in> set (w_env w) \<Longrightarrow> \<exists>x. query_attempts n le dn w = Finished x"
proof (induction n arbitrary: le dn w)
  case (Suc n)
  from deviceQuery_ctx [OF Suc.prems] obtain r d w' where
    "deviceQuery dn w = Finished (r, d, w')" "d \<noteq> None \<or> CtxDone e \<in> set (w_env w')" by blast
  with Suc.IH [of d w'] show ?case by (auto split: sum.splits)
qed simp

lemma handshake_keeps_ctx:
  "dn \<noteq> None \<or> CtxDone e \<in> set (w_env w) \<Longrightarrow> handshake start le dn w = Finished (Inr s, d, w') \<Longrightarrow>
   d \<noteq> None \<or> CtxDone e \<in> set (w_env w')"
proof (induction le dn w rule: handshake_induct)
  case (turn le dn w)
  show ?case
  proof (cases dn)
    case None
    obtain r w1 where w1: "WritePacket start w = (r, w1)" by force
    with turn(2) None have "CtxDone e \<in> set (w_env w1)" by simp
    from readNext_ctx [OF this, of w1] obtain q d2 w2 where
      q: "readNext (w_env w1) w1 = Finished (q, d2, w2)" "d2 \<noteq> None \<or> CtxDone e \<in> set (w_env w2)" by blast
    from readNext_consumes [OF q(1)] w1 have "length (w_env w2) < length (w_env w)" by simp
    from turn(1) [OF this q(2)] q turn(3) w1 None show ?thesis
      by (auto simp: handshake_turn split: option.splits sum.splits)
  qed (use turn in \<open>simp add: handshake_done\<close>)
qed

section \<open>Properties\<close>

text \<open>C27: Connecting never panics and never outlives its context. Whatever the device sends and
  however reads and writes fail, the session start does not panic, and once the caller's context is
  done it returns.\<close>

theorem initialize_safe:
  "Initialize AppName w \<noteq> Panicked \<and> (CtxDone e \<in> set (w_env w) \<longrightarrow> (\<exists>x. Initialize AppName w = Finished x))"
proof (rule conjI)
  show "Initialize AppName w \<noteq> Panicked"
    using encode_returns [of "w_now w" "AppStart AppName"]
    by (auto simp: Initialize_def deviceQueryWithRetry_def and_then_Panicked_iff Let_def split: sum.splits)
next
  show "CtxDone e \<in> set (w_env w) \<longrightarrow> (\<exists>x. Initialize AppName w = Finished x)"
  proof
    assume ctx: "CtxDone e \<in> set (w_env w)"
    obtain start where start: "encode (w_now w) (AppStart AppName) = Some start" using encode_returns by blast
    show "\<exists>x. Initialize AppName w = Finished x"
    proof (cases start)
      case (Inr b)
      from handshake_ctx [of None e w b None] ctx obtain r d w1 where
        h: "handshake b None None w = Finished (r, d, w1)" by auto
      show ?thesis
      proof (cases r)
        case (Inr s)
        with h handshake_keeps_ctx [of None e w b None s d w1] ctx
        have "d \<noteq> None \<or> CtxDone e \<in> set (w_env w1)" by simp
        from query_attempts_ctx [OF this, of 3 None] obtain q where "query_attempts 3 None d w1 = Finished q" by blast
        with start \<open>start = Inr b\<close> h Inr show ?thesis
          by (cases q) (simp add: Initialize_def deviceQueryWithRetry_def Let_def split: sum.splits)
      qed (use start Inr h in \<open>simp add: Initialize_def\<close>)
    qed (use start in \<open>simp add: Initialize_def\<close>)
  qed
qed

theorem initialize_safe_witness:
  "\<exists>x. Initialize [] \<lparr>w_written = [], w_writes = [], w_now = zero_time, w_env = [Recv [0x83], CtxDone Canceled]\<rparr> = Finished x"
  using initialize_safe [of "[]" "\<lparr>w_written = [], w_writes = [], w_now = zero_time, w_env = [Recv [0x83], CtxDone Canceled]\<rparr>" Canceled]
  by simp

text \<open>C28: The handshake tolerates the boot window. When a self-info response eventually arrives before
  the caller's context is done, the handshake returns it whatever came before: pushes are skipped,
  and every lost attempt, failed read or other response causes exactly one resend of the start
  command.\<close>

theorem handshake_resends_until_answered:
  assumes "list_all (\<lambda>e. \<not> is_ctx_done e \<and> \<not> is_self_info e) es" and "decode pkt = Some (SelfInfo self)"
    and "w_env w = es @ Recv pkt # rest" and "w_writes w = []"
  shows "\<exists>w'. handshake start None None w = Finished (Inr self, None, w') \<and> w_env w' = rest \<and>
    w_written w' = w_written w @ replicate (Suc (length (filter ends_attempt es))) start"
  using assms by (intro handshake_succeeds) (auto simp: list_all_iff)

theorem handshake_resends_until_answered_witness:
  "\<exists>self w'. handshake [1] None None
     \<lparr>w_written = [], w_writes = [], w_now = zero_time, w_env = [AttemptTimeout, Recv [0x83]] @ Recv [5] # [Tick]\<rparr>
       = Finished (Inr self, None, w') \<and> w_env w' = [Tick] \<and> w_written w' = [[1], [1]]"
proof -
  have d: "decode [0x83] = Some MsgWaiting" by (simp add: decode_def run_time_checks)
  have "\<exists>self. decode [5] = Some (SelfInfo self)" by (simp add: decode_def run_time_checks Let_def decodeSelfInfo_def)
  then obtain self where "decode [5] = Some (SelfInfo self)" by blast
  from handshake_resends_until_answered [OF _ this, of "[AttemptTimeout, Recv [0x83]]"
      "\<lparr>w_written = [], w_writes = [], w_now = zero_time, w_env = [AttemptTimeout, Recv [0x83]] @ Recv [5] # [Tick]\<rparr>"
      "[Tick]" "[1]"] d
  show ?thesis by (auto simp: numeral_2_eq_2)
qed

end
