(* ===== verification/Client.thy ===== *)
theory Client
  imports Companion_Session
begin

text \<open>
  The engine of \<open>client.go\<close>: the client record, the read loop, event emission, and the request
  functions every API call is built on.

  The client extends the \<open>world\<close>. The background read loop handles each script event as it comes
  (\<open>env_step\<close>), and a call that waits examines its channels after each event (\<open>await\<close>). That a call
  sees its responses promptly is justified by \<open>Request_Queue\<close>: in every interleaving a completed call
  was fed the shortest completing run of the responses delivered to it.
\<close>

section \<open>State\<close>

record client = world +
  cl_waiter :: "message chan option"
  cl_overflow :: bool
  cl_acks :: "uint32 chan"
  cl_traces :: "trace_data chan"
  cl_discoveries :: "node_discover_resp chan"
  cl_syncReq :: "unit chan"
  cl_autoSync :: bool
  cl_hook :: "event list option"
  cl_events :: "event dispatcher"
  cl_raw :: "raw_packet dispatcher"
  cl_rf :: "rf_packet dispatcher"
  cl_session :: session_info
  cl_timeout :: duration
  cl_eventCh :: "nat option"
  cl_eventUnsub :: "64 word option option"
  cl_rawCh :: "nat option"
  cl_rawUnsub :: "64 word option option"
  cl_reading :: bool
  cl_syncing :: bool
  cl_closed :: bool

definition DefaultTimeout :: duration where
  "DefaultTimeout = 10 * second"

definition empty_session :: session_info where
  "empty_session =
     \<lparr>se_Name = [], se_PublicKey = [], se_FirmwareName = [], se_FirmwareVersion = [], se_ProtocolVersion = [],
      se_Capabilities = [], se_RadioFreqKHz = 0, se_RadioBWKHz = 0, se_RadioSF = 0, se_RadioCR = 0,
      se_TxPowerDBm = 0, se_Latitude = 0, se_Longitude = 0\<rparr>"

text \<open>The options of \<open>New\<close>: per-request timeout, message sync, event hook. \<open>cl_hook\<close> records the
  events an installed hook observed.\<close>

datatype client_option = WithTimeout duration | WithMessageSync | WithEventHook

fun apply_option :: "client_option \<Rightarrow> client \<Rightarrow> client" where
  "apply_option (WithTimeout d) c = c\<lparr>cl_timeout := d\<rparr>"
| "apply_option WithMessageSync c = c\<lparr>cl_autoSync := True\<rparr>"
| "apply_option WithEventHook c = c\<lparr>cl_hook := Some []\<rparr>"

definition New_client :: "world \<Rightarrow> client_option list \<Rightarrow> client" where
  "New_client w opts = fold apply_option opts
     \<lparr>w_written = w_written w, w_writes = w_writes w, w_now = w_now w, w_env = w_env w,
      cl_waiter = None, cl_overflow = False, cl_acks = make_chan 16, cl_traces = make_chan 8,
      cl_discoveries = make_chan 32, cl_syncReq = make_chan 1, cl_autoSync = False, cl_hook = None,
      cl_events = New_dispatcher, cl_raw = New_dispatcher, cl_rf = New_dispatcher,
      cl_session = empty_session, cl_timeout = DefaultTimeout, cl_eventCh = None, cl_eventUnsub = None,
      cl_rawCh = None, cl_rawUnsub = None, cl_reading = False, cl_syncing = False, cl_closed = False\<rparr>"

section \<open>Read loop\<close>

text \<open>Received RF packets are mirrored into the RF log.\<close>

fun mirror_rf :: "event \<Rightarrow> client \<Rightarrow> client option" where
  "mirror_rf (RFPacketReceived rf) c =
     do {
       d \<leftarrow> Emit \<lparr>rp_Timestamp = rf_Timestamp rf, rp_Direction = RFRx, rp_SNR = rf_SNR rf,
              rp_RSSI = rf_RSSI rf, rp_Priority = 0, rp_Bytes = rf_Bytes rf\<rparr> (cl_rf c);
       Some (c\<lparr>cl_rf := d\<rparr>)
     }"
| "mirror_rf _ c = Some c"

definition call_hook :: "event \<Rightarrow> client \<Rightarrow> client" where
  "call_hook ev c = c\<lparr>cl_hook := map_option (\<lambda>seen. seen @ [ev]) (cl_hook c)\<rparr>"

definition emitEvent :: "event \<Rightarrow> client \<Rightarrow> client option" where
  "emitEvent ev c =
     do {
       c1 \<leftarrow> mirror_rf ev c;
       let c2 = call_hook ev c1;
       d \<leftarrow> Emit ev (cl_events c2);
       Some (c2\<lparr>cl_events := d\<rparr>)
     }"

text \<open>\<open>select { case ch <- v: default: }\<close>.\<close>

definition offer :: "'a \<Rightarrow> 'a chan \<Rightarrow> 'a chan option" where
  "offer v ch = map_option fst (try_send v ch)"

fun route_async :: "message \<Rightarrow> client \<Rightarrow> client option" where
  "route_async (SendConfirmed x) c = do { ch \<leftarrow> offer (scf_Code x) (cl_acks c); Some (c\<lparr>cl_acks := ch\<rparr>) }"
| "route_async (TraceData x) c = do { ch \<leftarrow> offer x (cl_traces c); Some (c\<lparr>cl_traces := ch\<rparr>) }"
| "route_async (NodeDiscoverResp x) c =
     do { ch \<leftarrow> offer x (cl_discoveries c); Some (c\<lparr>cl_discoveries := ch\<rparr>) }"
| "route_async MsgWaiting c =
     (if cl_autoSync c then do { ch \<leftarrow> offer () (cl_syncReq c); Some (c\<lparr>cl_syncReq := ch\<rparr>) } else Some c)"
| "route_async _ c = Some c"

definition handleAsync :: "message \<Rightarrow> client \<Rightarrow> client option" where
  "handleAsync m c =
     do {
       c1 \<leftarrow> route_async m c;
       ev \<leftarrow> translate (w_now c1) m;
       (case ev of None \<Rightarrow> Some c1 | Some ev \<Rightarrow> emitEvent ev c1)
     }"

definition close_streams :: "client \<Rightarrow> client option" where
  "close_streams c =
     do {
       e \<leftarrow> Close (cl_events c);
       r \<leftarrow> Close (cl_raw c);
       f \<leftarrow> Close (cl_rf c);
       Some (c\<lparr>cl_events := e, cl_raw := r, cl_rf := f, cl_reading := False\<rparr>)
     }"

text \<open>\<open>queue.Deliver\<close>: whether it was delivered, and whether the response buffer overflowed.\<close>

definition Deliver :: "message \<Rightarrow> client \<Rightarrow> bool \<times> bool \<times> client" where
  "Deliver m c =
     (case cl_waiter c of
        None \<Rightarrow> (False, False, c)
      | Some ch \<Rightarrow>
          (case try_send m ch of
             Some (ch', True) \<Rightarrow> (True, False, c\<lparr>cl_waiter := Some ch'\<rparr>)
           | _ \<Rightarrow> (False, True, c\<lparr>cl_overflow := True\<rparr>)))"

definition readLoop_packet :: "bytes \<Rightarrow> client \<Rightarrow> client option" where
  "readLoop_packet pkt c =
     do {
       m \<leftarrow> decode pkt;
       r \<leftarrow> rawPacket (w_now c) pkt m;
       raw \<leftarrow> Emit r (cl_raw c);
       let c1 = c\<lparr>cl_raw := raw\<rparr>;
       if Async m then handleAsync m c1
       else (case Deliver m c1 of
               (_, True, c2) \<Rightarrow> do { c3 \<leftarrow> emitEvent (Disconnected OverflowError) c2; close_streams c3 }
             | (_, False, c2) \<Rightarrow> Some c2)
     }"

definition readLoop_error :: "go_error \<Rightarrow> client \<Rightarrow> client option" where
  "readLoop_error e c =
     do {
       c1 \<leftarrow> (if e \<noteq> CtxError Canceled then emitEvent (Disconnected e) c else Some c);
       close_streams c1
     }"

definition cancel_opt :: "64 word option option \<Rightarrow> 'a dispatcher \<Rightarrow> 'a dispatcher option" where
  "cancel_opt u d = (case u of None \<Rightarrow> Some d | Some i \<Rightarrow> cancel i d)"

text \<open>\<open>Close\<close> up to \<open>conn.Close\<close>. Cancelling the loop context makes the pending read fail, which is an
  event of the script.\<close>

definition Close_client :: "client \<Rightarrow> client option" where
  "Close_client c =
     (if cl_closed c then Some c
      else do {
        e \<leftarrow> cancel_opt (cl_eventUnsub c) (cl_events c);
        r \<leftarrow> cancel_opt (cl_rawUnsub c) (cl_raw c);
        Some (c\<lparr>cl_events := e, cl_raw := r, cl_syncing := False, cl_closed := True\<rparr>)
      })"

fun env_step :: "env \<Rightarrow> client \<Rightarrow> client option" where
  "env_step (Recv pkt) c = (if cl_reading c then readLoop_packet pkt c else Some c)"
| "env_step (ReadFailed e) c = (if cl_reading c then readLoop_error e c else Some c)"
| "env_step (Clock t) c = Some (c\<lparr>w_now := t\<rparr>)"
| "env_step CloseCall c = Close_client c"
| "env_step _ c = Some c"

section \<open>Waiting\<close>

text \<open>
  \<open>await poll on_ctx es s c\<close>: a loop around a \<open>select\<close>. \<open>poll\<close> looks at the channels of the client and
  returns a result when the loop ends; otherwise the next event of the script happens. A context
  that is done ends the loop with \<open>on_ctx\<close>.
\<close>

fun await :: "('s \<Rightarrow> client \<Rightarrow> 'r option \<times> 's \<times> client) \<Rightarrow> (ctx_error \<Rightarrow> 's \<Rightarrow> 'r) \<Rightarrow>
    env list \<Rightarrow> 's \<Rightarrow> client \<Rightarrow> ('r \<times> client) outcome" where
  "await poll on_ctx [] s c =
     (case poll s c of
        (Some r, _, c') \<Rightarrow> Finished (r, c'\<lparr>w_env := []\<rparr>)
      | (None, _, _) \<Rightarrow> Blocked)"
| "await poll on_ctx (e # es) s c =
     (case poll s c of
        (Some r, _, c') \<Rightarrow> Finished (r, c'\<lparr>w_env := e # es\<rparr>)
      | (None, s', c') \<Rightarrow>
          (case e of
             CtxDone err \<Rightarrow> Finished (on_ctx err s', c'\<lparr>w_env := es\<rparr>)
           | AttemptTimeout \<Rightarrow> Finished (on_ctx DeadlineExceeded s', c'\<lparr>w_env := es\<rparr>)
           | _ \<Rightarrow>
               (case env_step e c' of
                  None \<Rightarrow> Panicked
                | Some c'' \<Rightarrow> await poll on_ctx es s' c'')))"

text \<open>Values of a channel are handled one by one until the handler is done.\<close>

fun feed :: "('v \<Rightarrow> 's \<Rightarrow> 's \<times> bool) \<Rightarrow> 's \<Rightarrow> 'v list \<Rightarrow> 's \<times> bool \<times> 'v list" where
  "feed f s [] = (s, False, [])"
| "feed f s (v # vs) = (let (s', fin) = f v s in if fin then (s', True, vs) else feed f s' vs)"

section \<open>Requests\<close>

definition emitOutbound :: "bytes \<Rightarrow> client \<Rightarrow> client option" where
  "emitOutbound pkt c =
     do {
       out \<leftarrow> outboundPacket (w_now c) pkt;
       d \<leftarrow> Emit out (cl_raw c);
       Some (c\<lparr>cl_raw := d\<rparr>)
     }"

definition poll_response :: "(message \<Rightarrow> 's \<Rightarrow> 's \<times> bool) \<Rightarrow> 's \<Rightarrow> client \<Rightarrow> (go_error + 's) option \<times> 's \<times> client" where
  "poll_response collect s c =
     (case cl_waiter c of
        None \<Rightarrow> (None, s, c)
      | Some ch \<Rightarrow>
          (let (s', fin, rest) = feed collect s (ch_buf ch); c' = c\<lparr>cl_waiter := Some (ch\<lparr>ch_buf := rest\<rparr>)\<rparr> in
           if fin then (Some (Inr s'), s', c')
           else if cl_overflow c then (Some (Inl OverflowError), s', c'\<lparr>cl_overflow := False\<rparr>)
           else (None, s', c')))"

text \<open>\<open>queue.run\<close> with the send function of the client: register the waiter, publish and write the
  frame, collect responses; the deferred function removes the waiter.\<close>

definition run_queue :: "bytes \<Rightarrow> (message \<Rightarrow> 's \<Rightarrow> 's \<times> bool) \<Rightarrow> 's \<Rightarrow> client \<Rightarrow>
    ((go_error + 's) \<times> client) outcome" where
  "run_queue raw collect s c =
     and_then (no_panic (emitOutbound raw (c\<lparr>cl_waiter := Some (make_chan streamBuffer), cl_overflow := False\<rparr>)))
       (\<lambda>c1. case WritePacket raw c1 of
          (Some e, c2) \<Rightarrow> Finished (Inl e, c2\<lparr>cl_waiter := None\<rparr>)
        | (None, c2) \<Rightarrow>
            and_then (await (poll_response collect) (\<lambda>e _. Inl (CtxError e)) (w_env c2) s c2)
              (\<lambda>(r, c3). Finished (r, c3\<lparr>cl_waiter := None\<rparr>)))"

text \<open>\<open>queue.Do\<close>. A nil result would fail the type assertion of the caller.\<close>

definition Do :: "bytes \<Rightarrow> client \<Rightarrow> ((go_error + message) \<times> client) outcome" where
  "Do raw c =
     and_then (run_queue raw (\<lambda>v _. (Some v, True)) None c) (\<lambda>(r, c').
       case r of
         Inl e \<Rightarrow> Finished (Inl e, c')
       | Inr (Some m) \<Rightarrow> Finished (Inr m, c')
       | Inr None \<Rightarrow> Panicked)"

fun check_response :: "message \<Rightarrow> go_error + message" where
  "check_response (Err code) = Inl (DeviceError code)"
| "check_response m = Inr m"

definition request :: "command \<Rightarrow> client \<Rightarrow> ((go_error + message) \<times> client) outcome" where
  "request cmd c =
     and_then (no_panic (encode (w_now c) cmd)) (\<lambda>enc.
       case enc of
         Inl e \<Rightarrow> Finished (Inl (EncodeError e), c)
       | Inr raw \<Rightarrow>
           and_then (Do raw c) (\<lambda>(r, c').
             case r of
               Inl e \<Rightarrow> Finished (Inl e, c')
             | Inr m \<Rightarrow> Finished (check_response m, c')))"

definition stream_step :: "(message \<Rightarrow> 's \<Rightarrow> 's \<times> bool) \<Rightarrow> message \<Rightarrow> go_error option \<times> 's \<Rightarrow>
    (go_error option \<times> 's) \<times> bool" where
  "stream_step collect m st =
     (case m of
        Err code \<Rightarrow> ((Some (DeviceError code), snd st), True)
      | _ \<Rightarrow> (let (s', fin) = collect m (snd st) in ((fst st, s'), fin)))"

definition requestStream :: "bytes \<Rightarrow> (message \<Rightarrow> 's \<Rightarrow> 's \<times> bool) \<Rightarrow> 's \<Rightarrow> client \<Rightarrow>
    ((go_error + 's) \<times> client) outcome" where
  "requestStream raw collect s c =
     and_then (run_queue raw (stream_step collect) (None, s) c) (\<lambda>(r, c').
       Finished (case r of
         Inl e \<Rightarrow> Inl e
       | Inr (Some e, _) \<Rightarrow> Inl e
       | Inr (None, s') \<Rightarrow> Inr s', c'))"

definition RawSend :: "bytes \<Rightarrow> client \<Rightarrow> ((go_error + message) \<times> client) outcome" where
  "RawSend payload c = Do payload c"

definition requireCapability :: "capability \<Rightarrow> client \<Rightarrow> go_error option" where
  "requireCapability cap c =
     (if \<not> Has (se_Capabilities (cl_session c)) cap then Some ErrUnsupportedCapability else None)"

text \<open>\<open>Connect\<close>. \<open>open_err\<close> is the result of \<open>conn.Open\<close>.\<close>

definition Connect :: "go_error option \<Rightarrow> client \<Rightarrow> (go_error option \<times> client) outcome" where
  "Connect open_err c =
     (case open_err of
        Some e \<Rightarrow> Finished (Some e, c)
      | None \<Rightarrow>
          and_then (Initialize [] c) (\<lambda>(r, c1).
            case r of
              Inl e \<Rightarrow> Finished (Some e, c1)
            | Inr session \<Rightarrow>
                (let (ea, eu, ev) = Subscribe 64 (cl_events c1);
                     (ra, ru, rw) = Subscribe 256 (cl_raw c1)
                 in Finished (None, c1\<lparr>cl_session := session, cl_events := ev, cl_eventCh := Some ea,
                      cl_eventUnsub := Some eu, cl_raw := rw, cl_rawCh := Some ra, cl_rawUnsub := Some ru,
                      cl_reading := True, cl_syncing := cl_autoSync c1\<rparr>))))"

section \<open>Invariant\<close>

definition signal_ok :: "'a chan \<Rightarrow> bool" where
  "signal_ok ch \<longleftrightarrow> ch_open ch \<and> chan_ok ch"

definition waiter_ok :: "message chan option \<Rightarrow> bool" where
  "waiter_ok w = (case w of Some ch \<Rightarrow> signal_ok ch \<and> ch_cap ch = streamBuffer | None \<Rightarrow> True)"

definition event_ref_ok :: "nat option \<Rightarrow> nat \<Rightarrow> bool" where
  "event_ref_ok r n = (case r of Some a \<Rightarrow> a < n | None \<Rightarrow> True)"

definition client_ok :: "client \<Rightarrow> bool" where
  "client_ok c \<longleftrightarrow>
     dispatcher_ok (cl_events c) \<and> dispatcher_ok (cl_raw c) \<and> dispatcher_ok (cl_rf c) \<and>
     signal_ok (cl_acks c) \<and> signal_ok (cl_traces c) \<and> signal_ok (cl_discoveries c) \<and> signal_ok (cl_syncReq c) \<and>
     waiter_ok (cl_waiter c) \<and> event_ref_ok (cl_eventCh c) (length (d_heap (cl_events c)))"

text \<open>The part of the client that event handling leaves alone.\<close>

definition core :: "client \<Rightarrow> _" where
  "core c = (w_written c, w_writes c, w_env c, cl_waiter c, cl_overflow c, cl_session c, cl_timeout c,
     cl_autoSync c, cl_reading c, cl_closed c, cl_eventCh c)"

lemma signal_ok_make [simp]: "signal_ok (make_chan n)"
  by (simp add: signal_ok_def)

lemma apply_option_ok: "client_ok c \<Longrightarrow> client_ok (apply_option opt c)"
  by (cases opt) (simp_all add: client_ok_def)

lemma client_ok_New: "client_ok (New_client w opts)"
proof -
  have *: "client_ok c \<Longrightarrow> client_ok (fold apply_option opts c)" for c
    by (induction opts arbitrary: c) (simp_all add: apply_option_ok)
  show ?thesis unfolding New_client_def by (rule *) (simp add: client_ok_def waiter_ok_def event_ref_ok_def)
qed

subsection \<open>Dispatchers in the client\<close>

lemma Emit_some:
  assumes "dispatcher_ok d"
  shows "\<exists>d'. Emit ev d = Some d' \<and> dispatcher_ok d' \<and> length (d_heap d') = length (d_heap d)"
proof -
  obtain d' where d': "Emit ev d = Some d'" using Emit_ok [OF assms] by blast
  have "length (d_heap d') = length (d_heap d)" using Emit_ok [OF assms, of ev] d' by (auto split: if_splits)
  with d' dispatcher_ok_Emit [OF assms d'] show ?thesis by blast
qed

lemma close_at_length: "close_at a h = Some h' \<Longrightarrow> length h' = length h"
  by (auto simp: close_at_def split: Option.bind_splits)

lemma close_all_length: "close_all as h = Some h' \<Longrightarrow> length h' = length h"
  by (induction as arbitrary: h) (auto dest: close_at_length split: Option.bind_splits)

lemma Close_some:
  assumes "dispatcher_ok d"
  shows "\<exists>d'. Close d = Some d' \<and> dispatcher_ok d' \<and> length (d_heap d') = length (d_heap d)"
proof -
  obtain d' where d': "Close d = Some d'" "dispatcher_ok d'" using Close_ok [OF assms] by blast
  then have "length (d_heap d') = length (d_heap d)"
    by (auto simp: Close_def dest: close_all_length split: if_splits Option.bind_splits)
  with d' show ?thesis by blast
qed

lemma cancel_opt_some:
  assumes "dispatcher_ok d"
  shows "\<exists>d'. cancel_opt u d = Some d' \<and> dispatcher_ok d' \<and> length (d_heap d') = length (d_heap d)"
proof (cases u)
  case (Some i)
  show ?thesis
  proof (cases i)
    case (Some k)
    obtain d' where d': "unsubscribe k d = Some d'" "dispatcher_ok d'" using unsubscribe_ok [OF assms] by blast
    then have "length (d_heap d') = length (d_heap d)"
      by (auto simp: unsubscribe_def dest: close_at_length split: option.splits Option.bind_splits)
    with d' \<open>u = Some i\<close> Some show ?thesis by (simp add: cancel_opt_def cancel_def)
  qed (use \<open>u = Some i\<close> assms in \<open>simp add: cancel_opt_def cancel_def\<close>)
qed (use assms in \<open>simp add: cancel_opt_def\<close>)

lemma offer_some: "signal_ok ch \<Longrightarrow> \<exists>ch'. offer v ch = Some ch' \<and> signal_ok ch'"
  by (auto simp: offer_def signal_ok_def try_send_def chan_ok_def)

subsection \<open>Steps of the read loop\<close>

lemma mirror_rf_some:
  assumes "client_ok c"
  shows "\<exists>c'. mirror_rf ev c = Some c' \<and> client_ok c' \<and> core c' = core c \<and> w_now c' = w_now c"
proof (cases ev)
  case (RFPacketReceived rf)
  have "dispatcher_ok (cl_rf c)" using assms by (simp add: client_ok_def)
  from Emit_some [OF this, of "\<lparr>rp_Timestamp = rf_Timestamp rf, rp_Direction = RFRx, rp_SNR = rf_SNR rf,
      rp_RSSI = rf_RSSI rf, rp_Priority = 0, rp_Bytes = rf_Bytes rf\<rparr>"]
  obtain d where "mirror_rf ev c = Some (c\<lparr>cl_rf := d\<rparr>)" "dispatcher_ok d"
    using RFPacketReceived by auto
  with assms show ?thesis by (simp add: client_ok_def core_def)
qed (use assms in simp_all)

lemma emitEvent_some:
  assumes "client_ok c"
  shows "\<exists>c'. emitEvent ev c = Some c' \<and> client_ok c' \<and> core c' = core c \<and> w_now c' = w_now c"
proof -
  from mirror_rf_some [OF assms, of ev] obtain c1 where
    c1: "mirror_rf ev c = Some c1" "client_ok c1" "core c1 = core c" "w_now c1 = w_now c" by blast
  then have "dispatcher_ok (cl_events c1)" by (simp add: client_ok_def)
  from Emit_some [OF this, of ev] obtain d where
    "Emit ev (cl_events c1) = Some d" "dispatcher_ok d" "length (d_heap d) = length (d_heap (cl_events c1))" by blast
  with c1 show ?thesis by (simp add: emitEvent_def call_hook_def client_ok_def core_def)
qed

lemma route_async_some:
  assumes ok: "client_ok c"
  shows "\<exists>c'. route_async m c = Some c' \<and> client_ok c' \<and> core c' = core c \<and> w_now c' = w_now c"
proof -
  have sig: "signal_ok (cl_acks c)" "signal_ok (cl_traces c)" "signal_ok (cl_discoveries c)" "signal_ok (cl_syncReq c)"
    using ok by (simp_all add: client_ok_def)
  show ?thesis
  proof (cases m)
    case (SendConfirmed x)
    with offer_some [OF sig(1), of "scf_Code x"] ok show ?thesis by (auto simp: client_ok_def core_def)
  next
    case (TraceData x)
    with offer_some [OF sig(2), of x] ok show ?thesis by (auto simp: client_ok_def core_def)
  next
    case (NodeDiscoverResp x)
    with offer_some [OF sig(3), of x] ok show ?thesis by (auto simp: client_ok_def core_def)
  next
    case MsgWaiting
    with offer_some [OF sig(4), of "()"] ok show ?thesis by (auto simp: client_ok_def core_def)
  qed (use ok in simp_all)
qed

lemma handleAsync_some:
  assumes "client_ok c"
  shows "\<exists>c'. handleAsync m c = Some c' \<and> client_ok c' \<and> core c' = core c \<and> w_now c' = w_now c"
proof -
  from route_async_some [OF assms, of m] obtain c1 where
    c1: "route_async m c = Some c1" "client_ok c1" "core c1 = core c" "w_now c1 = w_now c" by blast
  obtain ev where "translate (w_now c1) m = Some ev" using translate_returns by blast
  with c1 emitEvent_some [OF c1(2)] show ?thesis by (cases ev) (auto simp: handleAsync_def)
qed

lemma close_streams_some:
  assumes "client_ok c"
  shows "\<exists>c'. close_streams c = Some c' \<and> client_ok c' \<and> \<not> cl_reading c' \<and> core c' = core (c\<lparr>cl_reading := False\<rparr>)"
proof -
  have ok: "dispatcher_ok (cl_events c)" "dispatcher_ok (cl_raw c)" "dispatcher_ok (cl_rf c)"
    using assms by (simp_all add: client_ok_def)
  from Close_some [OF ok(1)] Close_some [OF ok(2)] Close_some [OF ok(3)] obtain e r f where
    "Close (cl_events c) = Some e" "dispatcher_ok e" "length (d_heap e) = length (d_heap (cl_events c))"
    "Close (cl_raw c) = Some r" "dispatcher_ok r" "Close (cl_rf c) = Some f" "dispatcher_ok f" by blast
  with assms show ?thesis by (simp add: close_streams_def client_ok_def core_def)
qed

lemma Deliver_ok:
  assumes "client_ok c" and "Deliver m c = (dl, ov, c')"
  shows "client_ok c'"
  using assms
  by (auto simp: Deliver_def client_ok_def waiter_ok_def signal_ok_def try_send_def chan_ok_def
      split: option.splits if_splits)

lemma raw_emit_some:
  assumes "client_ok c"
  shows "\<exists>d. Emit r (cl_raw c) = Some d \<and> client_ok (c\<lparr>cl_raw := d\<rparr>) \<and> core (c\<lparr>cl_raw := d\<rparr>) = core c"
  using Emit_some [of "cl_raw c" r] assms by (auto simp: client_ok_def core_def)

text \<open>A push leaves the waiting request untouched; a response is delivered to it.\<close>

lemma readLoop_push:
  assumes ok: "client_ok c" and m: "decode pkt = Some m" "Async m"
  shows "\<exists>c'. readLoop_packet pkt c = Some c' \<and> client_ok c' \<and> core c' = core c"
proof -
  obtain r where "rawPacket (w_now c) pkt m = Some r" using rawPacket_returns by blast
  moreover from raw_emit_some [OF ok, of r] obtain d where
    d: "Emit r (cl_raw c) = Some d" "client_ok (c\<lparr>cl_raw := d\<rparr>)" "core (c\<lparr>cl_raw := d\<rparr>) = core c" by blast
  ultimately show ?thesis
    using handleAsync_some [OF d(2), of m] m by (auto simp: readLoop_packet_def)
qed

lemma readLoop_response:
  assumes ok: "client_ok c" and m: "decode pkt = Some m" "\<not> Async m"
    and w: "cl_waiter c = Some ch" and room: "length (ch_buf ch) < streamBuffer"
  shows "\<exists>c'. readLoop_packet pkt c = Some c' \<and> client_ok c' \<and>
    core c' = core (c\<lparr>cl_waiter := Some (ch\<lparr>ch_buf := ch_buf ch @ [m]\<rparr>)\<rparr>)"
proof -
  obtain r where "rawPacket (w_now c) pkt m = Some r" using rawPacket_returns by blast
  moreover from raw_emit_some [OF ok, of r] obtain d where
    d: "Emit r (cl_raw c) = Some d" "client_ok (c\<lparr>cl_raw := d\<rparr>)" "core (c\<lparr>cl_raw := d\<rparr>) = core c" by blast
  let ?c = "c\<lparr>cl_raw := d, cl_waiter := Some (ch\<lparr>ch_buf := ch_buf ch @ [m]\<rparr>)\<rparr>"
  have "Deliver m (c\<lparr>cl_raw := d\<rparr>) = (True, False, ?c)"
    using ok w room by (simp add: Deliver_def client_ok_def waiter_ok_def signal_ok_def try_send_def)
  moreover from Deliver_ok [OF d(2) this] have "client_ok ?c" .
  ultimately show ?thesis using m d(1) by (auto simp: readLoop_packet_def core_def)
qed

lemma readLoop_packet_some:
  assumes ok: "client_ok c"
  shows "\<exists>c'. readLoop_packet pkt c = Some c' \<and> client_ok c'"
proof -
  obtain m where m: "decode pkt = Some m" using decode_returns by blast
  show ?thesis
  proof (cases "Async m")
    case True
    then show ?thesis using readLoop_push [OF ok m] by blast
  next
    case False
    obtain r where r: "rawPacket (w_now c) pkt m = Some r" using rawPacket_returns by blast
    from raw_emit_some [OF ok, of r] obtain d where
      d: "Emit r (cl_raw c) = Some d" "client_ok (c\<lparr>cl_raw := d\<rparr>)" by blast
    obtain dl ov c2 where dv: "Deliver m (c\<lparr>cl_raw := d\<rparr>) = (dl, ov, c2)" by (metis prod_cases3)
    from Deliver_ok [OF d(2) dv] have c2: "client_ok c2" .
    from emitEvent_some [OF c2, of "Disconnected OverflowError"] obtain c3 where
      c3: "emitEvent (Disconnected OverflowError) c2 = Some c3" "client_ok c3" by blast
    from close_streams_some [OF c3(2)] c3 c2 m r d dv False show ?thesis
      by (cases ov) (auto simp: readLoop_packet_def)
  qed
qed

lemma readLoop_error_some:
  assumes "client_ok c"
  shows "\<exists>c'. readLoop_error e c = Some c' \<and> client_ok c' \<and> \<not> cl_reading c' \<and> core c' = core (c\<lparr>cl_reading := False\<rparr>)"
proof (cases "e = CtxError Canceled")
  case True
  then show ?thesis using close_streams_some [OF assms] by (simp add: readLoop_error_def)
next
  case False
  from emitEvent_some [OF assms, of "Disconnected e"] obtain c1 where
    c1: "emitEvent (Disconnected e) c = Some c1" "client_ok c1" "core c1 = core c" by blast
  with close_streams_some [OF c1(2)] False show ?thesis by (auto simp: readLoop_error_def core_def)
qed

lemma Close_client_some:
  assumes "client_ok c"
  shows "\<exists>c'. Close_client c = Some c' \<and> client_ok c' \<and> cl_closed c'"
proof (cases "cl_closed c")
  case True
  then show ?thesis using assms by (simp add: Close_client_def)
next
  case False
  have ok: "dispatcher_ok (cl_events c)" "dispatcher_ok (cl_raw c)" using assms by (simp_all add: client_ok_def)
  from cancel_opt_some [OF ok(1), of "cl_eventUnsub c"] cancel_opt_some [OF ok(2), of "cl_rawUnsub c"]
  obtain e r where "cancel_opt (cl_eventUnsub c) (cl_events c) = Some e" "dispatcher_ok e"
    "length (d_heap e) = length (d_heap (cl_events c))"
    "cancel_opt (cl_rawUnsub c) (cl_raw c) = Some r" "dispatcher_ok r" by blast
  with assms False show ?thesis by (simp add: Close_client_def client_ok_def)
qed

lemma env_step_some: "client_ok c \<Longrightarrow> \<exists>c'. env_step e c = Some c' \<and> client_ok c'"
  using readLoop_packet_some [of c] readLoop_error_some [of c] Close_client_some [of c]
  by (cases e) (auto simp: client_ok_def)

section \<open>Waiting is safe\<close>

lemma client_ok_env [simp]: "client_ok (c\<lparr>w_env := es\<rparr>) = client_ok c"
  by (simp add: client_ok_def)

text \<open>
  What every waiting loop relies on: a look at the channels keeps the client well formed. Then the
  loop never panics, keeps the client well formed, does not outlive its context and consumes the
  script from the front.
\<close>

locale polling =
  fixes poll :: "'s \<Rightarrow> client \<Rightarrow> 'r option \<times> 's \<times> client"
  assumes poll_ok: "client_ok c \<Longrightarrow> poll s c = (r, s', c') \<Longrightarrow> client_ok c'"
begin

lemma await_safe: "client_ok c \<Longrightarrow> await poll on_ctx es s c \<noteq> Panicked"
proof (induction es arbitrary: s c)
  case (Cons e es)
  obtain r s' c' where p: "poll s c = (r, s', c')" by (metis prod_cases3)
  with poll_ok Cons.prems have "client_ok c'" by blast
  from env_step_some [OF this, of e] obtain c'' where "env_step e c' = Some c''" "client_ok c''" by blast
  with Cons.IH [of c'' s'] p show ?case by (auto split: option.splits env.splits)
qed (auto split: prod.splits option.splits)

lemma await_ok:
  "client_ok c \<Longrightarrow> await poll on_ctx es s c = Finished (r, c') \<Longrightarrow> client_ok c' \<and> (\<exists>us. es = us @ w_env c')"
proof (induction es arbitrary: s c)
  case Nil
  obtain q s1 c1 where p: "poll s c = (q, s1, c1)" by (metis prod_cases3)
  with Nil poll_ok [OF Nil.prems(1) p] show ?case by (auto split: option.splits)
next
  case (Cons e es)
  obtain q s1 c1 where p: "poll s c = (q, s1, c1)" by (metis prod_cases3)
  from poll_ok [OF Cons.prems(1) p] have c1: "client_ok c1" .
  from env_step_some [OF this, of e] obtain c2 where c2: "env_step e c1 = Some c2" "client_ok c2" by blast
  have IH: "client_ok c' \<and> (\<exists>us. e # es = us @ w_env c')" if "await poll on_ctx es s1 c2 = Finished (r, c')"
    using Cons.IH [OF c2(2) that] by (metis append_Cons)
  show ?case
  proof (cases q)
    case None
    with Cons.prems(2) p c1 c2 IH show ?thesis by (cases e) (auto intro: exI [of _ "[e]"])
  next
    case (Some x)
    with Cons.prems(2) p c1 show ?thesis by (auto intro: exI [of _ "[]"])
  qed
qed

lemma await_ends:
  "client_ok c \<Longrightarrow> CtxDone err \<in> set es \<Longrightarrow> \<exists>x. await poll on_ctx es s c = Finished x"
proof (induction es arbitrary: s c)
  case (Cons e es)
  obtain q s1 c1 where p: "poll s c = (q, s1, c1)" by (metis prod_cases3)
  from poll_ok [OF Cons.prems(1) p] have "client_ok c1" .
  from env_step_some [OF this, of e] obtain c2 where c2: "env_step e c1 = Some c2" "client_ok c2" by blast
  with Cons.IH [OF c2(2), of s1] Cons.prems(2) p show ?case
    by (cases q; cases e) auto
qed simp

end

lemma feed_rest: "feed f s vs = (s', fin, rest) \<Longrightarrow> length rest \<le> length vs"
proof (induction vs arbitrary: s)
  case (Cons v vs)
  then show ?case by (cases "f v s") (fastforce split: if_splits)
qed simp

interpretation responses: polling "poll_response collect" for collect
proof unfold_locales
  fix c :: client and s r s' c'
  assume ok: "client_ok c" and p: "poll_response collect s c = (r, s', c')"
  show "client_ok c'"
  proof (cases "cl_waiter c")
    case (Some ch)
    obtain s1 fin rest where f: "feed collect s (ch_buf ch) = (s1, fin, rest)" by (metis prod_cases3)
    from feed_rest [OF f] ok Some have "waiter_ok (Some (ch\<lparr>ch_buf := rest\<rparr>))"
      by (simp add: client_ok_def waiter_ok_def signal_ok_def chan_ok_def)
    with ok p f Some show ?thesis by (auto simp: poll_response_def client_ok_def Let_def split: if_splits)
  qed (use ok p in \<open>simp add: poll_response_def\<close>)
qed

section \<open>Requests are safe\<close>

lemma emitOutbound_some:
  assumes "client_ok c"
  shows "\<exists>c'. emitOutbound raw c = Some c' \<and> client_ok c' \<and> core c' = core c"
proof -
  obtain out where "outboundPacket (w_now c) raw = Some out" using outboundPacket_returns by blast
  with raw_emit_some [OF assms, of out] show ?thesis by (auto simp: emitOutbound_def)
qed

lemma client_ok_waiter: "client_ok c \<Longrightarrow> waiter_ok w \<Longrightarrow> client_ok (c\<lparr>cl_waiter := w, cl_overflow := ov\<rparr>)"
  by (simp add: client_ok_def)

lemma waiter_ok_new [simp]: "waiter_ok (Some (make_chan streamBuffer))" "waiter_ok None"
  by (simp_all add: waiter_ok_def)

lemma WritePacket_ok: "client_ok c \<Longrightarrow> WritePacket raw c = (r, c') \<Longrightarrow> client_ok c'"
  by (auto simp: WritePacket_def Let_def client_ok_def split: list.splits)

text \<open>The state of a request after its frame was written.\<close>

lemma run_queue_start:
  assumes "client_ok c"
  obtains c1 r c2 where
    "emitOutbound raw (c\<lparr>cl_waiter := Some (make_chan streamBuffer), cl_overflow := False\<rparr>) = Some c1"
    "WritePacket raw c1 = (r, c2)" "client_ok c2" "w_env c2 = w_env c"
    "cl_waiter c2 = Some (make_chan streamBuffer)" "\<not> cl_overflow c2"
    "w_writes c = [] \<Longrightarrow> r = None \<and> core c2 = core (c\<lparr>cl_waiter := Some (make_chan streamBuffer),
       cl_overflow := False, w_written := w_written c @ [raw]\<rparr>)"
proof -
  let ?c = "c\<lparr>cl_waiter := Some (make_chan streamBuffer), cl_overflow := False\<rparr>"
  have "client_ok ?c" using assms by (simp add: client_ok_waiter)
  from emitOutbound_some [OF this, of raw] obtain c1 where
    c1: "emitOutbound raw ?c = Some c1" "client_ok c1" "core c1 = core ?c" by blast
  obtain r c2 where w: "WritePacket raw c1 = (r, c2)" by force
  from WritePacket_ok [OF c1(2) w] have "client_ok c2" .
  moreover have same: "w_env c1 = w_env c" "w_writes c1 = w_writes c"
    "cl_waiter c1 = Some (make_chan streamBuffer)" "\<not> cl_overflow c1" using c1(3) by (simp_all add: core_def)
  moreover have "w_env c2 = w_env c1" "cl_waiter c2 = cl_waiter c1" "cl_overflow c2 = cl_overflow c1"
    using w by (auto simp: WritePacket_def Let_def split: list.splits)
  moreover have "r = None \<and> core c2 = core (c\<lparr>cl_waiter := Some (make_chan streamBuffer),
       cl_overflow := False, w_written := w_written c @ [raw]\<rparr>)" if "w_writes c = []"
    using w same(2) that c1(3) by (auto simp: WritePacket_def core_def)
  ultimately show ?thesis by (intro that [OF c1(1) w]) simp_all
qed

lemma poll_fresh:
  "cl_waiter c = Some (make_chan streamBuffer) \<Longrightarrow> \<not> cl_overflow c \<Longrightarrow> poll_response collect s c = (None, s, c)"
  by (simp add: poll_response_def make_chan_def)

lemma await_fresh_consumes:
  assumes "client_ok c" and "cl_waiter c = Some (make_chan streamBuffer)" and "\<not> cl_overflow c"
    and "await (poll_response collect) on_ctx es s c = Finished (r, c')"
  shows "length (w_env c') < length es"
proof (cases es)
  case Nil
  then show ?thesis using assms by (simp add: poll_fresh)
next
  case (Cons e es')
  from env_step_some [OF assms(1), of e] obtain c2 where c2: "env_step e c = Some c2" "client_ok c2" by blast
  have "length (w_env c') \<le> length es'"
    if "await (poll_response collect) on_ctx es' s c2 = Finished (r, c')"
    using responses.await_ok [OF c2(2) that] by auto
  with assms(2-4) c2 Cons show ?thesis by (cases e) (auto simp: poll_fresh less_Suc_eq_le)
qed

lemma run_queue_safe: "client_ok c \<Longrightarrow> run_queue raw collect s c \<noteq> Panicked"
proof -
  assume "client_ok c"
  then show ?thesis
    by (rule run_queue_start [of c raw])
      (auto simp: run_queue_def and_then_Panicked_iff responses.await_safe split: option.splits)
qed

lemma run_queue_ok:
  assumes "client_ok c" and "run_queue raw collect s c = Finished (r, c')"
  shows "client_ok c' \<and> cl_waiter c' = None \<and> length (w_env c') \<le> length (w_env c) \<and>
    (\<forall>x. r = Inr x \<longrightarrow> length (w_env c') < length (w_env c))"
proof -
  obtain c1 q c2 where q:
    "emitOutbound raw (c\<lparr>cl_waiter := Some (make_chan streamBuffer), cl_overflow := False\<rparr>) = Some c1"
    "WritePacket raw c1 = (q, c2)" and c2: "client_ok c2" "w_env c2 = w_env c"
    "cl_waiter c2 = Some (make_chan streamBuffer)" "\<not> cl_overflow c2"
    using run_queue_start [OF assms(1), of raw] by metis
  have w: "client_ok (d\<lparr>cl_waiter := None\<rparr>)" if "client_ok d" for d
    using that by (simp add: client_ok_def)
  show ?thesis
  proof (cases q)
    case None
    with assms(2) q obtain d where
      d: "await (poll_response collect) (\<lambda>e _. Inl (CtxError e)) (w_env c2) s c2 = Finished (r, d)"
      "c' = d\<lparr>cl_waiter := None\<rparr>"
      by (auto simp: run_queue_def and_then_Finished_iff)
    from responses.await_ok [OF c2(1) d(1)] await_fresh_consumes [OF c2(1, 3, 4) d(1)] c2(2) d(2) w
    show ?thesis by auto
  next
    case (Some e)
    with assms(2) q c2 w show ?thesis by (auto simp: run_queue_def)
  qed
qed

text \<open>What holds of the state of a waiting loop holds of its result.\<close>

lemma await_inv:
  assumes stay: "\<And>s c s' c'. I s \<Longrightarrow> poll s c = (None, s', c') \<Longrightarrow> I s'"
    and "\<And>s c r s' c'. I s \<Longrightarrow> poll s c = (Some r, s', c') \<Longrightarrow> Q r" and "\<And>s e. I s \<Longrightarrow> Q (on_ctx e s)"
  shows "I s \<Longrightarrow> await poll on_ctx es s c = Finished (r, c') \<Longrightarrow> Q r"
proof (induction es arbitrary: s c)
  case Nil
  then show ?case by (auto split: prod.splits option.splits dest: assms(2))
next
  case (Cons e es)
  obtain q s1 c1 where p: "poll s c = (q, s1, c1)" by (metis prod_cases3)
  show ?case
  proof (cases q)
    case None
    with p Cons.prems stay have "I s1" by blast
    with None p Cons.prems Cons.IH [of s1] assms(3) [of s1] show ?thesis by (cases e) (auto split: option.splits)
  next
    case (Some x)
    with p Cons.prems show ?thesis by (auto dest: assms(2))
  qed
qed

lemma feed_inv:
  assumes "\<And>v s s' fin. I s \<Longrightarrow> f v s = (s', fin) \<Longrightarrow> if fin then Q s' else I s'"
  shows "I s \<Longrightarrow> feed f s vs = (s', fin, rest) \<Longrightarrow> if fin then Q s' else I s'"
proof (induction vs arbitrary: s)
  case (Cons v vs)
  obtain s1 b where "f v s = (s1, b)" by force
  with assms [OF Cons.prems(1) this] Cons.prems(2) Cons.IH [of s1] show ?case by (auto split: if_splits)
qed auto

lemma run_queue_inv:
  assumes step: "\<And>v s s' fin. I s \<Longrightarrow> collect v s = (s', fin) \<Longrightarrow> if fin then Q s' else I s'"
    and "I s" and run: "run_queue raw collect s c = Finished (Inr x, c')"
  shows "Q x"
proof -
  have feed: "I s \<Longrightarrow> feed collect s vs = (s', fin, rest) \<Longrightarrow> if fin then Q s' else I s'" for s s' fin vs rest
    by (rule feed_inv [OF step])
  obtain es d d' where
    aw: "await (poll_response collect) (\<lambda>e _. Inl (CtxError e)) es s d = Finished (Inr x, d')"
  proof -
    from run obtain c1 where c1: "(case WritePacket raw c1 of
          (Some e, c2) \<Rightarrow> Finished (Inl e, c2\<lparr>cl_waiter := None\<rparr>)
        | (None, c2) \<Rightarrow>
            and_then (await (poll_response collect) (\<lambda>e _. Inl (CtxError e)) (w_env c2) s c2)
              (\<lambda>(r, c3). Finished (r, c3\<lparr>cl_waiter := None\<rparr>))) = Finished (Inr x, c')"
      by (auto simp: run_queue_def and_then_Finished_iff)
    obtain q c2 where "WritePacket raw c1 = (q, c2)" by force
    with c1 show ?thesis by (cases q) (auto simp: and_then_Finished_iff intro: that)
  qed
  have "case_sum (\<lambda>_. True) Q (Inr x :: go_error + _)"
  proof (rule await_inv [where I = I, OF _ _ _ assms(2) aw])
    fix s c s' c'
    assume "I s" and "poll_response collect s c = (None, s', c')"
    then show "I s'"
      by (auto simp: poll_response_def Let_def split: option.splits prod.splits if_splits dest: feed)
  next
    fix s c r s' c'
    assume "I s" and "poll_response collect s c = (Some r, s', c')"
    then show "case_sum (\<lambda>_. True) Q r"
      by (auto simp: poll_response_def Let_def split: option.splits prod.splits if_splits dest: feed)
  qed simp
  then show ?thesis by simp
qed

lemma Do_ok:
  assumes "client_ok c"
  shows "Do raw c \<noteq> Panicked \<and> (\<forall>r c'. Do raw c = Finished (r, c') \<longrightarrow>
    client_ok c' \<and> cl_waiter c' = None \<and> length (w_env c') \<le> length (w_env c) \<and>
    (\<forall>m. r = Inr m \<longrightarrow> length (w_env c') < length (w_env c)))"
proof -
  let ?f = "\<lambda>v (_ :: message option). (Some v, True)"
  have some: "x \<noteq> None" if "run_queue raw ?f None c = Finished (Inr x, c')" for x c'
    by (rule run_queue_inv [where I = "\<lambda>_. True", OF _ _ that]) auto
  show ?thesis
  proof (cases "run_queue raw ?f None c")
    case (Finished x)
    obtain r c' where x: "x = (r, c')" by force
    with Finished run_queue_ok [OF assms, of raw ?f None r c'] some [of _ c'] show ?thesis
      by (cases r) (auto simp: Do_def)
  qed (use run_queue_safe [OF assms, of raw ?f None] in \<open>auto simp: Do_def\<close>)
qed

lemma check_response_Inr [simp]: "check_response m = Inr m' \<longleftrightarrow> m' = m \<and> (\<forall>code. m \<noteq> Err code)"
  by (cases m) auto

lemma request_ok:
  assumes "client_ok c"
  shows "request cmd c \<noteq> Panicked \<and> (\<forall>r c'. request cmd c = Finished (r, c') \<longrightarrow>
    client_ok c' \<and> (cl_waiter c = None \<longrightarrow> cl_waiter c' = None) \<and> length (w_env c') \<le> length (w_env c) \<and>
    (\<forall>m. r = Inr m \<longrightarrow> length (w_env c') < length (w_env c) \<and> (\<forall>code. m \<noteq> Err code)))"
proof -
  obtain enc where enc: "encode (w_now c) cmd = Some enc" using encode_returns by blast
  show ?thesis
  proof (cases enc)
    case (Inl e)
    with enc assms show ?thesis by (simp add: request_def)
  next
    case (Inr raw)
    have "request cmd c = and_then (Do raw c) (\<lambda>(r, c').
        case r of Inl e \<Rightarrow> Finished (Inl e, c') | Inr m \<Rightarrow> Finished (check_response m, c'))"
      by (simp add: request_def enc Inr)
    with Do_ok [OF assms, of raw] show ?thesis
    proof (cases "Do raw c")
      case (Finished x)
      obtain q d where "x = (q, d)" by force
      with \<open>request cmd c = _\<close> Finished Do_ok [OF assms, of raw] show ?thesis by (cases q) auto
    qed (use \<open>request cmd c = _\<close> in auto)
  qed
qed

lemma requestStream_ok:
  assumes "client_ok c"
  shows "requestStream raw collect s c \<noteq> Panicked \<and> (\<forall>r c'. requestStream raw collect s c = Finished (r, c') \<longrightarrow>
    client_ok c' \<and> cl_waiter c' = None \<and> length (w_env c') \<le> length (w_env c))"
  using run_queue_safe [OF assms, of raw "stream_step collect" "(None, s)"]
    run_queue_ok [OF assms, of raw "stream_step collect" "(None, s)"]
  by (auto simp: requestStream_def and_then_Panicked_iff and_then_Finished_iff)

section \<open>Responses reach the request\<close>

text \<open>Events that leave a waiting request alone: pushes, clock and ticker.\<close>

fun quiet :: "env \<Rightarrow> bool" where
  "quiet (Recv p) = (case decode p of Some m \<Rightarrow> Async m | None \<Rightarrow> False)"
| "quiet (Clock _) = True"
| "quiet Tick = True"
| "quiet _ = False"

fun response :: "env \<Rightarrow> message option" where
  "response (Recv p) = (case decode p of Some m \<Rightarrow> (if Async m then None else Some m) | None \<Rightarrow> None)"
| "response _ = None"

lemma core_sel:
  assumes "core c = core d"
  shows "w_written c = w_written d" "w_writes c = w_writes d" "w_env c = w_env d" "cl_waiter c = cl_waiter d"
    "cl_overflow c = cl_overflow d" "cl_session c = cl_session d" "cl_timeout c = cl_timeout d"
    "cl_autoSync c = cl_autoSync d" "cl_reading c = cl_reading d" "cl_closed c = cl_closed d"
    "cl_eventCh c = cl_eventCh d"
  using assms by (simp_all add: core_def)

lemma env_step_quiet:
  assumes "client_ok c" and "quiet e"
  shows "\<exists>c'. env_step e c = Some c' \<and> client_ok c' \<and> core c' = core c"
proof (cases e)
  case (Recv p)
  obtain m where "decode p = Some m" using decode_returns by blast
  with Recv assms readLoop_push [OF assms(1) this] show ?thesis by auto
qed (use assms in \<open>auto simp: core_def client_ok_def\<close>)

lemma env_step_response:
  assumes "client_ok c" and "cl_reading c" and "response e = Some m"
    and "cl_waiter c = Some (make_chan streamBuffer)"
  shows "\<exists>c'. env_step e c = Some c' \<and> client_ok c' \<and>
    core c' = core (c\<lparr>cl_waiter := Some ((make_chan streamBuffer)\<lparr>ch_buf := [m]\<rparr>)\<rparr>)"
proof (cases e)
  case (Recv p)
  with assms(3) have "decode p = Some m" "\<not> Async m" by (auto split: option.splits if_splits)
  from readLoop_response [OF assms(1) this assms(4)] Recv assms(2) show ?thesis
    by (simp add: streamBuffer_def)
qed (use assms(3) in auto)

text \<open>A request waiting for its responses.\<close>

definition waiting :: "client \<Rightarrow> bool" where
  "waiting c \<longleftrightarrow> client_ok c \<and> cl_reading c \<and> cl_waiter c = Some (make_chan streamBuffer) \<and> \<not> cl_overflow c"

lemma waiting_core: "waiting c \<Longrightarrow> client_ok c' \<Longrightarrow> core c' = core c \<Longrightarrow> waiting c'"
  using core_sel [of c' c] by (simp add: waiting_def)

lemma poll_one:
  assumes "cl_waiter c = Some ((make_chan streamBuffer)\<lparr>ch_buf := [m]\<rparr>)" and "\<not> cl_overflow c"
    and "collect m s = (s', fin)"
  shows "poll_response collect s c =
    (if fin then Some (Inr s') else None, s', c\<lparr>cl_waiter := Some (make_chan streamBuffer)\<rparr>)"
  using assms by (simp add: poll_response_def make_chan_def Let_def)

text \<open>The state in which the next poll finds one response.\<close>

lemma await_poll_first:
  "poll s c = (None, s', c') \<Longrightarrow> poll s' c' = (None, s', c') \<Longrightarrow> await poll f es s c = await poll f es s' c'"
  by (cases es) simp_all

text \<open>The collector is fed the responses of the script in order, and the loop ends with the first
  that completes it.\<close>

lemma await_collects:
  assumes "waiting c" and "list_all (\<lambda>e. quiet e \<or> response e \<noteq> None) es"
    and "feed collect s (List.map_filter response es) = (s1, False, [])"
    and "response e = Some m" and "collect m s1 = (s2, True)"
  shows "\<exists>c'. await (poll_response collect) f (es @ e # rest) s c = Finished (Inr s2, c') \<and>
    client_ok c' \<and> core c' = core (c\<lparr>w_env := rest\<rparr>)"
  using assms
proof (induction es arbitrary: s c)
  case Nil
  then have w: "client_ok c" "cl_reading c" "cl_waiter c = Some (make_chan streamBuffer)" "\<not> cl_overflow c"
    and s1: "s1 = s" by (simp_all add: waiting_def map_filter_simps)
  from env_step_response [OF w(1, 2) Nil.prems(4) w(3)] obtain c1 where
    c1: "env_step e c = Some c1" "client_ok c1"
    "core c1 = core (c\<lparr>cl_waiter := Some ((make_chan streamBuffer)\<lparr>ch_buf := [m]\<rparr>)\<rparr>)" by blast
  let ?c2 = "c1\<lparr>cl_waiter := Some (make_chan streamBuffer)\<rparr>"
  have p: "poll_response collect s c1 = (Some (Inr s2), s2, ?c2)"
    using c1(3) w(4) Nil.prems(5) s1 by (subst poll_one [where fin = True]) (simp_all add: core_def)
  have "e \<noteq> AttemptTimeout" "\<forall>x. e \<noteq> CtxDone x" using Nil.prems(4) by auto
  then have "await (poll_response collect) f (e # rest) s c = await (poll_response collect) f rest s c1"
    using w c1(1) by (cases e) (simp_all add: poll_fresh)
  also have "\<dots> = Finished (Inr s2, ?c2\<lparr>w_env := rest\<rparr>)" using p by (cases rest) simp_all
  finally show ?case
    using c1 w(3) by (auto simp: client_ok_def core_def)
next
  case (Cons x es)
  then have w: "client_ok c" "cl_reading c" "cl_waiter c = Some (make_chan streamBuffer)" "\<not> cl_overflow c"
    by (simp_all add: waiting_def)
  show ?case
  proof (cases "response x")
    case None
    with Cons.prems(2) have q: "quiet x" by simp
    from env_step_quiet [OF w(1) q] obtain c1 where
      c1: "env_step x c = Some c1" "client_ok c1" "core c1 = core c" by blast
    with waiting_core [OF Cons.prems(1)] have "waiting c1" by blast
    moreover have "await (poll_response collect) f ((x # es) @ e # rest) s c =
        await (poll_response collect) f (es @ e # rest) s c1"
      using q w c1(1) by (cases x) (simp_all add: poll_fresh)
    moreover have "core (c1\<lparr>w_env := rest\<rparr>) = core (c\<lparr>w_env := rest\<rparr>)" using c1(3) by (simp add: core_def)
    ultimately show ?thesis
      using Cons.IH [of c1 s] Cons.prems None by (simp add: map_filter_simps)
  next
    case (Some v)
    from env_step_response [OF w(1, 2) Some w(3)] obtain c1 where
      c1: "env_step x c = Some c1" "client_ok c1"
      "core c1 = core (c\<lparr>cl_waiter := Some ((make_chan streamBuffer)\<lparr>ch_buf := [v]\<rparr>)\<rparr>)" by blast
    obtain s' fin where cv: "collect v s = (s', fin)" by force
    with Cons.prems(3) Some have fin: "\<not> fin" "feed collect s' (List.map_filter response es) = (s1, False, [])"
      by (auto simp: map_filter_simps split: if_splits)
    let ?c2 = "c1\<lparr>cl_waiter := Some (make_chan streamBuffer)\<rparr>"
    have p: "poll_response collect s c1 = (None, s', ?c2)"
      using c1(3) w(4) cv fin(1) by (subst poll_one [where fin = False]) (simp_all add: core_def)
    have c2: "client_ok ?c2" "core ?c2 = core c" using c1 w(3) by (auto simp: client_ok_def core_def)
    with waiting_core [OF Cons.prems(1)] have "waiting ?c2" by blast
    have "x \<noteq> AttemptTimeout" "\<forall>y. x \<noteq> CtxDone y" using Some by auto
    then have "await (poll_response collect) f ((x # es) @ e # rest) s c =
        await (poll_response collect) f (es @ e # rest) s c1"
      using w c1(1) by (cases x) (simp_all add: poll_fresh)
    also have "\<dots> = await (poll_response collect) f (es @ e # rest) s' ?c2"
      using \<open>waiting ?c2\<close>
      by (intro await_poll_first [where poll = "poll_response collect", OF p] poll_fresh) (simp_all add: waiting_def)
    finally show ?thesis
      using Cons.IH [OF \<open>waiting ?c2\<close> _ fin(2) Cons.prems(4, 5)] Cons.prems(2) c2(2) by (auto simp: core_def)
  qed
qed

lemma run_queue_collects:
  assumes ok: "client_ok c" "cl_reading c" "w_writes c = []"
    and es: "w_env c = es @ e # rest" "list_all (\<lambda>e. quiet e \<or> response e \<noteq> None) es"
    and f: "feed collect s (List.map_filter response es) = (s1, False, [])"
    and m: "response e = Some m" "collect m s1 = (s2, True)"
  shows "\<exists>c'. run_queue raw collect s c = Finished (Inr s2, c') \<and> client_ok c' \<and>
    core c' = core (c\<lparr>w_written := w_written c @ [raw], cl_waiter := None, cl_overflow := False, w_env := rest\<rparr>)"
proof -
  obtain c1 r c2 where st:
    "emitOutbound raw (c\<lparr>cl_waiter := Some (make_chan streamBuffer), cl_overflow := False\<rparr>) = Some c1"
    "WritePacket raw c1 = (r, c2)" and c2: "client_ok c2" "w_env c2 = w_env c"
    "cl_waiter c2 = Some (make_chan streamBuffer)" "\<not> cl_overflow c2"
    and cc: "r = None" "core c2 = core (c\<lparr>cl_waiter := Some (make_chan streamBuffer),
       cl_overflow := False, w_written := w_written c @ [raw]\<rparr>)"
    using run_queue_start [OF ok(1), of raw] ok(3) by metis
  have "waiting c2" using c2 ok(2) core_sel(9) [OF cc(2)] by (simp add: waiting_def)
  from await_collects [OF this es(2) f m, of "\<lambda>e _. Inl (CtxError e)" rest] es(1) c2(2) obtain c' where
    c': "await (poll_response collect) (\<lambda>e _. Inl (CtxError e)) (w_env c2) s c2 = Finished (Inr s2, c')"
    "client_ok c'" "core c' = core (c2\<lparr>w_env := rest\<rparr>)" by auto
  have "client_ok (c'\<lparr>cl_waiter := None\<rparr>)" using c'(2) by (simp add: client_ok_def)
  moreover have "core (c'\<lparr>cl_waiter := None\<rparr>) =
      core (c\<lparr>w_written := w_written c @ [raw], cl_waiter := None, cl_overflow := False, w_env := rest\<rparr>)"
    using c'(3) cc(2) by (simp add: core_def)
  moreover have "run_queue raw collect s c = Finished (Inr s2, c'\<lparr>cl_waiter := None\<rparr>)"
    using st cc(1) c'(1) by (simp add: run_queue_def)
  ultimately show ?thesis by blast
qed

text \<open>A script in which the pending request is answered by \<open>m\<close> after quiet events.\<close>

definition answered :: "client \<Rightarrow> message \<Rightarrow> env list \<Rightarrow> bool" where
  "answered c m rest \<longleftrightarrow> client_ok c \<and> cl_reading c \<and> w_writes c = [] \<and>
     (\<exists>es pkt. w_env c = es @ Recv pkt # rest \<and> list_all quiet es \<and> decode pkt = Some m \<and> \<not> Async m)"

lemma quiet_no_response: "quiet e \<Longrightarrow> response e = None"
  by (cases e) (auto split: option.splits)

lemma quiet_map_filter: "list_all quiet es \<Longrightarrow> List.map_filter response es = []"
  by (induction es) (simp_all add: map_filter_simps quiet_no_response)

definition after_request :: "client \<Rightarrow> bytes \<Rightarrow> env list \<Rightarrow> client \<Rightarrow> bool" where
  "after_request c raw rest c' \<longleftrightarrow> client_ok c' \<and>
     core c' = core (c\<lparr>w_written := w_written c @ [raw], cl_waiter := None, cl_overflow := False, w_env := rest\<rparr>)"

lemma Do_answered:
  assumes "answered c m rest"
  shows "\<exists>c'. Do raw c = Finished (Inr m, c') \<and> after_request c raw rest c'"
proof -
  from assms obtain es pkt where a: "client_ok c" "cl_reading c" "w_writes c = []"
    "w_env c = es @ Recv pkt # rest" "list_all quiet es" "decode pkt = Some m" "\<not> Async m"
    by (auto simp: answered_def)
  have "list_all (\<lambda>e. quiet e \<or> response e \<noteq> None) es" using a(5) by (simp add: list_all_iff)
  from run_queue_collects [OF a(1-4) this, of "\<lambda>v (_ :: message option). (Some v, True)" None None m "Some m" raw]
    quiet_map_filter [OF a(5)] a(6, 7)
  obtain c' where "run_queue raw (\<lambda>v (_ :: message option). (Some v, True)) None c = Finished (Inr (Some m), c')"
    "after_request c raw rest c'" by (auto simp: after_request_def)
  then show ?thesis by (simp add: Do_def)
qed

lemma request_answered:
  assumes "answered c m rest" and "encode (w_now c) cmd = Some (Inr raw)"
  shows "\<exists>c'. request cmd c = Finished (check_response m, c') \<and> after_request c raw rest c'"
  using Do_answered [OF assms(1), of raw] assms(2) by (auto simp: request_def)

lemma after_request_sel:
  assumes "after_request c raw rest c'"
  shows "client_ok c'" "w_written c' = w_written c @ [raw]" "w_writes c' = w_writes c" "w_env c' = rest"
    "cl_waiter c' = None" "cl_session c' = cl_session c" "cl_timeout c' = cl_timeout c" "cl_reading c' = cl_reading c"
    "cl_closed c' = cl_closed c" "cl_eventCh c' = cl_eventCh c"
  using assms by (simp_all add: after_request_def core_def)

lemma request_ctx:
  assumes "client_ok c" and "CtxDone e \<in> set (w_env c)"
  shows "\<exists>x. request cmd c = Finished x"
proof -
  obtain enc where enc: "encode (w_now c) cmd = Some enc" using encode_returns by blast
  show ?thesis
  proof (cases enc)
    case (Inr raw)
    let ?f = "\<lambda>v (_ :: message option). (Some v, True)"
    obtain c1 r c2 where st:
      "emitOutbound raw (c\<lparr>cl_waiter := Some (make_chan streamBuffer), cl_overflow := False\<rparr>) = Some c1"
      "WritePacket raw c1 = (r, c2)" "client_ok c2" "w_env c2 = w_env c"
      using run_queue_start [OF assms(1), of raw] by metis
    with responses.await_ends [OF st(3), of e "w_env c2" ?f "\<lambda>e _. Inl (CtxError e)" None] assms(2)
    have "\<exists>q d. run_queue raw ?f None c = Finished (q, d)"
      by (cases r) (auto simp: run_queue_def)
    then obtain q d where q: "run_queue raw ?f None c = Finished (q, d)" by blast
    have "Do raw c \<noteq> Panicked" using Do_ok [OF assms(1)] by blast
    with q have "\<exists>q d. Do raw c = Finished (q, d)" by (auto simp: Do_def split: sum.splits option.splits)
    with enc Inr show ?thesis by (auto simp: request_def split: sum.splits)
  qed (use enc in \<open>simp add: request_def\<close>)
qed

section \<open>Properties\<close>

text \<open>C2: The client never panics. Whatever packets arrive, however reads and writes fail, and whenever
  the client is closed, handling an event keeps the client well formed and does not panic, and a
  request does not panic, keeps the client well formed, removes its waiter, never returns a device
  error frame as a success, and returns once its context is done.\<close>

theorem client_request_safe:
  assumes "client_ok c"
  shows "(\<exists>c'. env_step e c = Some c' \<and> client_ok c') \<and> request cmd c \<noteq> Panicked \<and>
    (\<forall>r c'. request cmd c = Finished (r, c') \<longrightarrow>
       client_ok c' \<and> (cl_waiter c = None \<longrightarrow> cl_waiter c' = None) \<and> (\<forall>code. r \<noteq> Inr (Err code))) \<and>
    (CtxDone err \<in> set (w_env c) \<longrightarrow> (\<exists>x. request cmd c = Finished x))"
  using env_step_some [OF assms, of e] request_ok [OF assms, of cmd] request_ctx [OF assms, of err cmd] by blast

theorem client_request_safe_witness:
  "request Reboot (New_client \<lparr>w_written = [], w_writes = [], w_now = zero_time, w_env = [Tick]\<rparr> [WithMessageSync]) \<noteq> Panicked"
  using client_request_safe [OF client_ok_New] by blast

text \<open>C29: A request returns the response to it and nothing else. When, after any pushes, a response
  arrives, the request has written exactly its encoded frame, returns that response, or its error
  code when it is an error frame, and consumes no event after it; pushes do not disturb it.\<close>

theorem request_returns_response:
  assumes "client_ok c" and "cl_reading c" and "w_writes c = []" and "w_env c = es @ Recv pkt # rest"
    and "list_all quiet es" and "decode pkt = Some m" and "\<not> Async m" and "encode (w_now c) cmd = Some (Inr raw)"
  shows "\<exists>c'. request cmd c = Finished (case m of Err code \<Rightarrow> Inl (DeviceError code) | _ \<Rightarrow> Inr m, c') \<and>
    w_written c' = w_written c @ [raw] \<and> w_env c' = rest \<and> cl_waiter c' = None \<and> client_ok c'"
proof -
  have "answered c m rest" using assms(1-7) by (auto simp: answered_def)
  from request_answered [OF this assms(8)] obtain c' where
    c': "request cmd c = Finished (check_response m, c')" "after_request c raw rest c'" by blast
  have "check_response m = (case m of Err code \<Rightarrow> Inl (DeviceError code) | _ \<Rightarrow> Inr m)" by (cases m) simp_all
  with c' after_request_sel [OF c'(2)] show ?thesis by auto
qed

theorem request_returns_response_witness:
  "\<exists>c'. request Reboot ((New_client \<lparr>w_written = [], w_writes = [], w_now = zero_time,
      w_env = [Recv [0x83]] @ Recv [1, 6] # [Tick]\<rparr> [])\<lparr>cl_reading := True\<rparr>) =
      Finished (Inl (DeviceError 6), c') \<and> w_env c' = [Tick] \<and> w_written c' = [[cmdReboot]]"
proof -
  let ?w = "\<lparr>w_written = [], w_writes = [], w_now = zero_time, w_env = [Recv [0x83]] @ Recv [1, 6] # [Tick]\<rparr>"
  let ?c = "(New_client ?w [])\<lparr>cl_reading := True\<rparr>"
  have ok: "client_ok ?c" using client_ok_New [of ?w "[]"] by (simp add: client_ok_def)
  have d: "decode [0x83] = Some MsgWaiting" "decode [1, 6] = Some (Err 6)"
    by (simp_all add: decode_def run_time_checks Let_def)
  have "\<exists>c'. request Reboot ?c = Finished (case Err 6 of Err code \<Rightarrow> Inl (DeviceError code) | _ \<Rightarrow> Inr (Err 6), c') \<and>
    w_written c' = w_written ?c @ [[cmdReboot]] \<and> w_env c' = [Tick] \<and> cl_waiter c' = None \<and> client_ok c'"
    by (rule request_returns_response [OF ok, where es = "[Recv [0x83]]" and pkt = "[1, 6]"])
      (simp_all add: d New_client_def)
  then show ?thesis by (auto simp: New_client_def)
qed

end
