(* ===== verification/Client_Push.thy ===== *)
theory Client_Push
  imports Client
begin

text \<open>
  Waiting for pushes. The read loop puts confirmations, trace replies and discovery replies into three
  buffered channels of the client (\<open>handleAsync\<close> in \<open>client.go\<close>), and three API calls wait on one of them in the
  same shape of loop: a \<open>select\<close> over the context, the closed client and that channel. The loop and its
  laws are stated once for a channel fed by the read loop and interpreted for the three.
\<close>

section \<open>The loop\<close>

text \<open>The buffered values are handled one by one until a result is returned.\<close>

fun drain :: "('v \<Rightarrow> 's \<Rightarrow> 's \<times> 'r option) \<Rightarrow> 's \<Rightarrow> 'v list \<Rightarrow> 's \<times> 'r option \<times> 'v list" where
  "drain h s [] = (s, None, [])"
| "drain h s (v # vs) = (case h v s of (s', Some r) \<Rightarrow> (s', Some r, vs) | (s', None) \<Rightarrow> drain h s' vs)"

definition poll_push :: "(client \<Rightarrow> 'v chan) \<Rightarrow> ('v chan \<Rightarrow> client \<Rightarrow> client) \<Rightarrow> ('v \<Rightarrow> 's \<Rightarrow> 's \<times> 'r option) \<Rightarrow>
    ('s \<Rightarrow> 'r) \<Rightarrow> 's \<Rightarrow> client \<Rightarrow> 'r option \<times> 's \<times> client" where
  "poll_push get put h on_closed s c =
     (let (s', r, rest) = drain h s (ch_buf (get c)); c' = put ((get c)\<lparr>ch_buf := rest\<rparr>) c
      in (case r of
            Some x \<Rightarrow> (Some x, s', c')
          | None \<Rightarrow> if cl_closed c then (Some (on_closed s'), s', c') else (None, s', c')))"

lemma drain_rest: "drain h s vs = (s', r, rest) \<Longrightarrow> length rest \<le> length vs \<and> (r = None \<longrightarrow> rest = [])"
proof (induction vs arbitrary: s)
  case (Cons v vs)
  obtain s1 q where "h v s = (s1, q)" by force
  with Cons show ?case by (cases q) fastforce+
qed simp

lemma drain_append:
  "drain h s xs = (s1, None, []) \<Longrightarrow> drain h s (xs @ ys) = drain h s1 ys"
proof (induction xs arbitrary: s)
  case (Cons v vs)
  obtain s1 q where "h v s = (s1, q)" by force
  with Cons show ?case by (cases q) auto
qed simp

lemma drain_prefix:
  "drain h s (xs @ ys) = (s', None, []) \<Longrightarrow> \<exists>s1. drain h s xs = (s1, None, []) \<and> drain h s1 ys = (s', None, [])"
proof (induction xs arbitrary: s)
  case (Cons v vs)
  obtain s1 q where "h v s = (s1, q)" by force
  with Cons show ?case by (cases q) auto
qed simp

lemma drain_inv:
  assumes "\<And>v s s' r. I s \<Longrightarrow> h v s = (s', r) \<Longrightarrow> I s' \<and> (\<forall>x. r = Some x \<longrightarrow> Q x)"
  shows "I s \<Longrightarrow> drain h s vs = (s', r, rest) \<Longrightarrow> I s' \<and> (\<forall>x. r = Some x \<longrightarrow> Q x)"
proof (induction vs arbitrary: s)
  case (Cons v vs)
  obtain s1 q where q: "h v s = (s1, q)" by force
  with Cons assms [OF Cons.prems(1) q] show ?case by (cases q) auto
qed simp

section \<open>A channel fed by the read loop\<close>

locale push_channel =
  fixes get :: "client \<Rightarrow> 'v chan" and put :: "'v chan \<Rightarrow> client \<Rightarrow> client" and payload :: "message \<Rightarrow> 'v option"
  assumes get_put: "get (put ch c) = ch"
    and put_core: "core (put ch c) = core c"
    and put_ok: "client_ok c \<Longrightarrow> signal_ok ch \<Longrightarrow> client_ok (put ch c)"
    and get_ok: "client_ok c \<Longrightarrow> signal_ok (get c)"
    and emit_get: "emitEvent ev c = Some c' \<Longrightarrow> get c' = get c"
    and raw_get: "get (c\<lparr>cl_raw := d\<rparr>) = get c"
    and clock_get: "get (c\<lparr>w_now := t\<rparr>) = get c"
    and route_other: "route_async m c = Some c' \<Longrightarrow> payload m = None \<Longrightarrow> get c' = get c"
    and route_payload: "route_async m c = Some c' \<Longrightarrow> payload m = Some v \<Longrightarrow> offer v (get c) = Some (get c')"
    and payload_push: "payload m = Some v \<Longrightarrow> Async m"
begin

lemma poll_push_client_ok:
  assumes "client_ok c" and "poll_push get put h on_closed s c = (r, s', c')"
  shows "client_ok c' \<and> core c' = core c \<and> ch_cap (get c') = ch_cap (get c)"
proof -
  obtain s1 q rest where d: "drain h s (ch_buf (get c)) = (s1, q, rest)" by (rule prod_cases3)
  with drain_rest [OF d] get_ok [OF assms(1)] have "signal_ok ((get c)\<lparr>ch_buf := rest\<rparr>)"
    by (simp add: signal_ok_def chan_ok_def)
  with assms d put_ok [OF assms(1)] put_core show ?thesis
    by (auto simp: poll_push_def get_put Let_def split: option.splits if_splits)
qed

sublocale poll: polling "poll_push get put h on_closed" for h on_closed
  by unfold_locales (blast dest: poll_push_client_ok)

lemma handleAsync_get:
  assumes "handleAsync m c = Some c'" and "client_ok c"
  shows "case payload m of None \<Rightarrow> get c' = get c | Some v \<Rightarrow> offer v (get c) = Some (get c')"
proof -
  obtain c1 where c1: "route_async m c = Some c1" using route_async_some [OF assms(2)] by blast
  obtain ev where "translate (w_now c1) m = Some ev" using translate_returns by blast
  with assms(1) c1 have "get c' = get c1"
    by (cases ev) (auto simp: handleAsync_def dest: emit_get)
  with c1 show ?thesis by (auto split: option.split dest: route_other route_payload)
qed

fun pushed :: "env \<Rightarrow> 'v option" where
  "pushed (Recv p) = Option.bind (decode p) payload"
| "pushed _ = None"

lemma env_step_get:
  assumes "client_ok c" and "quiet e" and "env_step e c = Some c'" and "cl_reading c"
  shows "case pushed e of None \<Rightarrow> get c' = get c | Some v \<Rightarrow> offer v (get c) = Some (get c')"
proof (cases e)
  case (Recv p)
  obtain m where m: "decode p = Some m" "Async m" using Recv assms(2) by (auto split: option.splits)
  obtain r where r: "rawPacket (w_now c) p m = Some r" using rawPacket_returns by blast
  from raw_emit_some [OF assms(1), of r] obtain d where
    d: "Emit r (cl_raw c) = Some d" "client_ok (c\<lparr>cl_raw := d\<rparr>)" by blast
  from assms(3, 4) Recv m r d(1) have "handleAsync m (c\<lparr>cl_raw := d\<rparr>) = Some c'"
    by (simp add: readLoop_packet_def)
  from handleAsync_get [OF this d(2)] show ?thesis using Recv m(1) by (cases "payload m") (simp_all add: raw_get)
qed (use assms in \<open>auto simp: clock_get\<close>)

lemma offer_empty:
  assumes "client_ok c" and "ch_buf (get c) = []" and "0 < ch_cap (get c)" and "offer v (get c) = Some ch"
  shows "ch_buf ch = [v] \<and> ch_cap ch = ch_cap (get c)"
  using assms get_ok [OF assms(1)] by (auto simp: offer_def try_send_def signal_ok_def split: if_splits)

lemma step_empty:
  assumes "client_ok c" and "quiet e" and "cl_reading c" and "ch_buf (get c) = []" and "0 < ch_cap (get c)"
  shows "\<exists>c'. env_step e c = Some c' \<and> client_ok c' \<and> core c' = core c \<and> ch_cap (get c') = ch_cap (get c) \<and>
    ch_buf (get c') = (case pushed e of None \<Rightarrow> [] | Some v \<Rightarrow> [v])"
proof -
  from env_step_quiet [OF assms(1, 2)] obtain c' where
    c': "env_step e c = Some c'" "client_ok c'" "core c' = core c" by blast
  with env_step_get [OF assms(1, 2) c'(1) assms(3)] offer_empty [OF assms(1, 4, 5)] assms(4)
  show ?thesis by (auto split: option.splits)
qed

text \<open>The part of a script in which nothing ends the wait: the handler sees every push once and in
  order, and the buffer never fills.\<close>

lemma await_pushes:
  assumes "client_ok c" and "cl_reading c" and "\<not> cl_closed c" and "0 < ch_cap (get c)" and "list_all quiet es"
    and "drain h s (ch_buf (get c) @ List.map_filter pushed es) = (s1, None, [])"
  shows "\<exists>c' s0. await (poll_push get put h on_closed) f (es @ rest) s c =
      await (poll_push get put h on_closed) f rest s0 c' \<and> drain h s0 (ch_buf (get c')) = (s1, None, []) \<and>
    client_ok c' \<and> core c' = core c \<and> ch_cap (get c') = ch_cap (get c)"
  using assms
proof (induction es arbitrary: s c)
  case Nil
  then show ?case by (intro exI [of _ c] exI [of _ s]) (simp add: map_filter_simps)
next
  case (Cons e es)
  let ?poll = "poll_push get put h on_closed" and ?d = "put ((get c)\<lparr>ch_buf := []\<rparr>) c"
  from drain_prefix [OF Cons.prems(6)] obtain s2 where
    s2: "drain h s (ch_buf (get c)) = (s2, None, [])" "drain h s2 (List.map_filter pushed (e # es)) = (s1, None, [])" by blast
  with Cons.prems(3) have p: "?poll s c = (None, s2, ?d)" by (simp add: poll_push_def Let_def)
  from poll_push_client_ok [OF Cons.prems(1) this] core_sel [of ?d c] Cons.prems
  have d: "client_ok ?d" "core ?d = core c" "ch_cap (get ?d) = ch_cap (get c)" "cl_reading ?d" "ch_buf (get ?d) = []"
    by (simp_all add: get_put)
  from step_empty [OF d(1) _ d(4, 5)] d(3) Cons.prems(4, 5) obtain c1 where
    c1: "env_step e ?d = Some c1" "client_ok c1" "core c1 = core c" "ch_cap (get c1) = ch_cap (get c)"
    "ch_buf (get c1) = (case pushed e of None \<Rightarrow> [] | Some v \<Rightarrow> [v])"
    using d(2) by (auto split: option.splits)
  have "ch_buf (get c1) @ List.map_filter pushed es = List.map_filter pushed (e # es)"
    using c1(5) by (simp add: map_filter_simps split: option.split)
  with Cons.IH [of c1 s2] Cons.prems c1 core_sel(9, 10) [OF c1(3)] s2(2) obtain c' s0 where
    "await ?poll f (es @ rest) s2 c1 = await ?poll f rest s0 c'" "drain h s0 (ch_buf (get c')) = (s1, None, [])"
    "client_ok c'" "core c' = core c" "ch_cap (get c') = ch_cap (get c)" by auto
  moreover have "await ?poll f ((e # es) @ rest) s c = await ?poll f (es @ rest) s2 c1"
    using p c1(1) Cons.prems(5) by (cases e) simp_all
  ultimately show ?case by auto
qed

lemma await_hit:
  assumes "client_ok c" and "cl_reading c" and "\<not> cl_closed c" and "0 < ch_cap (get c)" and "list_all quiet es"
    and "drain h s (ch_buf (get c) @ List.map_filter pushed es) = (s1, None, [])"
    and "pushed e = Some v" and "h v s1 = (s2, Some r)"
  shows "\<exists>c'. await (poll_push get put h on_closed) f (es @ e # rest) s c = Finished (r, c') \<and>
    client_ok c' \<and> core c' = core (c\<lparr>w_env := rest\<rparr>)"
proof -
  let ?poll = "poll_push get put h on_closed"
  obtain c0 s0 where c0: "await ?poll f (es @ e # rest) s c = await ?poll f (e # rest) s0 c0"
    "drain h s0 (ch_buf (get c0)) = (s1, None, [])" "client_ok c0" "core c0 = core c" "ch_cap (get c0) = ch_cap (get c)"
    using await_pushes [OF assms(1-6)] by blast
  let ?d = "put ((get c0)\<lparr>ch_buf := []\<rparr>) c0"
  have p: "?poll s0 c0 = (None, s1, ?d)"
    using c0(2) core_sel(10) [OF c0(4)] assms(3) by (simp add: poll_push_def)
  from poll_push_client_ok [OF c0(3) this] c0(4, 5) have
    d: "client_ok ?d" "core ?d = core c" "ch_cap (get ?d) = ch_cap (get c)" "ch_buf (get ?d) = []"
    by (simp_all add: get_put)
  have q: "quiet e" "e \<noteq> AttemptTimeout" "\<forall>x. e \<noteq> CtxDone x"
    using assms(7) by (cases e; auto split: Option.bind_splits dest: payload_push)+
  from step_empty [OF d(1) q(1) _ d(4)] d(2, 3) assms(2, 4, 7) core_sel(9) [OF d(2)] obtain c1 where
    c1: "env_step e ?d = Some c1" "client_ok c1" "core c1 = core c" "ch_buf (get c1) = [v]" by auto
  from c1(4) assms(8) have p1: "?poll s1 c1 = (Some r, s2, put ((get c1)\<lparr>ch_buf := []\<rparr>) c1)"
    by (simp add: poll_push_def)
  from poll_push_client_ok [OF c1(2) this] c1(3) have "client_ok (put ((get c1)\<lparr>ch_buf := []\<rparr>) c1)"
    "core (put ((get c1)\<lparr>ch_buf := []\<rparr>) c1) = core c" by simp_all
  moreover have "await ?poll f (e # rest) s0 c0 = await ?poll f rest s1 c1"
    using p c1(1) q(2, 3) by (cases e) simp_all
  moreover have "await ?poll f rest s1 c1 = Finished (r, (put ((get c1)\<lparr>ch_buf := []\<rparr>) c1)\<lparr>w_env := rest\<rparr>)"
    using p1 by (cases rest) simp_all
  ultimately show ?thesis using c0(1) by (auto simp: client_ok_def core_def)
qed

lemma await_window:
  assumes "client_ok c" and "cl_reading c" and "\<not> cl_closed c" and "0 < ch_cap (get c)" and "list_all quiet es"
    and "drain h s (ch_buf (get c) @ List.map_filter pushed es) = (s1, None, [])"
  shows "\<exists>c'. await (poll_push get put h on_closed) f (es @ AttemptTimeout # rest) s c =
      Finished (f DeadlineExceeded s1, c') \<and> client_ok c' \<and> core c' = core (c\<lparr>w_env := rest\<rparr>)"
proof -
  let ?poll = "poll_push get put h on_closed"
  obtain c0 s0 where c0: "await ?poll f (es @ AttemptTimeout # rest) s c = await ?poll f (AttemptTimeout # rest) s0 c0"
    "drain h s0 (ch_buf (get c0)) = (s1, None, [])" "client_ok c0" "core c0 = core c"
    using await_pushes [OF assms] by blast
  let ?d = "put ((get c0)\<lparr>ch_buf := []\<rparr>) c0"
  have p: "?poll s0 c0 = (None, s1, ?d)"
    using c0(2) core_sel(10) [OF c0(4)] assms(3) by (simp add: poll_push_def)
  from poll_push_client_ok [OF c0(3) this] c0(1, 4) p show ?thesis
    by (auto simp: client_ok_def core_def)
qed

end

section \<open>The three channels\<close>

fun confirmed_code :: "message \<Rightarrow> uint32 option" where
  "confirmed_code (SendConfirmed x) = Some (scf_Code x)"
| "confirmed_code _ = None"

fun trace_reply :: "message \<Rightarrow> trace_data option" where
  "trace_reply (TraceData x) = Some x"
| "trace_reply _ = None"

fun discovery_reply :: "message \<Rightarrow> node_discover_resp option" where
  "discovery_reply (NodeDiscoverResp x) = Some x"
| "discovery_reply _ = None"

lemma mirror_rf_channels:
  "mirror_rf ev c = Some d \<Longrightarrow> cl_acks d = cl_acks c \<and> cl_traces d = cl_traces c \<and> cl_discoveries d = cl_discoveries c"
  by (cases ev) (auto split: Option.bind_splits)

lemma emitEvent_channels:
  "emitEvent ev c = Some d \<Longrightarrow> cl_acks d = cl_acks c \<and> cl_traces d = cl_traces c \<and> cl_discoveries d = cl_discoveries c"
  by (auto simp: emitEvent_def call_hook_def split: Option.bind_splits dest: mirror_rf_channels)

lemma route_async_channels:
  "route_async m c = Some d \<Longrightarrow>
     (if confirmed_code m = None then cl_acks d = cl_acks c else offer (the (confirmed_code m)) (cl_acks c) = Some (cl_acks d)) \<and>
     (if trace_reply m = None then cl_traces d = cl_traces c else offer (the (trace_reply m)) (cl_traces c) = Some (cl_traces d)) \<and>
     (if discovery_reply m = None then cl_discoveries d = cl_discoveries c
      else offer (the (discovery_reply m)) (cl_discoveries c) = Some (cl_discoveries d))"
  by (cases m) (auto split: Option.bind_splits if_splits)

lemma payload_async:
  "confirmed_code m = Some a \<Longrightarrow> Async m" "trace_reply m = Some b \<Longrightarrow> Async m" "discovery_reply m = Some d \<Longrightarrow> Async m"
  by (cases m; simp)+

lemmas channel_laws = emitEvent_channels route_async_channels payload_async

interpretation acks: push_channel cl_acks "\<lambda>ch. cl_acks_update (\<lambda>_. ch)" confirmed_code
  by unfold_locales (auto simp: core_def client_ok_def dest: channel_laws)

interpretation traces: push_channel cl_traces "\<lambda>ch. cl_traces_update (\<lambda>_. ch)" trace_reply
  by unfold_locales (auto simp: core_def client_ok_def dest: channel_laws)

interpretation discoveries: push_channel cl_discoveries "\<lambda>ch. cl_discoveries_update (\<lambda>_. ch)" discovery_reply
  by unfold_locales (auto simp: core_def client_ok_def dest: channel_laws)

section \<open>A request answered at once\<close>

text \<open>When the next event is the response, a request changes nothing but the written frames, the
  script and the raw log.\<close>

lemma request_immediate:
  assumes ok: "client_ok c" "cl_reading c" "w_writes c = []" and env: "w_env c = Recv pkt # rest"
    and m: "decode pkt = Some m" "\<not> Async m" and raw: "encode (w_now c) cmd = Some (Inr raw)"
  shows "\<exists>d. request cmd c = Finished (check_response m,
      c\<lparr>w_written := w_written c @ [raw], w_env := rest, cl_waiter := None, cl_overflow := False, cl_raw := d\<rparr>) \<and>
    dispatcher_ok d"
proof -
  let ?ch = "make_chan streamBuffer :: message chan"
  obtain out where out: "outboundPacket (w_now c) raw = Some out" using outboundPacket_returns by blast
  obtain d1 where d1: "Emit out (cl_raw c) = Some d1" "dispatcher_ok d1"
    using Emit_some [of "cl_raw c" out] ok(1) by (auto simp: client_ok_def)
  obtain r where r: "rawPacket (w_now c) pkt m = Some r" using rawPacket_returns by blast
  obtain d2 where d2: "Emit r d1 = Some d2" "dispatcher_ok d2" using Emit_some [OF d1(2)] by blast
  define c1 where "c1 = c\<lparr>cl_waiter := Some ?ch, cl_overflow := False, cl_raw := d1, w_written := w_written c @ [raw]\<rparr>"
  define c2 where "c2 = c1\<lparr>cl_raw := d2, cl_waiter := Some (?ch\<lparr>ch_buf := [m]\<rparr>)\<rparr>"
  let ?poll = "poll_response (\<lambda>v _. (Some v, True)) :: message option \<Rightarrow> _"
  have "env_step (Recv pkt) c1 = Some c2"
    using ok(2) m r d2(1) by (simp add: c1_def c2_def readLoop_packet_def Deliver_def try_send_def make_chan_def streamBuffer_def)
  moreover have "?poll None c1 = (None, None, c1)" by (rule poll_fresh) (simp_all add: c1_def)
  ultimately have "await ?poll f (Recv pkt # rest) None c1 = await ?poll f rest None c2" for f by simp
  moreover have "?poll None c2 = (Some (Inr (Some m)), Some m, c2\<lparr>cl_waiter := Some ?ch\<rparr>)"
    by (subst poll_one [where fin = True]) (simp_all add: c1_def c2_def)
  then have "await ?poll f rest None c2 = Finished (Inr (Some m), c2\<lparr>cl_waiter := Some ?ch, w_env := rest\<rparr>)" for f
    by (cases rest) simp_all
  moreover have "emitOutbound raw (c\<lparr>cl_waiter := Some ?ch, cl_overflow := False\<rparr>) =
      Some (c\<lparr>cl_waiter := Some ?ch, cl_overflow := False, cl_raw := d1\<rparr>)"
    using out d1(1) by (simp add: emitOutbound_def)
  moreover have "WritePacket raw (c\<lparr>cl_waiter := Some ?ch, cl_overflow := False, cl_raw := d1\<rparr>) = (None, c1)"
    and "w_env c1 = Recv pkt # rest"
    using ok(3) env by (simp_all add: WritePacket_def c1_def)
  ultimately have "run_queue raw (\<lambda>v _. (Some v, True)) None c =
      Finished (Inr (Some m), c2\<lparr>cl_waiter := None, w_env := rest\<rparr>)"
    by (simp add: run_queue_def del: await.simps)
  then have "request cmd c = Finished (check_response m, c2\<lparr>cl_waiter := None, w_env := rest\<rparr>)"
    using raw by (simp add: request_def Do_def)
  with d2(2) show ?thesis by (auto simp: c1_def c2_def intro!: exI [of _ d2])
qed

end
