(* ===== verification/Go_Strconv.thy ===== *)
theory Go_Strconv
  imports Go_Strings
begin

text \<open>
  The decimal parsers of package \<open>strconv\<close> that the sources call: \<open>ParseUint(s, 10, bits)\<close>,
  \<open>ParseInt(s, 10, bits)\<close> and \<open>Atoi\<close>, which on a 64-bit platform is \<open>ParseInt\<close> with 64 bits. \<open>None\<close> is a
  syntax or range error.
\<close>

definition digit_val :: "char \<Rightarrow> nat option" where
  "digit_val c = (let n = of_char c :: nat in if 48 \<le> n \<and> n \<le> 57 then Some (n - 48) else None)"

fun digits_val :: "nat \<Rightarrow> string \<Rightarrow> nat option" where
  "digits_val acc [] = Some acc"
| "digits_val acc (c # s) = (case digit_val c of None \<Rightarrow> None | Some d \<Rightarrow> digits_val (10 * acc + d) s)"

definition ParseUint :: "nat \<Rightarrow> string \<Rightarrow> nat option" where
  "ParseUint bits s =
     (if s = [] then None
      else case digits_val 0 s of
          None \<Rightarrow> None
        | Some n \<Rightarrow> if n < 2 ^ bits then Some n else None)"

definition ParseInt :: "nat \<Rightarrow> string \<Rightarrow> int option" where
  "ParseInt bits s =
     (case s of
        [] \<Rightarrow> None
      | c # rest \<Rightarrow>
          (let neg = (c = CHR ''-''); body = (if c = CHR ''-'' \<or> c = CHR ''+'' then rest else s) in
           case ParseUint 64 body of
             None \<Rightarrow> None
           | Some n \<Rightarrow>
               if \<not> neg \<and> n \<ge> 2 ^ (bits - 1) then None
               else if neg \<and> n > 2 ^ (bits - 1) then None
               else Some (if neg then - int n else int n)))"

definition Atoi :: "string \<Rightarrow> int option" where
  "Atoi s = ParseInt 64 s"

text \<open>Parsing inverts printing, and every parsed value is in range.\<close>

lemma of_char_digit: "d < 10 \<Longrightarrow> of_char (hex_digit d) = (48 + d :: nat)"
  by (simp add: hex_digit_def)

lemma digit_val_hex_digit: "d < 10 \<Longrightarrow> digit_val (hex_digit d) = Some d"
  by (simp add: digit_val_def of_char_digit)

lemma digits_val_append:
  "digits_val acc (s @ t) = (case digits_val acc s of None \<Rightarrow> None | Some a \<Rightarrow> digits_val a t)"
  by (induction s arbitrary: acc) (auto split: option.splits)

lemma digits_val_show: "digits_val 0 (show_nat n) = Some n"
proof (induction n rule: less_induct)
  case (less n)
  show ?case
  proof (cases "n < 10")
    case True
    then show ?thesis by (simp add: show_nat.simps [of n] digit_val_hex_digit)
  next
    case False
    then have "digits_val 0 (show_nat (n div 10)) = Some (n div 10)" by (intro less.IH) simp
    then show ?thesis using False
      by (simp add: show_nat.simps [of n] digits_val_append digit_val_hex_digit)
  qed
qed

lemma show_nat_digit:
  "\<exists>d s. d < 10 \<and> show_nat n = hex_digit d # s"
proof (induction n rule: less_induct)
  case (less n)
  show ?case
  proof (cases "n < 10")
    case False
    then obtain d s where "d < 10" "show_nat (n div 10) = hex_digit d # s" using less.IH [of "n div 10"] by auto
    with False show ?thesis by (auto simp: show_nat.simps [of n])
  qed (auto simp: show_nat.simps [of n])
qed

lemma ParseUint_show: "n < 2 ^ bits \<Longrightarrow> ParseUint bits (show_nat n) = Some n"
  using show_nat_digit [of n] by (auto simp: ParseUint_def digits_val_show)

lemma digit_not_sign:
  assumes "d < 10" shows "hex_digit d \<noteq> CHR ''-'' \<and> hex_digit d \<noteq> CHR ''+''"
proof -
  have "of_char (hex_digit d) = (48 + d :: nat)" using assms by (rule of_char_digit)
  moreover have "of_char (CHR ''-'') = (45 :: nat)" "of_char (CHR ''+'') = (43 :: nat)" by simp_all
  ultimately show ?thesis by fastforce
qed

lemma ParseInt_show:
  assumes "n < 2 ^ (bits - 1)" and "bits \<le> 64"
  shows "ParseInt bits (show_nat n) = Some (int n)"
proof -
  obtain d s where s: "d < 10" "show_nat n = hex_digit d # s" using show_nat_digit by blast
  have "(2 :: nat) ^ (bits - 1) \<le> 2 ^ 64" using assms(2) by (intro power_increasing) auto
  with assms(1) have "n < 2 ^ 64" by linarith
  from ParseUint_show [OF this] s digit_not_sign [OF s(1)] assms(1) show ?thesis
    by (simp add: ParseInt_def Let_def)
qed

lemma ParseInt_range:
  assumes "ParseInt bits s = Some i" and "0 < bits"
  shows "- (2 ^ (bits - 1)) \<le> i \<and> i < 2 ^ (bits - 1)"
proof -
  define b :: nat where "b = 2 ^ (bits - 1)"
  have b: "int b = 2 ^ (bits - 1)" by (simp add: b_def)
  from assms(1) obtain n where n: "i = - int n \<and> n \<le> b \<or> i = int n \<and> n < b"
    by (auto simp: ParseInt_def Let_def not_le not_less b_def split: list.splits option.splits if_splits)
  then have "- int b \<le> i \<and> i \<le> int b \<and> (0 < b \<longrightarrow> i < int b)" by auto
  moreover have "0 < b" by (simp add: b_def)
  ultimately show ?thesis using b by simp
qed

end
