(* ===== verification/Client_Api.thy ===== *)
theory Client_Api
  imports Client_Push Go_Strconv
begin

text \<open>
  The API calls of the client: \<open>device.go\<close>, \<open>stats.go\<close>, \<open>channels.go\<close>, \<open>messages.go\<close>, \<open>mesh_packet.go\<close> and
  the contact synchronisation of \<open>contacts.go\<close>. Calls are composed with \<open>bind_ok\<close>, which stops at the
  first error like \<open>if err != nil { return err }\<close>. Debug logging is left out.
\<close>

section \<open>Composition\<close>

type_synonym 'a result = "((go_error + 'a) \<times> client) outcome"

definition ret :: "'a \<Rightarrow> client \<Rightarrow> 'a result" where
  "ret x c = Finished (Inr x, c)"

definition fail :: "go_error \<Rightarrow> client \<Rightarrow> 'a result" where
  "fail e c = Finished (Inl e, c)"

definition bind_ok :: "'a result \<Rightarrow> ('a \<Rightarrow> client \<Rightarrow> 'b result) \<Rightarrow> 'b result" where
  "bind_ok m f = and_then m (\<lambda>(r, c). case r of Inl e \<Rightarrow> Finished (Inl e, c) | Inr x \<Rightarrow> f x c)"

definition require :: "capability \<Rightarrow> (client \<Rightarrow> 'a result) \<Rightarrow> client \<Rightarrow> 'a result" where
  "require cap f c = (case requireCapability cap c of Some e \<Rightarrow> fail e c | None \<Rightarrow> f c)"

definition from_sum :: "go_error + 'a \<Rightarrow> client \<Rightarrow> 'a result" where
  "from_sum r c = Finished (r, c)"

lemma bind_ok_Inr:
  assumes "bind_ok m f = Finished (Inr y, c')"
  obtains x c where "m = Finished (Inr x, c)" "f x c = Finished (Inr y, c')"
proof (cases m)
  case (Finished p)
  obtain r c where "p = (r, c)" by force
  with Finished assms that show ?thesis by (cases r) (auto simp: bind_ok_def)
qed (use assms in \<open>simp_all add: bind_ok_def\<close>)

section \<open>Device\<close>

record client_device_info =
  cdi_Session :: session_info
  cdi_Extensions :: "(string \<times> string \<times> string) list"

definition queryDeviceInfo :: "client \<Rightarrow> device_info result" where
  "queryDeviceInfo c =
     bind_ok (request DeviceQuery c) (\<lambda>m c. case m of DeviceInfo dev \<Rightarrow> ret dev c | _ \<Rightarrow> fail ErrUnexpectedResponse c)"

text \<open>\<open>DeviceInfo\<close> copies the fields of the session, so its record carries the session itself.\<close>

definition Client_DeviceInfo :: "client \<Rightarrow> client_device_info result" where
  "Client_DeviceInfo c =
     (let info = \<lparr>cdi_Session = cl_session c, cdi_Extensions = []\<rparr> in
      if se_FirmwareVersion (cl_session c) \<noteq> [] then ret info c
      else and_then (queryDeviceInfo c) (\<lambda>(r, c).
        case r of
          Inl _ \<Rightarrow> ret info c
        | Inr dev \<Rightarrow>
            (let s = (cdi_Session info)\<lparr>se_FirmwareVersion := FirmwareVersion dev\<rparr>;
                 s = (if di_Model dev \<noteq> [] then s\<lparr>se_FirmwareName := ''MeshCore ('' @ di_Model dev @ '')''\<rparr> else s);
                 c = (if se_FirmwareVersion (cl_session c) = []
                      then c\<lparr>cl_session := (cl_session c)\<lparr>se_FirmwareVersion := se_FirmwareVersion s,
                             se_FirmwareName := (if di_Model dev \<noteq> [] then se_FirmwareName s
                                                 else se_FirmwareName (cl_session c))\<rparr>\<rparr>
                      else c)
             in ret (info\<lparr>cdi_Session := s\<rparr>) c)))"

definition Client_FirmwareVersion :: "client \<Rightarrow> string result" where
  "Client_FirmwareVersion c = ret (se_FirmwareVersion (cl_session c)) c"

definition DeviceTime :: "client \<Rightarrow> go_time result" where
  "DeviceTime c =
     bind_ok (request GetDeviceTime c) (\<lambda>m c. case m of CurrentTime t \<Rightarrow> ret t c | _ \<Rightarrow> fail ErrUnexpectedResponse c)"

definition SyncClock :: "client \<Rightarrow> unit result" where
  "SyncClock c = bind_ok (request (SetDeviceTime (w_now c)) c) (\<lambda>_ c. ret () c)"

definition Advertise :: "bool \<Rightarrow> client \<Rightarrow> unit result" where
  "Advertise flood =
     require CapabilityAdvertisements (\<lambda>c. bind_ok (request (SendSelfAdvert flood) c) (\<lambda>_ c. ret () c))"

definition Client_Reboot :: "client \<Rightarrow> unit result" where
  "Client_Reboot c = bind_ok (request Reboot c) (\<lambda>_ c. ret () c)"

definition BatteryMillivolts :: "client \<Rightarrow> uint16 result" where
  "BatteryMillivolts c =
     bind_ok (request GetBatteryVoltage c)
       (\<lambda>m c. case m of BatteryVoltage mv \<Rightarrow> ret mv c | _ \<Rightarrow> fail ErrUnexpectedResponse c)"

section \<open>Local statistics\<close>

record local_stats_radio =
  lsr_FrequencyKHz :: uint32
  lsr_BandwidthKHz :: uint32
  lsr_Spreading :: byte
  lsr_CodingRate :: byte
  lsr_TxPowerDBm :: byte
  lsr_NoiseFloor :: int
  lsr_LastRSSI :: int
  lsr_LastSNR :: f64
  lsr_RxAirSecs :: uint32
  lsr_TxAirSecs :: uint32

text \<open>\<open>LocalStatsCore\<close> and \<open>LocalStatsPackets\<close> have the fields of the decoded records.\<close>

record local_stats =
  lst_Core :: stats_core
  lst_Radio :: local_stats_radio
  lst_Packets :: stats_packets

definition requestStats :: "byte \<Rightarrow> client \<Rightarrow> stats_response result" where
  "requestStats t c =
     bind_ok (request (GetStats t) c)
       (\<lambda>m c. case m of
          StatsResponse resp \<Rightarrow> if s_Type resp \<noteq> t then fail ErrUnexpectedResponse c else ret resp c
        | _ \<Rightarrow> fail ErrUnexpectedResponse c)"

definition statsCore :: "client \<Rightarrow> stats_core result" where
  "statsCore c = bind_ok (requestStats StatsTypeCore c)
     (\<lambda>resp c. case s_Core resp of None \<Rightarrow> fail ErrUnexpectedResponse c | Some x \<Rightarrow> ret x c)"

definition statsRadio :: "client \<Rightarrow> stats_radio result" where
  "statsRadio c = bind_ok (requestStats StatsTypeRadio c)
     (\<lambda>resp c. case s_Radio resp of None \<Rightarrow> fail ErrUnexpectedResponse c | Some x \<Rightarrow> ret x c)"

definition statsPackets :: "client \<Rightarrow> stats_packets result" where
  "statsPackets c = bind_ok (requestStats StatsTypePackets c)
     (\<lambda>resp c. case s_Packets resp of None \<Rightarrow> fail ErrUnexpectedResponse c | Some x \<Rightarrow> ret x c)"

definition Stats :: "client \<Rightarrow> local_stats result" where
  "Stats c =
     bind_ok (Client_DeviceInfo c) (\<lambda>info c.
     bind_ok (statsCore c) (\<lambda>core c.
     bind_ok (statsRadio c) (\<lambda>radio c.
     bind_ok (statsPackets c) (\<lambda>packets c.
     ret \<lparr>lst_Core = core,
          lst_Radio = \<lparr>lsr_FrequencyKHz = se_RadioFreqKHz (cdi_Session info), lsr_BandwidthKHz = se_RadioBWKHz (cdi_Session info),
            lsr_Spreading = se_RadioSF (cdi_Session info), lsr_CodingRate = se_RadioCR (cdi_Session info),
            lsr_TxPowerDBm = se_TxPowerDBm (cdi_Session info), lsr_NoiseFloor = sr_NoiseFloor radio,
            lsr_LastRSSI = sr_LastRSSI radio, lsr_LastSNR = sr_LastSNR radio, lsr_RxAirSecs = sr_RxAirSecs radio,
            lsr_TxAirSecs = sr_TxAirSecs radio\<rparr>,
          lst_Packets = packets\<rparr> c))))"

section \<open>Contacts\<close>

record sync_state =
  sy_contacts :: "contact list"
  sy_total :: nat
  sy_lastMod :: uint32
  sy_progress :: "(nat \<times> nat) list"

record contact_sync_result =
  csr_Contacts :: "contact list"
  csr_LastMod :: uint32

text \<open>\<open>sy_progress\<close> records the calls of the progress function, received and total.\<close>

definition report :: "bool \<Rightarrow> sync_state \<Rightarrow> sync_state" where
  "report onProgress s =
     (if onProgress then s\<lparr>sy_progress := sy_progress s @ [(length (sy_contacts s), sy_total s)]\<rparr> else s)"

fun collect_contact :: "bool \<Rightarrow> message \<Rightarrow> sync_state \<Rightarrow> sync_state \<times> bool" where
  "collect_contact p (ContactsStart n) s = (report p (s\<lparr>sy_total := unat n\<rparr>), False)"
| "collect_contact p (ContactFrame f) s =
     (report p (s\<lparr>sy_contacts := sy_contacts s @ [fromCompanionContact f]\<rparr>), False)"
| "collect_contact p (EndOfContacts lm) s = (s\<lparr>sy_lastMod := lm\<rparr>, True)"
| "collect_contact p _ s = (s, False)"

definition new_sync :: sync_state where
  "new_sync = \<lparr>sy_contacts = [], sy_total = 0, sy_lastMod = 0, sy_progress = []\<rparr>"

definition ContactsSince :: "uint32 \<Rightarrow> bool \<Rightarrow> client \<Rightarrow> (contact_sync_result \<times> (nat \<times> nat) list) result" where
  "ContactsSince since onProgress =
     require CapabilityContacts (\<lambda>c.
       and_then (no_panic (encode (w_now c) (GetContacts since))) (\<lambda>enc.
         case enc of
           Inl e \<Rightarrow> fail (EncodeError e) c
         | Inr raw \<Rightarrow>
             bind_ok (requestStream raw (collect_contact onProgress) new_sync c) (\<lambda>s c.
               ret (\<lparr>csr_Contacts = sy_contacts s, csr_LastMod = sy_lastMod s\<rparr>, sy_progress s) c)))"

definition Contacts :: "client \<Rightarrow> contact list result" where
  "Contacts c = bind_ok (ContactsSince 0 False c) (\<lambda>r c. ret (csr_Contacts (fst r)) c)"

definition ContactsWithProgress :: "client \<Rightarrow> (contact list \<times> (nat \<times> nat) list) result" where
  "ContactsWithProgress c = bind_ok (ContactsSince 0 True c) (\<lambda>r c. ret (csr_Contacts (fst r), snd r) c)"

definition Client_Contact :: "unicode \<Rightarrow> string \<Rightarrow> client \<Rightarrow> contact result" where
  "Client_Contact u name c = bind_ok (Contacts c) (\<lambda>cts c. from_sum (matchContact u cts name) c)"

section \<open>Channels\<close>

definition maxChannels :: nat where
  "maxChannels = 8"

definition channelAt :: "byte \<Rightarrow> client \<Rightarrow> channel option result" where
  "channelAt index c =
     bind_ok (request (GetChannel index) c)
       (\<lambda>m c. case m of
          ChannelInfo info \<Rightarrow> ret (Some \<lparr>cn_Index = uint (ci_Index info), cn_Name = ci_Name info, cn_Secret = ci_Secret info\<rparr>) c
        | _ \<Rightarrow> ret None c)"

fun channels_loop :: "nat list \<Rightarrow> channel list \<Rightarrow> client \<Rightarrow> channel list result" where
  "channels_loop [] chs c = ret chs c"
| "channels_loop (i # is) chs c =
     bind_ok (channelAt (word_of_nat i) c) (\<lambda>ch c.
       channels_loop is (case ch of Some ch \<Rightarrow> if cn_Name ch \<noteq> [] then chs @ [ch] else chs | None \<Rightarrow> chs) c)"

definition Channels :: "client \<Rightarrow> channel list result" where
  "Channels = require CapabilityChannels (channels_loop [0..<maxChannels] [])"

definition Channel :: "unicode \<Rightarrow> string \<Rightarrow> client \<Rightarrow> channel result" where
  "Channel u name c =
     (let query = TrimPrefix (TrimSpace name) ''#'' in
      case Atoi query of
        Some i \<Rightarrow>
          bind_ok (channelAt (word_of_int i) c)
            (\<lambda>ch c. case ch of None \<Rightarrow> fail (NoChannelAt i) c | Some ch \<Rightarrow> ret ch c)
      | None \<Rightarrow>
          bind_ok (Channels c) (\<lambda>chs c.
            case find (\<lambda>ch. EqualFold u (TrimPrefix (cn_Name ch) ''#'') query) chs of
              Some ch \<Rightarrow> ret ch c
            | None \<Rightarrow> fail (NoChannelMatching name) c))"

definition SendChannelText :: "unicode \<Rightarrow> string \<Rightarrow> string \<Rightarrow> client \<Rightarrow> receipt result" where
  "SendChannelText u channel text =
     require CapabilityMessages (\<lambda>c.
       bind_ok (Channel u channel c) (\<lambda>ch c.
       bind_ok (request (SendChannelTextMessage \<lparr>sct_Channel = word_of_int (cn_Index ch), sct_Text = text,
                  sct_Timestamp = zero_time, sct_TxtType = 0\<rparr>) c) (\<lambda>m c.
       from_sum (channelReceiptFrom (w_now c) m (ChannelDisplayName (cn_Name ch))) c)))"

definition SetChannelAt :: "byte \<Rightarrow> string \<Rightarrow> bytes \<Rightarrow> client \<Rightarrow> unit result" where
  "SetChannelAt index name secret =
     require CapabilityChannels (\<lambda>c.
       bind_ok (request (SetChannel \<lparr>sc_Index = index, sc_Name = name, sc_Secret = secret\<rparr>) c) (\<lambda>m c.
         case m of
           OK \<Rightarrow> ret () c
         | Err code \<Rightarrow> fail (DeviceRejectedChannelWrite code) c
         | _ \<Rightarrow> fail ErrUnexpectedResponse c))"

text \<open>The search for the slot to write: the first slot with the name, else the first free one.\<close>

fun find_slot :: "unicode \<Rightarrow> string \<Rightarrow> nat list \<Rightarrow> nat option \<Rightarrow> client \<Rightarrow> nat option result" where
  "find_slot u name [] free c = ret free c"
| "find_slot u name (i # is) free c =
     bind_ok (channelAt (word_of_nat i) c) (\<lambda>ch c.
       case ch of
         Some ch \<Rightarrow>
           if cn_Name ch = [] then find_slot u name is (if free = None then Some i else free) c
           else if EqualFold u (cn_Name ch) name then ret (Some i) c
           else find_slot u name is free c
       | None \<Rightarrow> find_slot u name is (if free = None then Some i else free) c)"

text \<open>\<open>ChannelSecretLen\<close> is a constant of the external package \<open>meshpkt\<close>, so it is an argument.\<close>

definition AddChannel :: "nat \<Rightarrow> unicode \<Rightarrow> string \<Rightarrow> bytes \<Rightarrow> client \<Rightarrow> channel result" where
  "AddChannel ChannelSecretLen u name secret =
     require CapabilityChannels (\<lambda>c.
       if name = [] then fail ChannelNameRequired c
       else if length secret \<noteq> ChannelSecretLen then fail (ChannelKeyLength (length secret)) c
       else
         bind_ok (find_slot u name [0..<maxChannels] None c) (\<lambda>slot c.
           case slot of
             None \<Rightarrow> fail NoFreeChannelSlot c
           | Some i \<Rightarrow>
               bind_ok (SetChannelAt (word_of_nat i) name secret c) (\<lambda>_ c.
                 ret \<lparr>cn_Index = int i, cn_Name = name, cn_Secret = secret\<rparr> c)))"

definition RemoveChannel :: "unicode \<Rightarrow> string \<Rightarrow> client \<Rightarrow> channel result" where
  "RemoveChannel u query =
     require CapabilityChannels (\<lambda>c.
       bind_ok (Channel u query c) (\<lambda>ch c.
       bind_ok (SetChannelAt (word_of_int (cn_Index ch)) [] [] c) (\<lambda>_ c.
       ret ch c)))"

section \<open>Messages\<close>

definition SendTextToContact :: "contact \<Rightarrow> string \<Rightarrow> client \<Rightarrow> receipt result" where
  "SendTextToContact ct text =
     require CapabilityMessages (\<lambda>c.
       case decodeKey (ct_PublicKey ct) of
         Inl e \<Rightarrow> fail e c
       | Inr key \<Rightarrow>
           bind_ok (request (SendTextMessage \<lparr>st_DestPublicKey = key, st_Text = text, st_Timestamp = zero_time,
                      st_TxtType = 0, st_Attempt = 0\<rparr>) c) (\<lambda>m c.
           from_sum (receiptFrom (w_now c) m (ct_Name ct)) c))"

definition SendText :: "unicode \<Rightarrow> string \<Rightarrow> string \<Rightarrow> client \<Rightarrow> receipt result" where
  "SendText u recipient text =
     require CapabilityMessages (\<lambda>c. bind_ok (Client_Contact u recipient c) (\<lambda>ct c. SendTextToContact ct text c))"

fun msg_of :: "message \<Rightarrow> msg option" where
  "msg_of (ContactMessage x) =
     Some \<lparr>m_From = cm_SenderPrefix x, m_Channel = [], m_Text = cm_Text x, m_TxtType = cm_TxtType x,
       m_Timestamp = cm_Timestamp x, m_SNR = cm_SNR x, m_PathLen = cm_PathLen x\<rparr>"
| "msg_of (ChannelMessage x) =
     Some \<lparr>m_From = ''channel '' @ show_nat (unat (chm_Channel x)), m_Channel = show_nat (unat (chm_Channel x)),
       m_Text = chm_Text x, m_TxtType = chm_TxtType x, m_Timestamp = chm_Timestamp x, m_SNR = chm_SNR x,
       m_PathLen = chm_PathLen x\<rparr>"
| "msg_of _ = None"

text \<open>\<open>None\<close>: the device has no more messages.\<close>

definition syncNext :: "client \<Rightarrow> msg option result" where
  "syncNext c =
     bind_ok (request SyncNextMessage c) (\<lambda>m c.
       if m = NoMoreMessages then ret None c
       else case msg_of m of
           Some x \<Rightarrow> ret (Some x) c
         | None \<Rightarrow> fail ErrUnexpectedResponse c)"

text \<open>Whatever a request returns, it has consumed part of the script.\<close>

lemma await_suffix: "await poll f es s c = Finished (r, c') \<Longrightarrow> \<exists>us. es = us @ w_env c'"
proof (induction es arbitrary: s c)
  case Nil
  then show ?case by (auto split: prod.splits option.splits)
next
  case (Cons e es)
  obtain q s1 c1 where p: "poll s c = (q, s1, c1)" by (metis prod_cases3)
  have IH: "\<exists>us. e # es = us @ w_env c'" if "await poll f es s1 c2 = Finished (r, c')" for c2
    using Cons.IH [OF that] by (metis append_Cons)
  show ?case
  proof (cases q)
    case None
    with Cons.prems p IH show ?thesis by (cases e) (auto split: option.splits intro: exI [of _ "[e]"])
  next
    case (Some x)
    with Cons.prems p show ?thesis by (auto intro: exI [of _ "[]"])
  qed
qed

lemma emitOutbound_core: "emitOutbound raw c = Some c' \<Longrightarrow> core c' = core c"
  by (auto simp: emitOutbound_def core_def split: Option.bind_splits)

lemma await_consumes:
  assumes "await (poll_response collect) f es s c = Finished (r, c')"
    and "cl_waiter c = Some (make_chan streamBuffer)" and "\<not> cl_overflow c"
  shows "length (w_env c') < length es"
proof (cases es)
  case Nil
  then show ?thesis using assms by (simp add: poll_fresh)
next
  case (Cons e es')
  have "length (w_env c') \<le> length es'" if "await (poll_response collect) f es' s d = Finished (r, c')" for d
    using await_suffix [OF that] by auto
  with assms Cons show ?thesis by (cases e) (auto simp: poll_fresh less_Suc_eq_le split: option.splits)
qed

lemma run_queue_consumes:
  assumes "run_queue raw collect s c = Finished (Inr x, c')"
  shows "length (w_env c') < length (w_env c)"
proof -
  let ?c = "c\<lparr>cl_waiter := Some (make_chan streamBuffer), cl_overflow := False\<rparr>"
  obtain c1 where c1: "emitOutbound raw ?c = Some c1"
    using assms by (cases "emitOutbound raw ?c") (auto simp: run_queue_def)
  obtain q c2 where w: "WritePacket raw c1 = (q, c2)" by force
  have "w_env c2 = w_env c1" "cl_waiter c2 = cl_waiter c1" "cl_overflow c2 = cl_overflow c1"
    using w by (auto simp: WritePacket_def Let_def split: list.splits)
  then have c2: "w_env c2 = w_env c" "cl_waiter c2 = Some (make_chan streamBuffer)" "\<not> cl_overflow c2"
    using core_sel(3-5) [OF emitOutbound_core [OF c1]] by simp_all
  from assms c1 w obtain d where
    "await (poll_response collect) (\<lambda>e _. Inl (CtxError e)) (w_env c2) s c2 = Finished (Inr x, d)"
    "c' = d\<lparr>cl_waiter := None\<rparr>"
    by (cases q) (auto simp: run_queue_def and_then_Finished_iff)
  with await_consumes [OF this(1) c2(2, 3)] c2(1) show ?thesis by simp
qed

lemma request_consumes:
  assumes "request cmd c = Finished (Inr m, c')" shows "length (w_env c') < length (w_env c)"
proof -
  obtain raw where raw: "encode (w_now c) cmd = Some (Inr raw)"
    using assms by (cases "encode (w_now c) cmd") (auto simp: request_def split: sum.splits)
  let ?f = "\<lambda>v (_ :: message option). (Some v, True)"
  obtain q d where q: "Do raw c = Finished (q, d)"
    using assms raw by (cases "Do raw c") (auto simp: request_def)
  with assms raw have "\<exists>x. q = Inr x" "d = c'" by (auto simp: request_def split: sum.splits)
  moreover obtain r e where r: "run_queue raw ?f None c = Finished (r, e)"
    using q by (cases "run_queue raw ?f None c") (auto simp: Do_def)
  ultimately have "\<exists>x. r = Inr x" "e = c'" using q by (auto simp: Do_def split: sum.splits option.splits)
  with r run_queue_consumes [of raw ?f None c _ c'] show ?thesis by auto
qed

lemma syncNext_consumes:
  assumes "syncNext c = Finished (Inr x, c')" shows "length (w_env c') < length (w_env c)"
proof -
  obtain r d where r: "request SyncNextMessage c = Finished (r, d)"
    using assms by (cases "request SyncNextMessage c") (auto simp: syncNext_def bind_ok_def)
  with assms obtain m where "r = Inr m" "d = c'"
    by (cases r) (auto simp: syncNext_def bind_ok_def ret_def fail_def split: option.splits if_splits)
  with r request_consumes show ?thesis by blast
qed

lemma emitEvent_env: "emitEvent ev c = Some c' \<Longrightarrow> w_env c' = w_env c"
proof -
  have "mirror_rf ev c = Some d \<Longrightarrow> w_env d = w_env c" for d
    by (cases ev) (auto split: Option.bind_splits)
  then show "emitEvent ev c = Some c' \<Longrightarrow> w_env c' = w_env c"
    by (auto simp: emitEvent_def call_hook_def split: Option.bind_splits)
qed

text \<open>\<open>DrainMessages\<close>. The callback is a function on a state of its own; no callback is
  \<open>no_callback\<close>. Every turn consumes part of the script, so the loop ends with it.\<close>

function DrainMessages :: "(msg \<Rightarrow> 's \<Rightarrow> go_error option \<times> 's) \<Rightarrow> 's \<Rightarrow> client \<Rightarrow>
    (go_error option \<times> 's \<times> client) outcome" where
  "DrainMessages cb s c =
     (case syncNext c of
        Blocked \<Rightarrow> Blocked
      | Panicked \<Rightarrow> Panicked
      | Finished (Inl e, c1) \<Rightarrow> Finished (Some e, s, c1)
      | Finished (Inr None, c1) \<Rightarrow> Finished (None, s, c1)
      | Finished (Inr (Some m), c1) \<Rightarrow>
          (case cb m s of
             (Some e, s') \<Rightarrow> Finished (Some e, s', c1)
           | (None, s') \<Rightarrow>
               (case emitEvent (messageEvent m) c1 of
                  None \<Rightarrow> Panicked
                | Some c2 \<Rightarrow> DrainMessages cb s' c2)))"
  by pat_completeness auto
termination
  by (relation "measure (\<lambda>(_, _, c). length (w_env c))") (auto dest!: syncNext_consumes emitEvent_env)

declare DrainMessages.simps [simp del]

definition no_callback :: "msg \<Rightarrow> unit \<Rightarrow> go_error option \<times> unit" where
  "no_callback m s = (None, s)"

definition SyncMessages :: "client \<Rightarrow> (go_error option \<times> msg list \<times> client) outcome" where
  "SyncMessages c = DrainMessages (\<lambda>m out. (None, out @ [m])) [] c"

text \<open>One turn of \<open>syncLoop\<close>: take a signal and drain. A drain error is logged and ignored.\<close>

definition syncLoop_turn :: "client \<Rightarrow> client outcome" where
  "syncLoop_turn c =
     (if \<not> cl_syncing c then Finished c
      else case try_recv (cl_syncReq c) of
          (Value _, ch) \<Rightarrow> and_then (DrainMessages no_callback () (c\<lparr>cl_syncReq := ch\<rparr>)) (\<lambda>(_, _, c). Finished c)
        | _ \<Rightarrow> Finished c)"

section \<open>Acknowledgements\<close>

text \<open>\<open>time.Since\<close> in nanoseconds.\<close>

definition time_Since :: "go_time \<Rightarrow> go_time \<Rightarrow> duration" where
  "time_Since now t = (t_unix now - t_unix t) * second + int (t_nsec now) - int (t_nsec t)"

definition poll_ack :: "uint32 \<Rightarrow> unit \<Rightarrow> client \<Rightarrow> (go_error + uint32) option \<times> unit \<times> client" where
  "poll_ack want =
     poll_push cl_acks (\<lambda>ch. cl_acks_update (\<lambda>_. ch))
       (\<lambda>code _. ((), if code = want then Some (Inr code) else None)) (\<lambda>_. Inl ConnectionClosed)"

definition WaitForAcknowledgement :: "receipt \<Rightarrow> client \<Rightarrow> ack result" where
  "WaitForAcknowledgement r =
     require CapabilityAcknowledgements (\<lambda>c.
       bind_ok (await (poll_ack (rc_AckCode r)) (\<lambda>e _. Inl (CtxError e)) (w_env c) () c) (\<lambda>code c.
         ret \<lparr>ak_Code = hex_pad 8 (unat code), ak_RTT = time_Since (w_now c) (rc_QueuedAt r)\<rparr> c))"

section \<open>Mesh packets\<close>

definition Client_SendMeshPacket :: "byte \<Rightarrow> bytes \<Rightarrow> client \<Rightarrow> unit result" where
  "Client_SendMeshPacket priority pkt c =
     bind_ok (request (SendMeshPacket priority pkt) c) (\<lambda>m c.
       case m of
         OK \<Rightarrow>
           (case Emit \<lparr>rp_Timestamp = w_now c, rp_Direction = RFTx, rp_SNR = 0, rp_RSSI = 0,
                    rp_Priority = priority, rp_Bytes = [] @ pkt\<rparr> (cl_rf c) of
              None \<Rightarrow> Panicked
            | Some d \<Rightarrow> ret () (c\<lparr>cl_rf := d\<rparr>))
       | Err code \<Rightarrow> fail (DeviceRejectedMeshPacket code) c
       | _ \<Rightarrow> fail ErrUnexpectedResponse c)"

section \<open>Calls are safe\<close>

named_theorems api_safe

definition safe :: "('r \<times> client) outcome \<Rightarrow> bool" where
  "safe m \<longleftrightarrow> m \<noteq> Panicked \<and> (\<forall>r c. m = Finished (r, c) \<longrightarrow> client_ok c)"

lemma safe_ret [api_safe]: "client_ok c \<Longrightarrow> safe (ret x c)"
  by (simp add: safe_def ret_def)

lemma safe_fail [api_safe]: "client_ok c \<Longrightarrow> safe (fail e c)"
  by (simp add: safe_def fail_def)

lemma safe_from_sum [api_safe]: "client_ok c \<Longrightarrow> safe (from_sum r c)"
  by (simp add: safe_def from_sum_def)

lemma safe_bind [api_safe]:
  assumes "safe m" and "\<And>x c. client_ok c \<Longrightarrow> safe (f x c)"
  shows "safe (bind_ok m f)"
proof (cases m)
  case (Finished x)
  obtain r c where "x = (r, c)" by force
  with Finished assms show ?thesis by (cases r) (auto simp: safe_def bind_ok_def)
qed (use assms(1) in \<open>auto simp: safe_def bind_ok_def\<close>)

lemma safe_require [api_safe]: "client_ok c \<Longrightarrow> (\<And>c. client_ok c \<Longrightarrow> safe (f c)) \<Longrightarrow> safe (require cap f c)"
  by (auto simp: require_def safe_fail split: option.splits)

lemma safe_request [api_safe]: "client_ok c \<Longrightarrow> safe (request cmd c)"
  using request_ok [of c cmd] by (auto simp: safe_def)

lemma safe_requestStream [api_safe]: "client_ok c \<Longrightarrow> safe (requestStream raw collect s c)"
  using requestStream_ok [of c raw collect s] by (auto simp: safe_def)

lemma safe_split_option [api_safe]:
  "(x = None \<Longrightarrow> safe a) \<Longrightarrow> (\<And>y. x = Some y \<Longrightarrow> safe (b y)) \<Longrightarrow> safe (case x of None \<Rightarrow> a | Some y \<Rightarrow> b y)"
  by (cases x) auto

lemma safe_split_sum [api_safe]:
  "(\<And>e. x = Inl e \<Longrightarrow> safe (a e)) \<Longrightarrow> (\<And>y. x = Inr y \<Longrightarrow> safe (b y)) \<Longrightarrow> safe (case x of Inl e \<Rightarrow> a e | Inr y \<Rightarrow> b y)"
  by (cases x) auto

lemma safe_if [api_safe]: "(P \<Longrightarrow> safe a) \<Longrightarrow> (\<not> P \<Longrightarrow> safe b) \<Longrightarrow> safe (if P then a else b)"
  by simp

lemma safe_channelAt [api_safe]: "client_ok c \<Longrightarrow> safe (channelAt i c)"
  unfolding channelAt_def by (intro api_safe) (auto split: message.splits intro: api_safe)

lemma safe_channels_loop [api_safe]: "client_ok c \<Longrightarrow> safe (channels_loop is chs c)"
  by (induction "is" arbitrary: chs c) (auto intro: api_safe)

lemma safe_Channels [api_safe]: "client_ok c \<Longrightarrow> safe (Channels c)"
  unfolding Channels_def by (intro api_safe)

lemma safe_Channel [api_safe]: "client_ok c \<Longrightarrow> safe (Channel u name c)"
  unfolding Channel_def Let_def by (intro api_safe)

lemma safe_find_slot [api_safe]: "client_ok c \<Longrightarrow> safe (find_slot u name is free c)"
proof (induction "is" arbitrary: free c)
  case (Cons i "is")
  then show ?case unfolding find_slot.simps by (intro api_safe) blast+
qed (simp add: api_safe)

lemma safe_SetChannelAt [api_safe]: "client_ok c \<Longrightarrow> safe (SetChannelAt i name secret c)"
  unfolding SetChannelAt_def by (intro api_safe) (auto split: message.splits intro: api_safe)

lemma safe_requestStats [api_safe]: "client_ok c \<Longrightarrow> safe (requestStats t c)"
  unfolding requestStats_def by (intro api_safe) (auto split: message.splits intro: api_safe)

lemma safe_queryDeviceInfo [api_safe]: "client_ok c \<Longrightarrow> safe (queryDeviceInfo c)"
  unfolding queryDeviceInfo_def by (intro api_safe) (auto split: message.splits intro: api_safe)

lemma client_ok_session [simp]: "client_ok (c\<lparr>cl_session := s\<rparr>) = client_ok c"
  by (simp add: client_ok_def)

lemma safe_DeviceInfo [api_safe]:
  assumes "client_ok c" shows "safe (Client_DeviceInfo c)"
proof (cases "se_FirmwareVersion (cl_session c) \<noteq> []")
  case True
  then show ?thesis using assms by (simp add: Client_DeviceInfo_def api_safe)
next
  case False
  have q: "safe (queryDeviceInfo c)" using assms by (rule api_safe)
  show ?thesis
  proof (cases "queryDeviceInfo c")
    case (Finished x)
    obtain r d where x: "x = (r, d)" by force
    with q Finished have "client_ok d" by (simp add: safe_def)
    with x Finished False show ?thesis
      by (cases r) (auto simp: Client_DeviceInfo_def Let_def safe_def ret_def)
  qed (use q False in \<open>auto simp: Client_DeviceInfo_def Let_def safe_def\<close>)
qed

lemma safe_ContactsSince [api_safe]:
  assumes "client_ok c" shows "safe (ContactsSince since p c)"
proof -
  have "safe (and_then (no_panic (encode (w_now d) (GetContacts since))) (\<lambda>enc.
         case enc of
           Inl e \<Rightarrow> fail (EncodeError e) d
         | Inr raw \<Rightarrow>
             bind_ok (requestStream raw (collect_contact p) new_sync d) (\<lambda>s c.
               ret (\<lparr>csr_Contacts = sy_contacts s, csr_LastMod = sy_lastMod s\<rparr>, sy_progress s) c)))" if "client_ok d" for d
  proof -
    obtain enc where "encode (w_now d) (GetContacts since) = Some enc" using encode_returns by blast
    with that show ?thesis by (cases enc) (auto intro: api_safe)
  qed
  with assms show ?thesis unfolding ContactsSince_def by (intro api_safe)
qed

lemma safe_Contact [api_safe]: "client_ok c \<Longrightarrow> safe (Client_Contact u name c)"
  unfolding Client_Contact_def Contacts_def by (intro api_safe)

lemma safe_SendTextToContact [api_safe]: "client_ok c \<Longrightarrow> safe (SendTextToContact ct text c)"
  unfolding SendTextToContact_def by (intro api_safe)

lemma safe_syncNext [api_safe]: "client_ok c \<Longrightarrow> safe (syncNext c)"
  unfolding syncNext_def by (intro api_safe)

lemma safe_SendMeshPacket [api_safe]:
  assumes "client_ok c" shows "safe (Client_SendMeshPacket priority pkt c)"
proof -
  have "safe (case Emit x (cl_rf d) of None \<Rightarrow> Panicked | Some q \<Rightarrow> ret () (d\<lparr>cl_rf := q\<rparr>))" if "client_ok d" for x d
    using Emit_some [of "cl_rf d" x] that by (auto simp: client_ok_def safe_def ret_def)
  with assms show ?thesis unfolding Client_SendMeshPacket_def
    by (intro safe_bind safe_request) (auto split: message.split intro: safe_fail)
qed

lemma DrainMessages_safe:
  "client_ok c \<Longrightarrow> DrainMessages cb s c \<noteq> Panicked \<and>
     (\<forall>e s' c'. DrainMessages cb s c = Finished (e, s', c') \<longrightarrow> client_ok c')"
proof (induction cb s c rule: DrainMessages.induct)
  case (1 cb s c)
  have n: "safe (syncNext c)" using 1(2) by (rule safe_syncNext)
  show ?case
  proof (cases "syncNext c")
    case (Finished x)
    obtain r c1 where x: "x = (r, c1)" by force
    with n Finished have c1: "client_ok c1" by (simp add: safe_def)
    show ?thesis
    proof (cases r)
      case (Inr mo)
      show ?thesis
      proof (cases mo)
        case (Some m)
        from emitEvent_some [OF c1, of "messageEvent m"] obtain c2 where
          c2: "emitEvent (messageEvent m) c1 = Some c2" "client_ok c2" by blast
        obtain e s' where cb: "cb m s = (e, s')" by force
        show ?thesis
        proof (cases e)
          case None
          from 1(1) [OF Finished x [symmetric] Inr Some cb [symmetric] None c2] Finished x Inr Some cb None c2 c1 show ?thesis
            by (simp add: DrainMessages.simps [of cb s c])
        qed (use Finished x Inr Some cb c1 in \<open>simp add: DrainMessages.simps [of cb s c]\<close>)
      qed (use Finished x Inr c1 in \<open>simp add: DrainMessages.simps [of cb s c]\<close>)
    qed (use Finished x c1 in \<open>simp add: DrainMessages.simps [of cb s c]\<close>)
  qed (use n in \<open>auto simp: DrainMessages.simps [of cb s c] safe_def\<close>)
qed

context polling
begin

lemma safe_await: "client_ok c \<Longrightarrow> safe (await poll f es s c)"
  using await_safe [of c f es s] await_ok [of c f es s] by (auto simp: safe_def)

end

lemma safe_WaitForAcknowledgement [api_safe]:
  assumes "client_ok c" shows "safe (WaitForAcknowledgement r c)"
proof -
  have "safe (await (poll_ack w) (\<lambda>e _. Inl (CtxError e)) (w_env d) () d)" if "client_ok d" for w d
    unfolding poll_ack_def using that by (rule acks.poll.safe_await)
  with assms show ?thesis unfolding WaitForAcknowledgement_def by (intro safe_require safe_bind safe_ret)
qed

section \<open>Sequences of answered requests\<close>

text \<open>The script answers one request after the other with the given responses, with quiet events in
  between.\<close>

fun answers :: "env list \<Rightarrow> message list \<Rightarrow> env list \<Rightarrow> bool" where
  "answers es [] rest = (es = rest)"
| "answers es (m # ms) rest =
     (\<exists>us pkt vs. es = us @ Recv pkt # vs \<and> list_all quiet us \<and> decode pkt = Some m \<and> \<not> Async m \<and> answers vs ms rest)"

lemma answersI:
  "list_all quiet us \<Longrightarrow> decode pkt = Some m \<Longrightarrow> \<not> Async m \<Longrightarrow> answers vs ms rest \<Longrightarrow>
   answers (us @ Recv pkt # vs) (m # ms) rest"
  by auto

definition live :: "client \<Rightarrow> bool" where
  "live c \<longleftrightarrow> client_ok c \<and> cl_reading c \<and> w_writes c = []"

lemma encode_accepts: "\<not> refused cmd \<Longrightarrow> \<exists>raw. encode now cmd = Some (Inr raw)"
  using encode_returns [of now cmd] encode_refuses [of now cmd] by (metis sum.exhaust)

lemma request_next:
  assumes "live c" and "answers (w_env c) (m # ms) rest" and "encode (w_now c) cmd = Some (Inr raw)"
  shows "\<exists>c'. request cmd c = Finished (check_response m, c') \<and> live c' \<and> answers (w_env c') ms rest \<and>
    w_written c' = w_written c @ [raw] \<and> cl_session c' = cl_session c"
proof -
  from assms(2) obtain us pkt vs where a: "w_env c = us @ Recv pkt # vs" "list_all quiet us"
    "decode pkt = Some m" "\<not> Async m" "answers vs ms rest" by auto
  with assms(1) have "answered c m vs" by (auto simp: answered_def live_def)
  from request_answered [OF this assms(3)] obtain c' where
    c': "request cmd c = Finished (check_response m, c')" "after_request c raw vs c'" by blast
  with after_request_sel [OF c'(2)] a(5) assms(1) show ?thesis by (auto simp: live_def)
qed

definition channel_of :: "channel_info \<Rightarrow> channel" where
  "channel_of i = \<lparr>cn_Index = uint (ci_Index i), cn_Name = ci_Name i, cn_Secret = ci_Secret i\<rparr>"

lemma channelAt_next:
  assumes "live c" and "answers (w_env c) (ChannelInfo info # ms) rest"
  shows "\<exists>c'. channelAt i c = Finished (Inr (Some (channel_of info)), c') \<and> live c' \<and> answers (w_env c') ms rest \<and>
    w_written c' = w_written c @ [[cmdGetChannel, i]] \<and> cl_session c' = cl_session c"
proof -
  have "encode (w_now c) (GetChannel i) = Some (Inr [cmdGetChannel, i])" by simp
  from request_next [OF assms this] show ?thesis
    by (auto simp: channelAt_def bind_ok_def ret_def channel_of_def)
qed

lemma channels_loop_answers:
  assumes "live c" and "answers (w_env c) (map ChannelInfo infos @ ms) rest" and "length is = length infos"
  shows "\<exists>c'. channels_loop is chs c =
      Finished (Inr (chs @ map channel_of (filter (\<lambda>i. ci_Name i \<noteq> []) infos)), c') \<and> live c' \<and>
      answers (w_env c') ms rest \<and> w_written c' = w_written c @ map (\<lambda>i. [cmdGetChannel, word_of_nat i]) is \<and>
      cl_session c' = cl_session c"
  using assms
proof (induction "is" arbitrary: infos chs c)
  case Nil
  then show ?case by (simp add: ret_def)
next
  case (Cons i "is")
  then obtain info infos' where infos: "infos = info # infos'" by (cases infos) auto
  with Cons.prems channelAt_next [of c info "map ChannelInfo infos' @ ms" rest "word_of_nat i"] obtain c1 where
    c1: "channelAt (word_of_nat i) c = Finished (Inr (Some (channel_of info)), c1)" "live c1"
    "answers (w_env c1) (map ChannelInfo infos' @ ms) rest"
    "w_written c1 = w_written c @ [[cmdGetChannel, word_of_nat i]]" "cl_session c1 = cl_session c" by auto
  from Cons.IH [OF c1(2, 3)] Cons.prems(3) infos
  obtain c2 where c2: "channels_loop is (if ci_Name info \<noteq> [] then chs @ [channel_of info] else chs) c1 =
      Finished (Inr ((if ci_Name info \<noteq> [] then chs @ [channel_of info] else chs) @
        map channel_of (filter (\<lambda>i. ci_Name i \<noteq> []) infos')), c2)" "live c2" "answers (w_env c2) ms rest"
      "w_written c2 = w_written c1 @ map (\<lambda>i. [cmdGetChannel, word_of_nat i]) is" "cl_session c2 = cl_session c1"
    by fastforce
  with c1 infos show ?case by (auto simp: bind_ok_def channel_of_def)
qed

text \<open>The slot \<open>AddChannel\<close> chooses among the slots \<open>infos\<close>, numbered from \<open>k\<close>.\<close>

definition named_slot :: "unicode \<Rightarrow> string \<Rightarrow> channel_info \<Rightarrow> bool" where
  "named_slot u name i \<longleftrightarrow> ci_Name i \<noteq> [] \<and> EqualFold u (ci_Name i) name"

lemma find_slot_named:
  assumes "live c" and "answers (w_env c) (map ChannelInfo (pre @ [info]) @ ms) rest"
    and "list_all (\<lambda>i. \<not> named_slot u name i) pre" and "named_slot u name info"
    and "is = [k..<n]" and "k + length pre < n"
  shows "\<exists>c'. find_slot u name is free c = Finished (Inr (Some (k + length pre)), c') \<and> live c' \<and>
    answers (w_env c') ms rest \<and> cl_session c' = cl_session c"
  using assms
proof (induction pre arbitrary: k c free "is")
  case Nil
  then have n: "is = k # [Suc k..<n]" by (simp add: upt_conv_Cons)
  from Nil.prems(1, 2, 4) channelAt_next [of c info ms rest "word_of_nat k"] show ?case
    unfolding n by (auto simp: bind_ok_def ret_def named_slot_def channel_of_def)
next
  case (Cons i pre)
  then have n: "is = k # [Suc k..<n]" by (simp add: upt_conv_Cons)
  from Cons.prems channelAt_next [of c i "map ChannelInfo (pre @ [info]) @ ms" rest "word_of_nat k"] obtain c1 where
    c1: "channelAt (word_of_nat k) c = Finished (Inr (Some (channel_of i)), c1)" "live c1"
    "answers (w_env c1) (map ChannelInfo (pre @ [info]) @ ms) rest" "cl_session c1 = cl_session c" by auto
  have "\<exists>c'. find_slot u name [Suc k..<n] fr c1 = Finished (Inr (Some (Suc k + length pre)), c') \<and> live c' \<and>
    answers (w_env c') ms rest \<and> cl_session c' = cl_session c1" for fr
    using Cons.prems by (intro Cons.IH [OF c1(2, 3)]) auto
  with c1 Cons.prems(3) show ?case
    unfolding n by (auto simp: bind_ok_def ret_def named_slot_def channel_of_def)
qed

lemma find_slot_free:
  assumes "live c" and "answers (w_env c) (map ChannelInfo infos @ ms) rest"
    and "list_all (\<lambda>i. \<not> named_slot u name i) infos" and "is = [k..<k + length infos]"
  shows "\<exists>c'. find_slot u name is free c =
      Finished (Inr (case free of Some f \<Rightarrow> Some f
        | None \<Rightarrow> find (\<lambda>j. ci_Name (infos ! (j - k)) = []) [k..<k + length infos]), c') \<and> live c' \<and>
    answers (w_env c') ms rest \<and> cl_session c' = cl_session c"
  using assms
proof (induction infos arbitrary: k c free "is")
  case Nil
  then show ?case by (simp add: ret_def split: option.splits)
next
  case (Cons i infos)
  define js where "js = [Suc k..<Suc k + length infos]"
  have up: "[k..<k + length (i # infos)] = k # js" unfolding js_def by (subst upt_conv_Cons) simp_all
  with Cons.prems have n: "is = k # js" by simp
  from Cons.prems channelAt_next [of c i "map ChannelInfo infos @ ms" rest "word_of_nat k"] obtain c1 where
    c1: "channelAt (word_of_nat k) c = Finished (Inr (Some (channel_of i)), c1)" "live c1"
    "answers (w_env c1) (map ChannelInfo infos @ ms) rest" "cl_session c1 = cl_session c" by auto
  let ?P = "\<lambda>j. ci_Name ((i # infos) ! (j - k)) = []"
  have shift: "find ?P js = find (\<lambda>j. ci_Name (infos ! (j - Suc k)) = []) [Suc k..<Suc k + length infos]"
    unfolding js_def by (intro find_cong) (auto simp: nth_Cons')
  have IH: "\<exists>c'. find_slot u name js fr c1 =
      Finished (Inr (case fr of Some f \<Rightarrow> Some f | None \<Rightarrow> find ?P js), c') \<and> live c' \<and>
    answers (w_env c') ms rest \<and> cl_session c' = cl_session c1" for fr
    unfolding shift using Cons.prems by (intro Cons.IH [OF c1(2, 3)]) (auto simp: js_def)
  show ?case
  proof (cases "ci_Name i = []")
    case True
    with c1 IH [of "if free = None then Some k else free"] show ?thesis
      unfolding n up by (cases free) (auto simp: bind_ok_def channel_of_def)
  next
    case False
    with c1 IH [of free] Cons.prems(3) show ?thesis
      unfolding n up by (cases free) (auto simp: bind_ok_def named_slot_def channel_of_def)
  qed
qed

section \<open>Draining and synchronising\<close>

lemma syncNext_next:
  assumes "live c" and "answers (w_env c) (m # ms) rest" and "m = NoMoreMessages \<or> msg_of m \<noteq> None"
  shows "\<exists>c'. syncNext c = Finished (Inr (msg_of m), c') \<and> live c' \<and> answers (w_env c') ms rest \<and>
    w_written c' = w_written c @ [[cmdSyncNextMessage]]"
proof -
  have "encode (w_now c) SyncNextMessage = Some (Inr [cmdSyncNextMessage])" by simp
  from request_next [OF assms(1, 2) this] obtain c' where
    "request SyncNextMessage c = Finished (check_response m, c')" "live c'" "answers (w_env c') ms rest"
    "w_written c' = w_written c @ [[cmdSyncNextMessage]]" by blast
  with assms(3) show ?thesis by (cases m) (auto simp: syncNext_def bind_ok_def ret_def)
qed

lemma emitEvent_live:
  assumes "live c"
  shows "\<exists>c'. emitEvent ev c = Some c' \<and> live c' \<and> w_env c' = w_env c \<and> w_written c' = w_written c"
proof -
  from assms have "client_ok c" by (simp add: live_def)
  from emitEvent_some [OF this, of ev] obtain c' where
    c': "emitEvent ev c = Some c'" "client_ok c'" "core c' = core c" by blast
  from core_sel [OF c'(3)] assms c' show ?thesis by (auto simp: live_def)
qed

lemma DrainMessages_answers:
  assumes "live c" and "answers (w_env c) (ms @ [NoMoreMessages]) rest" and "list_all (\<lambda>m. msg_of m \<noteq> None) ms"
  shows "\<exists>c'. DrainMessages (\<lambda>m out. (None, out @ [m])) out c =
      Finished (None, out @ map (the \<circ> msg_of) ms, c') \<and> live c' \<and> w_env c' = rest \<and>
      w_written c' = w_written c @ replicate (Suc (length ms)) [cmdSyncNextMessage]"
  using assms
proof (induction ms arbitrary: out c)
  case Nil
  with syncNext_next [of c NoMoreMessages "[]" rest] show ?case
    by (auto simp: DrainMessages.simps [of _ out c])
next
  case (Cons m ms)
  then obtain x where x: "msg_of m = Some x" by auto
  from syncNext_next [of c m "ms @ [NoMoreMessages]" rest] Cons.prems obtain c1 where
    c1: "syncNext c = Finished (Inr (Some x), c1)" "live c1" "answers (w_env c1) (ms @ [NoMoreMessages]) rest"
    "w_written c1 = w_written c @ [[cmdSyncNextMessage]]" using x by auto
  from emitEvent_live [OF c1(2), of "messageEvent x"] obtain c2 where
    c2: "emitEvent (messageEvent x) c1 = Some c2" "live c2" "w_env c2 = w_env c1" "w_written c2 = w_written c1" by blast
  from Cons.IH [OF c2(2), of "out @ [x]"] Cons.prems(3) c1(3, 4) c2(3, 4)
  obtain c' where "DrainMessages (\<lambda>m out. (None, out @ [m])) (out @ [x]) c2 =
      Finished (None, (out @ [x]) @ map (the \<circ> msg_of) ms, c')" "live c'" "w_env c' = rest"
      "w_written c' = w_written c2 @ replicate (Suc (length ms)) [cmdSyncNextMessage]" by auto
  with c1 c2 x show ?case by (auto simp: DrainMessages.simps [of _ out c])
qed

text \<open>Feeding the contact collector.\<close>

lemma stream_step_contacts [simp]:
  "stream_step (collect_contact p) (ContactsStart n) st = ((fst st, report p ((snd st)\<lparr>sy_total := unat n\<rparr>)), False)"
  "stream_step (collect_contact p) (ContactFrame f) st =
     ((fst st, report p ((snd st)\<lparr>sy_contacts := sy_contacts (snd st) @ [fromCompanionContact f]\<rparr>)), False)"
  "stream_step (collect_contact p) (EndOfContacts lm) st = ((fst st, (snd st)\<lparr>sy_lastMod := lm\<rparr>), True)"
  by (simp_all add: stream_step_def)

lemma report_contacts [simp]:
  "sy_contacts (report p s) = sy_contacts s" "sy_total (report p s) = sy_total s" "sy_lastMod (report p s) = sy_lastMod s"
  by (simp_all add: report_def)

lemma feed_contacts:
  "\<exists>s'. feed (stream_step (collect_contact p)) (None, s) (map ContactFrame fs) = ((None, s'), False, []) \<and>
     sy_contacts s' = sy_contacts s @ map fromCompanionContact fs \<and> sy_total s' = sy_total s \<and>
     sy_progress s' = sy_progress s @
       (if p then map (\<lambda>k. (length (sy_contacts s) + k, sy_total s)) [1..<Suc (length fs)] else [])"
proof (induction fs arbitrary: s)
  case (Cons f fs)
  let ?s = "report p (s\<lparr>sy_contacts := sy_contacts s @ [fromCompanionContact f]\<rparr>)"
  from Cons.IH [of ?s] obtain s' where s': "feed (stream_step (collect_contact p)) (None, ?s) (map ContactFrame fs) = ((None, s'), False, [])"
    "sy_contacts s' = sy_contacts ?s @ map fromCompanionContact fs" "sy_total s' = sy_total ?s"
    "sy_progress s' = sy_progress ?s @
       (if p then map (\<lambda>k. (length (sy_contacts ?s) + k, sy_total ?s)) [1..<Suc (length fs)] else [])" by blast
  have "map (\<lambda>k. (length (sy_contacts s) + k, sy_total s)) [1..<Suc (length (f # fs))] =
      (Suc (length (sy_contacts s)), sy_total s) #
        map (\<lambda>k. (Suc (length (sy_contacts s)) + k, sy_total s)) [1..<Suc (length fs)]"
    by (simp add: upt_conv_Cons map_Suc_upt [symmetric] del: upt_Suc)
  with s' show ?case
    by (cases p) (simp_all add: report_def del: upt_Suc)
qed simp

section \<open>Properties\<close>



lemma ContactsSince_answered:
  assumes "live c" and "Has (se_Capabilities (cl_session c)) CapabilityContacts"
    and "w_env c = es @ Recv pkt # rest" and "decode pkt = Some (EndOfContacts lm)"
    and "list_all (\<lambda>e. quiet e \<or> response e \<noteq> None) es"
    and "List.map_filter response es = ContactsStart n # map ContactFrame fs"
  shows "\<exists>c'. ContactsSince since True c =
      Finished (Inr (\<lparr>csr_Contacts = map fromCompanionContact fs, csr_LastMod = lm\<rparr>,
        map (\<lambda>k. (k, unat n)) [0..<Suc (length fs)]), c') \<and> w_env c' = rest \<and> client_ok c'"
proof -
  have ok: "client_ok c" "cl_reading c" "w_writes c = []" using assms(1) by (simp_all add: live_def)
  obtain raw where raw: "encode (w_now c) (GetContacts since) = Some (Inr raw)"
    using encode_accepts [of "GetContacts since" "w_now c"] by auto
  let ?s0 = "report True (new_sync\<lparr>sy_total := unat n\<rparr>)"
  let ?col = "stream_step (collect_contact True)"
  from feed_contacts [of True ?s0 fs] obtain s' where s': "feed ?col (None, ?s0) (map ContactFrame fs) = ((None, s'), False, [])"
    "sy_contacts s' = map fromCompanionContact fs"
    "sy_progress s' = (0, unat n) # map (\<lambda>k. (k, unat n)) [1..<Suc (length fs)]"
    by (auto simp: new_sync_def report_def)
  have f: "feed ?col (None, new_sync) (List.map_filter response es) = ((None, s'), False, [])"
    using s'(1) assms(6) by simp
  have "response (Recv pkt) = Some (EndOfContacts lm)" using assms(4) by simp
  from run_queue_collects [OF ok assms(3, 5) f this, of "(None, s'\<lparr>sy_lastMod := lm\<rparr>)" raw]
  obtain c' where c': "run_queue raw ?col (None, new_sync) c = Finished (Inr (None, s'\<lparr>sy_lastMod := lm\<rparr>), c')"
    "client_ok c'" "w_env c' = rest" by (auto simp: core_def)
  moreover have "(0, unat n) # map (\<lambda>k. (k, unat n)) [1..<Suc (length fs)] = map (\<lambda>k. (k, unat n)) [0..<Suc (length fs)]"
    by (simp add: upt_rec [of 0] del: upt_Suc)
  ultimately show ?thesis
    using assms(2) raw s' by (simp add: ContactsSince_def require_def requireCapability_def requestStream_def
        bind_ok_def ret_def)
qed

text \<open>Contact synchronisation is complete and in order. When the device answers with a start
  frame, contact frames and an end frame, with pushes anywhere in between, the call returns exactly
  these contacts in order and the modification marker of the end frame, reports progress after the
  start frame and after every contact, and consumes no event beyond the end frame.\<close>

theorem contacts_sync_complete:
  assumes "live c" and "Has (se_Capabilities (cl_session c)) CapabilityContacts"
    and "w_env c = es @ Recv pkt # rest" and "decode pkt = Some (EndOfContacts lm)"
    and "list_all (\<lambda>e. quiet e \<or> response e \<noteq> None) es"
    and "List.map_filter response es = ContactsStart n # map ContactFrame fs"
  shows "\<exists>c'. ContactsSince since True c =
      Finished (Inr (\<lparr>csr_Contacts = map fromCompanionContact fs, csr_LastMod = lm\<rparr>,
        map (\<lambda>k. (k, unat n)) [0..<Suc (length fs)]), c') \<and> w_env c' = rest \<and> client_ok c'"
  using assms by (rule ContactsSince_answered)

text \<open>A connected client over a given script, for the witnesses.\<close>

definition demo :: "env list \<Rightarrow> client" where
  "demo es = (New_client \<lparr>w_written = [], w_writes = [], w_now = zero_time, w_env = es\<rparr> [])
     \<lparr>cl_session := empty_session\<lparr>se_Capabilities := Capabilities\<rparr>, cl_reading := True\<rparr>"

lemma demo_live: "live (demo es)"
  using client_ok_New [of "\<lparr>w_written = [], w_writes = [], w_now = zero_time, w_env = es\<rparr>" "[]"]
  by (simp add: live_def demo_def client_ok_def New_client_def)

lemma demo_sel [simp]:
  "w_env (demo es) = es" "w_written (demo es) = []" "w_now (demo es) = zero_time"
  "se_Capabilities (cl_session (demo es)) = Capabilities" "cl_closed (demo es) = False"
  "cl_acks (demo es) = make_chan 16"
  by (simp_all add: demo_def New_client_def)

lemma Has_Capabilities:
  "Has Capabilities CapabilityContacts" "Has Capabilities CapabilityChannels"
  "Has Capabilities CapabilityMessages" "Has Capabilities CapabilityAcknowledgements"
  by (simp_all add: Has_def Capabilities_def capability_defs)

lemma decode_samples:
  "decode [0x83] = Some MsgWaiting" "decode [10] = Some NoMoreMessages" "decode [0] = Some OK"
  by (simp_all add: decode_def run_time_checks Let_def)

theorem contacts_sync_complete_witness:
  "\<exists>n lm c'. ContactsSince 0 True (demo ([Recv [2, 0, 0, 0, 0], Recv [0x83]] @ Recv [4, 7, 0, 0, 0] # [Tick])) =
      Finished (Inr (\<lparr>csr_Contacts = [], csr_LastMod = lm\<rparr>, [(0, n)]), c') \<and> w_env c' = [Tick]"
proof -
  let ?es = "[Recv [2, 0, 0, 0, 0], Recv [0x83]]"
  obtain n where n: "decode [2, 0, 0, 0, 0] = Some (ContactsStart n)" by (simp add: decode_def run_time_checks Let_def)
  obtain lm where lm: "decode [4, 7, 0, 0, 0] = Some (EndOfContacts lm)" by (simp add: decode_def run_time_checks Let_def)
  from contacts_sync_complete [where c = "demo (?es @ Recv [4, 7, 0, 0, 0] # [Tick])" and es = ?es and n = n and fs = "[]"
      and since = 0, OF demo_live _ _ lm] n
  show ?thesis by (auto simp: Has_Capabilities decode_samples map_filter_simps)
qed

text \<open>Draining the inbox is complete and in order. When the device answers successive sync requests
  with messages and finally reports that there are no more, the call returns exactly these messages,
  oldest first, after one request per message and a last one.\<close>

theorem sync_messages_complete:
  assumes "live c" and "answers (w_env c) (ms @ [NoMoreMessages]) rest" and "list_all (\<lambda>m. msg_of m \<noteq> None) ms"
  shows "\<exists>c'. SyncMessages c = Finished (None, map (the \<circ> msg_of) ms, c') \<and> w_env c' = rest \<and> live c' \<and>
    w_written c' = w_written c @ replicate (Suc (length ms)) [cmdSyncNextMessage]"
  using DrainMessages_answers [OF assms, of "[]"] by (auto simp: SyncMessages_def)

theorem sync_messages_complete_witness:
  "\<exists>m c'. SyncMessages (demo [Recv [8, 3, 0, 0, 0, 0, 0, 0, 104, 105], Recv [0x83], Recv [10], Tick]) =
      Finished (None, [m], c') \<and> w_env c' = [Tick] \<and> w_written c' = [[cmdSyncNextMessage], [cmdSyncNextMessage]]"
proof -
  let ?p = "[8, 3, 0, 0, 0, 0, 0, 0, 104, 105]" and ?es = "[Recv [8, 3, 0, 0, 0, 0, 0, 0, 104, 105], Recv [0x83], Recv [10], Tick]"
  obtain x where x: "decode ?p = Some (ChannelMessage x)"
    by (simp add: decode_def run_time_checks Let_def decodeChannelMessage_def)
  have "answers ([Recv [0x83]] @ Recv [10] # [Tick]) [NoMoreMessages] [Tick]"
    by (rule answersI) (simp_all add: decode_samples)
  from answersI [OF _ x _ this, of "[]"] have "answers ?es ([ChannelMessage x] @ [NoMoreMessages]) [Tick]" by simp
  with sync_messages_complete [OF demo_live, of ?es "[ChannelMessage x]" "[Tick]"] show ?thesis
    by (auto simp: numeral_2_eq_2)
qed

lemma AddChannel_slot:
  assumes "Has (se_Capabilities (cl_session c)) CapabilityChannels" and "name \<noteq> []" and "length secret = n"
    and "find_slot u name [0..<maxChannels] None c = Finished (Inr (Some i), d)" and "live d"
    and "answers (w_env d) [OK] rest" and "cl_session d = cl_session c"
  shows "\<exists>c'. AddChannel n u name secret c =
      Finished (Inr \<lparr>cn_Index = int i, cn_Name = name, cn_Secret = secret\<rparr>, c') \<and> w_env c' = rest"
proof -
  obtain raw where "encode (w_now d) (SetChannel \<lparr>sc_Index = word_of_nat i, sc_Name = name, sc_Secret = secret\<rparr>) =
    Some (Inr raw)" using encode_accepts by fastforce
  from request_next [OF assms(5, 6) this] assms(1, 7)
  have "\<exists>d'. bind_ok (SetChannelAt (word_of_nat i) name secret d)
      (\<lambda>_ c. ret \<lparr>cn_Index = int i, cn_Name = name, cn_Secret = secret\<rparr> c) =
      Finished (Inr \<lparr>cn_Index = int i, cn_Name = name, cn_Secret = secret\<rparr>, d') \<and> w_env d' = rest"
    by (auto simp: SetChannelAt_def require_def requireCapability_def bind_ok_def ret_def)
  with assms(1-4) show ?thesis
    by (simp add: AddChannel_def require_def requireCapability_def bind_ok_def [of "Finished _"])
qed


text \<open>A slot index that does not fit a byte is reduced modulo 256: the channel named \<open>256\<close> is slot 0,
  and removing it clears slot 0.\<close>

lemma Channel_index_wraps:
  "Channel u ''256'' c = bind_ok (channelAt 0 c) (\<lambda>ch c. case ch of None \<Rightarrow> fail (NoChannelAt 256) c | Some ch \<Rightarrow> ret ch c)"
proof -
  have "TrimPrefix (TrimSpace ''256'') ''#'' = ''256''" by code_simp
  moreover have "show_nat 256 = ''256''" by code_simp
  then have "Atoi ''256'' = Some 256" using ParseInt_show [of 256 64] by (simp add: Atoi_def)
  moreover have "(word_of_int 256 :: byte) = 0" by (simp only: word_of_int_eq_0_iff) simp
  ultimately show ?thesis by (simp only: Channel_def Let_def option.case)
qed

lemma RemoveChannel_index_wraps:
  assumes "live c" and "Has (se_Capabilities (cl_session c)) CapabilityChannels"
    and "answers (w_env c) [ChannelInfo \<lparr>ci_Index = 0, ci_Name = name, ci_Secret = secret\<rparr>, OK] rest"
  shows "\<exists>c' body. RemoveChannel u ''256'' c =
      Finished (Inr \<lparr>cn_Index = 0, cn_Name = name, cn_Secret = secret\<rparr>, c') \<and>
      w_written c' = w_written c @ [[cmdGetChannel, 0], cmdSetChannel # 0 # body]"
proof -
  from channelAt_next [OF assms(1, 3), of 0] obtain c1 where
    c1: "channelAt 0 c = Finished (Inr (Some \<lparr>cn_Index = 0, cn_Name = name, cn_Secret = secret\<rparr>), c1)" "live c1"
    "answers (w_env c1) [OK] rest" "w_written c1 = w_written c @ [[cmdGetChannel, 0]]" "cl_session c1 = cl_session c"
    by (auto simp: channel_of_def)
  obtain body where "encode (w_now c1) (SetChannel \<lparr>sc_Index = 0, sc_Name = [], sc_Secret = []\<rparr>) =
      Some (Inr (cmdSetChannel # 0 # body))"
    by (simp add: encode_SetChannel)
  from request_next [OF c1(2, 3) this] c1 assms(2) show ?thesis
    by (auto simp: RemoveChannel_def Channel_index_wraps SetChannelAt_def require_def requireCapability_def
        bind_ok_def ret_def)
qed


section \<open>Acknowledgements\<close>

lemma poll_ack_hit:
  assumes "poll_ack want s c = (Some (Inr code), s', c')"
  shows "code = want"
proof -
  obtain s1 q rest where d: "drain (\<lambda>code _. ((), if code = want then Some (Inr code) else None)) s (ch_buf (cl_acks c)) =
      (s1, q :: (go_error + uint32) option, rest)"
    by (rule prod_cases3)
  have "True \<and> (\<forall>x. q = Some x \<longrightarrow> x = Inr want)"
    by (rule drain_inv [where I = "\<lambda>_. True", OF _ _ d]) (auto split: if_splits)
  with d assms show ?thesis by (auto simp: poll_ack_def poll_push_def Let_def split: option.splits if_splits)
qed

lemma drain_ack:
  "drain (\<lambda>code _. ((), if code = want then Some (Inr code) else None)) s vs =
     ((), if want \<in> set vs then Some (Inr want) else None, tl (dropWhile (\<lambda>x. x \<noteq> want) vs))"
  by (induction vs) auto

lemma drain_no_ack:
  "want \<notin> set vs \<Longrightarrow> drain (\<lambda>code _. ((), if code = want then Some (Inr code) else None)) s vs = ((), None, [])"
  by (induction vs) auto

text \<open>The confirmation may already be buffered, or one of the events of the script brings it.\<close>

lemma await_ack:
  assumes "client_ok c" and "cl_reading c" and "\<not> cl_closed c" and "0 < ch_cap (cl_acks c)"
    and "list_all quiet es" and "decode p = Some (SendConfirmed x)"
  shows "\<exists>c'. await (poll_ack (scf_Code x)) f (es @ Recv p # rest) () c = Finished (Inr (scf_Code x), c')"
proof (cases "scf_Code x \<in> set (ch_buf (cl_acks c))")
  case True
  then have "\<exists>c'. poll_ack (scf_Code x) () c = (Some (Inr (scf_Code x)), (), c')"
    by (simp add: poll_ack_def poll_push_def drain_ack)
  then show ?thesis by (cases "es @ Recv p # rest") auto
next
  case False
  let ?code = "scf_Code x"
  have pushed: "acks.pushed (Recv p) = Some ?code" using assms(6) by simp
  show ?thesis
  proof (cases "?code \<in> set (List.map_filter acks.pushed es)")
    case True
    then obtain us e vs where es: "es = us @ e # vs" "acks.pushed e = Some ?code"
      "?code \<notin> set (List.map_filter acks.pushed us)"
      using split_map_filter_first by metis
    with False have "drain (\<lambda>code _. ((), if code = ?code then Some (Inr code :: go_error + uint32) else None)) ()
        (ch_buf (cl_acks c) @ List.map_filter acks.pushed us) = ((), None, [])"
      by (intro drain_no_ack) simp
    from acks.await_hit [OF assms(1-4) _ this es(2)] assms(5) es(1) show ?thesis by (fastforce simp: poll_ack_def)
  next
    case out: False
    with False have "drain (\<lambda>code _. ((), if code = ?code then Some (Inr code :: go_error + uint32) else None)) ()
        (ch_buf (cl_acks c) @ List.map_filter acks.pushed es) = ((), None, [])"
      by (intro drain_no_ack) simp
    from acks.await_hit [OF assms(1-5) this pushed] show ?thesis by (fastforce simp: poll_ack_def)
  qed
qed

text \<open>Waiting for an acknowledgement reports the right message. A success always carries the code of
  the receipt, whatever else was confirmed; and when a confirmation with that code arrives on an
  open client before its context ends, the wait succeeds, even if other confirmations and pushes
  come before it.\<close>

theorem acknowledgement_matches_receipt:
  assumes "client_ok c" and "Has (se_Capabilities (cl_session c)) CapabilityAcknowledgements"
  shows "(\<forall>a c'. WaitForAcknowledgement r c = Finished (Inr a, c') \<longrightarrow> ak_Code a = ID r) \<and>
    (cl_reading c \<and> \<not> cl_closed c \<and> 0 < ch_cap (cl_acks c) \<and> w_env c = es @ Recv p # rest \<and>
     list_all quiet es \<and> decode p = Some (SendConfirmed x) \<and> scf_Code x = rc_AckCode r \<longrightarrow>
       (\<exists>a c'. WaitForAcknowledgement r c = Finished (Inr a, c')))"
proof (intro conjI allI impI)
  fix a c'
  assume "WaitForAcknowledgement r c = Finished (Inr a, c')"
  with assms(2) obtain q d where aw: "await (poll_ack (rc_AckCode r)) (\<lambda>e _. Inl (CtxError e)) (w_env c) () c = Finished (q, d)"
    and q: "bind_ok (Finished (q, d)) (\<lambda>code c. ret \<lparr>ak_Code = hex_pad 8 (unat code),
       ak_RTT = time_Since (w_now c) (rc_QueuedAt r)\<rparr> c) = Finished (Inr a, c')"
    by (cases "await (poll_ack (rc_AckCode r)) (\<lambda>e _. Inl (CtxError e)) (w_env c) () c")
      (auto simp: WaitForAcknowledgement_def require_def requireCapability_def bind_ok_def)
  have "case_sum (\<lambda>_. True) (\<lambda>code. code = rc_AckCode r) q"
    by (rule await_inv [where I = "\<lambda>_. True", OF _ _ _ _ aw])
      (auto split: sum.split dest: poll_ack_hit)
  with q show "ak_Code a = ID r" by (cases q) (auto simp: bind_ok_def ret_def ID_def)
next
  assume a: "cl_reading c \<and> \<not> cl_closed c \<and> 0 < ch_cap (cl_acks c) \<and> w_env c = es @ Recv p # rest \<and>
     list_all quiet es \<and> decode p = Some (SendConfirmed x) \<and> scf_Code x = rc_AckCode r"
  from await_ack [OF assms(1), of es p x "\<lambda>e _. Inl (CtxError e)" rest] a assms(2)
  show "\<exists>a c'. WaitForAcknowledgement r c = Finished (Inr a, c')"
    by (auto simp: WaitForAcknowledgement_def require_def requireCapability_def bind_ok_def ret_def)
qed

theorem acknowledgement_matches_receipt_witness:
  "\<exists>x a c'. decode [0x82, 1, 0, 0, 0, 9, 0, 0, 0] = Some (SendConfirmed x) \<and>
     WaitForAcknowledgement \<lparr>rc_To = ''bob'', rc_AckCode = scf_Code x, rc_Timeout = 0, rc_QueuedAt = zero_time\<rparr>
       (demo [Recv [0x83], Recv [0x82, 1, 0, 0, 0, 9, 0, 0, 0]]) = Finished (Inr a, c')"
proof -
  let ?p = "[0x82, 1, 0, 0, 0, 9, 0, 0, 0]"
  obtain x where x: "decode ?p = Some (SendConfirmed x)" by (simp add: decode_def run_time_checks Let_def decodeSendConfirmed_def)
  have "client_ok (demo es)" "cl_reading (demo es)" for es using demo_live [of es] by (simp_all add: live_def)
  with acknowledgement_matches_receipt [of "demo ([Recv [0x83]] @ Recv ?p # [])"
      "\<lparr>rc_To = ''bob'', rc_AckCode = scf_Code x, rc_Timeout = 0, rc_QueuedAt = zero_time\<rparr>" "[Recv [0x83]]" ?p "[]" x] x
  show ?thesis by (auto simp: Has_Capabilities decode_samples)
qed

end
