(* ===== verification/Go_Fmt.thy ===== *)
theory Go_Fmt
  imports Go_Strconv Go_Float
begin

text \<open>
  The verbs of package \<open>fmt\<close> that the sources use for terminal output, besides those of \<open>Go_Strings\<close>:
  \<open>%d\<close> of a signed value, \<open>%.nf\<close> and \<open>%+.nf\<close>, and \<open>%-ns\<close>, which pads to a width counted in runes. A
  decimal conversion rounds the exact value, ties to even. \<open>strings.TrimRight\<close> with a set of ASCII
  characters is here too.
\<close>

section \<open>Numbers\<close>

definition show_int :: "int \<Rightarrow> string" where
  "show_int i = (if i < 0 then ''-'' @ show_nat (nat (- i)) else show_nat (nat i))"

text \<open>The last \<open>k\<close> decimal digits of \<open>n\<close>.\<close>

fun dec_pad :: "nat \<Rightarrow> nat \<Rightarrow> string" where
  "dec_pad 0 n = []"
| "dec_pad (Suc k) n = dec_pad k (n div 10) @ [hex_digit (n mod 10)]"

definition show_fixed :: "nat \<Rightarrow> rat \<Rightarrow> string" where
  "show_fixed prec x =
     (let n = nat (round_half_even (\<bar>x\<bar> * 10 ^ prec)) in
      (if x < 0 then ''-'' else []) @ show_nat (n div 10 ^ prec) @
      (if prec = 0 then [] else ''.'' @ dec_pad prec n))"

definition show_fixed_plus :: "nat \<Rightarrow> rat \<Rightarrow> string" where
  "show_fixed_plus prec x = (if x < 0 then [] else ''+'') @ show_fixed prec x"

section \<open>Padding\<close>

text \<open>The length of the UTF-8 sequence at the start of a non-empty string; an invalid byte counts as a
  rune of its own.\<close>

definition rune_size :: "nat list \<Rightarrow> nat" where
  "rune_size bs =
     (let cont = (\<lambda>lo hi b. lo \<le> b \<and> b \<le> (hi :: nat)) in
      case bs of
        b0 # b1 # b2 # b3 # _ \<Rightarrow>
          if 0xC2 \<le> b0 \<and> b0 \<le> 0xDF \<and> cont 0x80 0xBF b1 then 2
          else if 0xE0 \<le> b0 \<and> b0 \<le> 0xEF \<and> cont (if b0 = 0xE0 then 0xA0 else 0x80) (if b0 = 0xED then 0x9F else 0xBF) b1 \<and>
            cont 0x80 0xBF b2 then 3
          else if 0xF0 \<le> b0 \<and> b0 \<le> 0xF4 \<and> cont (if b0 = 0xF0 then 0x90 else 0x80) (if b0 = 0xF4 then 0x8F else 0xBF) b1 \<and>
            cont 0x80 0xBF b2 \<and> cont 0x80 0xBF b3 then 4
          else 1
      | _ \<Rightarrow> 1)"

text \<open>Sequences near the end of the string are completed with zero bytes, which continue nothing.\<close>

function RuneCount :: "string \<Rightarrow> nat" where
  "RuneCount s = (if s = [] then 0 else Suc (RuneCount (drop (rune_size (map of_char (take 4 s) @ [0, 0, 0])) s)))"
  by pat_completeness auto
termination
proof (relation "measure length")
  fix s :: string
  assume s: "s \<noteq> []"
  have "1 \<le> rune_size bs" for bs by (simp add: rune_size_def Let_def split: list.split)
  from this [of "map of_char (take 4 s) @ [0, 0, 0]"] s
  show "(drop (rune_size (map of_char (take 4 s) @ [0, 0, 0])) s, s) \<in> measure length"
    by (cases s) simp_all
qed simp

declare RuneCount.simps [simp del]

definition pad_right :: "nat \<Rightarrow> string \<Rightarrow> string" where
  "pad_right w s = s @ replicate (w - RuneCount s) (CHR '' '')"

definition TrimRight :: "char \<Rightarrow> string \<Rightarrow> string" where
  "TrimRight c s = rev (dropWhile (\<lambda>x. x = c) (rev s))"

section \<open>Facts\<close>

lemma length_dec_pad [simp]: "length (dec_pad k n) = k"
  by (induction k arbitrary: n) simp_all

definition graphic :: "char \<Rightarrow> bool" where
  "graphic c \<longleftrightarrow> (let n = of_char c :: nat in 33 \<le> n \<and> n \<le> 126)"

lemma space_encodings_hd:
  "list_all (\<lambda>p. \<exists>c q. p = c # q \<and> \<not> graphic c) space_encodings"
  "list_all (\<lambda>p. \<exists>c q. p = c # q \<and> \<not> graphic c) (map rev space_encodings)"
  by (simp_all add: space_encodings_def graphic_def upt_rec [of 128] upt_rec [of 129] upt_rec [of 130] upt_rec [of 131]
      upt_rec [of 132] upt_rec [of 133] upt_rec [of 134] upt_rec [of 135] upt_rec [of 136] upt_rec [of 137] upt_rec [of 138])

lemma trim_enc_graphic:
  assumes "list_all (\<lambda>p. \<exists>c q. p = c # q \<and> \<not> graphic c) encs" and "graphic c"
  shows "trim_enc encs (c # s) = c # s"
proof -
  have "find (\<lambda>p. p \<noteq> [] \<and> prefix p (c # s)) encs = None"
    using assms by (auto simp: find_None_iff list_all_iff)
  then show ?thesis by (simp add: trim_enc.simps [of encs])
qed

lemma TrimSpace_graphic:
  assumes "s \<noteq> []" and "graphic (hd s)" and "graphic (last s)"
  shows "TrimSpace s = s"
proof -
  from assms(1, 2) have l: "trim_enc space_encodings s = s"
    by (cases s) (auto intro: trim_enc_graphic [OF space_encodings_hd(1)])
  have "rev s = last s # tl (rev s)" using assms(1) by (metis hd_rev list.collapse rev_is_Nil_conv)
  then have "trim_enc (map rev space_encodings) (rev s) = rev s"
    using trim_enc_graphic [OF space_encodings_hd(2) assms(3)] by metis
  with l show ?thesis by (simp add: TrimSpace_def)
qed

lemma graphic_hex_digit [simp]: "d < 16 \<Longrightarrow> graphic (hex_digit d)"
  by (auto simp: graphic_def hex_digit_def)

lemma show_nat_digits: "\<forall>c \<in> set (show_nat n). \<exists>d < 10. c = hex_digit d"
proof (induction n rule: show_nat.induct)
  case (1 n)
  then show ?case by (subst show_nat.simps) (auto intro: exI [of _ "n mod 10"])
qed

lemma show_nat_neq_Nil [simp]: "show_nat n \<noteq> []"
  by (subst show_nat.simps) simp

lemma show_int_chars: "\<forall>c \<in> set (show_int i). graphic c \<and> c \<noteq> CHR '':''"
proof -
  have "graphic c \<and> c \<noteq> CHR '':''" if c: "c \<in> set (show_nat n)" for c n
  proof -
    obtain d where d: "d < 10" "c = hex_digit d" using show_nat_digits [of n] c by blast
    moreover have "c \<noteq> CHR '':''"
    proof
      assume "c = CHR '':''"
      then have "(of_char c :: nat) = 58" by simp
      with of_char_digit [OF d(1)] d show False by simp
    qed
    ultimately show ?thesis by simp
  qed
  then show ?thesis by (auto simp: show_int_def graphic_def)
qed

lemma show_int_neq_Nil [simp]: "show_int i \<noteq> []"
  by (simp add: show_int_def)

lemma ParseInt_show_int:
  assumes "- (2 ^ (bits - 1)) \<le> i" and "i < 2 ^ (bits - 1)" and "0 < bits" and "bits \<le> 64"
  shows "ParseInt bits (show_int i) = Some i"
proof (cases "i < 0")
  case True
  let ?n = "nat (- i)"
  have n: "?n \<le> 2 ^ (bits - 1)" using assms(1) True by (simp add: nat_le_iff)
  moreover have "(2 :: nat) ^ (bits - 1) < 2 ^ 64" using assms(3, 4) by (intro power_strict_increasing) auto
  ultimately have "ParseUint 64 (show_nat ?n) = Some ?n" by (intro ParseUint_show) linarith
  with True n show ?thesis by (simp add: show_int_def ParseInt_def)
next
  case False
  then have "nat i < 2 ^ (bits - 1)" using assms(2) by (simp add: nat_less_iff)
  from ParseInt_show [OF this assms(4)] False show ?thesis by (simp add: show_int_def)
qed

end
