(* ===== verification/Repeater_Report.thy ===== *)
theory Repeater_Report
  imports Go_Fmt Client_Types
begin

text \<open>
  What repeaters report: the neighbour list of \<open>neighbours.go\<close> (parsing, enriching from the contacts,
  printing) and the presentation of binary statistics in \<open>protocol/companion/stats.go\<close>.
\<close>

section \<open>Neighbours\<close>

record repeater_neighbour =
  nb_PublicKeyPrefix :: string
  nb_Name :: string
  nb_Latitude :: f64
  nb_Longitude :: f64
  nb_DistanceKm :: f64
  nb_HeardSecs :: uint32
  nb_SNRdB :: f64

text \<open>The body of the loop over the lines: \<open>None\<close> is \<open>continue\<close>.\<close>

definition parse_neighbour :: "unicode \<Rightarrow> string \<Rightarrow> repeater_neighbour option" where
  "parse_neighbour u line0 =
     (let line = TrimSpace line0 in
      if line = [] \<or> line = ''-none-'' then None
      else case Split (CHR '':'') line of
          [p0, p1, p2] \<Rightarrow>
            (let prefix = ToLower u (TrimSpace p0) in
             if length prefix \<noteq> 8 then None
             else case ParseUint 32 (TrimSpace p1) of
                 None \<Rightarrow> None
               | Some heard \<Rightarrow>
                   (case ParseInt 16 (TrimSpace p2) of
                      None \<Rightarrow> None
                    | Some snrRaw \<Rightarrow>
                        Some \<lparr>nb_PublicKeyPrefix = prefix, nb_Name = [], nb_Latitude = 0, nb_Longitude = 0,
                          nb_DistanceKm = 0, nb_HeardSecs = word_of_nat heard, nb_SNRdB = quarter snrRaw\<rparr>))
        | _ \<Rightarrow> None)"

definition newline :: char where
  "newline = CHR 0x0A"

definition ParseRepeaterNeighbours :: "unicode \<Rightarrow> string \<Rightarrow> repeater_neighbour list" where
  "ParseRepeaterNeighbours u text0 =
     (let text = TrimSpace text0 in
      if text = [] \<or> text = ''-none-'' then []
      else List.map_filter (parse_neighbour u) (Split newline text))"

definition contactHasCoords :: "f64 \<Rightarrow> f64 \<Rightarrow> bool" where
  "contactHasCoords lat lon = (lat \<noteq> 0 \<or> lon \<noteq> 0)"

definition contactForKeyPrefix :: "unicode \<Rightarrow> contact list \<Rightarrow> string \<Rightarrow> contact option" where
  "contactForKeyPrefix u contacts prefix0 =
     (let prefix = ToLower u (TrimSpace prefix0) in
      if prefix = [] then None
      else case filter (\<lambda>ct. HasPrefix (ToLower u (ct_PublicKey ct)) prefix) contacts of
          [] \<Rightarrow> None
        | m # _ \<Rightarrow> Some m)"

text \<open>The functions of package \<open>math\<close> are arguments; the arithmetic in between rounds every operation.
  \<open>math_Pi\<close> is the value of \<open>float64(math.Pi)\<close>.\<close>

record go_math =
  Sin :: "f64 \<Rightarrow> f64"
  Cos :: "f64 \<Rightarrow> f64"
  Atan2 :: "f64 \<Rightarrow> f64 \<Rightarrow> f64"
  Sqrt :: "f64 \<Rightarrow> f64"

definition math_Pi :: f64 where
  "math_Pi = 884279719003555 / 281474976710656"

definition f64_add :: "f64 \<Rightarrow> f64 \<Rightarrow> f64" where
  "f64_add x y = f64_round (x + y)"

definition f64_sub :: "f64 \<Rightarrow> f64 \<Rightarrow> f64" where
  "f64_sub x y = f64_round (x - y)"

definition f64_mul :: "f64 \<Rightarrow> f64 \<Rightarrow> f64" where
  "f64_mul x y = f64_round (x * y)"

definition radians :: "f64 \<Rightarrow> f64" where
  "radians x = f64_div (f64_mul x math_Pi) 180"

definition haversineDistanceKm :: "go_math \<Rightarrow> f64 \<Rightarrow> f64 \<Rightarrow> f64 \<Rightarrow> f64 \<Rightarrow> f64" where
  "haversineDistanceKm m lat1 lon1 lat2 lon2 =
     (let earthRadiusKm = 6371;
          dLat = radians (f64_sub lat2 lat1);
          dLon = radians (f64_sub lon2 lon1);
          lat1r = radians lat1;
          lat2r = radians lat2;
          a = f64_add (f64_mul (Sin m (f64_div dLat 2)) (Sin m (f64_div dLat 2)))
                (f64_mul (f64_mul (f64_mul (Cos m lat1r) (Cos m lat2r)) (Sin m (f64_div dLon 2))) (Sin m (f64_div dLon 2)));
          c = f64_mul 2 (Atan2 m (Sqrt m a) (Sqrt m (f64_sub 1 a)))
      in f64_mul earthRadiusKm c)"

definition enrich_one :: "unicode \<Rightarrow> go_math \<Rightarrow> contact \<Rightarrow> contact list \<Rightarrow> repeater_neighbour \<Rightarrow> repeater_neighbour" where
  "enrich_one u m repeater contacts n =
     (case contactForKeyPrefix u contacts (nb_PublicKeyPrefix n) of
        None \<Rightarrow> n
      | Some ct \<Rightarrow>
          (let n1 = n\<lparr>nb_Name := ct_Name ct\<rparr> in
           if contactHasCoords (ct_Latitude ct) (ct_Longitude ct) then
             (let n2 = n1\<lparr>nb_Latitude := ct_Latitude ct, nb_Longitude := ct_Longitude ct\<rparr> in
              if contactHasCoords (ct_Latitude repeater) (ct_Longitude repeater)
              then n2\<lparr>nb_DistanceKm :=
                haversineDistanceKm m (ct_Latitude repeater) (ct_Longitude repeater) (ct_Latitude ct) (ct_Longitude ct)\<rparr>
              else n2)
           else n1))"

definition EnrichRepeaterNeighbours :: "unicode \<Rightarrow> go_math \<Rightarrow> repeater_neighbour list \<Rightarrow> contact \<Rightarrow> contact list \<Rightarrow>
    repeater_neighbour list" where
  "EnrichRepeaterNeighbours u m neighbours repeater contacts =
     (if length neighbours = 0 then neighbours else map (enrich_one u m repeater contacts) neighbours)"

section \<open>Printing neighbours\<close>

definition neighbourDisplayName :: "string \<Rightarrow> string" where
  "neighbourDisplayName name = (if TrimSpace name = [] then ''-'' else name)"

definition formatNeighbourCoords :: "f64 \<Rightarrow> f64 \<Rightarrow> string" where
  "formatNeighbourCoords lat lon =
     (if \<not> contactHasCoords lat lon then ''-'' else show_fixed 5 lat @ '','' @ show_fixed 5 lon)"

definition formatNeighbourDistance :: "f64 \<Rightarrow> string" where
  "formatNeighbourDistance km =
     (if km \<le> 0 then ''-''
      else if km < 1 then show_int \<lfloor>f64_add (f64_mul km 1000) (1 / 2)\<rfloor> @ ''m''
      else if km < 100 then show_fixed 1 km @ ''km''
      else show_fixed 0 km @ ''km'')"

definition formatHeardAgo :: "uint32 \<Rightarrow> string" where
  "formatHeardAgo secs =
     (if secs < 60 then show_nat (unat secs) @ ''s ago''
      else if secs < 3600 then show_nat (unat (secs div 60)) @ ''m ago''
      else if secs < 86400 then
        (let h = secs div 3600; m = (secs mod 3600) div 60 in
         if m = 0 then show_nat (unat h) @ ''h ago''
         else show_nat (unat h) @ ''h '' @ show_nat (unat m) @ ''m ago'')
      else
        (let d = secs div 86400; h = (secs mod 86400) div 3600 in
         if h = 0 then show_nat (unat d) @ ''d ago''
         else show_nat (unat d) @ ''d '' @ show_nat (unat h) @ ''h ago''))"

definition neighbour_row :: "repeater_neighbour \<Rightarrow> string" where
  "neighbour_row n =
     pad_right 10 (nb_PublicKeyPrefix n) @ '' '' @ pad_right 24 (neighbourDisplayName (nb_Name n)) @ '' '' @
     pad_right 20 (formatNeighbourCoords (nb_Latitude n) (nb_Longitude n)) @ '' '' @
     pad_right 8 (formatNeighbourDistance (nb_DistanceKm n)) @ '' '' @
     pad_right 16 (formatHeardAgo (nb_HeardSecs n)) @ '' '' @ show_fixed_plus 1 (nb_SNRdB n) @ '' dB'' @ [newline]"

definition FormatRepeaterNeighbours :: "string \<Rightarrow> repeater_neighbour list \<Rightarrow> string" where
  "FormatRepeaterNeighbours repeater neighbours =
     (let b0 = ''Repeater: '' @ repeater @ [newline] in
      if length neighbours = 0 then b0 @ [newline] @ ''No neighbors.'' @ [newline]
      else
        let b1 = b0 @ [newline] @ show_nat (length neighbours) @ '' neighbor'' @
                (if length neighbours \<noteq> 1 then ''s'' else []) @ '':'' @ [newline, newline];
            b2 = b1 @ pad_right 10 ''PREFIX'' @ '' '' @ pad_right 24 ''NAME'' @ '' '' @ pad_right 20 ''COORDS'' @ '' '' @
                pad_right 8 ''DIST'' @ '' '' @ pad_right 16 ''LAST HEARD'' @ '' '' @ ''SNR'' @ [newline]
        in TrimRight newline (b2 @ concat (map neighbour_row neighbours)) @ [newline])"

section \<open>Statistics\<close>

record repeater_stats_json =
  js_BatteryMV :: uint16
  js_UptimeSecs :: uint32
  js_Errors :: uint16
  js_QueueLen :: uint16
  js_NoiseFloor :: int
  js_LastRSSI :: int
  js_LastSNR :: f64
  js_TxAirSecs :: uint32
  js_RxAirSecs :: uint32
  js_Recv :: uint32
  js_Sent :: uint32
  js_FloodTx :: uint32
  js_DirectTx :: uint32
  js_FloodRx :: uint32
  js_DirectRx :: uint32
  js_RecvErrors :: uint32
  js_DirectDups :: uint16
  js_FloodDups :: uint16

definition JSONValue :: "repeater_stats \<Rightarrow> repeater_stats_json" where
  "JSONValue s =
     \<lparr>js_BatteryMV = rs_BattMilliVolts s, js_UptimeSecs = rs_TotalUpTimeSecs s, js_Errors = rs_ErrEvents s,
      js_QueueLen = rs_CurrTxQueueLen s, js_NoiseFloor = rs_NoiseFloor s, js_LastRSSI = rs_LastRSSI s,
      js_LastSNR = quarter (rs_LastSNR s), js_TxAirSecs = rs_TotalAirTimeSecs s,
      js_RxAirSecs = rs_TotalRxAirTimeSecs s, js_Recv = rs_NPacketsRecv s, js_Sent = rs_NPacketsSent s,
      js_FloodTx = rs_NSentFlood s, js_DirectTx = rs_NSentDirect s, js_FloodRx = rs_NRecvFlood s,
      js_DirectRx = rs_NRecvDirect s, js_RecvErrors = rs_NRecvErrors s, js_DirectDups = rs_NDirectDups s,
      js_FloodDups = rs_NFloodDups s\<rparr>"

definition formatDuration :: "uint32 \<Rightarrow> string" where
  "formatDuration secs0 =
     (if secs0 < 60 then show_nat (unat secs0) @ ''s''
      else
        let d = secs0 div 86400; secs1 = secs0 mod 86400; h = secs1 div 3600; secs2 = secs1 mod 3600; m = secs2 div 60;
            parts = (if 0 < d then [show_nat (unat d) @ ''d''] else []) @
                    (if 0 < h then [show_nat (unat h) @ ''h''] else []) @
                    (if 0 < m then [show_nat (unat m) @ ''m''] else [])
        in if length parts = 0 then show_nat (unat secs2) @ ''s'' else Join '' '' parts)"

definition Human :: "repeater_stats \<Rightarrow> string" where
  "Human s =
     TrimRight newline (concat (map (\<lambda>l. l @ [newline])
       [''Core'',
        ''  Battery:      '' @ show_fixed 2 (f64_div (f64_of_int (uint (rs_BattMilliVolts s))) 1000) @ '' V'',
        ''  Uptime:       '' @ formatDuration (rs_TotalUpTimeSecs s),
        ''  TX queue:     '' @ show_nat (unat (rs_CurrTxQueueLen s)),
        ''  Errors:       '' @ show_nat (unat (rs_ErrEvents s)),
        [],
        ''Radio'',
        ''  Noise floor:  '' @ show_int (rs_NoiseFloor s) @ '' dBm'',
        ''  Last RSSI:    '' @ show_int (rs_LastRSSI s) @ '' dBm'',
        ''  Last SNR:     '' @ show_fixed_plus 1 (quarter (rs_LastSNR s)) @ '' dB'',
        ''  TX air time:  '' @ formatDuration (rs_TotalAirTimeSecs s),
        ''  RX air time:  '' @ formatDuration (rs_TotalRxAirTimeSecs s),
        [],
        ''Packets'',
        ''  Received:     '' @ show_nat (unat (rs_NPacketsRecv s)),
        ''  Sent:         '' @ show_nat (unat (rs_NPacketsSent s)),
        ''  Flood TX:     '' @ show_nat (unat (rs_NSentFlood s)),
        ''  Direct TX:    '' @ show_nat (unat (rs_NSentDirect s)),
        ''  Flood RX:     '' @ show_nat (unat (rs_NRecvFlood s)),
        ''  Direct RX:    '' @ show_nat (unat (rs_NRecvDirect s)),
        ''  RX errors:    '' @ show_nat (unat (rs_NRecvErrors s)),
        ''  Direct dups:  '' @ show_nat (unat (rs_NDirectDups s)),
        ''  Flood dups:   '' @ show_nat (unat (rs_NFloodDups s))]))"

section \<open>The firmware's neighbour lines are parsed back\<close>

lemma Split_append_sep: "sep \<notin> set x \<Longrightarrow> Split sep (x @ sep # s) = x # Split sep s"
  by (induction x) (auto split: list.split)

lemma Split_no_sep: "sep \<notin> set x \<Longrightarrow> Split sep x = [x]"
  by (induction x) auto

lemma Split_Join: "list_all (\<lambda>x. sep \<notin> set x) xs \<Longrightarrow> xs \<noteq> [] \<Longrightarrow> Split sep (Join [sep] xs) = xs"
  by (induction "[sep]" xs rule: Join.induct) (auto simp: Split_no_sep Split_append_sep)

text \<open>One line as the firmware prints it: the hexadecimal key prefix in either case, seconds, and
  quarters of a decibel.\<close>

definition neighbour_line :: "string \<times> uint32 \<times> int \<Rightarrow> string" where
  "neighbour_line e = (case e of (key, secs, snr) \<Rightarrow> key @ '':'' @ show_nat (unat secs) @ '':'' @ show_int snr)"

definition neighbour_entry :: "string \<times> uint32 \<times> int \<Rightarrow> repeater_neighbour" where
  "neighbour_entry e = (case e of (key, secs, snr) \<Rightarrow>
     \<lparr>nb_PublicKeyPrefix = ascii_lower key, nb_Name = [], nb_Latitude = 0, nb_Longitude = 0, nb_DistanceKm = 0,
      nb_HeardSecs = secs, nb_SNRdB = of_int snr / 4\<rparr>)"

definition hex_text :: "string \<Rightarrow> bool" where
  "hex_text s = list_all (\<lambda>c. from_hex_digit c \<noteq> None) s"

definition neighbour_fits :: "string \<times> uint32 \<times> int \<Rightarrow> bool" where
  "neighbour_fits e = (case e of (key, secs, snr) \<Rightarrow>
     length key = 8 \<and> hex_text key \<and> - (2 ^ 15) \<le> snr \<and> snr < 2 ^ 15)"

lemma hex_char_facts:
  assumes "from_hex_digit c \<noteq> None"
  shows "graphic c" "c \<noteq> CHR '':''" "(of_char c :: nat) < 128"
proof -
  have n: "48 \<le> (of_char c :: nat) \<and> of_char c \<le> (57 :: nat) \<or> 97 \<le> (of_char c :: nat) \<and> of_char c \<le> (102 :: nat) \<or>
      65 \<le> (of_char c :: nat) \<and> of_char c \<le> (70 :: nat)"
    using assms by (auto simp: from_hex_digit_def Let_def split: if_splits)
  then show "graphic c" "(of_char c :: nat) < 128" by (auto simp: graphic_def)
  show "c \<noteq> CHR '':''"
  proof
    assume "c = CHR '':''"
    then have "(of_char c :: nat) = 58" by simp
    with n show False by linarith
  qed
qed

lemma hex_text_facts:
  assumes "hex_text s"
  shows "is_ascii s" "CHR '':'' \<notin> set s" "\<forall>c \<in> set s. graphic c"
proof -
  have *: "graphic c" "c \<noteq> CHR '':''" "(of_char c :: nat) < 128" if c: "c \<in> set s" for c
  proof -
    from assms c have "from_hex_digit c \<noteq> None" by (simp add: hex_text_def list_all_iff)
    from hex_char_facts [OF this] show "graphic c" "c \<noteq> CHR '':''" "(of_char c :: nat) < 128" .
  qed
  show "is_ascii s" by (simp add: is_ascii_def list_all_iff *(3))
  show "CHR '':'' \<notin> set s" using *(2) [of "CHR '':''"] by argo
  show "\<forall>c \<in> set s. graphic c" by (simp add: *(1))
qed

lemma TrimSpace_all_graphic: "s \<noteq> [] \<Longrightarrow> \<forall>c \<in> set s. graphic c \<Longrightarrow> TrimSpace s = s"
  by (simp add: TrimSpace_graphic)

lemma show_nat_chars: "\<forall>c \<in> set (show_nat n). graphic c \<and> c \<noteq> CHR '':''"
  using show_int_chars [of "int n"] by (simp add: show_int_def)

lemma graphic_colon [simp]: "graphic (CHR '':'')"
  by (simp add: graphic_def)

lemma not_graphic_newline [simp]: "\<not> graphic newline"
  by (simp add: graphic_def newline_def)

lemma neighbour_line_graphic: "neighbour_fits e \<Longrightarrow> \<forall>c \<in> set (neighbour_line e). graphic c"
proof -
  assume "neighbour_fits e"
  then obtain key secs snr where e: "e = (key, secs, snr)" "hex_text key" by (cases e) (simp add: neighbour_fits_def)
  from hex_text_facts(3) [OF e(2)] show_nat_chars [of "unat secs"] show_int_chars [of snr] show ?thesis
    by (simp add: e(1) neighbour_line_def ball_Un)
qed

lemma neighbour_line_colon: "CHR '':'' \<in> set (neighbour_line e)" "neighbour_line e \<noteq> []"
  by (cases e; simp add: neighbour_line_def)+

lemma parse_neighbour_line:
  assumes "unicode_ok u" and "neighbour_fits e"
  shows "parse_neighbour u (neighbour_line e) = Some (neighbour_entry e)"
proof -
  obtain key secs snr where e: "e = (key, secs, snr)" by (cases e)
  with assms(2) have f: "length key = 8" "hex_text key" "- (2 ^ 15) \<le> snr" "snr < 2 ^ 15"
    by (simp_all add: neighbour_fits_def)
  let ?l = "neighbour_line e"
  have "Split (CHR '':'') ?l = [key, show_nat (unat secs), show_int snr]"
  proof -
    have "CHR '':'' \<notin> set (show_nat (unat secs))" using bspec [OF show_nat_chars, of "CHR '':''" "unat secs"] by argo
    moreover have "CHR '':'' \<notin> set (show_int snr)" using bspec [OF show_int_chars, of "CHR '':''" snr] by argo
    ultimately show ?thesis using hex_text_facts(2) [OF f(2)] by (simp add: e neighbour_line_def Split_append_sep Split_no_sep)
  qed
  moreover have "TrimSpace ?l = ?l"
    using neighbour_line_colon(2) neighbour_line_graphic [OF assms(2)] by (rule TrimSpace_all_graphic)
  moreover have "?l \<noteq> ''-none-''"
  proof
    assume "?l = ''-none-''"
    with neighbour_line_colon(1) [of e] show False by (simp only:) simp
  qed
  moreover have "ToLower u key = ascii_lower key"
    using assms(1) hex_text_facts(1) [OF f(2)] by (simp add: unicode_ok_def)
  moreover have "ParseUint 32 (show_nat (unat secs)) = Some (unat secs)"
    using unsigned_less [of secs, where 'a = nat] by (intro ParseUint_show) simp
  moreover have "ParseInt 16 (show_int snr) = Some snr" using f by (intro ParseInt_show_int) simp_all
  moreover have "TrimSpace key = key"
    using f(1) hex_text_facts(3) [OF f(2)] by (intro TrimSpace_all_graphic) auto
  moreover have "TrimSpace (show_nat (unat secs)) = show_nat (unat secs)" "TrimSpace (show_int snr) = show_int snr"
    using show_nat_chars show_int_chars by (simp_all add: TrimSpace_all_graphic)
  moreover have "length (ascii_lower key) = 8" "quarter snr = of_int snr / 4" using f by (simp_all add: ascii_lower_def)
  moreover have "?l \<noteq> []" by (rule neighbour_line_colon)
  ultimately show ?thesis
    by (simp add: parse_neighbour_def neighbour_entry_def Let_def) (simp add: e)
qed

lemma Join_ends:
  "xs \<noteq> [] \<Longrightarrow> list_all (\<lambda>x. x \<noteq> []) xs \<Longrightarrow>
     Join sep xs \<noteq> [] \<and> hd (Join sep xs) = hd (hd xs) \<and> last (Join sep xs) = last (last xs)"
  by (induction sep xs rule: Join.induct) auto

lemma set_Join_sub: "x \<in> set xs \<Longrightarrow> set x \<subseteq> set (Join sep xs)"
  by (induction sep xs rule: Join.induct) auto

lemma map_filter_all: "list_all (\<lambda>x. f x = Some (g x)) xs \<Longrightarrow> List.map_filter f xs = map g xs"
  by (induction xs) (simp_all add: map_filter_simps)

section \<open>Properties\<close>

text \<open>The neighbour report of a repeater is parsed back completely. Lines as the firmware prints
  them, for any key prefixes, ages and signal values in range, are parsed to exactly these
  neighbours in order, with the signal value exact.\<close>

theorem neighbours_roundtrip:
  assumes "unicode_ok u" and "list_all neighbour_fits es"
  shows "ParseRepeaterNeighbours u (Join [newline] (map neighbour_line es)) = map neighbour_entry es"
proof (cases "es = []")
  case False
  let ?ls = "map neighbour_line es" and ?t = "Join [newline] (map neighbour_line es)"
  have ends: "?t \<noteq> []" "hd ?t = hd (hd ?ls)" "last ?t = last (last ?ls)"
    using Join_ends [of ?ls "[newline]"] False neighbour_line_colon(2) by (auto simp: list_all_iff)
  have "hd ?ls = neighbour_line (hd es)" "last ?ls = neighbour_line (last es)"
    using False by (simp_all add: hd_map last_map)
  moreover have "neighbour_fits (hd es)" "neighbour_fits (last es)" using assms(2) False by (simp_all add: list_all_iff)
  ultimately have "TrimSpace ?t = ?t"
    using ends neighbour_line_graphic neighbour_line_colon(2) by (metis TrimSpace_graphic hd_in_set last_in_set)
  moreover have "?t \<noteq> ''-none-''"
    using set_Join_sub [of "neighbour_line (hd es)" ?ls "[newline]"] neighbour_line_colon(1) [of "hd es"] False
    by (cases es) auto
  moreover have "list_all (\<lambda>x. newline \<notin> set x) ?ls"
    using assms(2) neighbour_line_graphic not_graphic_newline by (fastforce simp: list_all_iff)
  then have "Split newline ?t = ?ls" using False by (intro Split_Join) simp_all
  moreover have "list_all (\<lambda>x. parse_neighbour u (neighbour_line x) = Some (neighbour_entry x)) es"
    using assms(2) parse_neighbour_line [OF assms(1)] by (simp add: list_all_iff)
  then have "List.map_filter (\<lambda>x. parse_neighbour u (neighbour_line x)) es = map neighbour_entry es"
    by (rule map_filter_all)
  ultimately show ?thesis using ends(1)
    by (simp add: ParseRepeaterNeighbours_def List.map_filter_def filter_map comp_def)
qed (use length_TrimSpace [of "[]"] in \<open>simp add: ParseRepeaterNeighbours_def\<close>)

theorem neighbours_roundtrip_witness:
  "ParseRepeaterNeighbours ascii_text (Join [newline] (map neighbour_line [(''C42066C2'', 1775, - 25), (''5eb5233e'', 28698, 15)])) =
     map neighbour_entry [(''C42066C2'', 1775, - 25), (''5eb5233e'', 28698, 15)]"
  by (rule neighbours_roundtrip) (simp_all add: unicode_ok_def ascii_text_def ascii_fold_eq_def neighbour_fits_def hex_text_def from_hex_digit_def)

end
