(* ===== verification/Repeaters.thy ===== *)
theory Repeaters
  imports Client_Api Repeater_Report
begin

text \<open>
  Remote repeaters (\<open>repeaters.go\<close>): login sessions, status requests and remote commands. Each sends a
  request and then waits on the client's own event stream for an event from that repeater; a remote
  command also drains the inbox on every tick of a two second ticker. Debug output is left out.
\<close>

section \<open>Sessions\<close>

record repeater_response =
  rr_Repeater :: string
  rr_Command :: string
  rr_Text :: string
  rr_Stats :: "repeater_stats option"
  rr_Neighbours :: "repeater_neighbour list"
  rr_Received :: go_time

record repeater_session =
  ses_Repeater :: string
  ses_PublicKey :: string
  ses_LoggedInAt :: go_time
  ses_ExpiresAt :: go_time
  ses_Permissions :: byte
  ses_Tag :: int

definition time_Before :: "go_time \<Rightarrow> go_time \<Rightarrow> bool" where
  "time_Before a b = (t_unix a < t_unix b \<or> t_unix a = t_unix b \<and> t_nsec a < t_nsec b)"

definition time_Add :: "go_time \<Rightarrow> duration \<Rightarrow> go_time" where
  "time_Add t d =
     (let n = int (t_nsec t) + d in \<lparr>t_unix = t_unix t + n div second, t_nsec = nat (n mod second)\<rparr>)"

definition minute :: duration where
  "minute = 60 * second"

definition Active :: "go_time \<Rightarrow> repeater_session \<Rightarrow> bool" where
  "Active now s = (\<not> IsZero (ses_ExpiresAt s) \<and> time_Before now (ses_ExpiresAt s))"

definition session_ttl :: "duration \<Rightarrow> duration" where
  "session_ttl estTimeout =
     (let ttl = (if estTimeout < 15 * minute then 30 * minute else estTimeout) in
      if 120 * minute < ttl then 120 * minute else ttl)"

definition newRepeaterSession :: "go_time \<Rightarrow> contact \<Rightarrow> byte \<times> int \<Rightarrow> duration \<Rightarrow> repeater_session" where
  "newRepeaterSession now ct success estTimeout =
     \<lparr>ses_Repeater = ct_Name ct, ses_PublicKey = ct_PublicKey ct, ses_LoggedInAt = now,
      ses_ExpiresAt = time_Add now (session_ttl estTimeout), ses_Permissions = fst success, ses_Tag = snd success\<rparr>"

definition repeaterKeyFromContact :: "contact \<Rightarrow> go_error + bytes" where
  "repeaterKeyFromContact ct =
     (if ct_Type ct \<noteq> ContactRepeater \<and> ct_Type ct \<noteq> ContactRoom \<and> ct_Type ct \<noteq> ContactSensor
      then Inl (NotARepeater (ct_Name ct) (ct_Type ct))
      else case hex_DecodeString (ct_PublicKey ct) of
          Inl _ \<Rightarrow> Inl (RepeaterNoUsableKey (ct_Name ct))
        | Inr key \<Rightarrow> if length key < 32 then Inl (RepeaterNoUsableKey (ct_Name ct)) else Inr key)"

definition repeaterContact :: "unicode \<Rightarrow> string \<Rightarrow> client \<Rightarrow> contact result" where
  "repeaterContact u repeater c = Client_Contact u repeater c"

section \<open>Waiting on the event stream\<close>

text \<open>The \<open>select\<close> over the closed client and \<open>c.eventCh\<close>, which is nil before \<open>Connect\<close> and then never ready.
  Buffered events are handled one by one; a closed channel is reported once it is empty.\<close>

definition poll_events :: "(event \<Rightarrow> 'r option) \<Rightarrow> (go_error \<Rightarrow> 'r) \<Rightarrow> unit \<Rightarrow> client \<Rightarrow> 'r option \<times> unit \<times> client" where
  "poll_events h err s c =
     (case cl_eventCh c of
        None \<Rightarrow> (if cl_closed c then Some (err ConnectionClosed) else None, (), c)
      | Some a \<Rightarrow>
          (let ch = d_heap (cl_events c) ! a;
               (_, r, rest) = drain (\<lambda>ev s. (s, h ev)) () (ch_buf ch);
               c' = c\<lparr>cl_events := (cl_events c)\<lparr>d_heap := (d_heap (cl_events c))[a := ch\<lparr>ch_buf := rest\<rparr>]\<rparr>\<rparr>
           in case r of
                Some x \<Rightarrow> (Some x, (), c')
              | None \<Rightarrow>
                  if cl_closed c then (Some (err ConnectionClosed), (), c')
                  else if \<not> ch_open ch then (Some (err EventStreamClosed), (), c')
                  else (None, (), c')))"

definition loginPrefixMatches :: "unicode \<Rightarrow> bytes \<Rightarrow> string \<Rightarrow> string \<Rightarrow> bool" where
  "loginPrefixMatches u pfx evPrefix name =
     (if length pfx = 0 then False
      else
        let want = hex_EncodeToString pfx in
        EqualFold u evPrefix want \<or> EqualFold u evPrefix name \<or>
        (length want \<le> length evPrefix \<and> EqualFold u (take (length want) evPrefix) want))"

fun login_event :: "unicode \<Rightarrow> contact \<Rightarrow> bytes \<Rightarrow> event \<Rightarrow> (go_error + byte \<times> int) option" where
  "login_event u ct pfx (RepeaterLoginSucceeded evPrefix perms tag) =
     (if loginPrefixMatches u pfx evPrefix (ct_Name ct) then Some (Inr (perms, tag)) else None)"
| "login_event u ct pfx (RepeaterLoginFailed evPrefix) =
     (if loginPrefixMatches u pfx evPrefix (ct_Name ct) then Some (Inl (RepeaterLoginRejected (ct_Name ct))) else None)"
| "login_event u ct pfx _ = None"

text \<open>The time a push is waited for. When it has passed, the script holds an \<open>AttemptTimeout\<close>.\<close>

definition push_timeout :: "duration \<Rightarrow> duration \<Rightarrow> duration" where
  "push_timeout receipt_timeout client_timeout =
     (let timeout = (if receipt_timeout = 0 then client_timeout * 3 else receipt_timeout) in
      if timeout < 30 * second then 30 * second else timeout)"

definition waitForRepeaterLogin :: "unicode \<Rightarrow> contact \<Rightarrow> bytes \<Rightarrow> duration \<Rightarrow> client \<Rightarrow> (byte \<times> int) result" where
  "waitForRepeaterLogin u ct pfx timeout c =
     await (poll_events (login_event u ct pfx) Inl) (\<lambda>e _. Inl (WaitingFor (ct_Name ct) ''login'' e)) (w_env c) () c"

fun status_event :: "unicode \<Rightarrow> contact \<Rightarrow> bytes \<Rightarrow> event \<Rightarrow> (go_error + repeater_stats option \<times> string) option" where
  "status_event u ct pfx (RepeaterStatusReceived evPrefix stats text) =
     (if loginPrefixMatches u pfx evPrefix (ct_Name ct) then Some (Inr (stats, text)) else None)"
| "status_event u ct pfx _ = None"

definition waitForRepeaterStatus :: "unicode \<Rightarrow> contact \<Rightarrow> bytes \<Rightarrow> duration \<Rightarrow> client \<Rightarrow> (repeater_stats option \<times> string) result" where
  "waitForRepeaterStatus u ct pfx timeout c =
     await (poll_events (status_event u ct pfx) Inl) (\<lambda>e _. Inl (WaitingFor (ct_Name ct) ''status'' e)) (w_env c) () c"

section \<open>Connection, login, status\<close>

text \<open>\<open>key[:6]\<close> of a decoded key is in range, since such keys have at least 32 bytes; the slice is written
  out because a panic would be a branch.\<close>

definition key_prefix :: "bytes \<Rightarrow> bytes option" where
  "key_prefix key = gslice key 0 6"

definition RepeaterHasConnectionContact :: "contact \<Rightarrow> client \<Rightarrow> bool result" where
  "RepeaterHasConnectionContact ct c =
     (case repeaterKeyFromContact ct of
        Inl e \<Rightarrow> fail e c
      | Inr key \<Rightarrow>
          and_then (no_panic (key_prefix key)) (\<lambda>_.
          and_then (request (HasConnection key) c) (\<lambda>(r, c).
            case r of
              Inl (DeviceError code) \<Rightarrow> if code = ErrNotFound then ret False c else fail (DeviceError code) c
            | Inl e \<Rightarrow> fail e c
            | Inr OK \<Rightarrow> ret True c
            | Inr m \<Rightarrow> fail (UnexpectedHasConnection m) c)))"

definition RepeaterHasConnection :: "unicode \<Rightarrow> string \<Rightarrow> client \<Rightarrow> bool result" where
  "RepeaterHasConnection u repeater c = bind_ok (repeaterContact u repeater c) RepeaterHasConnectionContact"

definition RepeaterLoginContact :: "unicode \<Rightarrow> contact \<Rightarrow> string \<Rightarrow> client \<Rightarrow> repeater_session result" where
  "RepeaterLoginContact u ct password =
     require CapabilityRepeaterLogin (\<lambda>c.
       bind_ok (from_sum (repeaterKeyFromContact ct) c) (\<lambda>key c.
       and_then (no_panic (key_prefix key)) (\<lambda>pfx.
       bind_ok (request (SendLogin key password) c) (\<lambda>m c.
       bind_ok (from_sum (receiptFrom (w_now c) m (ct_Name ct)) c) (\<lambda>receipt c.
       bind_ok (waitForRepeaterLogin u ct pfx (push_timeout (rc_Timeout receipt) (cl_timeout c)) c) (\<lambda>success c.
         ret (newRepeaterSession (w_now c) ct success (rc_Timeout receipt)) c))))))"

definition RepeaterLogin :: "unicode \<Rightarrow> string \<Rightarrow> string \<Rightarrow> client \<Rightarrow> repeater_session result" where
  "RepeaterLogin u repeater password c =
     bind_ok (repeaterContact u repeater c) (\<lambda>ct c. RepeaterLoginContact u ct password c)"

definition RepeaterStatusContact :: "unicode \<Rightarrow> contact \<Rightarrow> client \<Rightarrow> repeater_response result" where
  "RepeaterStatusContact u ct =
     require CapabilityRepeaterCommands (\<lambda>c.
       bind_ok (from_sum (repeaterKeyFromContact ct) c) (\<lambda>key c.
       and_then (no_panic (gslice (ct_PublicKey ct) 0 (min 12 (length (ct_PublicKey ct))))) (\<lambda>_.
       and_then (no_panic (key_prefix key)) (\<lambda>pfx.
       bind_ok (request (SendStatusReq key) c) (\<lambda>m c.
       bind_ok (from_sum (receiptFrom (w_now c) m (ct_Name ct)) c) (\<lambda>receipt c.
       bind_ok (waitForRepeaterStatus u ct pfx (push_timeout (rc_Timeout receipt) (cl_timeout c)) c) (\<lambda>(stats, text) c.
         ret \<lparr>rr_Repeater = ct_Name ct, rr_Command = ''status'', rr_Text = text, rr_Stats = stats,
           rr_Neighbours = [], rr_Received = w_now c\<rparr> c)))))))"

definition RepeaterStatus :: "unicode \<Rightarrow> string \<Rightarrow> client \<Rightarrow> repeater_response result" where
  "RepeaterStatus u repeater c = bind_ok (repeaterContact u repeater c) (RepeaterStatusContact u)"

section \<open>Remote commands\<close>

definition repeaterCLITxtType :: byte where
  "repeaterCLITxtType = 1"

definition repeaterSenderMatches :: "unicode \<Rightarrow> string \<Rightarrow> contact \<Rightarrow> string \<Rightarrow> bool" where
  "repeaterSenderMatches u from0 ct keyPrefix =
     (let from1 = TrimSpace from0 in
      if EqualFold u from1 (ct_Name ct) then True
      else if keyPrefix \<noteq> [] \<and> EqualFold u from1 keyPrefix then True
      else if keyPrefix \<noteq> [] \<and> 6 \<le> length from1 \<and> HasPrefix (ToLower u (ct_PublicKey ct)) (ToLower u from1) then True
      else False)"

definition messageMatchesRepeaterCLI :: "unicode \<Rightarrow> message_received \<Rightarrow> contact \<Rightarrow> string \<Rightarrow> bool" where
  "messageMatchesRepeaterCLI u m ct keyPrefix =
     (if mr_TxtType m \<noteq> repeaterCLITxtType then False else repeaterSenderMatches u (ct_Name (mr_From m)) ct keyPrefix)"

definition messageMatchesRepeaterCLIMessage :: "unicode \<Rightarrow> msg \<Rightarrow> contact \<Rightarrow> string \<Rightarrow> bool" where
  "messageMatchesRepeaterCLIMessage u m ct keyPrefix =
     (if m_TxtType m \<noteq> repeaterCLITxtType then False else repeaterSenderMatches u (m_From m) ct keyPrefix)"

definition exec_response :: "contact \<Rightarrow> string \<Rightarrow> string \<Rightarrow> go_time \<Rightarrow> repeater_response" where
  "exec_response ct command text received =
     \<lparr>rr_Repeater = ct_Name ct, rr_Command = command, rr_Text = text, rr_Stats = None, rr_Neighbours = [], rr_Received = received\<rparr>"

fun exec_event :: "unicode \<Rightarrow> contact \<Rightarrow> string \<Rightarrow> string \<Rightarrow> event \<Rightarrow> (go_error + repeater_response) option" where
  "exec_event u ct keyPrefix command (MessageReceived m) =
     (if messageMatchesRepeaterCLI u m ct keyPrefix
      then Some (Inr (exec_response ct command (mr_Text m) (mr_Timestamp m))) else None)"
| "exec_event u ct keyPrefix command _ = None"

text \<open>Events that occurred while the inbox was drained and are still pending afterwards: the end of the
  context, or a tick.\<close>

definition resume :: "env list \<Rightarrow> env list \<Rightarrow> env list" where
  "resume es rest =
     (let us = take (length es - length rest) es in
      case find is_ctx_done us of
        Some e \<Rightarrow> e # rest
      | None \<Rightarrow> if Tick \<in> set us then Tick # rest else rest)"

lemma length_resume: "length rest \<le> length es \<Longrightarrow> length (resume es rest) \<le> length es"
  by (cases "length rest = length es") (auto simp: resume_def Let_def split: option.split)

lemma poll_events_env: "poll_events h err s c = (r, s', c') \<Longrightarrow> w_env c' = w_env c"
  by (auto simp: poll_events_def Let_def split: option.splits prod.splits if_splits)

lemma route_async_env: "route_async m c = Some c' \<Longrightarrow> w_env c' = w_env c"
  by (cases m) (auto split: Option.bind_splits if_splits)

lemma handleAsync_env: "handleAsync m c = Some c' \<Longrightarrow> w_env c' = w_env c"
  by (auto simp: handleAsync_def split: Option.bind_splits option.splits dest!: route_async_env emitEvent_env)

lemma close_streams_env: "close_streams c = Some c' \<Longrightarrow> w_env c' = w_env c"
  by (auto simp: close_streams_def split: Option.bind_splits)

lemma Deliver_env: "Deliver m c = (a, b, c') \<Longrightarrow> w_env c' = w_env c"
  by (auto simp: Deliver_def split: option.splits prod.splits bool.splits)

lemma readLoop_packet_env: "readLoop_packet p c = Some c' \<Longrightarrow> w_env c' = w_env c"
  by (auto simp: readLoop_packet_def Let_def split: Option.bind_splits if_splits prod.splits bool.splits
      dest!: handleAsync_env Deliver_env emitEvent_env close_streams_env)

lemma readLoop_error_env: "readLoop_error e c = Some c' \<Longrightarrow> w_env c' = w_env c"
  by (auto simp: readLoop_error_def split: Option.bind_splits if_splits dest!: emitEvent_env close_streams_env)

lemma env_step_env: "env_step e c = Some c' \<Longrightarrow> w_env c' = w_env c"
  by (cases e) (auto simp: Close_client_def split: if_splits Option.bind_splits
      dest: readLoop_packet_env readLoop_error_env)

lemma run_queue_suffix:
  assumes "run_queue raw collect s c = Finished (r, c')"
  shows "length (w_env c') \<le> length (w_env c)"
proof -
  let ?c = "c\<lparr>cl_waiter := Some (make_chan streamBuffer), cl_overflow := False\<rparr>"
  obtain c1 where c1: "emitOutbound raw ?c = Some c1"
    using assms by (cases "emitOutbound raw ?c") (auto simp: run_queue_def)
  obtain q c2 where w: "WritePacket raw c1 = (q, c2)" by force
  have "w_env c2 = w_env c1" using w by (auto simp: WritePacket_def Let_def split: list.splits)
  with core_sel(3) [OF emitOutbound_core [OF c1]] have c2: "w_env c2 = w_env c" by simp
  have "length (w_env d) \<le> length (w_env c2)"
    if "await (poll_response collect) (\<lambda>e _. Inl (CtxError e)) (w_env c2) s c2 = Finished (x, d)" for x d
    using await_suffix [OF that] by auto
  with assms c1 w c2 show ?thesis by (cases q) (fastforce simp: run_queue_def and_then_Finished_iff)+
qed

lemma request_suffix:
  assumes "request cmd c = Finished (r, c')" shows "length (w_env c') \<le> length (w_env c)"
proof (cases "\<exists>raw. encode (w_now c) cmd = Some (Inr raw)")
  case True
  then obtain raw where raw: "encode (w_now c) cmd = Some (Inr raw)" by blast
  let ?q = "run_queue raw (\<lambda>v _. (Some v, True)) (None :: message option) c"
  obtain x d where q: "?q = Finished (x, d)"
    using assms raw by (cases ?q) (auto simp: request_def Do_def)
  with assms raw have "d = c'" by (auto simp: request_def Do_def split: sum.splits option.splits)
  with run_queue_suffix [OF q] show ?thesis by simp
next
  case False
  with assms have "c' = c" by (cases "encode (w_now c) cmd") (auto simp: request_def split: sum.splits)
  then show ?thesis by simp
qed

lemma syncNext_suffix:
  assumes "syncNext c = Finished (r, c')" shows "length (w_env c') \<le> length (w_env c)"
proof -
  obtain q d where q: "request SyncNextMessage c = Finished (q, d)"
    using assms by (cases "request SyncNextMessage c") (auto simp: syncNext_def bind_ok_def)
  with assms have "d = c'"
    by (cases q) (auto simp: syncNext_def bind_ok_def ret_def fail_def split: option.splits if_splits)
  with request_suffix [OF q] show ?thesis by simp
qed

lemma DrainMessages_suffix:
  "DrainMessages cb s c = Finished (e, s', c') \<Longrightarrow> length (w_env c') \<le> length (w_env c)"
proof (induction cb s c rule: DrainMessages.induct)
  case (1 cb s c)
  obtain r c1 where n: "syncNext c = Finished (r, c1)"
    using 1(2) by (cases "syncNext c") (auto simp: DrainMessages.simps [of cb s c])
  note le = syncNext_suffix [OF n]
  show ?case
  proof (cases "\<exists>m q c2. r = Inr (Some m) \<and> cb m s = (None, q) \<and> emitEvent (messageEvent m) c1 = Some c2")
    case True
    then obtain m q c2 where t: "r = Inr (Some m)" "cb m s = (None, q)" "emitEvent (messageEvent m) c1 = Some c2" by blast
    with 1(2) n have "DrainMessages cb q c2 = Finished (e, s', c')" by (simp add: DrainMessages.simps [of cb s c])
    from 1(1) [OF n refl t(1) refl t(2) [symmetric] refl t(3) this] emitEvent_env [OF t(3)] le show ?thesis by simp
  next
    case False
    with 1(2) n le show ?thesis
      by (auto simp: DrainMessages.simps [of cb s c] split: sum.splits option.splits prod.splits)
  qed
qed

text \<open>The loop of \<open>RepeaterExecContact\<close>. Every turn consumes part of the script.\<close>

fun ctx_end :: "env \<Rightarrow> ctx_error option" where
  "ctx_end (CtxDone err) = Some err"
| "ctx_end AttemptTimeout = Some DeadlineExceeded"
| "ctx_end _ = None"

function exec_loop :: "unicode \<Rightarrow> contact \<Rightarrow> string \<Rightarrow> string \<Rightarrow> client \<Rightarrow> repeater_response result" where
  "exec_loop u ct keyPrefix command c =
     (case poll_events (exec_event u ct keyPrefix command) Inl () c of
        (Some r, _, c1) \<Rightarrow> Finished (r, c1)
      | (None, _, c1) \<Rightarrow>
          (case w_env c1 of
             [] \<Rightarrow> Blocked
           | e # es \<Rightarrow>
               (case ctx_end e of
                  Some err \<Rightarrow> fail (WaitingFor (ct_Name ct) command err) (c1\<lparr>w_env := es\<rparr>)
                | None \<Rightarrow>
                    if e = Tick then
                      (case SyncMessages (c1\<lparr>w_env := es\<rparr>) of
                         Blocked \<Rightarrow> Blocked
                       | Panicked \<Rightarrow> Panicked
                       | Finished (err, msgs, c2) \<Rightarrow>
                           (case (if err \<noteq> None then None else find (\<lambda>m. messageMatchesRepeaterCLIMessage u m ct keyPrefix) msgs) of
                              Some m \<Rightarrow>
                                ret (exec_response ct command (m_Text m) (m_Timestamp m)) (c2\<lparr>w_env := resume es (w_env c2)\<rparr>)
                            | None \<Rightarrow> exec_loop u ct keyPrefix command (c2\<lparr>w_env := resume es (w_env c2)\<rparr>)))
                    else
                      (case env_step e (c1\<lparr>w_env := es\<rparr>) of
                         None \<Rightarrow> Panicked
                       | Some c2 \<Rightarrow> exec_loop u ct keyPrefix command c2))))"
  by pat_completeness auto
termination
proof (relation "measure (\<lambda>(_, _, _, _, c). length (w_env c))", goal_cases)
  case (2 u ct keyPrefix command c p x y c1 e es z err w msgs c2)
  then have "poll_events (exec_event u ct keyPrefix command) Inl () c = (None, y, c1)" "w_env c1 = e # es"
    "DrainMessages (\<lambda>m out. (None, out @ [m])) [] (c1\<lparr>w_env := es\<rparr>) = Finished (err, msgs, c2)"
    by (simp_all add: SyncMessages_def)
  with poll_events_env [OF this(1)] have "length (w_env c) = Suc (length es)" by (metis length_Cons)
  moreover have "length (w_env c2) \<le> length es" using DrainMessages_suffix [OF \<open>DrainMessages _ _ _ = _\<close>] by simp
  ultimately show ?case by (simp add: less_Suc_eq_le length_resume)
next
  case (3 u ct keyPrefix command c p x y c1 e es c2)
  then have "poll_events (exec_event u ct keyPrefix command) Inl () c = (None, y, c1)" "w_env c1 = e # es"
    "env_step e (c1\<lparr>w_env := es\<rparr>) = Some c2" by simp_all
  with poll_events_env [OF this(1)] have "length (w_env c) = Suc (length es)" by (metis length_Cons)
  with env_step_env [OF \<open>env_step _ _ = _\<close>] show ?case by simp
qed simp

declare exec_loop.simps [simp del]

definition RepeaterExecContact :: "unicode \<Rightarrow> contact \<Rightarrow> string \<Rightarrow> client \<Rightarrow> repeater_response result" where
  "RepeaterExecContact u ct command0 =
     require CapabilityRepeaterCommands (\<lambda>c.
       bind_ok (from_sum (repeaterKeyFromContact ct) c) (\<lambda>key c.
       let command = TrimSpace command0 in
       if command = [] then fail RepeaterCommandEmpty c
       else
         bind_ok (request (SendTextMessage \<lparr>st_DestPublicKey = key, st_Text = command, st_Timestamp = zero_time,
             st_TxtType = 1, st_Attempt = 0\<rparr>) c) (\<lambda>m c.
         bind_ok (from_sum (receiptFrom (w_now c) m (ct_Name ct)) c) (\<lambda>receipt c.
         and_then (no_panic (key_prefix key)) (\<lambda>pfx.
           exec_loop u ct (hex_EncodeToString pfx) command c)))))"

definition RepeaterExec :: "unicode \<Rightarrow> string \<Rightarrow> string \<Rightarrow> client \<Rightarrow> repeater_response result" where
  "RepeaterExec u repeater command c =
     bind_ok (repeaterContact u repeater c) (\<lambda>ct c. RepeaterExecContact u ct command c)"

definition RepeaterNeighboursContact :: "unicode \<Rightarrow> contact \<Rightarrow> client \<Rightarrow> repeater_response result" where
  "RepeaterNeighboursContact u ct c =
     bind_ok (RepeaterExecContact u ct ''neighbors'' c) (\<lambda>resp c.
       ret (resp\<lparr>rr_Neighbours := ParseRepeaterNeighbours u (rr_Text resp)\<rparr>) c)"

definition RepeaterNeighbours :: "unicode \<Rightarrow> string \<Rightarrow> client \<Rightarrow> repeater_response result" where
  "RepeaterNeighbours u repeater c = bind_ok (repeaterContact u repeater c) (RepeaterNeighboursContact u)"

section \<open>Safety\<close>

lemma dispatcher_ok_shorten:
  assumes "dispatcher_ok d" and "a < length (d_heap d)" and "length b \<le> length (ch_buf (d_heap d ! a))"
  shows "dispatcher_ok (d\<lparr>d_heap := (d_heap d)[a := (d_heap d ! a)\<lparr>ch_buf := b\<rparr>]\<rparr>)"
proof -
  let ?ch = "(d_heap d ! a)\<lparr>ch_buf := b\<rparr>"
  have "chan_ok (d_heap d ! a)" using assms(1, 2) by (simp add: dispatcher_ok_def list_all_length)
  with assms(3) have ch: "chan_ok ?ch" by (simp add: chan_ok_def)
  have "\<forall>x \<in> snd ` set (d_subs d). x < length (d_heap d) \<and> live_chan ((d_heap d)[a := ?ch] ! x)"
    using subs_live [OF assms(1)] ch assms(2) by (auto simp: nth_list_update live_chan_def)
  with ch assms(1) show ?thesis by (simp add: dispatcher_ok_def list_all_update)
qed

interpretation events: polling "poll_events h err" for h err
proof unfold_locales
  fix c :: client and s r s' c'
  assume ok: "client_ok c" and p: "poll_events h err s c = (r, s', c')"
  show "client_ok c'"
  proof (cases "cl_eventCh c")
    case (Some a)
    then have a: "a < length (d_heap (cl_events c))" using ok by (simp add: client_ok_def event_ref_ok_def)
    obtain s1 q rest where d: "drain (\<lambda>ev s. (s, h ev)) () (ch_buf (d_heap (cl_events c) ! a)) = (s1, q, rest)"
      by (rule prod_cases3)
    have "dispatcher_ok (cl_events c)" using ok by (simp add: client_ok_def)
    from dispatcher_ok_shorten [OF this a, of rest] drain_rest [OF d]
    have "client_ok (c\<lparr>cl_events := (cl_events c)\<lparr>d_heap :=
        (d_heap (cl_events c))[a := (d_heap (cl_events c) ! a)\<lparr>ch_buf := rest\<rparr>]\<rparr>\<rparr>)"
      using ok by (simp add: client_ok_def)
    with p Some d show ?thesis by (auto simp: poll_events_def Let_def split: option.splits if_splits)
  qed (use ok p in \<open>simp add: poll_events_def\<close>)
qed

lemma client_ok_rest [simp]: "client_ok (c\<lparr>w_env := es\<rparr>) = client_ok c"
  by (simp add: client_ok_def)

lemma safe_exec_loop: "client_ok c \<Longrightarrow> safe (exec_loop u ct keyPrefix command c)"
proof (induction u ct keyPrefix command c rule: exec_loop.induct)
  case (1 u ct keyPrefix command c)
  obtain r s' c1 where p: "poll_events (exec_event u ct keyPrefix command) Inl () c = (r, s', c1)" by (rule prod_cases3)
  from events.poll_ok [OF 1(3) p] have ok: "client_ok c1" .
  note step = exec_loop.simps [of u ct keyPrefix command c]
  show ?case
  proof (cases "r = None \<and> (\<exists>e es. w_env c1 = e # es \<and> ctx_end e = None)")
    case True
    then obtain e es where e: "r = None" "w_env c1 = e # es" "ctx_end e = None" by blast
    show ?thesis
    proof (cases "e = Tick")
      case True
      have d: "SyncMessages (c1\<lparr>w_env := es\<rparr>) \<noteq> Panicked"
        "SyncMessages (c1\<lparr>w_env := es\<rparr>) = Finished (x, y, z) \<Longrightarrow> client_ok z" for x y z
        using DrainMessages_safe [of "c1\<lparr>w_env := es\<rparr>" "\<lambda>m out. (None, out @ [m])" "[]"] ok by (auto simp: SyncMessages_def)
      show ?thesis
      proof (cases "SyncMessages (c1\<lparr>w_env := es\<rparr>)")
        case (Finished q)
        obtain x y z where q: "q = (x, y, z)" by (rule prod_cases3)
        with Finished d(2) have z: "client_ok z" by blast
        show ?thesis
        proof (cases "if x \<noteq> None then None else find (\<lambda>m. messageMatchesRepeaterCLIMessage u m ct keyPrefix) y")
          case None
          from 1(1) [OF p [symmetric] e(1) refl e(2, 3) True Finished q [symmetric] refl None] z
          show ?thesis using p e True Finished q None by (simp add: step)
        next
          case (Some m)
          with z show ?thesis using p e True Finished q by (simp add: step safe_ret)
        qed
      qed (use p e True d in \<open>simp_all add: step safe_def\<close>)
    next
      case False
      from env_step_some [of "c1\<lparr>w_env := es\<rparr>" e] ok obtain c2 where
        c2: "env_step e (c1\<lparr>w_env := es\<rparr>) = Some c2" "client_ok c2" by auto
      from 1(2) [OF p [symmetric] e(1) refl e(2, 3) False c2] show ?thesis using p e False c2 by (simp add: step)
    qed
  next
    case False
    with p ok show ?thesis
      by (cases r; cases "w_env c1") (auto simp: step safe_def fail_def split: option.splits)
  qed
qed

lemma repeaterKeyFromContact_prefix: "repeaterKeyFromContact ct = Inr key \<Longrightarrow> key_prefix key = Some (take 6 key)"
  by (auto simp: repeaterKeyFromContact_def key_prefix_def gslice_def split: if_splits sum.splits)

lemma bind_from_sum: "bind_ok (from_sum r c) f = (case r of Inl e \<Rightarrow> fail e c | Inr x \<Rightarrow> f x c)"
  by (simp add: bind_ok_def from_sum_def fail_def split: sum.split)

lemma safe_HasConnectionContact [api_safe]: "client_ok c \<Longrightarrow> safe (RepeaterHasConnectionContact ct c)"
proof (cases "repeaterKeyFromContact ct")
  case (Inr key)
  assume ok: "client_ok c"
  from safe_request [OF ok] have q: "safe (request (HasConnection key) c)" .
  show ?thesis
  proof (cases "request (HasConnection key) c")
    case (Finished x)
    obtain r d where x: "x = (r, d)" by force
    with q Finished have d: "client_ok d" by (simp add: safe_def)
    with Inr Finished x show ?thesis
      by (auto simp: RepeaterHasConnectionContact_def repeaterKeyFromContact_prefix intro: api_safe
          split: sum.split go_error.split message.split)
  qed (use Inr q in \<open>auto simp: RepeaterHasConnectionContact_def repeaterKeyFromContact_prefix safe_def\<close>)
qed (simp add: RepeaterHasConnectionContact_def safe_fail)

lemma safe_wait_events [api_safe]: "client_ok c \<Longrightarrow> safe (await (poll_events h err) f es s c)"
  by (rule events.safe_await)

lemma safe_LoginContact [api_safe]: "client_ok c \<Longrightarrow> safe (RepeaterLoginContact u ct pw c)"
  unfolding RepeaterLoginContact_def bind_from_sum waitForRepeaterLogin_def
  by (intro safe_require safe_split_sum)
    (auto simp: repeaterKeyFromContact_prefix intro!: safe_bind safe_split_sum intro: api_safe)

lemma safe_StatusContact [api_safe]: "client_ok c \<Longrightarrow> safe (RepeaterStatusContact u ct c)"
  unfolding RepeaterStatusContact_def bind_from_sum waitForRepeaterStatus_def
  by (intro safe_require safe_split_sum)
    (auto simp: repeaterKeyFromContact_prefix gslice_def intro!: safe_bind safe_split_sum intro: api_safe split: prod.split)

lemma safe_ExecContact [api_safe]: "client_ok c \<Longrightarrow> safe (RepeaterExecContact u ct command c)"
  unfolding RepeaterExecContact_def bind_from_sum Let_def
  by (intro safe_require safe_split_sum safe_if safe_fail safe_bind safe_request)
    (auto simp: repeaterKeyFromContact_prefix intro!: safe_exec_loop intro: api_safe)

section \<open>Events reach the waiting call\<close>

text \<open>A connected client whose own event subscription has address \<open>a\<close>.\<close>

definition listening :: "nat \<Rightarrow> client \<Rightarrow> bool" where
  "listening a c \<longleftrightarrow> client_ok c \<and> cl_reading c \<and> \<not> cl_closed c \<and> cl_eventCh c = Some a \<and> subscribed a (cl_events c)"

definition event_buf :: "nat \<Rightarrow> client \<Rightarrow> event list" where
  "event_buf a c = ch_buf (d_heap (cl_events c) ! a)"

fun event_of :: "go_time \<Rightarrow> env \<Rightarrow> event option" where
  "event_of now (Recv p) = (case decode p of Some m \<Rightarrow> the (translate now m) | None \<Rightarrow> None)"
| "event_of now _ = None"

lemma mirror_rf_events: "mirror_rf ev c = Some d \<Longrightarrow> cl_events d = cl_events c"
  by (cases ev) (auto split: Option.bind_splits)

lemma route_async_events: "route_async m c = Some d \<Longrightarrow> cl_events d = cl_events c"
  by (cases m) (auto split: Option.bind_splits if_splits)

lemma emitEvent_listening:
  assumes "listening a c" and "event_buf a c = []" and "emitEvent ev c = Some c'"
  shows "subscribed a (cl_events c') \<and> event_buf a c' = [ev]"
proof -
  have sub: "subscribed a (cl_events c)" using assms(1) by (simp add: listening_def)
  from assms(3) obtain c1 d where c1: "mirror_rf ev c = Some c1" "Emit ev (cl_events (call_hook ev c1)) = Some d"
    "cl_events c' = d" by (auto simp: emitEvent_def Let_def split: Option.bind_splits)
  then have "Emit ev (cl_events c) = Some d" by (simp add: call_hook_def mirror_rf_events)
  with Emit_subscribed [OF sub, of ev] subscribed_live [OF sub] c1(3) assms(2) show ?thesis
    by (auto simp: emitted_def event_buf_def live_chan_def)
qed

lemma handleAsync_listening:
  assumes "listening a c" and "event_buf a c = []" and "handleAsync m c = Some c'" and "translate (w_now c) m = Some ev"
  shows "subscribed a (cl_events c') \<and> event_buf a c' = (case ev of None \<Rightarrow> [] | Some ev \<Rightarrow> [ev])"
proof -
  have ok: "client_ok c" using assms(1) by (simp add: listening_def)
  obtain c1 where c1: "route_async m c = Some c1" "client_ok c1" "core c1 = core c" "w_now c1 = w_now c"
    using route_async_some [OF ok] by blast
  from route_async_events [OF c1(1)] have ev1: "cl_events c1 = cl_events c" .
  with core_sel(9-11) [OF c1(3)] c1(2) assms(1, 2) have l: "listening a c1" "event_buf a c1 = []"
    by (simp_all add: listening_def event_buf_def)
  show ?thesis
  proof (cases ev)
    case None
    with assms(3, 4) c1 l show ?thesis by (auto simp: handleAsync_def listening_def)
  next
    case (Some x)
    with assms(3, 4) c1 have "emitEvent x c1 = Some c'" by (auto simp: handleAsync_def)
    with emitEvent_listening [OF l this] Some show ?thesis by simp
  qed
qed

lemma step_listening:
  assumes "listening a c" and "event_buf a c = []" and "quiet e"
  shows "\<exists>c'. env_step e c = Some c' \<and> listening a c' \<and> core c' = core c \<and>
    event_buf a c' = (case event_of (w_now c) e of None \<Rightarrow> [] | Some ev \<Rightarrow> [ev])"
proof -
  have ok: "client_ok c" "cl_reading c" using assms(1) by (simp_all add: listening_def)
  from env_step_quiet [OF ok(1) assms(3)] obtain c' where
    c': "env_step e c = Some c'" "client_ok c'" "core c' = core c" by blast
  have "subscribed a (cl_events c') \<and> event_buf a c' = (case event_of (w_now c) e of None \<Rightarrow> [] | Some ev \<Rightarrow> [ev])"
  proof (cases e)
    case (Recv p)
    then obtain m where m: "decode p = Some m" "Async m" using assms(3) by (auto split: option.splits)
    obtain r where r: "rawPacket (w_now c) p m = Some r" using rawPacket_returns by blast
    from raw_emit_some [OF ok(1), of r] obtain d where
      d: "Emit r (cl_raw c) = Some d" "client_ok (c\<lparr>cl_raw := d\<rparr>)" by blast
    from c'(1) ok(2) Recv m r d(1) have h: "handleAsync m (c\<lparr>cl_raw := d\<rparr>) = Some c'" by (simp add: readLoop_packet_def)
    obtain ev where ev: "translate (w_now c) m = Some ev" using translate_returns by blast
    have "listening a (c\<lparr>cl_raw := d\<rparr>)" "event_buf a (c\<lparr>cl_raw := d\<rparr>) = []"
      using assms(1, 2) d(2) by (simp_all add: listening_def event_buf_def)
    from handleAsync_listening [OF this h] ev Recv m(1) show ?thesis by simp
  qed (use c'(1) assms in \<open>auto simp: listening_def event_buf_def\<close>)
  with c' core_sel(9-11) [OF c'(3)] assms(1) show ?thesis by (auto simp: listening_def)
qed

text \<open>A poll that finds nothing to return empties the buffer.\<close>

lemma drain_events_none:
  "\<forall>ev \<in> set evs. h ev = None \<Longrightarrow> drain (\<lambda>ev s. (s, h ev)) s evs = (s, None, [])"
  by (induction evs) auto

lemma poll_events_idle:
  assumes "listening a c" and "\<forall>ev \<in> set (event_buf a c). h ev = None"
  shows "\<exists>c'. poll_events h err () c = (None, (), c') \<and> listening a c' \<and> core c' = core c \<and> w_now c' = w_now c \<and>
    event_buf a c' = []"
proof -
  let ?d = "cl_events c"
  let ?c = "c\<lparr>cl_events := ?d\<lparr>d_heap := (d_heap ?d)[a := (d_heap ?d ! a)\<lparr>ch_buf := []\<rparr>]\<rparr>\<rparr>"
  have l: "subscribed a ?d" "cl_eventCh c = Some a" "\<not> cl_closed c" "client_ok c"
    using assms(1) by (simp_all add: listening_def)
  from subscribed_live [OF l(1)] have a: "a < length (d_heap ?d)" "ch_open (d_heap ?d ! a)" by (simp_all add: live_chan_def)
  have p: "poll_events h err () c = (None, (), ?c)"
    using drain_events_none [OF assms(2), of "()"] l a by (simp add: poll_events_def event_buf_def)
  from events.poll_ok [OF l(4) this] have "client_ok ?c" .
  moreover have "subscribed a (cl_events ?c)"
    using calculation l(1) by (simp add: subscribed_def client_ok_def)
  ultimately have "listening a ?c" using assms(1) by (simp add: listening_def)
  with p a show ?thesis by (intro exI [of _ ?c]) (simp add: event_buf_def core_def)
qed

lemma poll_events_hit:
  assumes "listening a c" and "event_buf a c = [ev]" and "h ev = Some r"
  shows "\<exists>c'. poll_events h err () c = (Some r, (), c') \<and> client_ok c' \<and> core c' = core c \<and> w_now c' = w_now c"
proof -
  have l: "cl_eventCh c = Some a" "client_ok c" using assms(1) by (simp_all add: listening_def)
  obtain c' where p: "poll_events h err () c = (Some r, (), c')" "core c' = core c" "w_now c' = w_now c"
    using l assms(2, 3) by (simp add: poll_events_def event_buf_def core_def)
  with events.poll_ok [OF l(2) p(1)] show ?thesis by blast
qed

lemma await_event:
  assumes "listening a c" and "\<forall>ev \<in> set (event_buf a c). h ev = None"
    and "list_all (\<lambda>e. quiet e \<and> (\<forall>t ev. event_of t e = Some ev \<longrightarrow> h ev = None)) es"
    and "quiet e" and "\<forall>t. \<exists>ev. event_of t e = Some ev \<and> h ev = Some r"
  shows "\<exists>c'. await (poll_events h err) f (es @ e # rest) () c = Finished (r, c') \<and> client_ok c' \<and>
    core c' = core (c\<lparr>w_env := rest\<rparr>)"
  using assms(1-3)
proof (induction es arbitrary: c)
  case Nil
  from poll_events_idle [OF Nil.prems(1, 2)] obtain c1 where
    c1: "poll_events h err () c = (None, (), c1)" "listening a c1" "core c1 = core c" "event_buf a c1 = []" by blast
  from step_listening [OF c1(2, 4) assms(4)] obtain c2 where
    c2: "env_step e c1 = Some c2" "listening a c2" "core c2 = core c1"
    "event_buf a c2 = (case event_of (w_now c1) e of None \<Rightarrow> [] | Some ev \<Rightarrow> [ev])" by blast
  from assms(5) obtain ev where ev: "event_of (w_now c1) e = Some ev" "h ev = Some r" by blast
  with poll_events_hit [OF c2(2), of ev h r err] c2(4) obtain c3 where
    c3: "poll_events h err () c2 = (Some r, (), c3)" "client_ok c3" "core c3 = core c2" by auto
  have "await (poll_events h err) f ([] @ e # rest) () c = await (poll_events h err) f rest () c2"
    using c1(1) c2(1) assms(4) by (cases e) simp_all
  also have "\<dots> = Finished (r, c3\<lparr>w_env := rest\<rparr>)" using c3(1) by (cases rest) simp_all
  finally show ?case using c3 c2(3) c1(3) by (auto simp: core_def)
next
  case (Cons x es)
  from poll_events_idle [OF Cons.prems(1, 2)] obtain c1 where
    c1: "poll_events h err () c = (None, (), c1)" "listening a c1" "core c1 = core c" "event_buf a c1 = []" by blast
  have x: "quiet x" "\<forall>t ev. event_of t x = Some ev \<longrightarrow> h ev = None" using Cons.prems(3) by simp_all
  from step_listening [OF c1(2, 4) x(1)] obtain c2 where
    c2: "env_step x c1 = Some c2" "listening a c2" "core c2 = core c1"
    "event_buf a c2 = (case event_of (w_now c1) x of None \<Rightarrow> [] | Some ev \<Rightarrow> [ev])" by blast
  with x(2) have "\<forall>ev \<in> set (event_buf a c2). h ev = None" by (auto split: option.splits)
  from Cons.IH [OF c2(2) this] Cons.prems(3) obtain c' where
    "await (poll_events h err) f (es @ e # rest) () c2 = Finished (r, c')" "client_ok c'" "core c' = core (c2\<lparr>w_env := rest\<rparr>)"
    by auto
  moreover have "await (poll_events h err) f ((x # es) @ e # rest) () c = await (poll_events h err) f (es @ e # rest) () c2"
    using c1(1) c2(1) x(1) by (cases x) simp_all
  ultimately show ?case using c2(3) c1(3) by (auto simp: core_def)
qed

lemma session_ttl_range: "15 * minute \<le> session_ttl d \<and> session_ttl d \<le> 120 * minute"
  by (auto simp: session_ttl_def Let_def minute_def second_def millisecond_def)

lemma time_Add_later: "second \<le> d \<Longrightarrow> time_Before t (time_Add t d)"
proof -
  assume "second \<le> d"
  then have "1 \<le> (int (t_nsec t) + d) div second" 
    using pos_imp_zdiv_pos_iff [of second "int (t_nsec t) + d"] by (simp add: second_def millisecond_def)
  then show ?thesis by (simp add: time_Before_def time_Add_def Let_def)
qed

text \<open>A connected client and a repeater, for the witnesses.\<close>

definition connected :: "env list \<Rightarrow> client" where
  "connected es = (demo es)\<lparr>cl_events := snd (snd (Subscribe 64 New_dispatcher)), cl_eventCh := Some 0\<rparr>"

definition demo_repeater :: contact where
  "demo_repeater = (named_contact ''rep'')\<lparr>ct_Type := ContactRepeater, ct_PublicKey := hex_EncodeToString (replicate 32 0)\<rparr>"

lemma demo_repeater_key: "repeaterKeyFromContact demo_repeater = Inr (replicate 32 0)"
  by (simp add: repeaterKeyFromContact_def demo_repeater_def)

lemma connected_listening: "listening 0 (connected es)"
proof -
  let ?d = "snd (snd (Subscribe 64 New_dispatcher)) :: event dispatcher"
  have "dispatcher_ok ?d" "0 < length (d_heap ?d)" "d_subs ?d = [(0, 0)]"
    using dispatcher_ok_Subscribe [OF dispatcher_ok_New, of 64 "fst (Subscribe 64 New_dispatcher)"]
    by (auto simp: Subscribe_def New_dispatcher_def Let_def)
  with demo_live [of es] show ?thesis
    by (simp add: listening_def connected_def live_def client_ok_def subscribed_def event_ref_ok_def)
qed

lemma connected_sel [simp]:
  "w_env (connected es) = es" "w_writes (connected es) = []" "se_Capabilities (cl_session (connected es)) = Capabilities"
  "event_buf 0 (connected es) = []"
  by (simp_all add: connected_def demo_def New_client_def event_buf_def Subscribe_def New_dispatcher_def Let_def)

section \<open>Properties\<close>

text \<open>No repeater call can crash the program. On a well-formed client, for any contact, command,
  password and whatever the device and the outside do, the calls end without a panic or wait, and
  leave the client well formed; in particular no key is sliced out of range.\<close>

theorem repeater_calls_safe:
  assumes "client_ok c"
  shows "safe (RepeaterHasConnection u name c) \<and> safe (RepeaterLogin u name pw c) \<and> safe (RepeaterStatus u name c) \<and>
    safe (RepeaterExec u name command c) \<and> safe (RepeaterNeighbours u name c)"
  unfolding RepeaterHasConnection_def RepeaterLogin_def RepeaterStatus_def RepeaterExec_def RepeaterNeighbours_def
    RepeaterNeighboursContact_def repeaterContact_def
  using assms by (intro conjI safe_bind api_safe)

theorem repeater_calls_safe_witness:
  "safe (RepeaterExec ascii_text ''r'' ''ver'' (demo [Recv [2, 0, 0, 0, 0], Tick, Recv [4, 7, 0, 0, 0]]))"
  using repeater_calls_safe [of "demo [Recv [2, 0, 0, 0, 0], Tick, Recv [4, 7, 0, 0, 0]]" ascii_text "''r''" "[]" "''ver''"]
    demo_live by (simp add: live_def)

text \<open>A login to a repeater succeeds when the repeater accepts it. When the login request is accepted
  and then, after any events other than login results of this repeater, its login success arrives,
  the call returns a session with the permissions and tag of that push. The session expires after that
  moment and lasts between fifteen minutes and two hours, whatever timeout the device suggested.\<close>

theorem repeater_login_succeeds:
  assumes "listening a c" and "w_writes c = []" and "Has (se_Capabilities (cl_session c)) CapabilityRepeaterLogin"
    and "repeaterKeyFromContact ct = Inr key" and "event_buf a c = []"
    and "w_env c = Recv p0 # es @ Recv p # rest" and "decode p0 = Some (Sent s)" and "decode p = Some (LoginSuccess x)"
    and "list_all (\<lambda>e. quiet e \<and> (\<forall>t ev. event_of t e = Some ev \<longrightarrow> login_event u ct (take 6 key) ev = None)) es"
    and "loginPrefixMatches u (take 6 key) (hex_prefix (ls_PublicKeyPrefix x)) (ct_Name ct)"
  shows "\<exists>c'. RepeaterLoginContact u ct pw c =
      Finished (Inr (newRepeaterSession (w_now c') ct (ls_Permissions x, ls_Tag x) (sn_SuggestedTimeout s)), c') \<and>
    w_env c' = rest \<and> time_Before (w_now c') (time_Add (w_now c') (session_ttl (sn_SuggestedTimeout s))) \<and>
    15 * minute \<le> session_ttl (sn_SuggestedTimeout s) \<and> session_ttl (sn_SuggestedTimeout s) \<le> 120 * minute"
proof -
  have l: "client_ok c" "cl_reading c" using assms(1) by (simp_all add: listening_def)
  have key: "\<not> refused (SendLogin key pw)" "key_prefix key = Some (take 6 key)"
    using assms(4) repeaterKeyFromContact_prefix [OF assms(4)]
    by (auto simp: repeaterKeyFromContact_def split: if_splits sum.splits)
  obtain raw where raw: "encode (w_now c) (SendLogin key pw) = Some (Inr raw)" using encode_accepts [OF key(1)] by blast
  let ?c = "\<lambda>d. c\<lparr>w_written := w_written c @ [raw], w_env := es @ Recv p # rest, cl_waiter := None, cl_overflow := False, cl_raw := d\<rparr>"
  obtain d where d: "request (SendLogin key pw) c = Finished (Inr (Sent s), ?c d)" "dispatcher_ok d"
    using request_immediate [OF l assms(2, 6, 7) _ raw] by auto
  have "listening a (?c d)" "event_buf a (?c d) = []"
    using assms(1, 5) d(2) by (auto simp: listening_def client_ok_def event_buf_def)
  from await_event [OF this(1) _ assms(9), of "Recv p" "Inr (ls_Permissions x, ls_Tag x)" Inl
      "\<lambda>e _. Inl (WaitingFor (ct_Name ct) ''login'' e)" rest] this(2) assms(8, 10)
  obtain c' where c': "waitForRepeaterLogin u ct (take 6 key) t (?c d) = Finished (Inr (ls_Permissions x, ls_Tag x), c')"
    "core c' = core ((?c d)\<lparr>w_env := rest\<rparr>)" for t
    by (auto simp: waitForRepeaterLogin_def)
  have "RepeaterLoginContact u ct pw c =
      Finished (Inr (newRepeaterSession (w_now c') ct (ls_Permissions x, ls_Tag x) (sn_SuggestedTimeout s)), c')"
    using assms(3, 4) key(2) d(1) c'(1)
    by (simp add: RepeaterLoginContact_def require_def requireCapability_def bind_ok_def from_sum_def receiptFrom_def ret_def)
  with core_sel(3) [OF c'(2)] session_ttl_range [of "sn_SuggestedTimeout s"] show ?thesis
    by (auto simp: minute_def second_def millisecond_def intro!: time_Add_later)
qed

theorem repeater_login_succeeds_witness:
  "\<exists>x d c'. decode [0x85, 0, 0, 0, 0, 0, 0, 0, 0, 0, 0, 0, 0] = Some (LoginSuccess x) \<and>
     RepeaterLoginContact ascii_text demo_repeater ''pw''
       (connected [Recv [6, 0, 0, 0, 0, 0, 0, 0, 0, 0], Recv [0x83], Recv [0x85, 0, 0, 0, 0, 0, 0, 0, 0, 0, 0, 0, 0], Tick]) =
       Finished (Inr (newRepeaterSession (w_now c') demo_repeater (ls_Permissions x, ls_Tag x) d), c') \<and> w_env c' = [Tick]"
proof -
  let ?p = "[0x85, 0, 0, 0, 0, 0, 0, 0, 0, 0, 0, 0, 0 :: byte]" and ?q = "[6, 0, 0, 0, 0, 0, 0, 0, 0, 0 :: byte]"
  obtain x where x: "decode ?p = Some (LoginSuccess x)" "ls_PublicKeyPrefix x = [0, 0, 0, 0, 0, 0]"
    by (simp add: decode_def run_time_checks Let_def decodeLoginSuccess_def)
  obtain s where s: "decode ?q = Some (Sent s)"
    by (simp add: decode_def run_time_checks Let_def decodeSent_def)
  let ?es = "Recv ?q # [Recv [0x83]] @ Recv ?p # [Tick]"
  have cap: "Has (se_Capabilities (cl_session (connected ?es))) CapabilityRepeaterLogin"
    by (simp add: Has_def Capabilities_def capability_defs)
  have other: "list_all (\<lambda>e. quiet e \<and> (\<forall>t ev. event_of t e = Some ev \<longrightarrow>
      login_event ascii_text demo_repeater (take 6 (replicate 32 0)) ev = None)) [Recv [0x83]]"
    by (auto simp: decode_samples)
  have "take 6 (replicate 32 0) = [0, 0, 0, 0, 0, 0 :: byte]" by (simp add: eval_nat_numeral)
  then have match: "loginPrefixMatches ascii_text (take 6 (replicate 32 0)) (hex_prefix (ls_PublicKeyPrefix x)) (ct_Name demo_repeater)"
    unfolding x(2) by (simp add: loginPrefixMatches_def hex_prefix_def ascii_text_def ascii_fold_eq_def)
  from repeater_login_succeeds [OF connected_listening connected_sel(2) cap demo_repeater_key connected_sel(4) connected_sel(1)
      s x(1) other match, of "''pw''"] x(1)
  show ?thesis by auto
qed

end
