(* ===== verification/Go_Url.thy ===== *)
theory Go_Url
  imports Go_Strings
begin

text \<open>
  Package \<open>net/url\<close> as far as the transports use it: \<open>Parse\<close> and \<open>Query().Get\<close>. The user information of
  an authority is checked but not kept, and neither is the fragment, since nothing reads them.
\<close>

section \<open>Characters\<close>

definition is_letter :: "char \<Rightarrow> bool" where
  "is_letter c = (let n = of_char c :: nat in (97 \<le> n \<and> n \<le> 122) \<or> (65 \<le> n \<and> n \<le> 90))"

definition is_digit :: "char \<Rightarrow> bool" where
  "is_digit c = (let n = of_char c :: nat in 48 \<le> n \<and> n \<le> 57)"

definition is_ctl :: "char \<Rightarrow> bool" where
  "is_ctl c = (let n = of_char c :: nat in n < 32 \<or> n = 127)"

text \<open>The characters \<open>shouldEscape\<close> accepts unescaped in a host or zone.\<close>

definition host_char :: "char \<Rightarrow> bool" where
  "host_char c = (is_letter c \<or> is_digit c \<or> c \<in> set (CHR 0x22 # CHR 0x27 # ''!$&()*+,;=:[]<>-_.~''))"

section \<open>Unescaping\<close>

datatype url_error =
    InvalidControlCharacter
  | MissingProtocolScheme
  | FirstSegmentColon
  | InvalidUserinfo
  | InvalidPort string
  | MissingBracket
  | EscapeError string
  | InvalidHostError char

datatype encoding = EncodePath | EncodeHost | EncodeZone | EncodeUserPassword | EncodeQueryComponent | EncodeFragment

fun unescape :: "encoding \<Rightarrow> string \<Rightarrow> url_error + string" where
  "unescape mode [] = Inr []"
| "unescape mode (c # s) =
     (if c = CHR ''%'' then
        (case s of
           a # b # s' \<Rightarrow>
             (case (from_hex_digit a, from_hex_digit b) of
                (Some x, Some y) \<Rightarrow>
                  (if mode = EncodeHost \<and> x < 8 \<and> [a, b] \<noteq> ''25'' then Inl (EscapeError [c, a, b])
                   else if mode = EncodeZone \<and> [a, b] \<noteq> ''25'' \<and> 16 * x + y \<noteq> 32 \<and> \<not> host_char (char_of (16 * x + y))
                     then Inl (EscapeError [c, a, b])
                   else map_sum id ((#) (char_of (16 * x + y))) (unescape mode s'))
              | _ \<Rightarrow> Inl (EscapeError [c, a, b]))
         | _ \<Rightarrow> Inl (EscapeError (c # s)))
      else if (mode = EncodeHost \<or> mode = EncodeZone) \<and> of_char c < (128 :: nat) \<and> \<not> host_char c
        then Inl (InvalidHostError c)
      else map_sum id ((#) (if c = CHR ''+'' \<and> mode = EncodeQueryComponent then CHR '' '' else c)) (unescape mode s))"

section \<open>Parsing\<close>

record url =
  u_Scheme :: string
  u_Opaque :: string
  u_Host :: string
  u_Path :: string
  u_RawQuery :: string

text \<open>\<open>strings.Cut\<close> and splitting at the last occurrence of a character.\<close>

definition Cut :: "char \<Rightarrow> string \<Rightarrow> string \<times> string" where
  "Cut sep s = (takeWhile (\<lambda>c. c \<noteq> sep) s, tl (dropWhile (\<lambda>c. c \<noteq> sep) s))"

definition cut_last :: "char \<Rightarrow> string \<Rightarrow> (string \<times> string) option" where
  "cut_last sep s =
     (if sep \<in> set s
      then Some (rev (tl (dropWhile (\<lambda>c. c \<noteq> sep) (rev s))), rev (takeWhile (\<lambda>c. c \<noteq> sep) (rev s)))
      else None)"

fun getScheme_from :: "string \<Rightarrow> string \<Rightarrow> string \<Rightarrow> url_error + string \<times> string" where
  "getScheme_from raw seen [] = Inr ([], raw)"
| "getScheme_from raw seen (c # s) =
     (if is_letter c then getScheme_from raw (seen @ [c]) s
      else if is_digit c \<or> c \<in> set ''+-.'' then
        (if seen = [] then Inr ([], raw) else getScheme_from raw (seen @ [c]) s)
      else if c = CHR '':'' then (if seen = [] then Inl MissingProtocolScheme else Inr (seen, s))
      else Inr ([], raw))"

definition getScheme :: "string \<Rightarrow> url_error + string \<times> string" where
  "getScheme raw = getScheme_from raw [] raw"

definition validOptionalPort :: "string \<Rightarrow> bool" where
  "validOptionalPort p = (case p of [] \<Rightarrow> True | c # ds \<Rightarrow> c = CHR '':'' \<and> list_all is_digit ds)"

text \<open>The index of \<open>%25\<close>, which starts a zone.\<close>

fun zone_split :: "string \<Rightarrow> string \<Rightarrow> (string \<times> string) option" where
  "zone_split seen [] = None"
| "zone_split seen (c # s) =
     (if prefix ''%25'' (c # s) then Some (seen, c # s) else zone_split (seen @ [c]) s)"

definition and_ok :: "'e + 'a \<Rightarrow> ('a \<Rightarrow> 'e + 'b) \<Rightarrow> 'e + 'b" where
  "and_ok r f = (case r of Inl e \<Rightarrow> Inl e | Inr x \<Rightarrow> f x)"

lemma and_ok_simps [simp]: "and_ok (Inl e) f = Inl e" "and_ok (Inr x) f = f x"
  by (simp_all add: and_ok_def)

definition parseHost :: "string \<Rightarrow> url_error + string" where
  "parseHost host =
     (if prefix ''['' host then
        (case cut_last (CHR '']'') host of
           None \<Rightarrow> Inl MissingBracket
         | Some (inner, colonPort) \<Rightarrow>
             (if \<not> validOptionalPort colonPort then Inl (InvalidPort colonPort)
              else case zone_split [] inner of
                  Some (h, z) \<Rightarrow>
                    and_ok (unescape EncodeHost h) (\<lambda>h1.
                    and_ok (unescape EncodeZone z) (\<lambda>h2.
                    and_ok (unescape EncodeHost (CHR '']'' # colonPort)) (\<lambda>h3.
                    Inr (h1 @ h2 @ h3))))
                | None \<Rightarrow> unescape EncodeHost host))
      else
        (case cut_last (CHR '':'') host of
           Some (_, port) \<Rightarrow>
             (if \<not> validOptionalPort (CHR '':'' # port) then Inl (InvalidPort (CHR '':'' # port))
              else unescape EncodeHost host)
         | None \<Rightarrow> unescape EncodeHost host))"

definition validUserinfo :: "string \<Rightarrow> bool" where
  "validUserinfo s =
     list_all (\<lambda>c. is_letter c \<or> is_digit c \<or> c \<in> set (CHR 0x27 # ''-._:~!$&()*+,;=%@'')) s"

definition parseAuthority :: "string \<Rightarrow> url_error + string" where
  "parseAuthority authority =
     (case cut_last (CHR ''@'') authority of
        None \<Rightarrow> parseHost authority
      | Some (userinfo, host) \<Rightarrow>
          and_ok (parseHost host) (\<lambda>h.
            if \<not> validUserinfo userinfo then Inl InvalidUserinfo
            else if CHR '':'' \<notin> set userinfo
              then and_ok (unescape EncodeUserPassword userinfo) (\<lambda>_. Inr h)
            else let (username, password) = Cut (CHR '':'') userinfo in
              and_ok (unescape EncodeUserPassword username) (\<lambda>_.
              and_ok (unescape EncodeUserPassword password) (\<lambda>_. Inr h))))"

text \<open>A final \<open>?\<close> that is the only one is not part of the opaque or path component and leaves no query,
  which is what \<open>Cut\<close> gives too.\<close>

definition parse_rest :: "string \<Rightarrow> string \<Rightarrow> url_error + url" where
  "parse_rest scheme rest0 =
     (let (rest, query) = Cut (CHR ''?'') rest0;
          u = \<lparr>u_Scheme = ascii_lower scheme, u_Opaque = [], u_Host = [], u_Path = [], u_RawQuery = query\<rparr>
      in if \<not> prefix ''/'' rest \<and> scheme \<noteq> [] then Inr (u\<lparr>u_Opaque := rest\<rparr>)
         else if \<not> prefix ''/'' rest \<and> CHR '':'' \<in> set (fst (Cut (CHR ''/'') rest)) then Inl FirstSegmentColon
         else if (scheme \<noteq> [] \<or> \<not> prefix ''///'' rest) \<and> prefix ''//'' rest then
           (let auth = takeWhile (\<lambda>c. c \<noteq> CHR ''/'') (drop 2 rest);
                path = dropWhile (\<lambda>c. c \<noteq> CHR ''/'') (drop 2 rest)
            in and_ok (parseAuthority auth) (\<lambda>h.
               and_ok (unescape EncodePath path) (\<lambda>p. Inr (u\<lparr>u_Host := h, u_Path := p\<rparr>))))
         else and_ok (unescape EncodePath rest) (\<lambda>p. Inr (u\<lparr>u_Path := p\<rparr>)))"

definition Parse_url :: "string \<Rightarrow> url_error + url" where
  "Parse_url rawURL =
     (let (raw, frag) = Cut (CHR ''#'') rawURL in
      and_ok
        (if list_ex is_ctl raw then Inl InvalidControlCharacter
         else if raw = ''*''
           then Inr \<lparr>u_Scheme = [], u_Opaque = [], u_Host = [], u_Path = ''*'', u_RawQuery = []\<rparr>
         else and_ok (getScheme raw) (\<lambda>(scheme, rest). parse_rest scheme rest))
        (\<lambda>u. and_ok (unescape EncodeFragment frag) (\<lambda>_. Inr u)))"

section \<open>Queries\<close>

definition parse_pair :: "string \<Rightarrow> (string \<times> string) option" where
  "parse_pair field =
     (if CHR '';'' \<in> set field \<or> field = [] then None
      else let (key, val) = Cut (CHR ''='') field in
        case (unescape EncodeQueryComponent key, unescape EncodeQueryComponent val) of
          (Inr k, Inr v) \<Rightarrow> Some (k, v)
        | _ \<Rightarrow> None)"

definition Query_Get :: "url \<Rightarrow> string \<Rightarrow> string" where
  "Query_Get u key =
     (case map_of (List.map_filter parse_pair (Split (CHR ''&'') (u_RawQuery u))) key of
        Some v \<Rightarrow> v
      | None \<Rightarrow> [])"

section \<open>Plain text\<close>

text \<open>Text without percent signs is unescaped to itself, in a host when its characters are allowed.\<close>

lemma unescape_path: "CHR ''%'' \<notin> set s \<Longrightarrow> mode \<in> {EncodePath, EncodeFragment} \<Longrightarrow> unescape mode s = Inr s"
  by (induction s) auto

lemma unescape_host:
  "list_all (\<lambda>c. c \<noteq> CHR ''%'' \<and> host_char c) s \<Longrightarrow> unescape EncodeHost s = Inr s"
  by (induction s) auto

lemma until_sep:
  assumes "sep \<notin> set a"
  shows "takeWhile (\<lambda>c. c \<noteq> sep) (a @ sep # b) = a" "dropWhile (\<lambda>c. c \<noteq> sep) (a @ sep # b) = sep # b"
    and "takeWhile (\<lambda>c. c \<noteq> sep) a = a" "dropWhile (\<lambda>c. c \<noteq> sep) a = []"
  using assms by (induction a) auto

lemma Cut_none: "sep \<notin> set s \<Longrightarrow> Cut sep s = (s, [])"
  by (simp add: Cut_def until_sep)

lemma Cut_some: "sep \<notin> set a \<Longrightarrow> Cut sep (a @ sep # b) = (a, b)"
  by (simp add: Cut_def until_sep)

lemma cut_last_some: "sep \<notin> set b \<Longrightarrow> cut_last sep (a @ sep # b) = Some (a, b)"
  by (simp add: cut_last_def until_sep [of sep "rev b"])

lemma cut_last_none: "sep \<notin> set s \<Longrightarrow> cut_last sep s = None"
  by (simp add: cut_last_def)

lemma getScheme_from_letters:
  "list_all is_letter s \<Longrightarrow> seen @ s \<noteq> [] \<Longrightarrow> getScheme_from raw seen (s @ CHR '':'' # rest) = Inr (seen @ s, rest)"
proof (induction s arbitrary: seen)
  case Nil
  moreover have "\<not> is_letter (CHR '':'')" "\<not> is_digit (CHR '':'')" by code_simp+
  ultimately show ?case by simp
next
  case (Cons c s)
  from Cons.IH [of "seen @ [c]"] Cons.prems show ?case by simp
qed

lemma getScheme_letters:
  "list_all is_letter s \<Longrightarrow> s \<noteq> [] \<Longrightarrow> getScheme (s @ CHR '':'' # rest) = Inr (s, rest)"
  by (simp add: getScheme_def getScheme_from_letters)

end
