(* ===== verification/Go_Time.thy ===== *)
theory Go_Time
  imports Go_Fmt Go_Url
begin

text \<open>
  Calendar time: \<open>Format(time.RFC3339Nano)\<close> of a time in UTC and \<open>time.Parse\<close> of such texts. A text with a numeric
  zone offset is not modelled, since nothing writes one. Texts have four digit years.
\<close>

section \<open>Dates\<close>

text \<open>Years begin in March, so that the leap day is the last day of the year.\<close>

definition date_of_day :: "int \<Rightarrow> int \<times> int \<times> int" where
  "date_of_day n =
     (let z = n + 719468; era = z div 146097; doe = z mod 146097;
          c = min 3 (doe div 36524); doc = doe - 36524 * c;
          q = doc div 1461; doq = doc - 1461 * q;
          y = min 3 (doq div 365); doy = doq - 365 * y;
          mp = (5 * doy + 2) div 153;
          d = doy - (153 * mp + 2) div 5 + 1;
          m = (if mp < 10 then mp + 3 else mp - 9)
      in (400 * era + 100 * c + 4 * q + y + (if m \<le> 2 then 1 else 0), m, d))"

definition day_of_date :: "int \<Rightarrow> int \<Rightarrow> int \<Rightarrow> int" where
  "day_of_date y m d =
     (let y' = (if m \<le> 2 then y - 1 else y); era = y' div 400; yoe = y' mod 400;
          mp = (if m > 2 then m - 3 else m + 9);
          doy = (153 * mp + 2) div 5 + d - 1
      in 146097 * era + 365 * yoe + yoe div 4 - yoe div 100 + doy - 719468)"

definition leap_year :: "int \<Rightarrow> bool" where
  "leap_year y \<longleftrightarrow> y mod 4 = 0 \<and> (y mod 100 \<noteq> 0 \<or> y mod 400 = 0)"

definition days_in :: "int \<Rightarrow> int \<Rightarrow> int" where
  "days_in y m = (if m = 2 then (if leap_year y then 29 else 28) else if m \<in> {4, 6, 9, 11} then 30 else 31)"

text \<open>The parts of a day number: its year within the era, its day in that year, its month.\<close>

lemma div_bounds: "0 < k \<Longrightarrow> k * (a div k) \<le> a \<and> a < k * (a div k) + (k :: int)"
  using mult_div_mod_eq [of k a] pos_mod_sign [of k a] pos_mod_bound [of k a] by linarith

lemma year_parts:
  fixes doe :: int
  assumes "0 \<le> doe" "doe < 146097"
  defines "c \<equiv> min 3 (doe div 36524)" defines "q \<equiv> (doe - 36524 * c) div 1461"
  defines "y \<equiv> min 3 ((doe - 36524 * c - 1461 * q) div 365)"
  defines "doy \<equiv> doe - 36524 * c - 1461 * q - 365 * y"
  shows "0 \<le> c \<and> c \<le> 3 \<and> 0 \<le> q \<and> q \<le> 24 \<and> 0 \<le> y \<and> y \<le> 3 \<and> 0 \<le> doy \<and> doy \<le> 365"
    and "doy = 365 \<Longrightarrow> y = 3 \<and> (q = 24 \<longrightarrow> c = 3)"
proof -
  have c: "0 \<le> c" "c \<le> 3" "0 \<le> doe - 36524 * c" "doe - 36524 * c \<le> 36524" "c < 3 \<Longrightarrow> doe - 36524 * c < 36524"
    using assms(1, 2) unfolding c_def by (auto simp: min_def)
  have q: "0 \<le> q" "q \<le> 24" "0 \<le> doe - 36524 * c - 1461 * q" "doe - 36524 * c - 1461 * q \<le> 1460"
    using c div_bounds [of 1461 "doe - 36524 * c"] unfolding q_def by linarith+
  define r where "r = doe - 36524 * c - 1461 * q"
  have y: "0 \<le> y" "y \<le> 3" "0 \<le> r - 365 * y" "r - 365 * y \<le> 365" "r - 365 * y = 365 \<Longrightarrow> y = 3"
    using q(3, 4) unfolding y_def r_def [symmetric] by (auto simp: min_def split: if_splits)
  show "0 \<le> c \<and> c \<le> 3 \<and> 0 \<le> q \<and> q \<le> 24 \<and> 0 \<le> y \<and> y \<le> 3 \<and> 0 \<le> doy \<and> doy \<le> 365"
    using c q y unfolding doy_def r_def by blast
  assume 365: "doy = 365"
  then have "y = 3" using y(5) unfolding doy_def r_def by blast
  moreover have "q = 24 \<longrightarrow> c = 3" using 365 c \<open>y = 3\<close> unfolding doy_def by linarith
  ultimately show "y = 3 \<and> (q = 24 \<longrightarrow> c = 3)" by blast
qed

lemma month_parts:
  fixes doy :: int
  assumes "0 \<le> doy" "doy \<le> 365"
  defines "mp \<equiv> (5 * doy + 2) div 153"
  defines "d \<equiv> doy - (153 * mp + 2) div 5 + 1"
  shows "0 \<le> mp \<and> mp \<le> 11 \<and> 1 \<le> d \<and>
    d \<le> (if mp = 11 then (if doy = 365 then 29 else 28) else if mp \<in> {1, 3, 6, 8} then 30 else 31)"
proof -
  have b: "153 * mp \<le> 5 * doy + 2" "5 * doy + 2 < 153 * mp + 153"
    using div_bounds [of 153 "5 * doy + 2"] unfolding mp_def by simp_all
  with assms(1, 2) have mp: "0 \<le> mp" "mp \<le> 11" by linarith+
  then have "mp = 0 \<or> mp = 1 \<or> mp = 2 \<or> mp = 3 \<or> mp = 4 \<or> mp = 5 \<or> mp = 6 \<or> mp = 7 \<or> mp = 8 \<or> mp = 9 \<or> mp = 10 \<or> mp = 11"
    by presburger
  then have "1 \<le> d \<and> d \<le> (if mp = 11 then (if doy = 365 then 29 else 28) else if mp \<in> {1, 3, 6, 8} then 30 else 31)"
    using b assms(1, 2) unfolding d_def by (elim disjE) simp_all
  with mp show ?thesis by blast
qed

text \<open>A day number is recovered from its date, and its date exists.\<close>

lemma day_of_date_of_day:
  assumes "date_of_day n = (y, m, d)"
  shows "day_of_date y m d = n" "1 \<le> m" "m \<le> 12" "1 \<le> d" "d \<le> days_in y m"
proof -
  define era where "era = (n + 719468) div 146097"
  define doe where "doe = (n + 719468) mod 146097"
  define c where "c = min 3 (doe div 36524)"
  define q where "q = (doe - 36524 * c) div 1461"
  define yy where "yy = min 3 ((doe - 36524 * c - 1461 * q) div 365)"
  define doy where "doy = doe - 36524 * c - 1461 * q - 365 * yy"
  define mp where "mp = (5 * doy + 2) div 153"
  have n: "n = 146097 * era + doe - 719468" unfolding era_def doe_def by simp
  have doe: "0 \<le> doe" "doe < 146097" unfolding doe_def by simp_all
  have parts: "0 \<le> c" "c \<le> 3" "0 \<le> q" "q \<le> 24" "0 \<le> yy" "yy \<le> 3" "0 \<le> doy" "doy \<le> 365"
    using year_parts(1) [OF doe] unfolding c_def q_def yy_def doy_def by blast+
  have last: "yy = 3 \<and> (q = 24 \<longrightarrow> c = 3)" if "doy = 365"
    using year_parts(2) [OF doe] that unfolding c_def q_def yy_def doy_def by blast
  define d0 where "d0 = doy - (153 * mp + 2) div 5 + 1"
  have mp: "0 \<le> mp" "mp \<le> 11" "1 \<le> d0"
    "d0 \<le> (if mp = 11 then (if doy = 365 then 29 else 28) else if mp \<in> {1, 3, 6, 8} then 30 else 31)"
    using month_parts [OF parts(7, 8)] unfolding mp_def d0_def by blast+
  define yoe where "yoe = 100 * c + 4 * q + yy"
  define m0 where "m0 = (if mp < 10 then mp + 3 else mp - 9)"
  have "date_of_day n = (400 * era + yoe + (if m0 \<le> 2 then 1 else 0), m0, d0)"
    unfolding date_of_day_def Let_def d0_def m0_def mp_def doy_def yy_def q_def c_def doe_def era_def yoe_def
    by (simp only: add.assoc)
  with assms have eqs: "m0 = m" "d = d0" "y = 400 * era + yoe + (if m0 \<le> 2 then 1 else 0)" by auto
  then have m: "m = (if mp < 10 then mp + 3 else mp - 9)" and d: "d = d0"
    and y: "y = 400 * era + yoe + (if m \<le> 2 then 1 else 0)" by (simp_all add: m0_def)
  show "1 \<le> m" "m \<le> 12" "1 \<le> d" using m d mp by auto
  have yoe: "0 \<le> yoe" "yoe < 400" using parts unfolding yoe_def by linarith+
  have "yoe div 4 = 25 * c + q" "yoe div 100 = c" using parts unfolding yoe_def by simp_all
  then have doy': "doe = 365 * yoe + yoe div 4 - yoe div 100 + doy" unfolding doy_def yoe_def by simp
  have "(if m \<le> 2 then y - 1 else y) = 400 * era + yoe" using y by simp
  moreover have "(400 * era + yoe) div 400 = era" "(400 * era + yoe) mod 400 = yoe" using yoe by simp_all
  moreover have "(if m > 2 then m - 3 else m + 9) = mp" using m mp by auto
  ultimately show "day_of_date y m d = n"
    unfolding day_of_date_def Let_def d d0_def n doy' by simp
  have leap: "leap_year y" if "mp = 11" "doy = 365"
  proof -
    have "y = 400 * era + 100 * c + 4 * q + 4" using y m that last [OF that(2)] unfolding yoe_def by simp
    then have y4: "y = 4 * (100 * era + 25 * c + q + 1)" and y100: "y = 4 * (q + 1) + (4 * era + c) * 100" by simp_all
    have "y mod 4 = 0" unfolding y4 by simp
    moreover have "y mod 400 = 0" if "q = 24" using y4 that last [OF \<open>doy = 365\<close>] by simp
    moreover have "y mod 100 \<noteq> 0" if "q \<noteq> 24"
    proof -
      have "y mod 100 = 4 * (q + 1)" unfolding y100 mod_mult_self1 using parts(3, 4) that by simp
      then show ?thesis using parts(3) by simp
    qed
    ultimately show ?thesis unfolding leap_year_def by (cases "q = 24") simp_all
  qed
  show "d \<le> days_in y m"
    using mp m d leap by (auto simp: days_in_def split: if_splits)
qed

section \<open>Texts\<close>

definition time_year :: "go_time \<Rightarrow> int" where
  "time_year t = fst (date_of_day (t_unix t div 86400))"

definition trim_zeros :: "string \<Rightarrow> string" where
  "trim_zeros s = rev (dropWhile (\<lambda>c. c = CHR ''0'') (rev s))"

definition format_time :: "go_time \<Rightarrow> string" where
  "format_time t =
     (let (y, m, d) = date_of_day (t_unix t div 86400); s = t_unix t mod 86400;
          fraction = trim_zeros (dec_pad 9 (t_nsec t))
      in dec_pad 4 (nat y) @ ''-'' @ dec_pad 2 (nat m) @ ''-'' @ dec_pad 2 (nat d) @ ''T'' @
         dec_pad 2 (nat (s div 3600)) @ '':'' @ dec_pad 2 (nat (s div 60 mod 60)) @ '':'' @ dec_pad 2 (nat (s mod 60)) @
         (if fraction = [] then [] else ''.'' @ fraction) @ ''Z'')"

definition read_digits :: "nat \<Rightarrow> string \<Rightarrow> (int \<times> string) option" where
  "read_digits k s =
     (if length s < k then None
      else case digits_val 0 (take k s) of None \<Rightarrow> None | Some n \<Rightarrow> Some (int n, drop k s))"

definition expect :: "char \<Rightarrow> string \<Rightarrow> string option" where
  "expect c s = (case s of [] \<Rightarrow> None | d # r \<Rightarrow> if d = c then Some r else None)"

text \<open>The fraction of a second in nanoseconds: its first nine digits.\<close>

definition read_fraction :: "string \<Rightarrow> nat \<times> string" where
  "read_fraction s =
     (if prefix ''.'' s \<and> takeWhile is_digit (tl s) \<noteq> [] then
        (let ds = takeWhile is_digit (tl s); ns = take 9 ds
         in (the (digits_val 0 ns) * 10 ^ (9 - length ns), drop (length ds) (tl s)))
      else (0, s))"

definition parse_time :: "string \<Rightarrow> go_time option" where
  "parse_time s0 =
     do {
       (y, s) \<leftarrow> read_digits 4 s0; s \<leftarrow> expect (CHR ''-'') s;
       (m, s) \<leftarrow> read_digits 2 s; s \<leftarrow> expect (CHR ''-'') s;
       (d, s) \<leftarrow> read_digits 2 s; s \<leftarrow> expect (CHR ''T'') s;
       (hh, s) \<leftarrow> read_digits 2 s; s \<leftarrow> expect (CHR '':'') s;
       (mm, s) \<leftarrow> read_digits 2 s; s \<leftarrow> expect (CHR '':'') s;
       (ss, s) \<leftarrow> read_digits 2 s;
       (if 1 \<le> m \<and> m \<le> 12 \<and> 1 \<le> d \<and> d \<le> days_in y m \<and> hh < 24 \<and> mm < 60 \<and> ss < 60 \<and> snd (read_fraction s) = ''Z''
        then Some \<lparr>t_unix = 86400 * day_of_date y m d + 3600 * hh + 60 * mm + ss, t_nsec = fst (read_fraction s)\<rparr>
        else None)
     }"

lemma digits_val_dec_pad: "digits_val 0 (dec_pad k n) = Some (n mod 10 ^ k)"
proof (induction k arbitrary: n)
  case (Suc k)
  have "10 * (n div 10 mod 10 ^ k) + n mod 10 = n mod 10 ^ Suc k"
    by (simp add: mod_mult2_eq)
  with Suc show ?case by (simp add: digits_val_append digit_val_hex_digit)
qed simp

lemma read_digits_dec_pad:
  assumes "0 \<le> i" and "i < 10 ^ k"
  shows "read_digits k (dec_pad k (nat i) @ r) = Some (i, r)"
proof -
  have "nat i mod 10 ^ k = nat i" using assms by (simp add: nat_less_iff)
  then show ?thesis using assms(1) by (simp add: read_digits_def length_dec_pad digits_val_dec_pad)
qed

lemma is_digit_dec_pad: "list_all is_digit (dec_pad k n)"
  by (induction k arbitrary: n) (simp_all add: is_digit_def hex_digit_def)

text \<open>The trimmed fraction denotes the same number.\<close>

lemma trim_zeros_decomp: "\<exists>j. s = trim_zeros s @ replicate j (CHR ''0'')"
proof -
  have "rev s = takeWhile (\<lambda>c. c = CHR ''0'') (rev s) @ dropWhile (\<lambda>c. c = CHR ''0'') (rev s)" by simp
  moreover have "takeWhile (\<lambda>c. c = CHR ''0'') (rev s) = replicate (length (takeWhile (\<lambda>c. c = CHR ''0'') (rev s))) (CHR ''0'')"
    by (rule replicate_length_same [symmetric]) (metis set_takeWhileD)
  ultimately have "rev s = replicate (length (takeWhile (\<lambda>c. c = CHR ''0'') (rev s))) (CHR ''0'') @ rev (trim_zeros s)"
    by (simp add: trim_zeros_def)
  then have "s = trim_zeros s @ replicate (length (takeWhile (\<lambda>c. c = CHR ''0'') (rev s))) (CHR ''0'')"
    by (metis rev_append rev_replicate rev_rev_ident)
  then show ?thesis ..
qed

lemma digits_val_zeros: "digits_val n (replicate j (CHR ''0'')) = Some (n * 10 ^ j)"
proof (induction j arbitrary: n)
  case (Suc j)
  have "digit_val (CHR ''0'') = Some 0" by (simp add: digit_val_def)
  then show ?case using Suc [of "10 * n"] by simp
qed simp

lemma read_fraction_format:
  assumes "n < 10 ^ 9"
  defines "f \<equiv> trim_zeros (dec_pad 9 n)"
  shows "read_fraction ((if f = [] then [] else ''.'' @ f) @ ''Z'') = (n, ''Z'')"
proof -
  obtain j where j: "dec_pad 9 n = f @ replicate j (CHR ''0'')" using trim_zeros_decomp f_def by blast
  have len: "length f + j = 9" using j length_dec_pad [of 9 n] by simp
  obtain v where v: "digits_val 0 f = Some v" "v * 10 ^ j = n"
    using digits_val_dec_pad [of 9 n] assms(1) j by (auto simp: digits_val_append digits_val_zeros split: option.splits)
  have dig: "list_all is_digit f" using is_digit_dec_pad [of 9 n] j by (simp add: list_all_iff)
  have z: "\<not> is_digit (CHR ''Z'')" by code_simp
  show ?thesis
  proof (cases "f = []")
    case True
    then show ?thesis using v z by (simp add: read_fraction_def)
  next
    case False
    have "takeWhile is_digit (f @ ''Z'') = f" using dig z by (simp add: list_all_iff takeWhile_append)
    moreover have "9 - length f = j" "take 9 f = f" using len by simp_all
    ultimately show ?thesis using False v by (simp add: read_fraction_def Let_def)
  qed
qed

lemma expect_hit [simp]: "expect c (c # r) = Some r"
  by (simp add: expect_def)

lemma days_in_le: "days_in y m \<le> 31"
  by (simp add: days_in_def)

lemma parse_time_text:
  assumes "0 \<le> y" "y < 10000" "1 \<le> m" "m \<le> 12" "1 \<le> d" "d \<le> days_in y m"
    and "0 \<le> hh" "hh < 24" "0 \<le> mm" "mm < 60" "0 \<le> ss" "ss < 60" and "read_fraction r = (n, ''Z'')"
  shows "parse_time (dec_pad 4 (nat y) @ ''-'' @ dec_pad 2 (nat m) @ ''-'' @ dec_pad 2 (nat d) @ ''T'' @
      dec_pad 2 (nat hh) @ '':'' @ dec_pad 2 (nat mm) @ '':'' @ dec_pad 2 (nat ss) @ r) =
    Some \<lparr>t_unix = 86400 * day_of_date y m d + 3600 * hh + 60 * mm + ss, t_nsec = n\<rparr>"
proof -
  have "0 \<le> m" "m < 10 ^ 2" "0 \<le> d" "d < 10 ^ 2" "y < 10 ^ 4" "hh < 10 ^ 2" "mm < 10 ^ 2" "ss < 10 ^ 2"
    using assms days_in_le [of y m] by simp_all
  with assms show ?thesis by (simp add: parse_time_def read_digits_dec_pad)
qed

lemma clock_parts:
  fixes s :: int
  assumes "0 \<le> s" "s < 86400"
  shows "0 \<le> s div 3600" "s div 3600 < 24" "0 \<le> s div 60 mod 60" "s div 60 mod 60 < 60" "0 \<le> s mod 60" "s mod 60 < 60"
    and "3600 * (s div 3600) + 60 * (s div 60 mod 60) + s mod 60 = s"
proof -
  define a b r e where "a = s div 60" "b = a div 60" "r = a mod 60" "e = s mod 60"
  have "s div 3600 = b" unfolding a_b_r_e_def by (simp add: zdiv_zmult2_eq [symmetric])
  moreover have "a = 60 * b + r" "s = 60 * a + e" unfolding a_b_r_e_def by simp_all
  ultimately have "3600 * (s div 3600) + 60 * r + e = s" by linarith
  then show "3600 * (s div 3600) + 60 * (s div 60 mod 60) + s mod 60 = s" unfolding a_b_r_e_def .
qed (use assms in \<open>simp_all add: pos_imp_zdiv_nonneg_iff\<close>)

text \<open>A time whose year has at most four digits is read back from its text.\<close>

definition time_ok :: "go_time \<Rightarrow> bool" where
  "time_ok t \<longleftrightarrow> 0 \<le> time_year t \<and> time_year t < 10000 \<and> t_nsec t < 10 ^ 9"

lemma parse_format_time:
  assumes "time_ok t"
  shows "parse_time (format_time t) = Some t"
proof -
  obtain y m d where date: "date_of_day (t_unix t div 86400) = (y, m, d)" by (rule prod_cases3)
  define s where "s = t_unix t mod 86400"
  have s: "0 \<le> s" "s < 86400" and unix: "86400 * (t_unix t div 86400) + s = t_unix t" unfolding s_def by simp_all
  have y: "0 \<le> y" "y < 10000" and n: "t_nsec t < 10 ^ 9" using assms date by (simp_all add: time_ok_def time_year_def)
  note f = day_of_date_of_day [OF date] and c = clock_parts [OF s]
  have "format_time t = dec_pad 4 (nat y) @ ''-'' @ dec_pad 2 (nat m) @ ''-'' @ dec_pad 2 (nat d) @ ''T'' @
      dec_pad 2 (nat (s div 3600)) @ '':'' @ dec_pad 2 (nat (s div 60 mod 60)) @ '':'' @ dec_pad 2 (nat (s mod 60)) @
      (if trim_zeros (dec_pad 9 (t_nsec t)) = [] then [] else ''.'' @ trim_zeros (dec_pad 9 (t_nsec t))) @ ''Z''"
    unfolding format_time_def date Let_def s_def by (simp only: prod.case)
  also have "parse_time \<dots> = Some \<lparr>t_unix = 86400 * day_of_date y m d + 3600 * (s div 3600) + 60 * (s div 60 mod 60) + s mod 60,
      t_nsec = t_nsec t\<rparr>"
    by (rule parse_time_text [OF y f(2-5) c(1-6) read_fraction_format [OF n]])
  also have "86400 * day_of_date y m d + 3600 * (s div 3600) + 60 * (s div 60 mod 60) + s mod 60 = t_unix t"
    using c(7) unix f(1) by linarith
  finally show ?thesis by simp
qed

end
