(* ===== verification/State_Store.thy ===== *)
theory State_Store
  imports Repeaters Go_Time "HOL-Library.List_Lexorder" "HOL-Library.Char_ord" "HOL-Library.Product_Lexorder"
begin

text \<open>
  The per-device database of the backend: \<open>backend/sqlite_store.go\<close>, the records of \<open>backend/store.go\<close>, and the
  key and file name rules of \<open>backend/paths.go\<close>, \<open>backend/config_sessions.go\<close> and \<open>backend/channels.go\<close>.

  A table is the list of its rows in order of creation. Each statement sent to the database may fail: the
  list \<open>db_faults\<close> has the results of the coming statements, and those beyond its end succeed. A
  transaction that fails restores the tables. \<open>ORDER BY\<close> sorts stably by the given columns, texts bytewise.
  A JSON column holds the list it encodes. The clock is the argument \<open>now\<close>.
\<close>

section \<open>Rows\<close>

datatype direction = MessageIn | MessageOut
datatype kind = MessageDirect | MessageChannel
datatype status = NoStatus | StatusQueued | StatusSent | StatusDelivered | StatusUnconfirmed | StatusFailed | StatusReceived

record reception =
  re_At :: go_time
  re_SNR :: f64
  re_PathLen :: int
  re_RTTMs :: int

record message_record =
  ms_ID :: int
  ms_Direction :: direction
  ms_Kind :: kind
  ms_Peer :: string
  ms_PeerName :: string
  ms_Channel :: string
  ms_Text :: string
  ms_TxtType :: byte
  ms_Timestamp :: go_time
  ms_SNR :: f64
  ms_Read :: bool
  ms_Status :: status
  ms_AckCode :: string
  ms_AcknowledgedAt :: go_time
  ms_Receptions :: "reception list"
  ms_CreatedAt :: go_time

text \<open>A row of the message table keeps the three times as texts.\<close>

record message_row =
  mw_rec :: message_record
  mw_timestamp :: string
  mw_acknowledged_at :: string
  mw_created_at :: string

record contact_row =
  cw_public_key :: string
  cw_name :: string
  cw_type :: contact_type
  cw_has_path :: bool
  cw_latitude :: f64
  cw_longitude :: f64
  cw_last_advert :: string
  cw_stored_at :: string
  cw_out_path_enc :: byte
  cw_out_path :: bytes

record channel_row =
  hw_idx :: int
  hw_name :: string
  hw_key :: string
  hw_secret :: string
  hw_private :: bool
  hw_stored_at :: string

record session_row =
  sw_repeater :: string
  sw_public_key :: string
  sw_logged_in_at :: string
  sw_expires_at :: string
  sw_permissions :: byte
  sw_tag :: int

record tables =
  tb_contacts :: "contact_row list"
  tb_channels :: "channel_row list"
  tb_sessions :: "session_row list"
  tb_meta :: "(string \<times> string) list"
  tb_messages :: "message_row list"
  tb_sequence :: int

definition empty_tables :: tables where
  "empty_tables = \<lparr>tb_contacts = [], tb_channels = [], tb_sessions = [], tb_meta = [], tb_messages = [], tb_sequence = 0\<rparr>"

record db =
  db_tables :: tables
  db_faults :: "string option list"

datatype store_error =
    DBError string
  | NoRows
  | StoredContactAmbiguous string nat
  | BadContactLastMod
  | BadTime string
  | InvalidDeviceKey string
  | ErrIdentityMismatch string string

definition IsNotFound :: "store_error \<Rightarrow> bool" where
  "IsNotFound e = (e = NoRows)"

section \<open>Statements\<close>

type_synonym 'a stm = "db \<Rightarrow> (store_error + 'a) \<times> db"

definition fault :: "unit stm" where
  "fault d =
     (case db_faults d of
        [] \<Rightarrow> (Inr (), d)
      | f # fs \<Rightarrow> (case f of None \<Rightarrow> Inr () | Some m \<Rightarrow> Inl (DBError m), d\<lparr>db_faults := fs\<rparr>))"

definition seq :: "'a stm \<Rightarrow> ('a \<Rightarrow> 'b stm) \<Rightarrow> 'b stm" where
  "seq m f d = (case m d of (Inl e, d') \<Rightarrow> (Inl e, d') | (Inr x, d') \<Rightarrow> f x d')"

definition give :: "'a \<Rightarrow> 'a stm" where
  "give x d = (Inr x, d)"

definition throw :: "store_error \<Rightarrow> 'a stm" where
  "throw e d = (Inl e, d)"

definition query :: "(tables \<Rightarrow> 'a) \<Rightarrow> 'a stm" where
  "query f = seq fault (\<lambda>_ d. (Inr (f (db_tables d)), d))"

definition exec :: "(tables \<Rightarrow> tables) \<Rightarrow> unit stm" where
  "exec f = seq fault (\<lambda>_ d. (Inr (), d\<lparr>db_tables := f (db_tables d)\<rparr>))"

fun for_each :: "('a \<Rightarrow> unit stm) \<Rightarrow> 'a list \<Rightarrow> unit stm" where
  "for_each f [] = give ()"
| "for_each f (x # xs) = seq (f x) (\<lambda>_. for_each f xs)"

text \<open>\<open>BeginTx\<close>, a body that prepares its statement, and \<open>Commit\<close>; the deferred \<open>Rollback\<close> undoes a failed
  transaction.\<close>

definition transaction :: "unit stm \<Rightarrow> unit stm" where
  "transaction body d =
     (case seq fault (\<lambda>_. seq body (\<lambda>_. fault)) d of
        (Inl e, d') \<Rightarrow> (Inl e, d'\<lparr>db_tables := db_tables d\<rparr>)
      | (Inr _, d') \<Rightarrow> (Inr (), d'))"

text \<open>An upsert replaces the row with the same key or appends one.\<close>

fun upsert :: "('r \<Rightarrow> 'k) \<Rightarrow> 'r \<Rightarrow> 'r list \<Rightarrow> 'r list" where
  "upsert key r [] = [r]"
| "upsert key r (x # xs) = (if key x = key r then r # xs else x # upsert key r xs)"

section \<open>Times\<close>

definition rfc3339 :: "go_time \<Rightarrow> string" where
  "rfc3339 t = (if IsZero t then [] else format_time t)"

definition parseRFC3339 :: "string \<Rightarrow> go_time" where
  "parseRFC3339 s = (if s = [] then zero_time else case parse_time s of None \<Rightarrow> zero_time | Some t \<Rightarrow> t)"

section \<open>Keys and names\<close>

definition normalizePublicKey :: "unicode \<Rightarrow> string \<Rightarrow> string" where
  "normalizePublicKey u key = ToLower u (TrimSpace key)"

definition statePrefixLen :: nat where
  "statePrefixLen = 16"

definition StatePrefix :: "unicode \<Rightarrow> string \<Rightarrow> string" where
  "StatePrefix u publicKey =
     (let key = normalizePublicKey u publicKey in
      if length key > statePrefixLen then take statePrefixLen key else key)"

definition looksLikePublicKey :: "string \<Rightarrow> bool" where
  "looksLikePublicKey key =
     (if length key < statePrefixLen then False
      else list_all (\<lambda>c. let n = of_char c :: nat in (48 \<le> n \<and> n \<le> 57) \<or> (97 \<le> n \<and> n \<le> 102)) key)"

text \<open>The hash function and the derivation of a channel key from its name, which is in another module.\<close>

record crypto =
  Sum256 :: "bytes \<Rightarrow> bytes"
  DeriveChannelSecret :: "string \<Rightarrow> bytes"

definition channelKey :: "crypto \<Rightarrow> bytes \<Rightarrow> string" where
  "channelKey cr secret = (if secret = [] then [] else hex_EncodeToString (Sum256 cr secret))"

definition isPrivateChannel :: "crypto \<Rightarrow> string \<Rightarrow> bytes \<Rightarrow> bool" where
  "isPrivateChannel cr name secret = (if secret = [] then False else secret \<noteq> DeriveChannelSecret cr name)"

section \<open>Meta data\<close>

definition metaPublicKey :: string where "metaPublicKey = ''public_key''"
definition metaCreatedAt :: string where "metaCreatedAt = ''created_at''"
definition metaSchemaVersion :: string where "metaSchemaVersion = ''schema_version''"
definition metaContactLastMod :: string where "metaContactLastMod = ''contact_last_mod''"
definition stateSchemaVersion :: string where "stateSchemaVersion = ''1''"

definition metaGet :: "string \<Rightarrow> string stm" where
  "metaGet key = query (\<lambda>t. case map_of (tb_meta t) key of Some v \<Rightarrow> v | None \<Rightarrow> [])"

definition metaSet :: "string \<Rightarrow> string \<Rightarrow> unit stm" where
  "metaSet key val = exec (\<lambda>t. t\<lparr>tb_meta := AList.update key val (tb_meta t)\<rparr>)"

definition ensureIdentity :: "unicode \<Rightarrow> go_time \<Rightarrow> string \<Rightarrow> unit stm" where
  "ensureIdentity u now key =
     seq (metaGet metaPublicKey) (\<lambda>stored.
       if stored = [] then
         seq (metaSet metaPublicKey key) (\<lambda>_.
         seq (metaSet metaCreatedAt (format_time now)) (\<lambda>_.
         metaSet metaSchemaVersion stateSchemaVersion))
       else if normalizePublicKey u stored \<noteq> key then throw (ErrIdentityMismatch stored key)
       else give ())"

text \<open>The database files by their name; \<open>init\<close> creates the tables that are missing.\<close>

type_synonym files = "string \<Rightarrow> tables option"

definition init :: "unit stm" where
  "init = exec (\<lambda>t. t)"

definition OpenStateStore :: "unicode \<Rightarrow> go_time \<Rightarrow> string option list \<Rightarrow> string \<Rightarrow> files \<Rightarrow> (store_error + db) \<times> files" where
  "OpenStateStore u now faults publicKey files =
     (let key = normalizePublicKey u publicKey in
      if \<not> looksLikePublicKey key then (Inl (InvalidDeviceKey publicKey), files)
      else
        let name = StatePrefix u key;
            t = (case files name of Some t \<Rightarrow> t | None \<Rightarrow> empty_tables);
            (r, d) = seq init (\<lambda>_. ensureIdentity u now key) \<lparr>db_tables = t, db_faults = faults\<rparr>
        in (case r of Inl e \<Rightarrow> Inl e | Inr _ \<Rightarrow> Inr d, files(name \<mapsto> db_tables d)))"

section \<open>Messages\<close>

definition message_row_of :: "message_record \<Rightarrow> message_row" where
  "message_row_of rec =
     \<lparr>mw_rec = rec, mw_timestamp = rfc3339 (ms_Timestamp rec), mw_acknowledged_at = rfc3339 (ms_AcknowledgedAt rec),
      mw_created_at = rfc3339 (ms_CreatedAt rec)\<rparr>"

definition record_of_row :: "message_row \<Rightarrow> message_record" where
  "record_of_row r =
     (mw_rec r)\<lparr>ms_Timestamp := parseRFC3339 (mw_timestamp r), ms_AcknowledgedAt := parseRFC3339 (mw_acknowledged_at r),
       ms_CreatedAt := parseRFC3339 (mw_created_at r)\<rparr>"

text \<open>The identifier of a new row is one more than any that was ever given.\<close>

definition InsertMessage :: "go_time \<Rightarrow> message_record \<Rightarrow> message_record stm" where
  "InsertMessage now rec0 =
     (let rec1 = (if IsZero (ms_CreatedAt rec0) then rec0\<lparr>ms_CreatedAt := now\<rparr> else rec0);
          rec = (if IsZero (ms_Timestamp rec1) then rec1\<lparr>ms_Timestamp := now\<rparr> else rec1)
      in seq fault (\<lambda>_ d.
           let t = db_tables d; i = tb_sequence t + 1
           in (Inr (rec\<lparr>ms_ID := i\<rparr>),
               d\<lparr>db_tables := t\<lparr>tb_sequence := i, tb_messages := tb_messages t @ [message_row_of (rec\<lparr>ms_ID := i\<rparr>)]\<rparr>\<rparr>)))"

definition update_messages :: "(message_row \<Rightarrow> bool) \<Rightarrow> (message_row \<Rightarrow> message_row) \<Rightarrow> tables \<Rightarrow> tables" where
  "update_messages p f t = t\<lparr>tb_messages := map (\<lambda>r. if p r then f r else r) (tb_messages t)\<rparr>"

definition set_status :: "status \<Rightarrow> message_row \<Rightarrow> message_row" where
  "set_status s r = r\<lparr>mw_rec := (mw_rec r)\<lparr>ms_Status := s\<rparr>\<rparr>"

definition SetMessageStatus :: "int \<Rightarrow> status \<Rightarrow> string \<Rightarrow> unit stm" where
  "SetMessageStatus i s ackCode =
     (if ackCode = [] then exec (update_messages (\<lambda>r. ms_ID (mw_rec r) = i) (set_status s))
      else exec (update_messages (\<lambda>r. ms_ID (mw_rec r) = i)
             (\<lambda>r. r\<lparr>mw_rec := (mw_rec r)\<lparr>ms_Status := s, ms_AckCode := ackCode\<rparr>\<rparr>)))"

definition set_receptions :: "reception list \<Rightarrow> message_row \<Rightarrow> message_row" where
  "set_receptions rs r = r\<lparr>mw_rec := (mw_rec r)\<lparr>ms_Receptions := rs\<rparr>\<rparr>"

definition same_hearing :: "message_record \<Rightarrow> message_row \<Rightarrow> bool" where
  "same_hearing rec r \<longleftrightarrow> ms_Direction (mw_rec r) = MessageIn \<and> ms_Peer (mw_rec r) = ms_Peer rec \<and>
     ms_Text (mw_rec r) = ms_Text rec \<and> mw_timestamp r = rfc3339 (ms_Timestamp rec)"

definition RecordReceivedMessage :: "go_time \<Rightarrow> message_record \<Rightarrow> reception \<Rightarrow> bool stm" where
  "RecordReceivedMessage now rec hearing0 =
     (let hearing = (if IsZero (re_At hearing0) then hearing0\<lparr>re_At := now\<rparr> else hearing0) in
      seq (query (\<lambda>t. find (same_hearing rec) (tb_messages t))) (\<lambda>found.
        case found of
          None \<Rightarrow> seq (InsertMessage now (rec\<lparr>ms_SNR := re_SNR hearing, ms_Receptions := [hearing]\<rparr>)) (\<lambda>_. give True)
        | Some r \<Rightarrow>
            seq (exec (update_messages (\<lambda>x. ms_ID (mw_rec x) = ms_ID (mw_rec r))
                   (set_receptions (ms_Receptions (mw_rec r) @ [hearing])))) (\<lambda>_. give False)))"

definition awaits_ack :: "string \<Rightarrow> message_row \<Rightarrow> bool" where
  "awaits_ack ackCode r \<longleftrightarrow> ms_Direction (mw_rec r) = MessageOut \<and> ms_AckCode (mw_rec r) = ackCode"

text \<open>The row an update of \<open>AppendAck\<close> writes.\<close>

definition acked_row :: "reception \<Rightarrow> message_row \<Rightarrow> message_row" where
  "acked_row a r =
     r\<lparr>mw_rec := (mw_rec r)\<lparr>ms_Status := StatusDelivered, ms_Receptions := ms_Receptions (mw_rec r) @ [a]\<rparr>,
       mw_acknowledged_at := (if mw_acknowledged_at r = [] then rfc3339 (re_At a) else mw_acknowledged_at r)\<rparr>"

definition AppendAck :: "string \<Rightarrow> reception \<Rightarrow> unit stm" where
  "AppendAck ackCode a =
     (if ackCode = [] then give ()
      else seq (query (\<lambda>t. filter (awaits_ack ackCode) (tb_messages t))) (\<lambda>rows.
        for_each (\<lambda>r. exec (update_messages (\<lambda>x. ms_ID (mw_rec x) = ms_ID (mw_rec r)) (\<lambda>x.
            x\<lparr>mw_rec := (mw_rec x)\<lparr>ms_Status := StatusDelivered, ms_Receptions := ms_Receptions (mw_rec (acked_row a r))\<rparr>,
              mw_acknowledged_at := mw_acknowledged_at (acked_row a r)\<rparr>))) rows))"

definition MarkUnconfirmed :: "string \<Rightarrow> unit stm" where
  "MarkUnconfirmed ackCode =
     (if ackCode = [] then give ()
      else exec (update_messages (\<lambda>r. awaits_ack ackCode r \<and> ms_Status (mw_rec r) = StatusSent) (set_status StatusUnconfirmed)))"

record message_filter =
  mf_Direction :: "direction option"
  mf_Kind :: "kind option"
  mf_Peer :: string
  mf_Channel :: string
  mf_UnreadOnly :: bool
  mf_Limit :: int

definition passes :: "message_filter \<Rightarrow> message_row \<Rightarrow> bool" where
  "passes f r \<longleftrightarrow>
     (case mf_Direction f of None \<Rightarrow> True | Some x \<Rightarrow> ms_Direction (mw_rec r) = x) \<and>
     (case mf_Kind f of None \<Rightarrow> True | Some x \<Rightarrow> ms_Kind (mw_rec r) = x) \<and>
     (mf_Peer f = [] \<or> ms_Peer (mw_rec r) = mf_Peer f) \<and>
     (mf_Channel f = [] \<or> ms_Channel (mw_rec r) = mf_Channel f) \<and>
     (mf_UnreadOnly f \<longrightarrow> \<not> ms_Read (mw_rec r))"

definition Messages :: "message_filter \<Rightarrow> message_record list stm" where
  "Messages f = query (\<lambda>t.
     let rows = sort_key (\<lambda>r. (mw_timestamp r, ms_ID (mw_rec r))) (filter (passes f) (tb_messages t))
     in map record_of_row (if mf_Limit f > 0 then take (nat (mf_Limit f)) rows else rows))"

definition MarkMessagesRead :: "int list \<Rightarrow> unit stm" where
  "MarkMessagesRead ids =
     (if ids = [] then give ()
      else transaction (seq fault (\<lambda>_. for_each (\<lambda>i.
        exec (update_messages (\<lambda>r. ms_ID (mw_rec r) = i) (\<lambda>r. r\<lparr>mw_rec := (mw_rec r)\<lparr>ms_Read := True\<rparr>\<rparr>))) ids)))"

section \<open>Contacts\<close>

definition contact_key :: "unicode \<Rightarrow> contact \<Rightarrow> string" where
  "contact_key u ct = (if ct_PublicKey ct = [] then ''name:'' @ ToLower u (ct_Name ct) else ct_PublicKey ct)"

definition contact_row_of :: "unicode \<Rightarrow> go_time \<Rightarrow> contact \<Rightarrow> contact_row" where
  "contact_row_of u now ct =
     \<lparr>cw_public_key = contact_key u ct, cw_name = ct_Name ct, cw_type = ct_Type ct, cw_has_path = ct_HasPath ct,
      cw_latitude = ct_Latitude ct, cw_longitude = ct_Longitude ct,
      cw_last_advert = (if IsZero (ct_LastAdvert ct) then [] else format_time (ct_LastAdvert ct)),
      cw_stored_at = format_time now, cw_out_path_enc = ct_OutPathEnc ct, cw_out_path = ct_OutPath ct\<rparr>"

definition UpsertContacts :: "unicode \<Rightarrow> go_time \<Rightarrow> contact list \<Rightarrow> unit stm" where
  "UpsertContacts u now contacts =
     transaction (seq fault (\<lambda>_. for_each (\<lambda>ct.
       exec (\<lambda>t. t\<lparr>tb_contacts := upsert cw_public_key (contact_row_of u now ct) (tb_contacts t)\<rparr>)) contacts))"

definition UpsertContact :: "unicode \<Rightarrow> go_time \<Rightarrow> contact \<Rightarrow> unit stm" where
  "UpsertContact u now ct = UpsertContacts u now [ct]"

record contact_entry =
  ce_Contact :: contact
  ce_StoredAt :: string

definition scanContact :: "contact_row \<Rightarrow> store_error + contact_entry" where
  "scanContact r =
     (let ct = \<lparr>ct_Name = cw_name r, ct_PublicKey = cw_public_key r, ct_Type = cw_type r, ct_HasPath = cw_has_path r,
            ct_OutPathEnc = cw_out_path_enc r, ct_OutPath = cw_out_path r, ct_Latitude = cw_latitude r,
            ct_Longitude = cw_longitude r, ct_LastAdvert = zero_time, ct_LastMod = 0\<rparr>
      in if cw_last_advert r = [] then Inr \<lparr>ce_Contact = ct, ce_StoredAt = cw_stored_at r\<rparr>
         else case parse_time (cw_last_advert r) of
             None \<Rightarrow> Inl (BadTime (cw_last_advert r))
           | Some t \<Rightarrow> Inr \<lparr>ce_Contact = ct\<lparr>ct_LastAdvert := t\<rparr>, ce_StoredAt = cw_stored_at r\<rparr>)"

fun scan_all :: "('r \<Rightarrow> store_error + 'e) \<Rightarrow> 'r list \<Rightarrow> store_error + 'e list" where
  "scan_all f [] = Inr []"
| "scan_all f (r # rs) = and_ok (f r) (\<lambda>e. and_ok (scan_all f rs) (\<lambda>es. Inr (e # es)))"

definition Contacts_store :: "contact_entry list stm" where
  "Contacts_store = seq (query (\<lambda>t. sort_key (\<lambda>r. ascii_lower (cw_name r)) (tb_contacts t))) (\<lambda>rows d. (scan_all scanContact rows, d))"

fun find_contact :: "unicode \<Rightarrow> string \<Rightarrow> contact_entry list \<Rightarrow> contact_entry list \<Rightarrow> contact_entry + contact_entry list" where
  "find_contact u q parts [] = Inr parts"
| "find_contact u q parts (e # es) =
     (let name = ToLower u (ct_Name (ce_Contact e)); key = ToLower u (ct_PublicKey (ce_Contact e)) in
      if name = q \<or> key = q then Inl e
      else if Contains name q \<or> HasPrefix key q then find_contact u q (parts @ [e]) es
      else find_contact u q parts es)"

definition Contact_store :: "unicode \<Rightarrow> string \<Rightarrow> contact_entry stm" where
  "Contact_store u q0 =
     seq Contacts_store (\<lambda>contacts.
       case find_contact u (ToLower u (TrimSpace q0)) [] contacts of
         Inl e \<Rightarrow> give e
       | Inr parts \<Rightarrow>
           (case parts of
              [e] \<Rightarrow> give e
            | [] \<Rightarrow> throw NoRows
            | _ \<Rightarrow> throw (StoredContactAmbiguous q0 (length parts))))"

definition ClearContacts :: "unit stm" where
  "ClearContacts = exec (\<lambda>t. t\<lparr>tb_contacts := []\<rparr>)"

definition ContactLastMod :: "uint32 stm" where
  "ContactLastMod =
     seq (metaGet metaContactLastMod) (\<lambda>v.
       if v = [] then give 0
       else case ParseUint 32 v of None \<Rightarrow> throw BadContactLastMod | Some n \<Rightarrow> give (word_of_nat n))"

definition SetContactLastMod :: "uint32 \<Rightarrow> unit stm" where
  "SetContactLastMod lastMod = metaSet metaContactLastMod (show_nat (unat lastMod))"

section \<open>Channels\<close>

definition channel_row_of :: "crypto \<Rightarrow> go_time \<Rightarrow> channel \<Rightarrow> channel_row" where
  "channel_row_of cr now ch =
     \<lparr>hw_idx = cn_Index ch, hw_name = cn_Name ch, hw_key = channelKey cr (cn_Secret ch),
      hw_secret = (if cn_Secret ch = [] then [] else hex_EncodeToString (cn_Secret ch)),
      hw_private = isPrivateChannel cr (cn_Name ch) (cn_Secret ch), hw_stored_at = format_time now\<rparr>"

definition UpsertChannels :: "crypto \<Rightarrow> go_time \<Rightarrow> channel list \<Rightarrow> unit stm" where
  "UpsertChannels cr now channels =
     transaction (seq (exec (\<lambda>t. t\<lparr>tb_channels := []\<rparr>)) (\<lambda>_. seq fault (\<lambda>_. for_each (\<lambda>ch.
       exec (\<lambda>t. t\<lparr>tb_channels := upsert hw_idx (channel_row_of cr now ch) (tb_channels t)\<rparr>)) channels)))"

record channel_entry =
  he_Channel :: channel
  he_Key :: string
  he_Private :: bool
  he_StoredAt :: string

definition scan_channel :: "channel_row \<Rightarrow> channel_entry" where
  "scan_channel r =
     \<lparr>he_Channel = \<lparr>cn_Index = hw_idx r, cn_Name = hw_name r,
        cn_Secret = (if hw_secret r = [] then [] else case hex_DecodeString (hw_secret r) of Inr b \<Rightarrow> b | Inl _ \<Rightarrow> [])\<rparr>,
      he_Key = hw_key r, he_Private = hw_private r, he_StoredAt = hw_stored_at r\<rparr>"

definition Channels_store :: "channel_entry list stm" where
  "Channels_store = query (\<lambda>t. map scan_channel (sort_key hw_idx (tb_channels t)))"

definition Channel_store :: "unicode \<Rightarrow> string \<Rightarrow> channel_entry stm" where
  "Channel_store u q0 =
     seq Channels_store (\<lambda>channels.
       let q = TrimPrefix (TrimSpace q0) ''#'';
           hit = (case Atoi q of
                    Some i \<Rightarrow> find (\<lambda>e. cn_Index (he_Channel e) = i) channels
                  | None \<Rightarrow> find (\<lambda>e. EqualFold u (TrimPrefix (cn_Name (he_Channel e)) ''#'') q) channels)
       in case hit of Some e \<Rightarrow> give e | None \<Rightarrow> throw NoRows)"

section \<open>Repeater sessions\<close>

definition UpsertRepeaterSession :: "repeater_session \<Rightarrow> unit stm" where
  "UpsertRepeaterSession s =
     exec (\<lambda>t. t\<lparr>tb_sessions := upsert sw_repeater
       \<lparr>sw_repeater = ses_Repeater s, sw_public_key = ses_PublicKey s, sw_logged_in_at = rfc3339 (ses_LoggedInAt s),
        sw_expires_at = rfc3339 (ses_ExpiresAt s), sw_permissions = ses_Permissions s, sw_tag = ses_Tag s\<rparr> (tb_sessions t)\<rparr>)"

definition read_time :: "string \<Rightarrow> store_error + go_time" where
  "read_time s = (if s = [] then Inr zero_time else case parse_time s of None \<Rightarrow> Inl (BadTime s) | Some t \<Rightarrow> Inr t)"

definition RepeaterSession_store :: "string \<Rightarrow> repeater_session stm" where
  "RepeaterSession_store repeater =
     seq (query (\<lambda>t. find (\<lambda>r. sw_repeater r = repeater) (tb_sessions t))) (\<lambda>row d.
       (case row of
          None \<Rightarrow> Inl NoRows
        | Some r \<Rightarrow>
            and_ok (read_time (sw_logged_in_at r)) (\<lambda>loggedIn.
            and_ok (read_time (sw_expires_at r)) (\<lambda>expires.
            Inr \<lparr>ses_Repeater = sw_repeater r, ses_PublicKey = sw_public_key r, ses_LoggedInAt = loggedIn,
              ses_ExpiresAt = expires, ses_Permissions = sw_permissions r, ses_Tag = sw_tag r\<rparr>)), d))"

definition ClearRepeaterSession :: "string \<Rightarrow> unit stm" where
  "ClearRepeaterSession repeater = exec (\<lambda>t. t\<lparr>tb_sessions := filter (\<lambda>r. sw_repeater r \<noteq> repeater) (tb_sessions t)\<rparr>)"

section \<open>Statements that succeed\<close>

lemma fault_ok [simp]: "db_faults d = [] \<Longrightarrow> fault d = (Inr (), d)"
  by (simp add: fault_def)

lemma fault_tables: "fault d = (r, d') \<Longrightarrow> db_tables d' = db_tables d"
  by (auto simp: fault_def split: list.splits)

lemma seq_ok [simp]: "m d = (Inr x, d') \<Longrightarrow> seq m f d = f x d'"
  by (simp add: seq_def)

lemma seq_fail [simp]: "m d = (Inl e, d') \<Longrightarrow> seq m f d = (Inl e, d')"
  by (simp add: seq_def)

lemma give_ok [simp]: "give x d = (Inr x, d)" "throw e d = (Inl e, d)"
  by (simp_all add: give_def throw_def)

lemma query_ok [simp]: "db_faults d = [] \<Longrightarrow> query f d = (Inr (f (db_tables d)), d)"
  by (simp add: query_def)

lemma exec_ok [simp]: "db_faults d = [] \<Longrightarrow> exec f d = (Inr (), d\<lparr>db_tables := f (db_tables d)\<rparr>)"
  by (simp add: exec_def)

lemma for_each_ok [simp]:
  "db_faults d = [] \<Longrightarrow> for_each (\<lambda>x. exec (g x)) xs d = (Inr (), d\<lparr>db_tables := fold g xs (db_tables d)\<rparr>)"
  by (induction xs arbitrary: d) simp_all

lemma transaction_ok:
  "db_faults d = [] \<Longrightarrow> body d = (Inr (), d') \<Longrightarrow> db_faults d' = [] \<Longrightarrow> transaction body d = (Inr (), d')"
  by (simp add: transaction_def)

text \<open>Whatever fails, a transaction changes everything or nothing.\<close>

lemma transaction_atomic: "transaction body d = (Inl e, d') \<Longrightarrow> db_tables d' = db_tables d"
  by (auto simp: transaction_def split: prod.splits sum.splits)

lemma transaction_failed: "fst (transaction body d) = Inl e \<Longrightarrow> db_tables (snd (transaction body d)) = db_tables d"
  by (cases "transaction body d") (simp add: transaction_atomic)

lemma exec_tables: "exec f d = (r, d') \<Longrightarrow> db_tables d' = db_tables d \<or> db_tables d' = f (db_tables d)"
  by (auto simp: exec_def seq_def split: prod.splits sum.splits dest: fault_tables)

lemma query_tables: "query f d = (r, d') \<Longrightarrow> db_tables d' = db_tables d \<and> (\<forall>x. r = Inr x \<longrightarrow> x = f (db_tables d))"
  by (auto simp: query_def seq_def split: prod.splits sum.splits dest: fault_tables)

section \<open>The contact table as a map\<close>

lemma upsert_keys: "set (map key (upsert key r xs)) = insert (key r) (set (map key xs))"
  by (induction xs) auto

lemma upsert_distinct: "distinct (map key xs) \<Longrightarrow> distinct (map key (upsert key r xs))"
  using upsert_keys [of key r] by (induction xs) auto

lemma upsert_map_of: "map_of (map (\<lambda>x. (key x, x)) (upsert key r xs)) = (map_of (map (\<lambda>x. (key x, x)) xs))(key r \<mapsto> r)"
  by (induction xs) auto

text \<open>The contact stored under a key, as it is read back.\<close>

definition stored_contact :: "db \<Rightarrow> string \<Rightarrow> contact option" where
  "stored_contact d k =
     (case map_of (map (\<lambda>r. (cw_public_key r, r)) (tb_contacts (db_tables d))) k of
        None \<Rightarrow> None
      | Some r \<Rightarrow> (case scanContact r of Inl _ \<Rightarrow> None | Inr e \<Rightarrow> Some (ce_Contact e)))"

definition contact_ok :: "contact \<Rightarrow> bool" where
  "contact_ok ct \<longleftrightarrow> ct_PublicKey ct \<noteq> [] \<and> (IsZero (ct_LastAdvert ct) \<or> time_ok (ct_LastAdvert ct))"

lemma format_time_neq_Nil [simp]: "format_time t \<noteq> []"
  by (simp add: format_time_def Let_def split: prod.split)

lemma scan_contact_row: "contact_ok ct \<Longrightarrow> scanContact (contact_row_of u now ct) =
    Inr \<lparr>ce_Contact = ct\<lparr>ct_LastMod := 0\<rparr>, ce_StoredAt = format_time now\<rparr>"
  by (auto simp: contact_ok_def scanContact_def contact_row_of_def contact_key_def parse_format_time IsZero_def)

lemma UpsertContacts_ok:
  assumes "db_faults d = []"
  shows "UpsertContacts u now cts d = (Inr (), d\<lparr>db_tables := fold (\<lambda>ct t.
    t\<lparr>tb_contacts := upsert cw_public_key (contact_row_of u now ct) (tb_contacts t)\<rparr>) cts (db_tables d)\<rparr>)"
  unfolding UpsertContacts_def by (rule transaction_ok) (use assms in simp_all)

lemma stored_contact_upsert:
  assumes "list_all contact_ok cts"
  shows "stored_contact (d\<lparr>db_tables := fold (\<lambda>ct t.
      t\<lparr>tb_contacts := upsert cw_public_key (contact_row_of u now ct) (tb_contacts t)\<rparr>) cts (db_tables d)\<rparr>) =
    fold (\<lambda>ct m. m(ct_PublicKey ct \<mapsto> ct\<lparr>ct_LastMod := 0\<rparr>)) cts (stored_contact d)"
  using assms
proof (induction cts arbitrary: d)
  case (Cons ct cts)
  let ?d = "d\<lparr>db_tables := (db_tables d)\<lparr>tb_contacts := upsert cw_public_key (contact_row_of u now ct) (tb_contacts (db_tables d))\<rparr>\<rparr>"
  have "stored_contact ?d = (stored_contact d)(ct_PublicKey ct \<mapsto> ct\<lparr>ct_LastMod := 0\<rparr>)"
    using Cons.prems scan_contact_row [of ct u now]
    by (auto simp: stored_contact_def fun_eq_iff upsert_map_of contact_ok_def contact_row_of_def contact_key_def)
  with Cons.IH [of ?d] Cons.prems show ?case by simp
qed (simp add: stored_contact_def fun_eq_iff)

text \<open>Keys are unique and every row can be read.\<close>

definition contacts_ok :: "db \<Rightarrow> bool" where
  "contacts_ok d \<longleftrightarrow> distinct (map cw_public_key (tb_contacts (db_tables d))) \<and>
     list_all (\<lambda>r. \<exists>e. scanContact r = Inr e) (tb_contacts (db_tables d))"

lemma upsert_set: "set (upsert key r xs) \<subseteq> insert r (set xs)"
  by (induction xs) auto

lemma contacts_ok_upsert:
  assumes "contacts_ok d" and "list_all contact_ok cts"
  shows "contacts_ok (d\<lparr>db_tables := fold (\<lambda>ct t.
      t\<lparr>tb_contacts := upsert cw_public_key (contact_row_of u now ct) (tb_contacts t)\<rparr>) cts (db_tables d)\<rparr>)"
  using assms
proof (induction cts arbitrary: d)
  case (Cons ct cts)
  let ?r = "contact_row_of u now ct"
  let ?d = "d\<lparr>db_tables := (db_tables d)\<lparr>tb_contacts := upsert cw_public_key ?r (tb_contacts (db_tables d))\<rparr>\<rparr>"
  have "contacts_ok ?d"
    using Cons.prems upsert_distinct [of cw_public_key "tb_contacts (db_tables d)" ?r]
      upsert_set [of cw_public_key ?r "tb_contacts (db_tables d)"] scan_contact_row [of ct u now]
    unfolding contacts_ok_def list_all_iff by auto
  from Cons.IH [OF this] Cons.prems show ?case by simp
qed (simp add: contacts_ok_def)

lemma scan_all_ok:
  "list_all (\<lambda>r. \<exists>e. f r = Inr e) rs \<Longrightarrow> \<exists>es. scan_all f rs = Inr es \<and> list_all2 (\<lambda>r e. f r = Inr e) rs es"
  by (induction rs) auto

lemma ran_case: "ran (\<lambda>k. case m k of None \<Rightarrow> None | Some r \<Rightarrow> g r) = {c. \<exists>r \<in> ran m. g r = Some c}"
  by (fastforce simp: ran_def split: option.splits)

lemma Contacts_store_lists:
  assumes "db_faults d = []" and "contacts_ok d"
  shows "\<exists>es. Contacts_store d = (Inr es, d) \<and> set (map ce_Contact es) = ran (stored_contact d) \<and>
    length es = length (tb_contacts (db_tables d))"
proof -
  let ?t = "tb_contacts (db_tables d)" and ?rows = "sort_key (\<lambda>r. ascii_lower (cw_name r)) (tb_contacts (db_tables d))"
  obtain es where es: "scan_all scanContact ?rows = Inr es" "list_all2 (\<lambda>r e. scanContact r = Inr e) ?rows es"
    using scan_all_ok [of scanContact ?rows] assms(2) by (auto simp: contacts_ok_def list_all_iff)
  have "set es = {e. \<exists>r \<in> set ?t. scanContact r = Inr e}"
  proof -
    have "set es = {e. \<exists>r \<in> set ?rows. scanContact r = Inr e}"
      using es(2) by (induction rule: list_all2_induct) auto
    then show ?thesis by simp
  qed
  moreover have "ran (stored_contact d) = ce_Contact ` {e. \<exists>r \<in> set ?t. scanContact r = Inr e}"
  proof -
    have "ran (map_of (map (\<lambda>r. (cw_public_key r, r)) ?t)) = set ?t"
      using assms(2) ran_distinct [of "map (\<lambda>r. (cw_public_key r, r)) ?t"] by (simp add: contacts_ok_def comp_def image_image)
    then have "ran (stored_contact d) = {c. \<exists>r \<in> set ?t. (case scanContact r of Inl _ \<Rightarrow> None | Inr e \<Rightarrow> Some (ce_Contact e)) = Some c}"
      unfolding stored_contact_def [abs_def] ran_case by simp
    moreover have "(case x of Inl _ \<Rightarrow> None | Inr e \<Rightarrow> Some (ce_Contact e)) = Some c \<longleftrightarrow> (\<exists>e. x = Inr e \<and> c = ce_Contact e)"
      for x :: "store_error + contact_entry" and c by (cases x) auto
    ultimately show ?thesis by blast
  qed
  ultimately have "set (map ce_Contact es) = ran (stored_contact d)" by simp
  moreover have "length es = length ?t" using list_all2_lengthD [OF es(2)] by simp
  ultimately show ?thesis using assms(1) es(1) by (auto simp: Contacts_store_def)
qed

text \<open>C24: The contact table behaves as a map from public keys to contacts. Storing a list of contacts makes
  each of them the one stored under its key, the last one where a key occurs twice, and keeps every other
  contact; clearing empties the map; reading returns exactly the contacts of the map. A contact comes back
  as it was stored, including its path and the time of its last advertisement to the nanosecond, except
  for its modification counter, which is not stored. When any statement fails, an update has no effect.\<close>

theorem contact_store_refines_map:
  assumes "contacts_ok d" and "list_all contact_ok cts"
  shows "(db_faults d = [] \<longrightarrow>
      (\<exists>d'. UpsertContacts u now cts d = (Inr (), d') \<and>
         stored_contact d' = fold (\<lambda>ct m. m(ct_PublicKey ct \<mapsto> ct\<lparr>ct_LastMod := 0\<rparr>)) cts (stored_contact d) \<and>
         (\<exists>es. Contacts_store d' = (Inr es, d') \<and> set (map ce_Contact es) = ran (stored_contact d'))) \<and>
      stored_contact (snd (ClearContacts d)) = Map.empty) \<and>
    (\<forall>e. fst (UpsertContacts u now cts d) = Inl e \<longrightarrow> stored_contact (snd (UpsertContacts u now cts d)) = stored_contact d)"
proof (intro conjI impI allI)
  assume ok: "db_faults d = []"
  obtain d' where d': "UpsertContacts u now cts d = (Inr (), d')" "db_faults d' = []" "contacts_ok d'"
    "stored_contact d' = fold (\<lambda>ct m. m(ct_PublicKey ct \<mapsto> ct\<lparr>ct_LastMod := 0\<rparr>)) cts (stored_contact d)"
    using UpsertContacts_ok [OF ok] contacts_ok_upsert [OF assms] stored_contact_upsert [OF assms(2)] ok by auto
  with Contacts_store_lists [OF d'(2, 3)]
  show "\<exists>d'. UpsertContacts u now cts d = (Inr (), d') \<and>
      stored_contact d' = fold (\<lambda>ct m. m(ct_PublicKey ct \<mapsto> ct\<lparr>ct_LastMod := 0\<rparr>)) cts (stored_contact d) \<and>
      (\<exists>es. Contacts_store d' = (Inr es, d') \<and> set (map ce_Contact es) = ran (stored_contact d'))" by blast
  show "stored_contact (snd (ClearContacts d)) = Map.empty"
    using ok by (simp add: ClearContacts_def stored_contact_def fun_eq_iff)
next
  fix e
  assume "fst (UpsertContacts u now cts d) = Inl e"
  then have "db_tables (snd (UpsertContacts u now cts d)) = db_tables d"
    unfolding UpsertContacts_def by (rule transaction_failed)
  then show "stored_contact (snd (UpsertContacts u now cts d)) = stored_contact d"
    by (simp add: stored_contact_def fun_eq_iff)
qed

definition empty_db :: db where
  "empty_db = \<lparr>db_tables = empty_tables, db_faults = []\<rparr>"

lemma time_ok_sample: "time_ok (time_Unix 1700000000)" "time_ok (time_Unix 1700000001)"
proof -
  have "date_of_day 19675 = (2023, 11, 14)" by code_simp
  then show "time_ok (time_Unix 1700000000)" "time_ok (time_Unix 1700000001)"
    by (simp_all add: time_ok_def time_year_def time_Unix_def)
qed

theorem contact_store_refines_map_witness:
  "\<exists>d'. UpsertContacts ascii_text (time_Unix 0)
       [(named_contact ''bob'')\<lparr>ct_PublicKey := ''ab'', ct_LastAdvert := time_Unix 1700000000\<rparr>] empty_db = (Inr (), d') \<and>
     stored_contact d' ''ab'' = Some ((named_contact ''bob'')\<lparr>ct_PublicKey := ''ab'', ct_LastAdvert := time_Unix 1700000000\<rparr>)"
proof -
  let ?ct = "(named_contact ''bob'')\<lparr>ct_PublicKey := ''ab'', ct_LastAdvert := time_Unix 1700000000\<rparr>"
  have "contact_ok ?ct" using time_ok_sample by (simp add: contact_ok_def)
  moreover have "contacts_ok empty_db" by (simp add: contacts_ok_def empty_db_def empty_tables_def)
  moreover have "db_faults empty_db = []" by (simp add: empty_db_def)
  ultimately obtain d' where "UpsertContacts ascii_text (time_Unix 0) [?ct] empty_db = (Inr (), d')"
    "stored_contact d' = fold (\<lambda>ct m. m(ct_PublicKey ct \<mapsto> ct\<lparr>ct_LastMod := 0\<rparr>)) [?ct] (stored_contact empty_db)"
    using contact_store_refines_map [of empty_db "[?ct]" ascii_text "time_Unix 0"] by auto
  then show ?thesis by (simp add: named_contact_def)
qed

end
