(* ===== verification/Message_History.thy ===== *)
theory Message_History
  imports State_Store
begin

text \<open>
  What happens to stored messages (\<open>backend/sqlite_store.go\<close>): identifiers stay unique, no message is lost or
  altered, receptions accumulate, a delivered message stays delivered, and a message heard over several
  paths is stored once. The facts hold whatever statement of the database fails.
\<close>

section \<open>What may change in a row\<close>

definition msg_le :: "message_row \<Rightarrow> message_row \<Rightarrow> bool" where
  "msg_le r r' \<longleftrightarrow> ms_ID (mw_rec r') = ms_ID (mw_rec r) \<and> ms_Direction (mw_rec r') = ms_Direction (mw_rec r) \<and>
     ms_Kind (mw_rec r') = ms_Kind (mw_rec r) \<and> ms_Peer (mw_rec r') = ms_Peer (mw_rec r) \<and>
     ms_Text (mw_rec r') = ms_Text (mw_rec r) \<and> mw_timestamp r' = mw_timestamp r \<and>
     prefix (ms_Receptions (mw_rec r)) (ms_Receptions (mw_rec r')) \<and>
     (ms_Read (mw_rec r) \<longrightarrow> ms_Read (mw_rec r')) \<and>
     (ms_Status (mw_rec r) = StatusDelivered \<longrightarrow> ms_Status (mw_rec r') = StatusDelivered)"

lemma msg_le_refl [simp]: "msg_le r r"
  by (simp add: msg_le_def)

lemma msg_le_trans: "msg_le a b \<Longrightarrow> msg_le b c \<Longrightarrow> msg_le a c"
  by (auto simp: msg_le_def intro: prefix_order.trans)

definition rows_le :: "message_row list \<Rightarrow> message_row list \<Rightarrow> bool" where
  "rows_le xs ys \<longleftrightarrow> (\<exists>upd new. ys = upd @ new \<and> list_all2 msg_le xs upd)"

lemma rows_le_refl [simp]: "rows_le xs xs"
  unfolding rows_le_def by (intro exI [of _ xs] exI [of _ "[]"]) (simp add: list_all2_refl)

lemma rows_le_trans:
  assumes "rows_le xs ys" and "rows_le ys zs"
  shows "rows_le xs zs"
proof -
  from assms obtain u n v w where "ys = u @ n" "list_all2 msg_le xs u" "zs = v @ w" "list_all2 msg_le ys v"
    by (auto simp: rows_le_def)
  moreover from this(4, 1) obtain v1 v2 where "v = v1 @ v2" "list_all2 msg_le u v1"
    by (auto simp: list_all2_append1)
  moreover from calculation have "list_all2 msg_le xs v1" using list_all2_trans [of msg_le msg_le msg_le] msg_le_trans by blast
  ultimately show ?thesis unfolding rows_le_def by (metis append.assoc)
qed

definition messages_ok :: "tables \<Rightarrow> bool" where
  "messages_ok t \<longleftrightarrow> distinct (map (\<lambda>r. ms_ID (mw_rec r)) (tb_messages t)) \<and>
     list_all (\<lambda>r. ms_ID (mw_rec r) \<le> tb_sequence t) (tb_messages t)"

definition grows :: "tables \<Rightarrow> tables \<Rightarrow> bool" where
  "grows t t' \<longleftrightarrow> messages_ok t' \<and> rows_le (tb_messages t) (tb_messages t')"

lemma grows_refl: "messages_ok t \<Longrightarrow> grows t t"
  by (simp add: grows_def)

lemma grows_trans: "grows a b \<Longrightarrow> grows b c \<Longrightarrow> grows a c"
  by (auto simp: grows_def intro: rows_le_trans)

lemma grows_same: "messages_ok t \<Longrightarrow> tb_messages t' = tb_messages t \<Longrightarrow> tb_sequence t' = tb_sequence t \<Longrightarrow> grows t t'"
  by (simp add: grows_def messages_ok_def)

lemma same_row:
  "messages_ok t \<Longrightarrow> x \<in> set (tb_messages t) \<Longrightarrow> y \<in> set (tb_messages t) \<Longrightarrow> ms_ID (mw_rec x) = ms_ID (mw_rec y) \<Longrightarrow> x = y"
  by (auto simp: messages_ok_def distinct_map inj_on_def)

lemma grows_update:
  assumes "messages_ok t" and "\<And>r. r \<in> set (tb_messages t) \<Longrightarrow> p r \<Longrightarrow> msg_le r (f r)"
  shows "grows t (update_messages p f t)"
proof -
  define g where "g r = (if p r then f r else r)" for r
  have le: "msg_le r (g r)" if "r \<in> set (tb_messages t)" for r using that assms(2) by (simp add: g_def)
  then have "ms_ID (mw_rec (g r)) = ms_ID (mw_rec r)" if "r \<in> set (tb_messages t)" for r
    using that unfolding msg_le_def by blast
  then have ids: "map (\<lambda>r. ms_ID (mw_rec r)) (map g (tb_messages t)) = map (\<lambda>r. ms_ID (mw_rec r)) (tb_messages t)" by simp
  have all: "list_all (\<lambda>r. ms_ID (mw_rec r) \<le> n) xs = list_all (\<lambda>i. i \<le> n) (map (\<lambda>r. ms_ID (mw_rec r)) xs)" for n xs
    by (simp add: list.pred_map comp_def)
  have "rows_le (tb_messages t) (map g (tb_messages t))"
    unfolding rows_le_def using le
    by (intro exI [of _ "map g (tb_messages t)"] exI [of _ "[]"]) (simp add: list_all2_conv_all_nth)
  with ids assms(1) have "grows t (t\<lparr>tb_messages := map g (tb_messages t)\<rparr>)"
    unfolding grows_def messages_ok_def all by (simp del: map_map)
  then show ?thesis by (simp add: update_messages_def g_def [abs_def])
qed

section \<open>Statements that let the messages grow\<close>

named_theorems keeps_intros

definition keeps :: "'a stm \<Rightarrow> bool" where
  "keeps m \<longleftrightarrow> (\<forall>d. messages_ok (db_tables d) \<longrightarrow> grows (db_tables d) (db_tables (snd (m d))))"

lemma keeps_fault [keeps_intros]: "keeps fault"
  unfolding keeps_def by (metis fault_tables grows_refl prod.collapse)

lemma keeps_give [keeps_intros]: "keeps (give x)" "keeps (throw e)"
  by (simp_all add: keeps_def grows_refl)

lemma keeps_query [keeps_intros]: "keeps (query f)"
  unfolding keeps_def by (metis query_tables grows_refl prod.collapse)

lemma keeps_exec: "(\<And>t. messages_ok t \<Longrightarrow> grows t (f t)) \<Longrightarrow> keeps (exec f)"
  unfolding keeps_def by (metis exec_tables grows_refl prod.collapse)

lemma keeps_seq [keeps_intros]:
  assumes "keeps m" and "\<And>x. keeps (f x)"
  shows "keeps (seq m f)"
  unfolding keeps_def
proof (intro allI impI)
  fix d :: db
  assume ok: "messages_ok (db_tables d)"
  obtain r d1 where m: "m d = (r, d1)" by force
  with assms(1) ok have g: "grows (db_tables d) (db_tables d1)" by (auto simp: keeps_def)
  show "grows (db_tables d) (db_tables (snd (seq m f d)))"
  proof (cases r)
    case (Inr x)
    have "grows (db_tables d1) (db_tables (snd (f x d1)))" using assms(2) g by (simp add: keeps_def grows_def)
    with m g Inr show ?thesis by (auto intro: grows_trans)
  qed (use m g in simp)
qed

lemma keeps_for_each [keeps_intros]: "(\<And>x. keeps (f x)) \<Longrightarrow> keeps (for_each f xs)"
  by (induction xs) (auto intro: keeps_intros)

lemma keeps_transaction [keeps_intros]:
  assumes "keeps body"
  shows "keeps (transaction body)"
proof -
  have "keeps (seq fault (\<lambda>_. seq body (\<lambda>_. fault)))" by (intro keeps_intros assms)
  then show ?thesis
    by (auto simp: keeps_def transaction_def grows_refl split: prod.splits sum.splits)
qed

lemma keeps_other [keeps_intros]:
  "(\<And>t. tb_messages (f t) = tb_messages t \<and> tb_sequence (f t) = tb_sequence t) \<Longrightarrow> keeps (exec f)"
  by (rule keeps_exec) (simp add: grows_same)

lemma keeps_update:
  "(\<And>r. p r \<Longrightarrow> msg_le r (f r)) \<Longrightarrow> keeps (exec (update_messages p f))"
  by (rule keeps_exec) (rule grows_update)


lemma keeps_query_then:
  assumes "\<And>d. messages_ok (db_tables d) \<Longrightarrow> grows (db_tables d) (db_tables (snd (g (f (db_tables d)) d)))"
  shows "keeps (seq (query f) g)"
  unfolding keeps_def
proof (intro allI impI)
  fix d :: db
  assume ok: "messages_ok (db_tables d)"
  obtain r d1 where q: "query f d = (r, d1)" by force
  from query_tables [OF q] have t: "db_tables d1 = db_tables d" by simp
  show "grows (db_tables d) (db_tables (snd (seq (query f) g d)))"
  proof (cases r)
    case (Inr x)
    with query_tables [OF q] have "x = f (db_tables d1)" by simp
    with q Inr assms [of d1] ok t show ?thesis by simp
  qed (use q t ok in \<open>simp add: grows_refl\<close>)
qed

text \<open>A loop over rows that were read at its start writes each of them as if it read it again.\<close>

definition row_id :: "message_row \<Rightarrow> int" where
  "row_id r = ms_ID (mw_rec r)"

lemma for_each_row:
  assumes "messages_ok (db_tables d)" and "set rs \<subseteq> set (tb_messages (db_tables d))" and "distinct (map row_id rs)"
    and "\<And>r. msg_le r (f r r)"
  shows "grows (db_tables d) (db_tables (snd (for_each (\<lambda>r. exec (update_messages (\<lambda>x. ms_ID (mw_rec x) = ms_ID (mw_rec r)) (f r))) rs d)))"
  using assms(1-3)
proof (induction rs arbitrary: d)
  case (Cons r rs)
  let ?p = "\<lambda>x. ms_ID (mw_rec x) = ms_ID (mw_rec r)"
  obtain x d1 where e: "exec (update_messages ?p (f r)) d = (x, d1)" by force
  have g: "grows (db_tables d) (update_messages ?p (f r) (db_tables d))"
    by (rule grows_update) (use Cons.prems same_row assms(4) in auto)
  with exec_tables [OF e] Cons.prems(1) have g1: "grows (db_tables d) (db_tables d1)"
    by (auto simp: grows_refl)
  have "y \<in> set (tb_messages (db_tables d1))" if "y \<in> set rs" for y
  proof -
    from that Cons.prems(2, 3) have "y \<in> set (tb_messages (db_tables d))" "ms_ID (mw_rec y) \<noteq> ms_ID (mw_rec r)"
      by (auto simp: row_id_def) (metis image_eqI)
    then show ?thesis using exec_tables [OF e] by (auto simp: update_messages_def image_iff intro: bexI [of _ y])
  qed
  with Cons.IH [of d1] g1 Cons.prems(3) e show ?case
    by (cases x) (auto simp: grows_def intro: rows_le_trans)
qed (simp add: grows_refl)

section \<open>The operations of the store\<close>

lemma msg_le_simps [simp]:
  "msg_le r (set_receptions (ms_Receptions (mw_rec r) @ [a]) r)"
  "msg_le r (r\<lparr>mw_rec := (mw_rec r)\<lparr>ms_Read := True\<rparr>\<rparr>)"
  by (simp_all add: msg_le_def set_receptions_def)

lemma keeps_InsertMessage [keeps_intros]: "keeps (InsertMessage now rec)"
  unfolding keeps_def
proof (intro allI impI)
  fix d :: db
  assume ok: "messages_ok (db_tables d)"
  obtain r d1 where f: "fault d = (r, d1)" by force
  with fault_tables have t: "db_tables d1 = db_tables d" by blast
  from ok have fresh: "tb_sequence (db_tables d) + 1 \<notin> (\<lambda>r. ms_ID (mw_rec r)) ` set (tb_messages (db_tables d))"
    by (auto simp: messages_ok_def list_all_iff)
  have le: "rows_le xs (xs @ [x])" for xs x unfolding rows_le_def by (intro exI [of _ xs] exI [of _ "[x]"]) (simp add: list_all2_refl)
  from ok have "list_all (\<lambda>r. ms_ID (mw_rec r) \<le> tb_sequence (db_tables d) + 1) (tb_messages (db_tables d))"
    by (auto simp: messages_ok_def list_all_iff)
  with ok fresh f t le show "grows (db_tables d) (db_tables (snd (InsertMessage now rec d)))"
    by (cases r) (auto simp: InsertMessage_def Let_def grows_def messages_ok_def message_row_of_def)
qed

lemma keeps_RecordReceivedMessage [keeps_intros]: "keeps (RecordReceivedMessage now rec a)"
  unfolding RecordReceivedMessage_def Let_def
proof (rule keeps_query_then, goal_cases)
  case (1 d)
  let ?a = "if IsZero (re_At a) then a\<lparr>re_At := now\<rparr> else a"
  show ?case
  proof (cases "find (same_hearing rec) (tb_messages (db_tables d))")
    case None
    have "keeps (seq (InsertMessage now (rec\<lparr>ms_SNR := re_SNR ?a, ms_Receptions := [?a]\<rparr>)) (\<lambda>_. give True))"
      by (intro keeps_intros)
    with 1 None show ?thesis by (simp add: keeps_def)
  next
    case (Some r)
    then have r: "r \<in> set (tb_messages (db_tables d))" by (auto simp: find_Some_iff)
    let ?f = "set_receptions (ms_Receptions (mw_rec r) @ [?a])"
    have "grows (db_tables d) (db_tables (snd (for_each (\<lambda>r. exec (update_messages (\<lambda>x. ms_ID (mw_rec x) = ms_ID (mw_rec r))
        (set_receptions (ms_Receptions (mw_rec r) @ [?a])))) [r] d)))"
      by (rule for_each_row) (use 1 r in \<open>simp_all add: row_id_def\<close>)
    then show ?thesis using Some
      by (cases "exec (update_messages (\<lambda>x. ms_ID (mw_rec x) = ms_ID (mw_rec r)) ?f) d"; cases "fst (exec (update_messages (\<lambda>x. ms_ID (mw_rec x) = ms_ID (mw_rec r)) ?f) d)") simp_all
  qed
qed

lemma keeps_AppendAck [keeps_intros]: "keeps (AppendAck code a)"
proof (cases "code = []")
  case False
  have "keeps (seq (query (\<lambda>t. filter (awaits_ack code) (tb_messages t))) (\<lambda>rows.
        for_each (\<lambda>r. exec (update_messages (\<lambda>x. ms_ID (mw_rec x) = ms_ID (mw_rec r)) (\<lambda>x.
            x\<lparr>mw_rec := (mw_rec x)\<lparr>ms_Status := StatusDelivered, ms_Receptions := ms_Receptions (mw_rec (acked_row a r))\<rparr>,
              mw_acknowledged_at := mw_acknowledged_at (acked_row a r)\<rparr>))) rows))"
  proof (rule keeps_query_then, rule for_each_row)
    fix d :: db
    assume ok: "messages_ok (db_tables d)"
    then show "distinct (map row_id (filter (awaits_ack code) (tb_messages (db_tables d))))"
      unfolding messages_ok_def row_id_def by (simp add: distinct_map inj_on_def)
  qed (simp_all add: msg_le_def acked_row_def)
  with False show ?thesis by (simp add: AppendAck_def)
qed (simp add: AppendAck_def keeps_intros)

lemma keeps_MarkUnconfirmed [keeps_intros]: "keeps (MarkUnconfirmed code)"
  by (auto simp: MarkUnconfirmed_def msg_le_def set_status_def intro!: keeps_intros keeps_update)

lemma keeps_MarkMessagesRead [keeps_intros]: "keeps (MarkMessagesRead ids)"
  by (auto simp: MarkMessagesRead_def intro!: keeps_intros keeps_update)

lemma keeps_SetMessageStatus:
  "messages_ok (db_tables d) \<Longrightarrow> list_all (\<lambda>r. ms_ID (mw_rec r) = i \<longrightarrow> ms_Status (mw_rec r) \<noteq> StatusDelivered) (tb_messages (db_tables d)) \<Longrightarrow>
   grows (db_tables d) (db_tables (snd (SetMessageStatus i s code d)))"
proof -
  assume ok: "messages_ok (db_tables d)"
    "list_all (\<lambda>r. ms_ID (mw_rec r) = i \<longrightarrow> ms_Status (mw_rec r) \<noteq> StatusDelivered) (tb_messages (db_tables d))"
  have "grows (db_tables d) (db_tables (snd (exec (update_messages (\<lambda>r. ms_ID (mw_rec r) = i) f) d)))"
    if "\<And>r. ms_Status (mw_rec r) \<noteq> StatusDelivered \<Longrightarrow> msg_le r (f r)" for f
  proof -
    have "grows (db_tables d) (update_messages (\<lambda>r. ms_ID (mw_rec r) = i) f (db_tables d))"
      by (rule grows_update) (use ok that in \<open>auto simp: list_all_iff\<close>)
    then show ?thesis using exec_tables [of _ d] ok(1) grows_refl by (metis prod.collapse)
  qed
  then show ?thesis by (simp add: SetMessageStatus_def set_status_def msg_le_def)
qed

lemma keeps_contacts [keeps_intros]:
  "keeps (UpsertContacts u now cts)" "keeps (UpsertContact u now ct)" "keeps ClearContacts" "keeps (SetContactLastMod n)"
  by (auto simp: UpsertContacts_def UpsertContact_def ClearContacts_def SetContactLastMod_def metaSet_def intro!: keeps_intros)

lemma keeps_channels [keeps_intros]: "keeps (UpsertChannels cr now chs)"
  by (auto simp: UpsertChannels_def intro!: keeps_intros)

lemma keeps_sessions [keeps_intros]: "keeps (UpsertRepeaterSession s)" "keeps (ClearRepeaterSession q)"
  by (auto simp: UpsertRepeaterSession_def ClearRepeaterSession_def intro!: keeps_intros)

text \<open>The calls that change the database. The status of a message is set while it is being sent, before it
  can have been delivered.\<close>

inductive store_step :: "db \<Rightarrow> db \<Rightarrow> bool" where
  insert: "store_step d (snd (InsertMessage now rec d))"
| heard: "store_step d (snd (RecordReceivedMessage now rec a d))"
| ack: "store_step d (snd (AppendAck code a d))"
| unconfirmed: "store_step d (snd (MarkUnconfirmed code d))"
| read: "store_step d (snd (MarkMessagesRead ids d))"
| status: "list_all (\<lambda>r. ms_ID (mw_rec r) = i \<longrightarrow> ms_Status (mw_rec r) \<noteq> StatusDelivered) (tb_messages (db_tables d)) \<Longrightarrow>
    store_step d (snd (SetMessageStatus i s code d))"
| contacts: "store_step d (snd (UpsertContacts u now cts d))"
| contact: "store_step d (snd (UpsertContact u now ct d))"
| clear: "store_step d (snd (ClearContacts d))"
| lastmod: "store_step d (snd (SetContactLastMod n d))"
| channels: "store_step d (snd (UpsertChannels cr now chs d))"
| session: "store_step d (snd (UpsertRepeaterSession rs d))"
| logout: "store_step d (snd (ClearRepeaterSession q d))"

lemma keepsD: "keeps m \<Longrightarrow> messages_ok (db_tables d) \<Longrightarrow> grows (db_tables d) (db_tables (snd (m d)))"
  by (simp add: keeps_def)

lemma store_step_grows: "store_step d d' \<Longrightarrow> messages_ok (db_tables d) \<Longrightarrow> grows (db_tables d) (db_tables d')"
  by (induction rule: store_step.induct) (assumption | rule keepsD keeps_intros keeps_SetMessageStatus)+

lemma store_steps_grow: "store_step\<^sup>*\<^sup>* d d' \<Longrightarrow> messages_ok (db_tables d) \<Longrightarrow> grows (db_tables d) (db_tables d')"
proof (induction rule: rtranclp_induct)
  case (step d1 d2)
  then have g: "grows (db_tables d) (db_tables d1)" by simp
  with step(2) have "grows (db_tables d1) (db_tables d2)" by (intro store_step_grows) (simp_all add: grows_def)
  with g show ?case by (rule grows_trans)
qed (simp add: grows_refl)


definition sample_message :: message_record where
  "sample_message = \<lparr>ms_ID = 0, ms_Direction = MessageIn, ms_Kind = MessageDirect, ms_Peer = ''aabb'', ms_PeerName = ''bob'',
     ms_Channel = [], ms_Text = ''hi'', ms_TxtType = 0, ms_Timestamp = time_Unix 1700000000, ms_SNR = 0, ms_Read = False,
     ms_Status = StatusReceived, ms_AckCode = [], ms_AcknowledgedAt = zero_time, ms_Receptions = [], ms_CreatedAt = time_Unix 1700000000\<rparr>"

definition sample_hearing :: reception where
  "sample_hearing = \<lparr>re_At = time_Unix 1700000000, re_SNR = 0, re_PathLen = 2, re_RTTMs = 0\<rparr>"


section \<open>Messages heard several times\<close>

definition stamped :: "go_time \<Rightarrow> reception \<Rightarrow> reception" where
  "stamped now a = (if IsZero (re_At a) then a\<lparr>re_At := now\<rparr> else a)"

text \<open>The hearings of messages recorded one after the other, with what the store answers: whether the
  message is new.\<close>

fun record_all :: "go_time \<Rightarrow> (message_record \<times> reception) list \<Rightarrow> db \<Rightarrow> (store_error + bool) list \<times> db" where
  "record_all now [] d = ([], d)"
| "record_all now ((rec, a) # xs) d =
     (let (r, d1) = RecordReceivedMessage now rec a d; (rs, d2) = record_all now xs d1 in (r # rs, d2))"

definition same_message :: "message_record \<Rightarrow> message_record \<Rightarrow> bool" where
  "same_message m rec \<longleftrightarrow> ms_Direction rec = MessageIn \<and> ms_Peer rec = ms_Peer m \<and> ms_Text rec = ms_Text m \<and>
     ms_Timestamp rec = ms_Timestamp m"

lemma find_append: "find P (xs @ ys) = (case find P xs of None \<Rightarrow> find P ys | Some x \<Rightarrow> Some x)"
  by (induction xs) auto

lemma update_last:
  assumes "messages_ok t" and "tb_messages t = rows @ [r]"
  shows "update_messages (\<lambda>x. ms_ID (mw_rec x) = ms_ID (mw_rec r)) f t = t\<lparr>tb_messages := rows @ [f r]\<rparr>"
proof -
  have "\<forall>x \<in> set rows. ms_ID (mw_rec x) \<noteq> ms_ID (mw_rec r)"
    using assms unfolding messages_ok_def by (simp add: image_iff) (metis)
  then have "map (\<lambda>x. if ms_ID (mw_rec x) = ms_ID (mw_rec r) then f x else x) rows = rows" by (simp add: map_idI)
  with assms(2) show ?thesis by (simp add: update_messages_def)
qed

lemma hearing_again:
  assumes "messages_ok t" and "tb_messages t = rows @ [r]" and "find (same_hearing rec) rows = None" and "same_hearing rec r"
  shows "RecordReceivedMessage now rec a \<lparr>db_tables = t, db_faults = []\<rparr> =
    (Inr False, \<lparr>db_tables = t\<lparr>tb_messages := rows @ [set_receptions (ms_Receptions (mw_rec r) @ [stamped now a]) r]\<rparr>, db_faults = []\<rparr>)"
  using assms by (simp add: RecordReceivedMessage_def Let_def find_append update_last stamped_def)

lemma hearings_again:
  assumes "messages_ok t" and "tb_messages t = rows @ [r]" and "list_all (\<lambda>(rec, a). same_hearing rec r \<and> find (same_hearing rec) rows = None) xs"
  shows "record_all now xs \<lparr>db_tables = t, db_faults = []\<rparr> =
    (map (\<lambda>_. Inr False) xs, \<lparr>db_tables = t\<lparr>tb_messages := rows @ [set_receptions (ms_Receptions (mw_rec r) @ map (stamped now \<circ> snd) xs) r]\<rparr>,
      db_faults = []\<rparr>)"
  using assms
proof (induction xs arbitrary: t r)
  case Nil
  then show ?case by (simp add: set_receptions_def)
next
  case (Cons x xs)
  obtain rec a where x: "x = (rec, a)" by force
  let ?r = "set_receptions (ms_Receptions (mw_rec r) @ [stamped now a]) r"
  let ?t = "t\<lparr>tb_messages := rows @ [?r]\<rparr>"
  have "messages_ok ?t" using Cons.prems(1, 2) by (simp add: messages_ok_def set_receptions_def)
  moreover have keep: "same_hearing m (set_receptions rs r) = same_hearing m r" for m rs
    by (simp add: same_hearing_def set_receptions_def)
  have "list_all (\<lambda>(rec, a). same_hearing rec ?r \<and> find (same_hearing rec) rows = None) xs"
    using Cons.prems(3) by (simp add: keep)
  ultimately show ?case
    using Cons.IH [of ?t ?r] hearing_again [OF Cons.prems(1, 2), of rec now a] Cons.prems(3) x
    by (simp add: set_receptions_def)
qed

lemma first_hearing:
  assumes "find (same_hearing rec) (tb_messages t) = None" and "\<not> IsZero (ms_Timestamp rec)"
  shows "RecordReceivedMessage now rec a \<lparr>db_tables = t, db_faults = []\<rparr> =
    (Inr True, \<lparr>db_tables = t\<lparr>tb_sequence := tb_sequence t + 1, tb_messages := tb_messages t @
       [message_row_of (rec\<lparr>ms_ID := tb_sequence t + 1, ms_SNR := re_SNR a, ms_Receptions := [stamped now a],
          ms_CreatedAt := (if IsZero (ms_CreatedAt rec) then now else ms_CreatedAt rec)\<rparr>)]\<rparr>, db_faults = []\<rparr>)"
  using assms by (cases rec) (simp add: RecordReceivedMessage_def InsertMessage_def Let_def stamped_def)



section \<open>The identity of a database\<close>

text \<open>A database is never used for another device. Two keys that agree on the sixteen characters that name
  the file share it; opening it with the second key then fails with the mismatch, whatever statement fails,
  and leaves its tables as they were. Opening it with the first key again succeeds and changes nothing.\<close>

theorem store_bound_to_device:
  assumes "looksLikePublicKey (normalizePublicKey u k1)" and "looksLikePublicKey (normalizePublicKey u k2)"
    and "StatePrefix u (normalizePublicKey u k1) = StatePrefix u (normalizePublicKey u k2)"
    and "files (StatePrefix u (normalizePublicKey u k1)) = Some t" and "map_of (tb_meta t) metaPublicKey = Some stored"
    and "stored \<noteq> []" and "normalizePublicKey u stored = normalizePublicKey u k1"
  shows "(normalizePublicKey u k2 \<noteq> normalizePublicKey u k1 \<longrightarrow>
      (\<exists>e. OpenStateStore u now faults k2 files = (Inl e, files)) \<and>
      OpenStateStore u now [] k2 files = (Inl (ErrIdentityMismatch stored (normalizePublicKey u k2)), files)) \<and>
    OpenStateStore u now [] k1 files = (Inr \<lparr>db_tables = t, db_faults = []\<rparr>, files)"
proof -
  let ?d = "\<lparr>db_tables = t, db_faults = faults\<rparr>"
  have "\<exists>e d'. seq init (\<lambda>_. ensureIdentity u now k) ?d = (Inl e, d') \<and> db_tables d' = t" if "normalizePublicKey u stored \<noteq> k" for k
  proof -
    obtain r1 d1 where i: "init ?d = (r1, d1)" by force
    with exec_tables [of "\<lambda>t. t" ?d] have t1: "db_tables d1 = t" by (auto simp: init_def)
    obtain r2 d2 where q: "metaGet metaPublicKey d1 = (r2, d2)" by force
    from query_tables [OF q [unfolded metaGet_def]] t1 assms(5)
    have "db_tables d2 = t" "\<And>x. r2 = Inr x \<Longrightarrow> x = stored" by auto
    with i q t1 that assms(6) show ?thesis by (cases r1; cases r2) (auto simp: ensureIdentity_def)
  qed
  note fails = this
  have same: "files(StatePrefix u (normalizePublicKey u k1) \<mapsto> t) = files" using assms(4) by auto
  have "\<exists>e. OpenStateStore u now faults k2 files = (Inl e, files)" if "normalizePublicKey u k2 \<noteq> normalizePublicKey u k1"
  proof -
    from fails [of "normalizePublicKey u k2"] that assms(7)
    obtain e d' where "seq init (\<lambda>_. ensureIdentity u now (normalizePublicKey u k2)) ?d = (Inl e, d')" "db_tables d' = t" by auto
    with assms(2-4) same show ?thesis by (simp add: OpenStateStore_def Let_def)
  qed
  moreover have "seq init (\<lambda>_. ensureIdentity u now k) \<lparr>db_tables = t, db_faults = []\<rparr> =
      (if normalizePublicKey u k1 \<noteq> k then Inl (ErrIdentityMismatch stored k) else Inr (), \<lparr>db_tables = t, db_faults = []\<rparr>)" for k
    using assms(5-7) by (simp add: init_def ensureIdentity_def metaGet_def)
  ultimately show ?thesis using assms(1-4) same by (auto simp: OpenStateStore_def Let_def)
qed

theorem store_bound_to_device_witness:
  "OpenStateStore ascii_text (time_Unix 0) [] ''0123456789abcdef01'' [''0123456789abcdef'' \<mapsto> empty_tables\<lparr>tb_meta := [(metaPublicKey, ''0123456789abcdef00'')]\<rparr>] =
     (Inl (ErrIdentityMismatch ''0123456789abcdef00'' ''0123456789abcdef01''),
      [''0123456789abcdef'' \<mapsto> empty_tables\<lparr>tb_meta := [(metaPublicKey, ''0123456789abcdef00'')]\<rparr>])"
proof -
  let ?k1 = "''0123456789abcdef00''" and ?k2 = "''0123456789abcdef01''" and ?u = ascii_text
  let ?t = "empty_tables\<lparr>tb_meta := [(metaPublicKey, ''0123456789abcdef00'')]\<rparr>"
  have n: "normalizePublicKey ?u ?k1 = ?k1" "normalizePublicKey ?u ?k2 = ?k2" by code_simp+
  have p: "StatePrefix ?u ?k1 = ''0123456789abcdef''" "StatePrefix ?u ?k2 = ''0123456789abcdef''" by code_simp+
  have l: "looksLikePublicKey ?k1" "looksLikePublicKey ?k2" by code_simp+
  show ?thesis
    using store_bound_to_device [of ?u ?k1 ?k2 "[''0123456789abcdef'' \<mapsto> ?t]" ?t ?k1 "time_Unix 0" "[]"]
    unfolding n p using l by simp
qed

section \<open>The order of messages\<close>

text \<open>Times are compared as texts: a whole second is written without a fraction and sorts after the
  fractions of the same second, so a list of messages is in the order of their seconds only.\<close>

lemma append_less: "p @ xs < p @ ys \<longleftrightarrow> xs < (ys :: string)"
  by (induction p) simp_all

lemma fraction_sorts_first:
  assumes "0 < n" and "n < 10 ^ 9"
  shows "format_time \<lparr>t_unix = s, t_nsec = n\<rparr> < format_time \<lparr>t_unix = s, t_nsec = 0\<rparr>"
proof -
  have "read_fraction ''Z'' = (0, ''Z'')" by code_simp
  then have "trim_zeros (dec_pad 9 n) \<noteq> []" using read_fraction_format [OF assms(2)] assms(1) by auto
  moreover have "trim_zeros (dec_pad 9 0) = []" by code_simp
  moreover have "CHR ''.'' < CHR ''Z''" by (simp add: less_char_def)
  ultimately show ?thesis by (simp add: format_time_def append_less Let_def split: prod.split)
qed

end
