(* ===== verification/Tracing.thy ===== *)
theory Tracing
  imports Client_Api
begin

text \<open>
  Route tracing (\<open>paths.go\<close>) and node discovery (\<open>node_discover.go\<close>): how a target becomes a trace
  path, sending a trace and waiting for the reply with its tag, and collecting discovery replies.
  \<open>rand.Uint32\<close> is the argument \<open>tag\<close>. Debug output is left out, but its arguments are evaluated as
  in the code, since they could fail.
\<close>

section \<open>Trace plans\<close>

record trace_plan =
  tp_Query :: string
  tp_Name :: string
  tp_Source :: string
  tp_Contact :: string
  tp_Path :: bytes
  tp_HashSize :: int
  tp_Flags :: byte
  tp_HopCount :: int
  tp_OutPathEnc :: byte
  tp_PrefixHint :: int

definition hopCount :: "bytes \<Rightarrow> int \<Rightarrow> int" where
  "hopCount path hashSize = (if hashSize \<le> 0 \<or> length path = 0 then 0 else int (length path) div hashSize)"

definition formatTraceHops :: "bytes \<Rightarrow> int \<Rightarrow> string option" where
  "formatTraceHops path hashSize =
     do {
       hops \<leftarrow> Split_path path hashSize;
       Some (if length hops = 0 then [] else Join '','' (map FormatHop hops))
     }"

text \<open>\<open>key[:hashSize]\<close> of a decoded key is out of range when \<open>hashSize\<close> exceeds the length of the key.\<close>

definition traceKeyFallback :: "contact \<Rightarrow> int \<Rightarrow> (go_error + bytes \<times> int \<times> byte) option" where
  "traceKeyFallback ct hintBytes =
     (case hex_DecodeString (ct_PublicKey ct) of
        Inl _ \<Rightarrow> Some (Inl (TraceNoUsableKey (ct_Name ct)))
      | Inr key \<Rightarrow>
          if length key = 0 then Some (Inl (TraceNoUsableKey (ct_Name ct)))
          else
            let hint = (if hintBytes \<le> 0 then 2 else hintBytes);
                h0 = NearestTraceHashSize hint;
                hashSize = (if int (length key) < h0 then NearestTraceHashSize (int (length key)) else h0)
            in case TraceFlagsFromHashSize hashSize of
                 Inl e \<Rightarrow> Some (Inl (TracePathError e))
               | Inr flags \<Rightarrow>
                   do {
                     p \<leftarrow> gslice key 0 (nat hashSize);
                     Some (Inr (p, hashSize, flags))
                   })"

definition tracePathForContact :: "contact \<Rightarrow> int \<Rightarrow> (go_error + bytes \<times> int \<times> byte) option" where
  "tracePathForContact ct hintBytes =
     do {
       stored \<leftarrow> (if ct_HasPath ct then HasStoredOutPath (ct_OutPathEnc ct) (ct_OutPath ct) else Some False);
       (if stored then
          do {
            r \<leftarrow> TracePathFromOutPath (ct_OutPathEnc ct) (ct_OutPath ct);
            Some (case r of Inl e \<Rightarrow> Inl (TraceContact (ct_Name ct) e) | Inr p \<Rightarrow> Inr p)
          }
        else
          traceKeyFallback ct
            (if ct_HasPath ct \<and> IsDirectOutPath (ct_OutPathEnc ct) \<and> hintBytes \<le> 0
             then HashSizeFromPathMeta (ct_OutPathEnc ct) else hintBytes))
     }"

definition PlanTraceContact :: "contact \<Rightarrow> int \<Rightarrow> (go_error + trace_plan) option" where
  "PlanTraceContact ct hintBytes =
     do {
       r \<leftarrow> tracePathForContact ct hintBytes;
       (case r of
          Inl e \<Rightarrow> Some (Inl e)
        | Inr (path, hashSize, flags) \<Rightarrow>
            do {
              stored \<leftarrow> (if ct_HasPath ct then HasStoredOutPath (ct_OutPathEnc ct) (ct_OutPath ct) else Some False);
              let direct = (ct_HasPath ct \<and> IsDirectOutPath (ct_OutPathEnc ct));
              Some (Inr
                \<lparr>tp_Query = ct_Name ct, tp_Name = ct_Name ct,
                 tp_Source = (if stored then ''contact_out_path'' else if direct then ''contact_direct_path''
                              else ''contact_key_fallback''),
                 tp_Contact = ct_Name ct, tp_Path = path, tp_HashSize = hashSize, tp_Flags = flags,
                 tp_HopCount = hopCount path hashSize,
                 tp_OutPathEnc = (if stored \<or> direct then ct_OutPathEnc ct else 0), tp_PrefixHint = hintBytes\<rparr>)
            })
     }"

definition explicitTracePlan :: "string \<Rightarrow> go_error + trace_plan" where
  "explicitTracePlan target =
     (case ParsePath target of
        Inl e \<Rightarrow> Inl (TracePathError e)
      | Inr (path, hashSize) \<Rightarrow>
          (case TraceFlagsFromHashSize hashSize of
             Inl e \<Rightarrow> Inl (TracePathError e)
           | Inr flags \<Rightarrow>
               Inr \<lparr>tp_Query = target, tp_Name = target, tp_Source = ''explicit_path'', tp_Contact = [],
                 tp_Path = path, tp_HashSize = hashSize, tp_Flags = flags, tp_HopCount = hopCount path hashSize,
                 tp_OutPathEnc = 0, tp_PrefixHint = 0\<rparr>))"

definition planTrace :: "unicode \<Rightarrow> string \<Rightarrow> client \<Rightarrow> trace_plan result" where
  "planTrace u target c =
     (if IsHexTraceTarget target then from_sum (explicitTracePlan target) c
      else
        and_then (Client_Contact u target c) (\<lambda>(r, c).
          case r of
            Inl e \<Rightarrow> fail (TraceTarget target e) c
          | Inr ct \<Rightarrow>
              and_then (no_panic (PlanTraceContact ct 0)) (\<lambda>p.
                case p of Inl e \<Rightarrow> fail e c | Inr plan \<Rightarrow> ret (plan\<lparr>tp_Query := target\<rparr>) c)))"

text \<open>The log line of a plan. Its arguments come from the plan, and the hops of the path are formatted.\<close>

definition logTracePlan :: "trace_plan \<Rightarrow> unit option" where
  "logTracePlan plan = do { _ \<leftarrow> formatTraceHops (tp_Path plan) (tp_HashSize plan); Some () }"

definition resolveTracePath :: "unicode \<Rightarrow> string \<Rightarrow> client \<Rightarrow> (bytes \<times> int \<times> byte \<times> string) result" where
  "resolveTracePath u target c =
     bind_ok (planTrace u target c) (\<lambda>plan c.
       and_then (no_panic (logTracePlan plan)) (\<lambda>_.
         ret (tp_Path plan, tp_HashSize plan, tp_Flags plan, tp_Name plan) c))"

section \<open>Sending a trace\<close>

record trace =
  tr_Target :: string
  tr_Tag :: uint32
  tr_Path :: bytes
  tr_PathHashSize :: int
  tr_SNRs :: "f64 list"
  tr_RoundTrip :: duration

definition poll_trace :: "uint32 \<Rightarrow> unit \<Rightarrow> client \<Rightarrow> (go_error + trace_data) option \<times> unit \<times> client" where
  "poll_trace tag =
     poll_push cl_traces (\<lambda>ch. cl_traces_update (\<lambda>_. ch))
       (\<lambda>td _. ((), if td_Tag td \<noteq> tag then None else Some (Inr td))) (\<lambda>_. Inl ConnectionClosed)"

definition tracePath :: "uint32 \<Rightarrow> bytes \<Rightarrow> int \<Rightarrow> byte \<Rightarrow> string \<Rightarrow> client \<Rightarrow> trace result" where
  "tracePath tag path hashSize flags name c =
     (let started = w_now c in
      and_then (no_panic (formatTraceHops path hashSize)) (\<lambda>_.
      bind_ok (request (SendTracePath \<lparr>stp_Tag = tag, stp_Auth = 0, stp_Flags = flags, stp_Path = path\<rparr>) c) (\<lambda>_ c.
      bind_ok (await (poll_trace tag) (\<lambda>e _. Inl (TraceNoResponse name e)) (w_env c) () c) (\<lambda>td c.
        let sz = HashSizeFromTraceFlags (td_Flags td); size = (if sz \<le> 0 then hashSize else sz) in
        and_then (no_panic (formatTraceHops (td_Path td) size)) (\<lambda>_.
          ret \<lparr>tr_Target = name, tr_Tag = td_Tag td, tr_Path = td_Path td, tr_PathHashSize = size,
               tr_SNRs = td_SNRs td, tr_RoundTrip = time_Since (w_now c) started\<rparr> c)))))"

definition Client_Trace :: "unicode \<Rightarrow> uint32 \<Rightarrow> string \<Rightarrow> client \<Rightarrow> trace result" where
  "Client_Trace u tag target =
     require CapabilityTracing (\<lambda>c.
       bind_ok (resolveTracePath u target c) (\<lambda>(path, hashSize, flags, name) c.
         tracePath tag path hashSize flags name c))"

definition TraceContactWithHint :: "uint32 \<Rightarrow> contact \<Rightarrow> int \<Rightarrow> client \<Rightarrow> trace result" where
  "TraceContactWithHint tag ct hintBytes =
     require CapabilityTracing (\<lambda>c.
       and_then (no_panic (PlanTraceContact ct hintBytes)) (\<lambda>p.
         case p of
           Inl e \<Rightarrow> fail e c
         | Inr plan \<Rightarrow>
             and_then (no_panic (logTracePlan plan)) (\<lambda>_.
               tracePath tag (tp_Path plan) (tp_HashSize plan) (tp_Flags plan) (ct_Name ct) c)))"

definition Client_TraceContact :: "uint32 \<Rightarrow> contact \<Rightarrow> client \<Rightarrow> trace result" where
  "Client_TraceContact tag ct = TraceContactWithHint tag ct 0"

section \<open>Node discovery\<close>

definition NodeFilterAll :: byte where
  "NodeFilterAll = 0xFF"

record discovered_node =
  dn_PublicKey :: string
  dn_Type :: contact_type
  dn_SNRUp :: f64
  dn_SNRDown :: f64
  dn_RSSI :: int
  dn_PathLen :: int
  dn_Tag :: uint32

record node_discover_options =
  ndo_Filter :: byte
  ndo_PrefixOnly :: bool
  ndo_Timeout :: duration

definition node_of :: "node_discover_resp \<Rightarrow> discovered_node" where
  "node_of r =
     \<lparr>dn_PublicKey = nd_PublicKey r, dn_Type = contactType (nd_NodeType r), dn_SNRUp = nd_SNRUp r,
      dn_SNRDown = nd_SNRDown r, dn_RSSI = nd_RSSI r, dn_PathLen = uint (nd_PathLen r), dn_Tag = nd_Tag r\<rparr>"

text \<open>One reply. The state is the set of keys seen, as a list, and the nodes so far, which are also the
  calls of \<open>onNode\<close>.\<close>

definition discover_step :: "uint32 \<Rightarrow> node_discover_resp \<Rightarrow> string list \<times> discovered_node list \<Rightarrow>
    string list \<times> discovered_node list" where
  "discover_step tag r st =
     (let (seen, nodes) = st in
      if nd_Tag r \<noteq> tag then (seen, nodes)
      else if nd_PublicKey r \<noteq> [] \<and> nd_PublicKey r \<in> set seen then (seen, nodes)
      else (nd_PublicKey r # seen, nodes @ [node_of r]))"

definition poll_discoveries :: "uint32 \<Rightarrow> string list \<times> discovered_node list \<Rightarrow> client \<Rightarrow>
    (go_error option \<times> discovered_node list) option \<times> (string list \<times> discovered_node list) \<times> client" where
  "poll_discoveries tag =
     poll_push cl_discoveries (\<lambda>ch. cl_discoveries_update (\<lambda>_. ch))
       (\<lambda>r st. (discover_step tag r st, None)) (\<lambda>st. (Some ConnectionClosed, snd st))"

definition DiscoverNodes :: "uint32 \<Rightarrow> node_discover_options \<Rightarrow> client \<Rightarrow>
    ((go_error option \<times> discovered_node list) \<times> client) outcome" where
  "DiscoverNodes tag opts c =
     (let filter = (if ndo_Filter opts = 0 then NodeFilterAll else ndo_Filter opts) in
      and_then (request (SendNodeDiscoverReq \<lparr>snd_Filter = filter, snd_PrefixOnly = ndo_PrefixOnly opts, snd_Tag = tag\<rparr>) c)
        (\<lambda>(r, c).
          case r of
            Inl e \<Rightarrow> Finished ((Some e, []), c)
          | Inr _ \<Rightarrow> await (poll_discoveries tag) (\<lambda>_ s. (None, snd s)) (w_env c) ([], []) c))"

section \<open>Planning\<close>

lemma formatTraceHops_returns: "\<exists>t. formatTraceHops path n = Some t"
proof (cases "n \<le> 0 \<or> length path = 0 \<or> int (length path) mod n \<noteq> 0")
  case True
  then show ?thesis by (simp add: formatTraceHops_def Split_path_def)
next
  case False
  with Split_path_of_multiple [of n path] show ?thesis by (auto simp: formatTraceHops_def)
qed

lemma NearestTraceHashSize_le: "n \<in> {1, 2, 4, 8} \<Longrightarrow> NearestTraceHashSize n = n"
  by (auto simp: NearestTraceHashSize_def)

lemma TraceFlags_Nearest: "\<exists>f. TraceFlagsFromHashSize (NearestTraceHashSize n) = Inr f"
  using NearestTraceHashSize_cases [of n] TraceFlagsFromHashSize_ok_iff by blast

text \<open>The width chosen for a key of \<open>n\<close> bytes.\<close>

definition fallback_width :: "int \<Rightarrow> int \<Rightarrow> int" where
  "fallback_width n hint =
     (let h0 = NearestTraceHashSize (if hint \<le> 0 then 2 else hint) in
      if n < h0 then NearestTraceHashSize n else h0)"

lemma traceKeyFallback_eq:
  assumes "hex_DecodeString (ct_PublicKey ct) = Inr key" and "key \<noteq> []"
  shows "\<exists>f. TraceFlagsFromHashSize (fallback_width (int (length key)) hint) = Inr f \<and>
    traceKeyFallback ct hint =
      (if fallback_width (int (length key)) hint \<le> int (length key)
       then Some (Inr (take (nat (fallback_width (int (length key)) hint)) key, fallback_width (int (length key)) hint, f))
       else None)"
proof -
  let ?w = "fallback_width (int (length key)) hint"
  have "\<exists>m. ?w = NearestTraceHashSize m" by (auto simp: fallback_width_def Let_def)
  then obtain f where f: "TraceFlagsFromHashSize ?w = Inr f" using TraceFlags_Nearest by metis
  then have "0 < ?w" by (auto dest: TraceFlagsFromHashSize_Inr)
  with assms f show ?thesis
    by (auto simp: traceKeyFallback_def fallback_width_def Let_def gslice_def nat_le_iff split: if_splits)
qed

text \<open>The rounding up of the width makes the slice exceed short keys.\<close>

lemma fallback_width_exceeds:
  assumes "1 \<le> n"
  shows "n < fallback_width n hint \<longleftrightarrow>
    n \<in> {3, 5, 6, 7} \<and> n < NearestTraceHashSize (if hint \<le> 0 then 2 else hint)"
proof -
  have "NearestTraceHashSize (if hint \<le> 0 then 2 else hint) \<in> {1, 2, 4, 8}" by (rule NearestTraceHashSize_cases)
  with assms show ?thesis
    by (auto simp: fallback_width_def Let_def NearestTraceHashSize_def split: if_splits)
qed

lemma traceKeyFallback_Inr:
  assumes "traceKeyFallback ct hint = Some (Inr (p, sz, fl))"
  shows "sz \<in> {1, 2, 4, 8} \<and> int (length p) = sz \<and> HashSizeFromTraceFlags fl = sz"
proof -
  from assms obtain key where key: "hex_DecodeString (ct_PublicKey ct) = Inr key" "key \<noteq> []"
    by (auto simp: traceKeyFallback_def split: sum.splits if_splits)
  from traceKeyFallback_eq [OF this, of hint] assms show ?thesis
    by (auto split: if_splits dest!: TraceFlagsFromHashSize_Inr)
qed

lemma tracePathForContact_Inr:
  assumes "tracePathForContact ct hint = Some (Inr (p, sz, fl))"
  shows "p \<noteq> [] \<and> sz \<in> {1, 2, 4, 8} \<and> HashSizeFromTraceFlags fl = sz \<and>
    (\<not> (ct_HasPath ct \<and> HasStoredOutPath (ct_OutPathEnc ct) (ct_OutPath ct) = Some True) \<longrightarrow> int (length p) = sz)"
proof (cases "ct_HasPath ct \<and> HasStoredOutPath (ct_OutPathEnc ct) (ct_OutPath ct) = Some True")
  case True
  with assms have "TracePathFromOutPath (ct_OutPathEnc ct) (ct_OutPath ct) = Some (Inr (p, sz, fl))"
    by (auto simp: tracePathForContact_def split: Option.bind_splits sum.splits)
  from TracePathFromOutPath_Inr [OF this] HashSizeFromTraceFlags_cases [of fl] True show ?thesis by auto
next
  case False
  then have "\<exists>h. traceKeyFallback ct h = Some (Inr (p, sz, fl))"
    using assms by (auto simp: tracePathForContact_def HasStoredOutPath_Some split: if_splits)
  then obtain h where "traceKeyFallback ct h = Some (Inr (p, sz, fl))" by blast
  from traceKeyFallback_Inr [OF this] show ?thesis by auto
qed

lemma PlanTraceContact_Inr:
  assumes "PlanTraceContact ct hint = Some (Inr plan)"
  shows "tracePathForContact ct hint = Some (Inr (tp_Path plan, tp_HashSize plan, tp_Flags plan)) \<and>
    tp_HopCount plan = hopCount (tp_Path plan) (tp_HashSize plan) \<and>
    (tp_Source plan = ''contact_out_path'' \<longleftrightarrow>
       ct_HasPath ct \<and> HasStoredOutPath (ct_OutPathEnc ct) (ct_OutPath ct) = Some True)"
  using assms by (auto simp: PlanTraceContact_def HasStoredOutPath_Some Let_def split: Option.bind_splits sum.splits if_splits)

lemma explicitTracePlan_Inr:
  assumes "explicitTracePlan t = Inr plan"
  shows "ParsePath t = Inr (tp_Path plan, tp_HashSize plan) \<and> HashSizeFromTraceFlags (tp_Flags plan) = tp_HashSize plan \<and>
    tp_HopCount plan = hopCount (tp_Path plan) (tp_HashSize plan)"
  using assms by (auto simp: explicitTracePlan_def split: sum.splits dest!: TraceFlagsFromHashSize_Inr)

section \<open>Safety of the calls\<close>

lemma safe_and_then_no_panic:
  "(\<And>x. y = Some x \<Longrightarrow> safe (f x)) \<Longrightarrow> y \<noteq> None \<Longrightarrow> safe (and_then (no_panic y) f)"
  by (cases y) auto

lemma safe_tracePath [api_safe]:
  assumes "client_ok c" shows "safe (tracePath tag path n fl name c)"
proof -
  have f: "formatTraceHops p k \<noteq> None" for p k using formatTraceHops_returns [of p k] by auto
  have "safe (await (poll_trace tag) h es () d)" if "client_ok d" for h es d
    unfolding poll_trace_def using that by (rule traces.poll.safe_await)
  with assms f show ?thesis unfolding tracePath_def Let_def
    by (intro safe_and_then_no_panic safe_bind safe_request safe_ret)
qed

lemma safe_DiscoverNodes:
  assumes "client_ok c" shows "safe (DiscoverNodes tag opts c)"
proof -
  let ?q = "request (SendNodeDiscoverReq \<lparr>snd_Filter = (if ndo_Filter opts = 0 then NodeFilterAll else ndo_Filter opts),
    snd_PrefixOnly = ndo_PrefixOnly opts, snd_Tag = tag\<rparr>) c"
  have "safe ?q" using assms by (rule safe_request)
  moreover have "safe (await (poll_discoveries tag) h es s d)" if "client_ok d" for h es s d
    unfolding poll_discoveries_def using that by (rule discoveries.poll.safe_await)
  ultimately show ?thesis unfolding DiscoverNodes_def Let_def
    by (cases ?q) (auto simp: safe_def split: sum.splits prod.splits)
qed

section \<open>Replies\<close>

lemma poll_trace_hit:
  assumes "poll_trace tag s c = (Some (Inr td), s', c')"
  shows "td_Tag td = tag"
proof -
  let ?h = "\<lambda>td _. ((), if td_Tag td \<noteq> tag then None else Some (Inr td :: go_error + trace_data))"
  obtain s1 q rest where d: "drain ?h s (ch_buf (cl_traces c)) = (s1, q, rest)" by (rule prod_cases3)
  have "True \<and> (\<forall>x. q = Some x \<longrightarrow> (\<exists>t. x = Inr t \<and> td_Tag t = tag))"
    by (rule drain_inv [where I = "\<lambda>_. True", OF _ _ d]) (auto split: if_splits)
  with d assms show ?thesis by (auto simp: poll_trace_def poll_push_def Let_def split: option.splits if_splits)
qed

lemma drain_other_traces:
  "\<forall>x \<in> set xs. td_Tag x \<noteq> tag \<Longrightarrow>
     drain (\<lambda>td _. ((), if td_Tag td \<noteq> tag then None else Some (Inr td))) s xs = ((), None, [])"
  by (induction xs) auto

lemma tracePath_Inr:
  assumes "tracePath tag path n flags name c = Finished (Inr t, c')"
  shows "tr_Tag t = tag \<and> tr_Target t = name \<and> tr_PathHashSize t \<in> {1, 2, 4, 8}"
proof -
  obtain hops where "formatTraceHops path n = Some hops" using formatTraceHops_returns by blast
  with assms obtain es c1 td c2 where
    aw: "await (poll_trace tag) (\<lambda>e _. Inl (TraceNoResponse name e)) es () c1 = Finished (Inr td, c2)"
    and t: "\<exists>k. t = \<lparr>tr_Target = name, tr_Tag = td_Tag td, tr_Path = td_Path td, tr_PathHashSize = k,
               tr_SNRs = td_SNRs td, tr_RoundTrip = time_Since (w_now c2) (w_now c)\<rparr> \<and>
       k = (if HashSizeFromTraceFlags (td_Flags td) \<le> 0 then n else HashSizeFromTraceFlags (td_Flags td))"
    by (auto simp: tracePath_def Let_def ret_def and_then_Finished_iff elim!: bind_ok_Inr)
  have "case_sum (\<lambda>_. True) (\<lambda>td. td_Tag td = tag) (Inr td :: go_error + trace_data)"
    by (rule await_inv [where I = "\<lambda>_. True", OF _ _ _ _ aw]) (auto split: sum.split dest: poll_trace_hit)
  with t HashSizeFromTraceFlags_cases [of "td_Flags td"] show ?thesis by auto
qed

lemma tracePath_answered:
  assumes "live c" and "\<not> cl_closed c" and "0 < ch_cap (cl_traces c)" and "w_env c = Recv p0 # es @ Recv p # rest"
    and "decode p0 = Some (Sent s)" and "list_all quiet es" and "decode p = Some (TraceData td)" and "td_Tag td = tag"
    and "\<forall>x \<in> set (ch_buf (cl_traces c) @ List.map_filter traces.pushed es). td_Tag x \<noteq> tag"
  shows "\<exists>t c'. tracePath tag path n flags name c = Finished (Inr t, c') \<and> tr_Path t = td_Path td \<and>
    tr_SNRs t = td_SNRs td \<and> tr_PathHashSize t = HashSizeFromTraceFlags (td_Flags td) \<and> w_env c' = rest"
proof -
  let ?cmd = "SendTracePath \<lparr>stp_Tag = tag, stp_Auth = 0, stp_Flags = flags, stp_Path = path\<rparr>"
  obtain raw where raw: "encode (w_now c) ?cmd = Some (Inr raw)" using encode_accepts [of ?cmd] by auto
  obtain d where d: "request ?cmd c = Finished (Inr (Sent s), c\<lparr>w_written := w_written c @ [raw],
      w_env := es @ Recv p # rest, cl_waiter := None, cl_overflow := False, cl_raw := d\<rparr>)" "dispatcher_ok d"
    using request_immediate [OF _ _ _ assms(4, 5) _ raw] assms(1) by (auto simp: live_def)
  let ?c = "c\<lparr>w_written := w_written c @ [raw], w_env := es @ Recv p # rest, cl_waiter := None, cl_overflow := False, cl_raw := d\<rparr>"
  have ok: "client_ok ?c" using assms(1) d(2) by (simp add: live_def client_ok_def)
  from assms(9) have "drain (\<lambda>td _. ((), if td_Tag td \<noteq> tag then None else Some (Inr td :: go_error + trace_data))) ()
      (ch_buf (cl_traces ?c) @ List.map_filter traces.pushed es) = ((), None, [])"
    by (intro drain_other_traces) simp
  from traces.await_hit [OF ok _ _ _ assms(6) this, of "Recv p" td] assms(1-3, 7, 8) obtain c' where
    c': "await (poll_trace tag) (\<lambda>e _. Inl (TraceNoResponse name e)) (es @ Recv p # rest) () ?c = Finished (Inr td, c')"
    "core c' = core (?c\<lparr>w_env := rest\<rparr>)"
    by (fastforce simp: live_def poll_trace_def)
  have hops: "\<exists>h. formatTraceHops x k = Some h" for x k by (rule formatTraceHops_returns)
  have "0 < HashSizeFromTraceFlags (td_Flags td)" using HashSizeFromTraceFlags_cases [of "td_Flags td"] by auto
  with c' d(1) hops [of path n] hops [of "td_Path td" "HashSizeFromTraceFlags (td_Flags td)"] core_sel(3) [OF c'(2)]
  show ?thesis by (auto simp: tracePath_def bind_ok_def ret_def Let_def simp del: await.simps)
qed

text \<open>The replies kept by a discovery: those with its tag, the first of each key, where replies without
  a key are all kept.\<close>

fun heard :: "uint32 \<Rightarrow> node_discover_resp list \<Rightarrow> node_discover_resp list" where
  "heard tag [] = []"
| "heard tag (r # rs) =
     (if nd_Tag r = tag
      then r # filter (\<lambda>x. nd_PublicKey x = [] \<or> nd_PublicKey x \<noteq> nd_PublicKey r) (heard tag rs)
      else heard tag rs)"

lemma drain_discoveries:
  "drain (\<lambda>r st. (discover_step tag r st, None)) st rs = (fold (discover_step tag) rs st, None, [])"
  by (induction rs arbitrary: st) simp_all

lemma fold_discover:
  "snd (fold (discover_step tag) rs (seen, nodes)) =
     nodes @ map node_of (filter (\<lambda>x. nd_PublicKey x = [] \<or> nd_PublicKey x \<notin> set seen) (heard tag rs))"
proof (induction rs arbitrary: seen nodes)
  case (Cons r rs)
  show ?case
  proof (cases "nd_Tag r \<noteq> tag \<or> nd_PublicKey r \<noteq> [] \<and> nd_PublicKey r \<in> set seen")
    case True
    then have "discover_step tag r (seen, nodes) = (seen, nodes)" by (auto simp: discover_step_def)
    moreover have "filter (\<lambda>x. nd_PublicKey x = [] \<or> nd_PublicKey x \<notin> set seen) (heard tag (r # rs)) =
        filter (\<lambda>x. nd_PublicKey x = [] \<or> nd_PublicKey x \<notin> set seen) (heard tag rs)"
      using True by (auto intro!: filter_cong)
    ultimately show ?thesis using Cons.IH [of seen nodes] by (simp del: heard.simps)
  next
    case False
    then have "discover_step tag r (seen, nodes) = (nd_PublicKey r # seen, nodes @ [node_of r])"
      by (auto simp: discover_step_def)
    moreover have "filter (\<lambda>x. nd_PublicKey x = [] \<or> nd_PublicKey x \<notin> set (nd_PublicKey r # seen)) (heard tag rs) =
        filter (\<lambda>x. nd_PublicKey x = [] \<or> nd_PublicKey x \<notin> set seen)
          (filter (\<lambda>x. nd_PublicKey x = [] \<or> nd_PublicKey x \<noteq> nd_PublicKey r) (heard tag rs))"
      by (auto simp: filter_filter intro!: filter_cong)
    ultimately show ?thesis using False Cons.IH [of "nd_PublicKey r # seen" "nodes @ [node_of r]"] by auto
  qed
qed simp

lemma heard_distinct:
  "distinct (filter (\<lambda>k. k \<noteq> []) (map nd_PublicKey (heard tag rs))) \<and> (\<forall>r \<in> set (heard tag rs). nd_Tag r = tag)"
proof (induction rs)
  case (Cons r rs)
  have "distinct (filter (\<lambda>k. k \<noteq> []) (map nd_PublicKey (filter P (heard tag rs))))" for P
  proof -
    have "filter (\<lambda>k. k \<noteq> []) (map nd_PublicKey (filter P (heard tag rs))) =
        map nd_PublicKey (filter P (filter (\<lambda>x. nd_PublicKey x \<noteq> []) (heard tag rs)))"
      by (simp add: filter_map o_def conj_commute)
    moreover from Cons.IH have "distinct (map nd_PublicKey (filter (\<lambda>x. nd_PublicKey x \<noteq> []) (heard tag rs)))"
      by (simp add: filter_map o_def)
    ultimately show ?thesis by (simp only: distinct_map_filter)
  qed
  with Cons.IH show ?case by auto
qed simp

section \<open>Properties\<close>




text \<open>A trace reports the reply to itself. A successful trace carries its own tag and target and a
  supported width, whatever other trace replies arrive; and when the request is accepted and then,
  after any pushes, the first reply with its tag arrives, the trace succeeds with the path and signal
  values of that reply.\<close>

theorem trace_returns_own_reply:
  assumes "client_ok c"
  shows "(\<forall>t c'. tracePath tag path n flags name c = Finished (Inr t, c') \<longrightarrow>
      tr_Tag t = tag \<and> tr_Target t = name \<and> tr_PathHashSize t \<in> {1, 2, 4, 8}) \<and>
    (live c \<and> \<not> cl_closed c \<and> 0 < ch_cap (cl_traces c) \<and> w_env c = Recv p0 # es @ Recv p # rest \<and>
     decode p0 = Some (Sent s) \<and> list_all quiet es \<and> decode p = Some (TraceData td) \<and> td_Tag td = tag \<and>
     (\<forall>x \<in> set (ch_buf (cl_traces c) @ List.map_filter traces.pushed es). td_Tag x \<noteq> tag) \<longrightarrow>
       (\<exists>t c'. tracePath tag path n flags name c = Finished (Inr t, c') \<and> tr_Path t = td_Path td \<and>
          tr_SNRs t = td_SNRs td \<and> tr_PathHashSize t = HashSizeFromTraceFlags (td_Flags td) \<and> w_env c' = rest))"
proof (intro conjI impI)
  show "\<forall>t c'. tracePath tag path n flags name c = Finished (Inr t, c') \<longrightarrow>
      tr_Tag t = tag \<and> tr_Target t = name \<and> tr_PathHashSize t \<in> {1, 2, 4, 8}"
    using tracePath_Inr by blast
next
  assume "live c \<and> \<not> cl_closed c \<and> 0 < ch_cap (cl_traces c) \<and> w_env c = Recv p0 # es @ Recv p # rest \<and>
     decode p0 = Some (Sent s) \<and> list_all quiet es \<and> decode p = Some (TraceData td) \<and> td_Tag td = tag \<and>
     (\<forall>x \<in> set (ch_buf (cl_traces c) @ List.map_filter traces.pushed es). td_Tag x \<noteq> tag)"
  then show "\<exists>t c'. tracePath tag path n flags name c = Finished (Inr t, c') \<and> tr_Path t = td_Path td \<and>
          tr_SNRs t = td_SNRs td \<and> tr_PathHashSize t = HashSizeFromTraceFlags (td_Flags td) \<and> w_env c' = rest"
    by (intro tracePath_answered) auto
qed

theorem trace_returns_own_reply_witness:
  "\<exists>td t c'. decode (0x89 # replicate 11 0) = Some (TraceData td) \<and>
     tracePath (td_Tag td) [0x25] 1 0 ''25'' (demo [Recv (6 # replicate 9 0), Recv [0x83], Recv (0x89 # replicate 11 0)]) =
       Finished (Inr t, c') \<and> tr_SNRs t = td_SNRs td"
proof -
  let ?p = "0x89 # replicate 11 (0 :: byte)" and ?q = "6 # replicate 9 (0 :: byte)"
  obtain td where td: "decode ?p = Some (TraceData td)"
    using decode_returns [of ?p] by (auto simp: decode_def run_time_checks Let_def split: Option.bind_splits)
  obtain s where s: "decode ?q = Some (Sent s)"
    using decode_returns [of ?q] by (auto simp: decode_def run_time_checks Let_def split: Option.bind_splits)
  let ?c = "demo (Recv ?q # [Recv [0x83]] @ Recv ?p # [])"
  have "client_ok ?c" using demo_live by (simp add: live_def)
  from trace_returns_own_reply [OF this, of "td_Tag td" "[0x25]" 1 0 "''25''" ?q "[Recv [0x83]]" ?p "[]" s td] td s demo_live
  show ?thesis by (auto simp: decode_samples map_filter_simps demo_def New_client_def)
qed

text \<open>A discovery returns every node that answered, once. When the request is accepted, the nodes
  returned at the end of the listening window are those of the replies with its tag, in order of
  arrival and the first per key, of all that were buffered or arrive in the window, however many and
  whatever else arrives; their keys are distinct; and an empty filter asks for all node types.\<close>

theorem discovery_returns_each_node_once:
  assumes "live c" and "\<not> cl_closed c" and "0 < ch_cap (cl_discoveries c)"
    and "w_env c = Recv p0 # es @ AttemptTimeout # rest" and "decode p0 = Some OK" and "list_all quiet es"
  shows "\<exists>rs raw c'. rs = heard tag (ch_buf (cl_discoveries c) @ List.map_filter discoveries.pushed es) \<and>
    DiscoverNodes tag opts c = Finished ((None, map node_of rs), c') \<and> w_env c' = rest \<and>
    distinct (filter (\<lambda>k. k \<noteq> []) (map nd_PublicKey rs)) \<and> w_written c' = w_written c @ [raw] \<and>
    encode (w_now c) (SendNodeDiscoverReq \<lparr>snd_Filter = (if ndo_Filter opts = 0 then 0xFF else ndo_Filter opts),
      snd_PrefixOnly = ndo_PrefixOnly opts, snd_Tag = tag\<rparr>) = Some (Inr raw)"
proof -
  let ?cmd = "SendNodeDiscoverReq \<lparr>snd_Filter = (if ndo_Filter opts = 0 then 0xFF else ndo_Filter opts),
      snd_PrefixOnly = ndo_PrefixOnly opts, snd_Tag = tag\<rparr>"
  let ?rs = "ch_buf (cl_discoveries c) @ List.map_filter discoveries.pushed es"
  obtain raw where raw: "encode (w_now c) ?cmd = Some (Inr raw)" using encode_accepts [of ?cmd] by auto
  let ?c = "\<lambda>d. c\<lparr>w_written := w_written c @ [raw], w_env := es @ AttemptTimeout # rest, cl_waiter := None,
    cl_overflow := False, cl_raw := d\<rparr>"
  obtain d where d: "request ?cmd c = Finished (Inr OK, ?c d)" "dispatcher_ok d"
    using request_immediate [OF _ _ _ assms(4, 5) _ raw] assms(1) by (auto simp: live_def)
  have ok: "client_ok (?c d)" using assms(1) d(2) by (simp add: live_def client_ok_def)
  have "drain (\<lambda>r st. (discover_step tag r st, None :: (go_error option \<times> discovered_node list) option)) ([], [])
      (ch_buf (cl_discoveries (?c d)) @ List.map_filter discoveries.pushed es) =
      (fold (discover_step tag) ?rs ([], []), None, [])"
    by (simp add: drain_discoveries)
  from discoveries.await_window [OF ok _ _ _ assms(6) this, of "\<lambda>st. (Some ConnectionClosed, snd st)" "\<lambda>_ s. (None, snd s)" rest]
    assms(1-3) obtain c' where
    c': "await (poll_discoveries tag) (\<lambda>_ s. (None, snd s)) (es @ AttemptTimeout # rest) ([], []) (?c d) =
      Finished ((None, map node_of (heard tag ?rs)), c')" "core c' = core ((?c d)\<lparr>w_env := rest\<rparr>)"
    by (auto simp: live_def poll_discoveries_def fold_discover simp del: fold_append)
  with d(1) raw core_sel(1, 3) [OF c'(2)] heard_distinct [of tag ?rs] show ?thesis
    by (auto simp: DiscoverNodes_def Let_def NodeFilterAll_def simp del: await.simps)
qed

theorem discovery_returns_each_node_once_witness:
  "\<exists>r c'. decode [0x8e, 0, 0, 0, 0x92, 0, 7, 0, 0, 0, 1, 2] = Some (NodeDiscoverResp r) \<and>
     DiscoverNodes (nd_Tag r) \<lparr>ndo_Filter = 0, ndo_PrefixOnly = False, ndo_Timeout = 0\<rparr>
       (demo [Recv [0], Recv [0x8e, 0, 0, 0, 0x92, 0, 7, 0, 0, 0, 1, 2], Recv [0x8e, 0, 0, 0, 0x92, 0, 7, 0, 0, 0, 1, 2],
          AttemptTimeout]) = Finished ((None, [node_of r]), c')"
proof -
  let ?p = "[0x8e, 0, 0, 0, 0x92, 0, 7, 0, 0, 0, 1, 2]"
  obtain r where r: "decode ?p = Some (NodeDiscoverResp r)" "nd_PublicKey r \<noteq> []"
    by (simp add: decode_def run_time_checks Let_def decodeControlData_def decodeNodeDiscoverResp_def)
  let ?c = "demo (Recv [0] # [Recv ?p, Recv ?p] @ AttemptTimeout # [])"
  from discovery_returns_each_node_once [OF demo_live, of "Recv [0] # [Recv ?p, Recv ?p] @ AttemptTimeout # []" "[0]"
      "[Recv ?p, Recv ?p]" "[]" "nd_Tag r" "\<lparr>ndo_Filter = 0, ndo_PrefixOnly = False, ndo_Timeout = 0\<rparr>"] r
  show ?thesis by (auto simp: decode_samples map_filter_simps demo_def New_client_def)
qed

end
