(* ===== verification/Streamframe.thy ===== *)
theory Streamframe
  imports Go_Prelude
begin

text \<open>
  Stream framing: \<open>transport/internal/streamframe/streamframe.go\<close> and the wrappers of
  \<open>transport/serial/framing.go\<close>. A frame is a direction marker, a little-endian 16-bit length and
  the payload.

  A \<open>bufio.Reader\<close> over a finished stream is the list of bytes that are left; reading at the end
  gives \<open>EOF\<close>, and \<open>io.ReadFull\<close> gives \<open>ErrUnexpectedEOF\<close> when it got some but not all bytes. An
  \<open>io.Writer\<close> is a parameter: a function on its state that accepts the bytes of one call or
  returns an error.
\<close>

datatype read_error = EOF | ErrUnexpectedEOF | FrameLengthExceedsMaximum nat

datatype 'e write_error = PayloadTooLarge nat | WriterError 'e

definition ToDevice :: byte where
  "ToDevice = 0x3c"

definition ToHost :: byte where
  "ToHost = 0x3e"

definition MaxLen :: nat where
  "MaxLen = 8192"

section \<open>Writing\<close>

definition Write :: "('s \<Rightarrow> bytes \<Rightarrow> 'e option \<times> 's) \<Rightarrow> 's \<Rightarrow> byte \<Rightarrow> bytes \<Rightarrow> 'e write_error option \<times> 's" where
  "Write w s marker payload =
     (if MaxLen < length payload then (Some (PayloadTooLarge (length payload)), s)
      else let hdr = [marker] @ put_u16 (word_of_nat (length payload)) in
        case w s hdr of
          (Some err, s) \<Rightarrow> (Some (WriterError err), s)
        | (None, s) \<Rightarrow>
            (case w s payload of
               (Some err, s) \<Rightarrow> (Some (WriterError err), s)
             | (None, s) \<Rightarrow> (None, s)))"

definition WriteHostFrame :: "('s \<Rightarrow> bytes \<Rightarrow> 'e option \<times> 's) \<Rightarrow> 's \<Rightarrow> bytes \<Rightarrow> 'e write_error option \<times> 's" where
  "WriteHostFrame w s payload = Write w s ToDevice payload"

definition WriteDeviceFrame :: "('s \<Rightarrow> bytes \<Rightarrow> 'e option \<times> 's) \<Rightarrow> 's \<Rightarrow> bytes \<Rightarrow> 'e write_error option \<times> 's" where
  "WriteDeviceFrame w s payload = Write w s ToHost payload"

section \<open>Reading\<close>

definition ReadByte :: "bytes \<Rightarrow> (read_error + byte) \<times> bytes" where
  "ReadByte r = (case r of [] \<Rightarrow> (Inl EOF, []) | b # r' \<Rightarrow> (Inr b, r'))"

definition ReadFull :: "bytes \<Rightarrow> nat \<Rightarrow> (read_error + bytes) \<times> bytes" where
  "ReadFull r n =
     (if n \<le> length r then (Inr (take n r), drop n r)
      else (Inl (if r = [] then EOF else ErrUnexpectedEOF), []))"

text \<open>The loop that skips bytes up to the marker.\<close>

fun skip_to_marker :: "bytes \<Rightarrow> byte \<Rightarrow> (read_error + unit) \<times> bytes" where
  "skip_to_marker [] marker = (Inl EOF, [])"
| "skip_to_marker (b # r) marker = (if b = marker then (Inr (), r) else skip_to_marker r marker)"

lemma skip_to_marker_length: "skip_to_marker r m = (Inr x, r') \<Longrightarrow> length r' < length r"
  by (induction r m rule: skip_to_marker.induct) (auto split: if_splits)

lemma ReadFull_length: "ReadFull r n = (Inr b, r') \<Longrightarrow> length b = n \<and> length r = n + length r'"
  by (auto simp: ReadFull_def split: if_splits)

function read_frame :: "bytes \<Rightarrow> byte \<Rightarrow> bool \<Rightarrow> (read_error + bytes) \<times> bytes" where
  "read_frame r marker resyncBadLength =
     (case skip_to_marker r marker of
        (Inl err, r1) \<Rightarrow> (Inl err, r1)
      | (Inr _, r1) \<Rightarrow>
          (case ReadFull r1 2 of
             (Inl err, r2) \<Rightarrow> (Inl err, r2)
           | (Inr lenBuf, r2) \<Rightarrow>
               (let n = unat (the (le_u16 lenBuf))
                in if MaxLen < n then
                     (if resyncBadLength then read_frame r2 marker True
                      else (Inl (FrameLengthExceedsMaximum n), r2))
                   else (case ReadFull r2 n of
                           (Inl err, r3) \<Rightarrow> (Inl err, r3)
                         | (Inr payload, r3) \<Rightarrow> (Inr payload, r3)))))"
  by pat_completeness auto
termination
  by (relation "measure (\<lambda>(r, marker, resyncBadLength). length r)")
    (auto dest!: skip_to_marker_length [OF sym] ReadFull_length [OF sym])

declare read_frame.simps [simp del]

definition Read :: "bytes \<Rightarrow> byte \<Rightarrow> (read_error + bytes) \<times> bytes" where
  "Read r marker = read_frame r marker False"

definition ReadResync :: "bytes \<Rightarrow> byte \<Rightarrow> (read_error + bytes) \<times> bytes" where
  "ReadResync r marker = read_frame r marker True"

definition readFrameWithMarkerMode :: "bytes \<Rightarrow> byte \<Rightarrow> bool \<Rightarrow> (read_error + bytes) \<times> bytes" where
  "readFrameWithMarkerMode r marker resyncBadLength =
     (if resyncBadLength then ReadResync r marker else Read r marker)"

definition ReadHostFrame :: "bytes \<Rightarrow> (read_error + bytes) \<times> bytes" where
  "ReadHostFrame r = readFrameWithMarkerMode r ToDevice False"

definition ReadHostFrameResync :: "bytes \<Rightarrow> (read_error + bytes) \<times> bytes" where
  "ReadHostFrameResync r = readFrameWithMarkerMode r ToDevice True"

definition ReadDeviceFrame :: "bytes \<Rightarrow> (read_error + bytes) \<times> bytes" where
  "ReadDeviceFrame r = readFrameWithMarkerMode r ToHost False"

section \<open>The frame format\<close>

text \<open>The bytes of one frame, and a writer that accepts everything (\<open>bytes.Buffer\<close>).\<close>

definition frame_bytes :: "byte \<Rightarrow> bytes \<Rightarrow> bytes" where
  "frame_bytes marker payload = marker # put_u16 (word_of_nat (length payload)) @ payload"

definition buffer_write :: "bytes \<Rightarrow> bytes \<Rightarrow> 'e option \<times> bytes" where
  "buffer_write s b = (None, s @ b)"

lemma Write_buffer:
  "length payload \<le> MaxLen \<Longrightarrow> Write buffer_write s m payload = (None, s @ frame_bytes m payload)"
  by (simp add: Write_def buffer_write_def frame_bytes_def)

lemma skip_to_marker_noise:
  "m \<notin> set noise \<Longrightarrow> skip_to_marker (noise @ m # r) m = (Inr (), r)"
  by (induction noise) auto

lemma skip_to_marker_none: "m \<notin> set r \<Longrightarrow> skip_to_marker r m = (Inl EOF, [])"
  by (induction r) auto

lemma unat_length_field: "n \<le> MaxLen \<Longrightarrow> unat (word_of_nat n :: uint16) = n"
  by (simp add: MaxLen_def unat_of_nat)

text \<open>A frame is read back whatever noise precedes it, and nothing after it is consumed.\<close>

lemma read_frame_written:
  assumes "length payload \<le> MaxLen" and "m \<notin> set noise"
  shows "read_frame (noise @ frame_bytes m payload @ rest) m resync = (Inr payload, rest)"
proof -
  have "skip_to_marker (noise @ frame_bytes m payload @ rest) m =
      (Inr (), put_u16 (word_of_nat (length payload)) @ payload @ rest)"
    using assms(2) by (simp add: frame_bytes_def skip_to_marker_noise)
  moreover have "le_u16 (put_u16 (word_of_nat (length payload))) = Some (word_of_nat (length payload))"
    using le_u16_put [of _ "[]"] by simp
  ultimately show ?thesis
    using assms(1) by (subst read_frame.simps) (simp add: ReadFull_def unat_length_field)
qed

text \<open>Whatever the input, a payload that is returned is at most \<open>MaxLen\<close> bytes long and the stream
  got shorter by at least the header; a resynchronising read never reports a bad length.\<close>

lemma read_frame_sound:
  "read_frame r m resync = (Inr payload, r') \<Longrightarrow>
     length payload \<le> MaxLen \<and> length r' + length payload + 3 \<le> length r"
proof (induction r m resync rule: read_frame.induct)
  case (1 r m resync)
  from "1.prems" obtain r1 where s: "skip_to_marker r m = (Inr (), r1)"
    by (subst (asm) read_frame.simps) (auto split: prod.splits sum.splits)
  with "1.prems" obtain lb r2 where l: "ReadFull r1 2 = (Inr lb, r2)"
    by (subst (asm) read_frame.simps) (auto split: prod.splits sum.splits)
  have less: "length r2 + 3 \<le> length r"
    using skip_to_marker_length [OF s] ReadFull_length [OF l] by simp
  show ?case
  proof (cases "MaxLen < unat (the (le_u16 lb))")
    case True
    with "1.prems" s l have "resync" "read_frame r2 m True = (Inr payload, r')"
      by (simp_all add: read_frame.simps [of r] split: if_splits)
    with "1.IH" [OF s [symmetric] _ l [symmetric] _ refl True] less show ?thesis by auto
  next
    case False
    with "1.prems" s l have "ReadFull r2 (unat (the (le_u16 lb))) = (Inr payload, r')"
      by (auto simp: read_frame.simps [of r] split: prod.splits sum.splits)
    with False less show ?thesis by (auto dest!: ReadFull_length)
  qed
qed

lemma read_frame_resync_no_length_error:
  "read_frame r m True \<noteq> (Inl (FrameLengthExceedsMaximum n), r')"
proof (induction r m "True" rule: read_frame.induct)
  case (1 r m)
  show ?case
  proof
    assume bad: "read_frame r m True = (Inl (FrameLengthExceedsMaximum n), r')"
    have rf: "ReadFull a k \<noteq> (Inl (FrameLengthExceedsMaximum n), r')" for a k
      by (auto simp: ReadFull_def)
    have sk: "skip_to_marker a m \<noteq> (Inl (FrameLengthExceedsMaximum n), r')" for a
      by (induction a) auto
    from bad sk obtain r1 where s: "skip_to_marker r m = (Inr (), r1)"
      by (subst (asm) read_frame.simps) (auto split: prod.splits sum.splits)
    with bad rf obtain lb r2 where l: "ReadFull r1 2 = (Inr lb, r2)"
      by (subst (asm) read_frame.simps) (auto split: prod.splits sum.splits)
    with bad s rf have "MaxLen < unat (the (le_u16 lb))" "read_frame r2 m True = (Inl (FrameLengthExceedsMaximum n), r')"
      by (auto simp: read_frame.simps [of r] Let_def split: prod.splits sum.splits if_splits)
    with 1 s l show False by metis
  qed
qed

text \<open>A whole stream of frames, with noise between them, is read back in order.\<close>

fun read_n :: "nat \<Rightarrow> bytes \<Rightarrow> byte \<Rightarrow> bytes list \<times> bytes" where
  "read_n 0 r m = ([], r)"
| "read_n (Suc k) r m =
     (case Read r m of
        (Inl _, r') \<Rightarrow> ([], r')
      | (Inr p, r') \<Rightarrow> (case read_n k r' m of (ps, r'') \<Rightarrow> (p # ps, r'')))"

lemma read_n_frames:
  assumes "\<forall>(noise, p) \<in> set items. m \<notin> set noise \<and> length p \<le> MaxLen"
  shows "read_n (length items) (concat (map (\<lambda>(noise, p). noise @ frame_bytes m p) items) @ rest) m =
    (map snd items, rest)"
  using assms
proof (induction items)
  case (Cons it items)
  obtain noise p where it: "it = (noise, p)" by force
  let ?tail = "concat (map (\<lambda>(noise, p). noise @ frame_bytes m p) items) @ rest"
  have "Read (noise @ frame_bytes m p @ ?tail) m = (Inr p, ?tail)"
    using Cons.prems by (auto simp: Read_def it intro!: read_frame_written)
  with Cons show ?case by (simp add: it)
qed simp

section \<open>The packet framing interface\<close>

text \<open>What a transport relies on: a writer of framed packets and a reader of the same direction
  that finds the packets again. The transport's packet sequence round trip is proved once for every
  such pair.\<close>

locale packet_framing =
  fixes put :: "bytes \<Rightarrow> bytes \<Rightarrow> bytes option"
    and get :: "bytes \<Rightarrow> (read_error + bytes) \<times> bytes"
    and limit :: nat
  assumes put_ok: "length p \<le> limit \<Longrightarrow> \<exists>f. put s p = Some (s @ f) \<and> (\<forall>r. get (f @ r) = (Inr p, r))"
    and put_refuses: "limit < length p \<Longrightarrow> put s p = None"
begin

fun put_all :: "bytes \<Rightarrow> bytes list \<Rightarrow> bytes option" where
  "put_all s [] = Some s"
| "put_all s (p # ps) = do { s' \<leftarrow> put s p; put_all s' ps }"

fun get_all :: "nat \<Rightarrow> bytes \<Rightarrow> bytes list option" where
  "get_all 0 r = Some []"
| "get_all (Suc k) r =
     (case get r of (Inl _, _) \<Rightarrow> None | (Inr p, r') \<Rightarrow> map_option ((#) p) (get_all k r'))"

lemma put_all_frames:
  "\<forall>p \<in> set ps. length p \<le> limit \<Longrightarrow>
     \<exists>f. put_all s ps = Some (s @ f) \<and> get_all (length ps) f = Some ps"
proof (induction ps arbitrary: s)
  case (Cons p ps)
  from Cons.prems obtain f where f: "put s p = Some (s @ f)" "\<forall>r. get (f @ r) = (Inr p, r)"
    using put_ok [of p s] by auto
  from Cons obtain g where g: "put_all (s @ f) ps = Some ((s @ f) @ g)" "get_all (length ps) g = Some ps"
    by fastforce
  show ?case
    by (rule exI [of _ "f @ g"]) (simp add: f g)
qed simp

lemma transfer:
  assumes "\<forall>p \<in> set ps. length p \<le> limit"
  shows "\<exists>stream. put_all [] ps = Some stream \<and> get_all (length ps) stream = Some ps"
  using put_all_frames [OF assms, of "[]"] by simp

lemma put_all_refuses:
  assumes "p \<in> set ps" and "limit < length p"
  shows "put_all s ps = None"
  using assms
proof (induction ps arbitrary: s)
  case (Cons q qs)
  show ?case
  proof (cases "limit < length q")
    case True
    then show ?thesis by (simp add: put_refuses)
  next
    case False
    with Cons have "p \<in> set qs" by auto
    with Cons show ?thesis by (cases "put s q") auto
  qed
qed simp

end

definition put_frame :: "byte \<Rightarrow> bytes \<Rightarrow> bytes \<Rightarrow> bytes option" where
  "put_frame marker s p =
     (case Write buffer_write s marker p of (None, s') \<Rightarrow> Some s' | (Some (_ :: unit write_error), _) \<Rightarrow> None)"

interpretation host_frames: packet_framing "put_frame ToDevice" ReadHostFrame MaxLen
proof unfold_locales
  fix p s :: bytes
  assume "length p \<le> MaxLen"
  then show "\<exists>f. put_frame ToDevice s p = Some (s @ f) \<and> (\<forall>r. ReadHostFrame (f @ r) = (Inr p, r))"
    using read_frame_written [of p ToDevice "[]"]
    by (intro exI [of _ "frame_bytes ToDevice p"])
      (simp add: put_frame_def Write_buffer ReadHostFrame_def readFrameWithMarkerMode_def Read_def)
qed (simp add: put_frame_def Write_def)

interpretation device_frames: packet_framing "put_frame ToHost" ReadDeviceFrame MaxLen
proof unfold_locales
  fix p s :: bytes
  assume "length p \<le> MaxLen"
  then show "\<exists>f. put_frame ToHost s p = Some (s @ f) \<and> (\<forall>r. ReadDeviceFrame (f @ r) = (Inr p, r))"
    using read_frame_written [of p ToHost "[]"]
    by (intro exI [of _ "frame_bytes ToHost p"])
      (simp add: put_frame_def Write_buffer ReadDeviceFrame_def readFrameWithMarkerMode_def Read_def)
qed (simp add: put_frame_def Write_def)

section \<open>All frames of a stream\<close>

text \<open>All frames of a stream, in order.\<close>

function frames :: "bytes \<Rightarrow> bytes list" where
  "frames r = (case ReadDeviceFrame r of (Inl e, _) \<Rightarrow> [] | (Inr f, r') \<Rightarrow> f # frames r')"
  by pat_completeness auto
termination
  by (relation "measure length")
    (auto simp: ReadDeviceFrame_def readFrameWithMarkerMode_def Read_def dest!: read_frame_sound [OF sym])

declare frames.simps [simp del]

lemma frames_written:
  assumes "list_all (\<lambda>p. length p \<le> MaxLen) ps"
  shows "frames (concat (map (frame_bytes ToHost) ps)) = ps"
  using assms
proof (induction ps)
  case Nil
  have "read_frame [] ToHost False = (Inl EOF, [])" by (subst read_frame.simps) simp
  then show ?case
    by (simp add: frames.simps [of "[]"] ReadDeviceFrame_def readFrameWithMarkerMode_def Read_def)
next
  case (Cons p ps)
  then have "ReadDeviceFrame (frame_bytes ToHost p @ concat (map (frame_bytes ToHost) ps)) =
      (Inr p, concat (map (frame_bytes ToHost) ps))"
    using read_frame_written [of p ToHost "[]"] by (simp add: ReadDeviceFrame_def readFrameWithMarkerMode_def Read_def)
  with Cons show ?case by (subst frames.simps) simp
qed

lemma frames_Read: "Read r ToHost = (Inr p, r') \<Longrightarrow> frames r = p # frames r'"
  by (subst frames.simps) (simp add: ReadDeviceFrame_def readFrameWithMarkerMode_def)

section \<open>Properties\<close>



text \<open>Writing refuses what reading would reject, and transports what it accepts. A list of
  packets is written to a stream exactly when all of them have at most \<open>MaxLen\<close> bytes, and then
  the same number of reads on the other side returns exactly these packets.\<close>

theorem host_stream_transfer:
  "(\<exists>stream. host_frames.put_all [] ps = Some stream \<and> host_frames.get_all (length ps) stream = Some ps)
     \<longleftrightarrow> list_all (\<lambda>p. length p \<le> MaxLen) ps"
  using host_frames.transfer [of ps] host_frames.put_all_refuses [of _ ps "[]"]
  by (fastforce simp: list_all_iff not_le)

text \<open>Reading is robust. Whatever the stream holds, a payload that is returned has at most
  \<open>MaxLen\<close> bytes and was preceded by a three-byte header, so every read makes progress; and a
  resynchronising read never fails on an implausible length.\<close>

theorem read_frame_robust:
  "(\<forall>payload r'. read_frame r m resync = (Inr payload, r') \<longrightarrow>
      length payload \<le> MaxLen \<and> length r' + length payload + 3 \<le> length r) \<and>
   (\<forall>n r'. ReadResync r m \<noteq> (Inl (FrameLengthExceedsMaximum n), r'))"
  using read_frame_sound [of r m resync] read_frame_resync_no_length_error [of r m]
  by (auto simp: ReadResync_def)

theorem read_frame_robust_witness:
  "\<exists>payload r'. read_frame [1, 0x3e, 2, 0, 5, 6, 9] 0x3e False = (Inr payload, r') \<and>
     length payload \<le> MaxLen \<and> length r' + length payload + 3 \<le> length [1, 0x3e, 2, 0, 5, 6, 9 :: byte]"
proof -
  have "read_frame [1, 0x3e, 2, 0, 5, 6, 9] 0x3e False = (Inr [5, 6], [9])"
    using read_frame_written [of "[5, 6]" "0x3e" "[1]" "[9]" False]
    by (simp add: frame_bytes_def MaxLen_def put_u16_def)
  with read_frame_robust [of "[1, 0x3e, 2, 0, 5, 6, 9]" "0x3e" False] show ?thesis by blast
qed

end
