(* ===== verification/Transport.thy ===== *)
theory Transport
  imports Go_Url Streamframe Companion_Session
begin

text \<open>
  Package \<open>transport\<close>: endpoint addresses (\<open>endpoint.go\<close>), the registry of dialers (\<open>registry.go\<close>) and the
  contract of a connection (\<open>transport.go\<close>) as a locale, which the serial, TCP and Bluetooth connections
  interpret. A message of a library the transports call is a string inside the error that wraps it.
\<close>

section \<open>Errors\<close>

datatype transport_error =
    InvalidURI string url_error
  | URIWithoutScheme string
  | NoDialerFor string
  | SerialWithoutPath
  | TcpWithoutAddress
  | PortBusy string
  | SerialOpenFailed string string
  | TcpOpenFailed string
  | NotOpen
  | ClosedConn
  | StreamFailed read_error
  | LinkFailed string
  | TooLarge nat
  | ContextEnded ctx_error
  | EnableAdapterFailed string
  | BleConnectFailed string string
  | DiscoverServicesFailed string
  | ServiceNotFound
  | DiscoverCharacteristicsFailed string
  | RXNotFound
  | TXNotFound
  | EnableNotificationsFailed string
  | ScanFailed string
  | NoBleDevice ctx_error
  | BleDeviceNotFound string ctx_error
  | EnumerationFailed string

record endpoint =
  ep_URI :: string
  ep_Transport :: string
  ep_Name :: string
  ep_Address :: string
  ep_Metadata :: "(string \<times> string) list"

section \<open>Endpoints\<close>

definition ParseURI :: "string \<Rightarrow> transport_error + url" where
  "ParseURI raw =
     (case Parse_url raw of
        Inl err \<Rightarrow> Inl (InvalidURI raw err)
      | Inr u \<Rightarrow> if u_Scheme u = [] then Inl (URIWithoutScheme raw) else Inr u)"

definition Scheme :: "string \<Rightarrow> string" where
  "Scheme uri = (if CHR '':'' \<in> set uri then takeWhile (\<lambda>c. c \<noteq> CHR '':'') uri else [])"

definition Address :: "url \<Rightarrow> string" where
  "Address u = (if u_Host u \<noteq> [] then u_Host u else TrimPrefix (u_Path u) [])"

section \<open>Registry\<close>

text \<open>The map from schemes to dialers; a dialer makes an unopened connection of type \<open>'c\<close>.\<close>

type_synonym 'c dialer = "url \<Rightarrow> transport_error + 'c"
type_synonym 'c registry = "(string \<times> 'c dialer) list"

definition NewRegistry :: "'c registry" where
  "NewRegistry = []"

definition Register :: "string \<Rightarrow> 'c dialer \<Rightarrow> 'c registry \<Rightarrow> 'c registry" where
  "Register scheme dialer r = AList.update scheme dialer r"

definition Schemes :: "'c registry \<Rightarrow> string list" where
  "Schemes r = sort_Strings (map fst r)"

definition Dial_registry :: "'c registry \<Rightarrow> string \<Rightarrow> transport_error + 'c" where
  "Dial_registry r uri =
     (case ParseURI uri of
        Inl err \<Rightarrow> Inl err
      | Inr u \<Rightarrow>
          (case map_of r (u_Scheme u) of
             None \<Rightarrow> Inl (NoDialerFor (u_Scheme u))
           | Some dialer \<Rightarrow> dialer u))"

section \<open>Connections\<close>

text \<open>
  What a client relies on in a connection, besides reading: closing never panics, also not the second
  time, and leaves it closed; nothing is written to a connection that is not open. \<open>shut\<close> returns \<open>None\<close>
  for a panic.
\<close>

locale packet_conn =
  fixes valid :: "'c \<Rightarrow> bool" and opened :: "'c \<Rightarrow> bool"
    and send :: "bytes \<Rightarrow> 'c \<Rightarrow> transport_error option \<times> 'c"
    and shut :: "'c \<Rightarrow> (transport_error option \<times> 'c) option"
  assumes shut_closes: "valid c \<Longrightarrow> \<exists>e c'. shut c = Some (e, c') \<and> valid c' \<and> \<not> opened c'"
    and shut_again: "valid c \<Longrightarrow> \<not> opened c \<Longrightarrow> shut c = Some (e, c') \<Longrightarrow> e = None"
    and send_closed: "valid c \<Longrightarrow> \<not> opened c \<Longrightarrow> p \<noteq> [] \<Longrightarrow> \<exists>e. send p c = (Some e, c)"
begin

lemma closed_for_good:
  assumes "valid c" and "p \<noteq> []"
  shows "\<exists>e c1 c2 e1. shut c = Some (e, c1) \<and> send p c1 = (Some e1, c1) \<and> shut c1 = Some (None, c2) \<and> \<not> opened c2"
proof -
  obtain e c1 where c1: "shut c = Some (e, c1)" "valid c1" "\<not> opened c1" using shut_closes [OF assms(1)] by blast
  obtain e2 c2 where c2: "shut c1 = Some (e2, c2)" "\<not> opened c2" using shut_closes [OF c1(2)] by blast
  from send_closed [OF c1(2, 3) assms(2)] obtain e1 where "send p c1 = (Some e1, c1)" by blast
  with c1 c2 shut_again [OF c1(2, 3) c2(1)] show ?thesis by blast
qed

end

section \<open>Addresses of plain endpoints\<close>

text \<open>Text that a URI carries as it is.\<close>

definition plain_path :: "string \<Rightarrow> bool" where
  "plain_path s = list_all (\<lambda>c. \<not> is_ctl c \<and> c \<noteq> CHR ''%'' \<and> c \<noteq> CHR ''?'' \<and> c \<noteq> CHR ''#'') s"

definition plain_host :: "string \<Rightarrow> bool" where
  "plain_host s = (\<not> prefix ''['' s \<and> list_all (\<lambda>c. host_char c \<and> c \<noteq> CHR ''%'') s)"

lemma host_char_facts:
  assumes "host_char c"
  shows "\<not> is_ctl c" "c \<noteq> CHR ''?''" "c \<noteq> CHR ''#''" "c \<noteq> CHR ''/''" "c \<noteq> CHR ''@''"
proof -
  have "\<not> host_char (CHR ''?'')" "\<not> host_char (CHR ''#'')" "\<not> host_char (CHR ''/'')" "\<not> host_char (CHR ''@'')"
    by code_simp+
  with assms show "c \<noteq> CHR ''?''" "c \<noteq> CHR ''#''" "c \<noteq> CHR ''/''" "c \<noteq> CHR ''@''" by metis+
  show "\<not> is_ctl c"
    using assms by (auto simp: host_char_def is_ctl_def is_letter_def is_digit_def Let_def)
qed

lemma plain_host_facts:
  assumes "plain_host s"
  shows "\<not> list_ex is_ctl s" "CHR ''?'' \<notin> set s" "CHR ''#'' \<notin> set s" "CHR ''/'' \<notin> set s" "CHR ''@'' \<notin> set s"
  using assms host_char_facts unfolding plain_host_def list_all_iff list_ex_iff by metis+

lemma plain_path_facts:
  assumes "plain_path s"
  shows "\<not> list_ex is_ctl s" "CHR ''?'' \<notin> set s" "CHR ''#'' \<notin> set s" "CHR ''%'' \<notin> set s"
  using assms unfolding plain_path_def list_all_iff list_ex_iff by metis+

lemma letters_facts:
  assumes "list_all is_letter s"
  shows "\<not> list_ex is_ctl s" "CHR ''#'' \<notin> set s"
proof -
  have "is_letter c \<Longrightarrow> host_char c" for c by (simp add: host_char_def)
  with assms host_char_facts show "\<not> list_ex is_ctl s" "CHR ''#'' \<notin> set s"
    unfolding list_all_iff list_ex_iff by metis+
qed

lemma parse_rest_authority:
  assumes "scheme \<noteq> []" "plain_host host" "path = [] \<or> prefix ''/'' path" "plain_path path"
  shows "parse_rest scheme (''//'' @ host @ path) =
    map_sum id (\<lambda>h. \<lparr>u_Scheme = ascii_lower scheme, u_Opaque = [], u_Host = h, u_Path = path, u_RawQuery = []\<rparr>)
      (parseHost host)"
proof -
  note h = plain_host_facts [OF assms(2)] and p = plain_path_facts [OF assms(4)]
  have query: "Cut (CHR ''?'') (''//'' @ host @ path) = (''//'' @ host @ path, [])"
    by (rule Cut_none) (simp add: h p)
  have auth: "takeWhile (\<lambda>c. c \<noteq> CHR ''/'') (host @ path) = host \<and> dropWhile (\<lambda>c. c \<noteq> CHR ''/'') (host @ path) = path"
    using assms(3)
  proof
    assume "path = []"
    then show ?thesis by (simp add: until_sep h(4))
  next
    assume "prefix ''/'' path"
    then obtain t where "path = CHR ''/'' # t" by (auto simp: prefix_def)
    then show ?thesis by (simp only: until_sep(1, 2) [OF h(4)] simp_thms)
  qed
  have "parseAuthority host = parseHost host" by (simp add: parseAuthority_def cut_last_none h)
  moreover have "unescape EncodePath path = Inr path" by (simp add: unescape_path p)
  ultimately show ?thesis
    using assms(1) query auth by (cases "parseHost host") (simp_all add: parse_rest_def)
qed

lemma Parse_url_authority:
  assumes "list_all is_letter scheme" "scheme \<noteq> []" "plain_host host" "path = [] \<or> prefix ''/'' path" "plain_path path"
  shows "Parse_url (scheme @ ''://'' @ host @ path) =
    map_sum id (\<lambda>h. \<lparr>u_Scheme = ascii_lower scheme, u_Opaque = [], u_Host = h, u_Path = path, u_RawQuery = []\<rparr>)
      (parseHost host)"
proof -
  note facts = letters_facts [OF assms(1)] plain_host_facts [OF assms(3)] plain_path_facts [OF assms(5)]
  have sep: "\<not> is_ctl (CHR '':'')" "\<not> is_ctl (CHR ''/'')" by code_simp+
  let ?raw = "scheme @ ''://'' @ host @ path"
  have frag: "Cut (CHR ''#'') ?raw = (?raw, [])" by (rule Cut_none) (simp add: facts)
  have ctl: "\<not> list_ex is_ctl ?raw" by (simp add: facts sep)
  have star: "?raw \<noteq> ''*''" using assms(2) by (cases scheme) simp_all
  have "getScheme ?raw = Inr (scheme, ''//'' @ host @ path)"
    using getScheme_letters [OF assms(1, 2)] by simp
  with frag ctl star parse_rest_authority [OF assms(2-5)] show ?thesis
    by (cases "parseHost host") (simp_all add: Parse_url_def)
qed

lemma parseHost_plain:
  assumes "plain_host host" and "CHR '':'' \<notin> set host"
  shows "parseHost host = Inr host"
  using assms unescape_host [of host] by (simp add: parseHost_def plain_host_def cut_last_none conj_commute)

text \<open>The part after the last colon is taken for a port, and must be decimal.\<close>

lemma parseHost_port:
  assumes "plain_host (host @ CHR '':'' # port)" and "CHR '':'' \<notin> set port"
  shows "parseHost (host @ CHR '':'' # port) =
    (if list_all is_digit port then Inr (host @ CHR '':'' # port) else Inl (InvalidPort (CHR '':'' # port)))"
  using assms unescape_host [of "host @ CHR '':'' # port"]
  by (simp add: parseHost_def plain_host_def cut_last_some validOptionalPort_def conj_commute)

section \<open>The registry\<close>

lemma map_of_Register [simp]: "map_of (Register s d r) = (map_of r)(s \<mapsto> d)"
  by (simp add: Register_def update_conv')

lemma Dial_registry_parsed:
  assumes "ParseURI uri = Inr u"
  shows "Dial_registry (Register s d r) uri = (if u_Scheme u = s then d u else Dial_registry r uri)"
  using assms by (simp add: Dial_registry_def)

lemma Dial_registry_empty: "\<exists>e. Dial_registry NewRegistry uri = Inl e"
  by (simp add: Dial_registry_def NewRegistry_def split: sum.split)

end
