(* ===== verification/Serial_Conn.thy ===== *)
theory Serial_Conn
  imports Transport Go_Strconv
begin

text \<open>
  The serial connection: \<open>transport/serial/serial.go\<close> and \<open>transport/serial/discover.go\<close>. The serial library
  is a parameter: opening a port gives the stream of bytes the device will send, or an error; \<open>port_ops\<close>
  are its write and close operations on a port of type \<open>'p\<close>.

  \<open>Open\<close> starts the goroutine \<open>readLoop\<close>. Its statements, \<open>ReadPacket\<close> and \<open>Close\<close> are the steps of a relation,
  so every interleaving is covered. A \<open>select\<close> is the list of its ready cases; none ready means waiting.
\<close>

section \<open>Connection\<close>

definition DefaultBaud :: int where
  "DefaultBaud = 115200"

text \<open>Where a \<open>readLoop\<close> goroutine is: about to read a frame from the bytes that are left, about to send a
  frame on \<open>packets\<close>, or returned.\<close>

datatype reader = Reading bytes | Delivering bytes bytes | Stopped

record 'p port_ops =
  op_write :: "'p \<Rightarrow> bytes \<Rightarrow> string option \<times> 'p"
  op_close :: "'p \<Rightarrow> string option"

record 'p serial_conn =
  sl_path :: string
  sl_baud :: int
  sl_port :: "'p option"
  sl_packets :: "bytes chan"
  sl_readErr :: "transport_error chan"
  sl_done :: "unit chan"
  sl_once :: bool
  sl_readers :: "reader list"

definition WithBaud :: "int \<Rightarrow> 'p serial_conn \<Rightarrow> 'p serial_conn" where
  "WithBaud baud c = c\<lparr>sl_baud := baud\<rparr>"

definition New_serial :: "string \<Rightarrow> ('p serial_conn \<Rightarrow> 'p serial_conn) list \<Rightarrow> 'p serial_conn" where
  "New_serial path opts = fold (\<lambda>opt c. opt c) opts
     \<lparr>sl_path = path, sl_baud = DefaultBaud, sl_port = None, sl_packets = make_chan 16,
      sl_readErr = make_chan 1, sl_done = make_chan 0, sl_once = False, sl_readers = []\<rparr>"

text \<open>What the library reports when a port cannot be opened: a \<open>PortError\<close> with its code, or another error.\<close>

datatype open_error = PortErrorBusy string | PortErrorOther string | OtherError string

fun isBusy :: "open_error \<Rightarrow> bool" where
  "isBusy (PortErrorBusy _) = True"
| "isBusy (PortErrorOther _) = False"
| "isBusy (OtherError _) = False"

fun open_error_text :: "open_error \<Rightarrow> string" where
  "open_error_text (PortErrorBusy m) = m"
| "open_error_text (PortErrorOther m) = m"
| "open_error_text (OtherError m) = m"

definition Open_serial :: "(string \<Rightarrow> int \<Rightarrow> open_error + 'p \<times> bytes) \<Rightarrow> 'p serial_conn \<Rightarrow>
    transport_error option \<times> 'p serial_conn" where
  "Open_serial lib c =
     (if sl_port c \<noteq> None then (None, c)
      else case lib (sl_path c) (sl_baud c) of
          Inl err \<Rightarrow>
            (Some (if isBusy err then PortBusy (sl_path c) else SerialOpenFailed (sl_path c) (open_error_text err)), c)
        | Inr (port, stream) \<Rightarrow>
            (None, c\<lparr>sl_port := Some port, sl_readers := sl_readers c @ [Reading stream]\<rparr>))"

text \<open>One statement of the \<open>i\<close>-th \<open>readLoop\<close>. Reading from a closed port may fail at once.\<close>

definition stop_with :: "transport_error \<Rightarrow> nat \<Rightarrow> 'p serial_conn \<Rightarrow> 'p serial_conn list" where
  "stop_with e i c =
     (case try_send e (sl_readErr c) of
        Some (ch, _) \<Rightarrow> [c\<lparr>sl_readErr := ch, sl_readers := (sl_readers c)[i := Stopped]\<rparr>]
      | None \<Rightarrow> [])"

definition readLoop_steps :: "nat \<Rightarrow> 'p serial_conn \<Rightarrow> 'p serial_conn list" where
  "readLoop_steps i c =
     (if length (sl_readers c) \<le> i then []
      else case sl_readers c ! i of
          Stopped \<Rightarrow> []
        | Reading r \<Rightarrow>
            (case ReadDeviceFrame r of
               (Inl e, _) \<Rightarrow> stop_with (StreamFailed e) i c
             | (Inr frame, r') \<Rightarrow> [c\<lparr>sl_readers := (sl_readers c)[i := Delivering frame r']\<rparr>]) @
            (if sl_port c = None then stop_with (LinkFailed ''port closed'') i c else [])
        | Delivering frame r \<Rightarrow>
            (case try_send frame (sl_packets c) of
               Some (ch, True) \<Rightarrow> [c\<lparr>sl_packets := ch, sl_readers := (sl_readers c)[i := Reading r]\<rparr>]
             | _ \<Rightarrow> []) @
            (if ch_open (sl_done c) then [] else [c\<lparr>sl_readers := (sl_readers c)[i := Stopped]\<rparr>]))"

definition ReadPacket_serial :: "ctx_error option \<Rightarrow> 'p serial_conn \<Rightarrow> ((transport_error + bytes) \<times> 'p serial_conn) list" where
  "ReadPacket_serial ctx c =
     (case try_recv (sl_packets c) of (Value p, ch) \<Rightarrow> [(Inr p, c\<lparr>sl_packets := ch\<rparr>)] | _ \<Rightarrow> []) @
     (case try_recv (sl_readErr c) of (Value e, ch) \<Rightarrow> [(Inl e, c\<lparr>sl_readErr := ch\<rparr>)] | _ \<Rightarrow> []) @
     (if ch_open (sl_done c) then [] else [(Inl ClosedConn, c)]) @
     (case ctx of None \<Rightarrow> [] | Some e \<Rightarrow> [(Inl (ContextEnded e), c)])"

definition WritePacket_serial :: "'p port_ops \<Rightarrow> bytes \<Rightarrow> 'p serial_conn \<Rightarrow> transport_error option \<times> 'p serial_conn" where
  "WritePacket_serial ops packet c =
     (case sl_port c of
        None \<Rightarrow> (Some NotOpen, c)
      | Some port \<Rightarrow>
          (case WriteHostFrame (op_write ops) port packet of
             (err, port') \<Rightarrow>
               (case err of
                  None \<Rightarrow> None
                | Some (PayloadTooLarge n) \<Rightarrow> Some (TooLarge n)
                | Some (WriterError m) \<Rightarrow> Some (LinkFailed m),
                c\<lparr>sl_port := Some port'\<rparr>)))"

definition Close_serial :: "'p port_ops \<Rightarrow> 'p serial_conn \<Rightarrow> (transport_error option \<times> 'p serial_conn) option" where
  "Close_serial ops c =
     do {
       finished \<leftarrow> (if sl_once c then Some (sl_done c) else chan_close (sl_done c));
       let c = c\<lparr>sl_once := True, sl_done := finished\<rparr>;
       case sl_port c of
         None \<Rightarrow> Some (None, c)
       | Some port \<Rightarrow> Some (map_option LinkFailed (op_close ops port), c\<lparr>sl_port := None\<rparr>)
     }"

definition String_serial :: "'p serial_conn \<Rightarrow> string" where
  "String_serial c = ''serial://'' @ sl_path c"

section \<open>Dialing and discovery\<close>

text \<open>\<open>fmt.Sscanf(b, "%d", &baud)\<close>: spaces other than a newline are skipped, then a sign and digits are
  read; what follows is ignored.\<close>

definition Sscanf_d :: "string \<Rightarrow> int option" where
  "Sscanf_d b =
     (let s = trim_enc (filter (\<lambda>e. e \<noteq> [CHR 0x0A]) space_encodings) b;
          (sgn, rest) = (case s of c # t \<Rightarrow> if c = CHR ''+'' \<or> c = CHR ''-'' then ([c], t) else ([], s) | [] \<Rightarrow> ([], []));
          digits = takeWhile is_digit rest
      in if digits = [] then None else ParseInt 64 (sgn @ digits))"

definition Dial_serial :: "'p serial_conn dialer" where
  "Dial_serial uri =
     (let path = (if u_Path uri = [] then u_Opaque uri else u_Path uri) in
      if path = [] then Inl SerialWithoutPath
      else
        let b = Query_Get uri ''baud'';
            opts = (if b = [] then []
                    else case Sscanf_d b of
                        Some baud \<Rightarrow> if baud > 0 then [WithBaud baud] else []
                      | None \<Rightarrow> [])
        in Inr (New_serial path opts))"

record port_details =
  pd_Name :: string
  pd_IsUSB :: bool
  pd_VID :: string
  pd_PID :: string
  pd_SerialNumber :: string
  pd_Product :: string
  pd_Manufacturer :: string

definition serial_endpoint :: "port_details \<Rightarrow> endpoint" where
  "serial_endpoint p =
     \<lparr>ep_URI = ''serial://'' @ pd_Name p, ep_Transport = ''serial'',
      ep_Name = (if pd_Product p = [] then TrimSpace (pd_Manufacturer p) else pd_Product p),
      ep_Address = pd_Name p,
      ep_Metadata = (if pd_VID p \<noteq> [] then [(''vid'', pd_VID p)] else []) @
        (if pd_PID p \<noteq> [] then [(''pid'', pd_PID p)] else []) @
        (if pd_SerialNumber p \<noteq> [] then [(''serial'', pd_SerialNumber p)] else [])\<rparr>"

definition Discover_serial :: "string + port_details list \<Rightarrow> transport_error + endpoint list" where
  "Discover_serial ports =
     (case ports of
        Inl err \<Rightarrow> Inl (EnumerationFailed err)
      | Inr ps \<Rightarrow> Inr (map serial_endpoint (filter pd_IsUSB ps)))"

section \<open>Closing and writing\<close>

definition serial_ok :: "'p serial_conn \<Rightarrow> bool" where
  "serial_ok c \<longleftrightarrow> ch_open (sl_packets c) \<and> chan_ok (sl_packets c) \<and> ch_cap (sl_packets c) = 16 \<and>
     ch_open (sl_readErr c) \<and> (sl_once c \<longleftrightarrow> \<not> ch_open (sl_done c))"

lemma serial_ok_New: "serial_ok (New_serial path [])" "serial_ok (New_serial path [WithBaud b])"
  by (simp_all add: New_serial_def WithBaud_def serial_ok_def)

lemma Close_serial_eq:
  assumes "serial_ok c"
  shows "Close_serial ops c =
    Some (case sl_port c of None \<Rightarrow> None | Some port \<Rightarrow> map_option LinkFailed (op_close ops port),
      c\<lparr>sl_once := True, sl_done := (sl_done c)\<lparr>ch_open := False\<rparr>, sl_port := None\<rparr>)"
  using assms by (cases "sl_port c") (simp_all add: Close_serial_def serial_ok_def chan_close_def Let_def)

interpretation serial: packet_conn serial_ok "\<lambda>c. sl_port c \<noteq> None" "WritePacket_serial ops" "Close_serial ops" for ops
  by unfold_locales (auto simp: Close_serial_eq WritePacket_serial_def serial_ok_def)

lemma serial_ok_Open: "serial_ok c \<Longrightarrow> serial_ok (snd (Open_serial lib c))"
  by (auto simp: Open_serial_def serial_ok_def split: sum.splits)

lemma WritePacket_serial_frame:
  assumes "sl_port c = Some s" and "length p \<le> MaxLen"
  shows "WritePacket_serial \<lparr>op_write = buffer_write, op_close = k\<rparr> p c =
    (None, c\<lparr>sl_port := Some (s @ frame_bytes ToDevice p)\<rparr>)"
  using assms by (simp add: WritePacket_serial_def WriteHostFrame_def Write_buffer)

section \<open>Reading\<close>

text \<open>The steps after \<open>Open\<close>, labelled with what \<open>ReadPacket\<close> returned.\<close>

inductive serial_run :: "'p port_ops \<Rightarrow> 'p serial_conn \<Rightarrow> (transport_error + bytes) list \<Rightarrow> 'p serial_conn \<Rightarrow> bool"
  for ops :: "'p port_ops" and c0 :: "'p serial_conn" where
  start: "serial_run ops c0 [] c0"
| loop: "serial_run ops c0 outs c \<Longrightarrow> c' \<in> set (readLoop_steps i c) \<Longrightarrow> serial_run ops c0 outs c'"
| read: "serial_run ops c0 outs c \<Longrightarrow> (r, c') \<in> set (ReadPacket_serial ctx c) \<Longrightarrow> serial_run ops c0 (outs @ [r]) c'"
| send: "serial_run ops c0 outs c \<Longrightarrow> serial_run ops c0 outs (snd (WritePacket_serial ops p c))"
| close: "serial_run ops c0 outs c \<Longrightarrow> Close_serial ops c = Some (e, c') \<Longrightarrow> serial_run ops c0 outs c'"

fun packets_of :: "(transport_error + bytes) list \<Rightarrow> bytes list" where
  "packets_of [] = []"
| "packets_of (Inr p # rs) = p # packets_of rs"
| "packets_of (Inl e # rs) = packets_of rs"

lemma packets_of_append [simp]: "packets_of (xs @ ys) = packets_of xs @ packets_of ys"
  by (induction xs rule: packets_of.induct) simp_all

fun still_to_come :: "reader \<Rightarrow> bytes list" where
  "still_to_come (Reading r) = frames r"
| "still_to_come (Delivering f r) = f # frames r"
| "still_to_come Stopped = []"

text \<open>Nothing is lost, repeated or reordered: what was returned, what is buffered and what the reader still
  has make up the frames of the stream, unless the connection was closed, when a rest may be missing.\<close>

definition serial_inv :: "bytes list \<Rightarrow> bytes list \<Rightarrow> 'p serial_conn \<Rightarrow> bool" where
  "serial_inv all got c \<longleftrightarrow> serial_ok c \<and>
     (\<exists>rd. sl_readers c = [rd] \<and> (\<exists>lost. all = got @ ch_buf (sl_packets c) @ still_to_come rd @ lost \<and>
        (ch_open (sl_done c) \<longrightarrow> lost = [] \<and> sl_port c \<noteq> None)))"

lemma serial_inv_loop:
  assumes "serial_inv all got c" and "c' \<in> set (readLoop_steps i c)"
  shows "serial_inv all got c'"
proof -
  from assms(1) obtain rd lost where rd: "sl_readers c = [rd]" "serial_ok c"
    "all = got @ ch_buf (sl_packets c) @ still_to_come rd @ lost" "ch_open (sl_done c) \<Longrightarrow> lost = [] \<and> sl_port c \<noteq> None"
    by (auto simp: serial_inv_def)
  from assms(2) rd(1) have i: "i = 0" by (auto simp: readLoop_steps_def split: if_splits)
  show ?thesis
  proof (cases rd)
    case (Reading r)
    then show ?thesis
    proof (cases "ReadDeviceFrame r")
      case (Pair res r')
      with assms(2) rd Reading i show ?thesis
        by (cases res)
          (auto simp: readLoop_steps_def stop_with_def serial_inv_def serial_ok_def try_send_def
            frames.simps [of r] split: if_splits)
    qed
  next
    case (Delivering f r)
    with assms(2) rd i show ?thesis
      by (auto simp: readLoop_steps_def serial_inv_def serial_ok_def try_send_def chan_ok_def split: if_splits)
  next
    case Stopped
    with assms(2) rd i show ?thesis by (simp add: readLoop_steps_def)
  qed
qed

lemma serial_inv_read:
  assumes "serial_inv all got c" and "(r, c') \<in> set (ReadPacket_serial ctx c)"
  shows "serial_inv all (got @ packets_of [r]) c'"
  using assms
  by (auto simp: ReadPacket_serial_def serial_inv_def serial_ok_def try_recv_def chan_ok_def
      split: list.splits if_splits option.splits)

lemma serial_inv_write: "serial_inv all got c \<Longrightarrow> serial_inv all got (snd (WritePacket_serial ops p c))"
  by (auto simp: serial_inv_def WritePacket_serial_def serial_ok_def split: option.split prod.split)

lemma serial_inv_close: "serial_inv all got c \<Longrightarrow> Close_serial ops c = Some (e, c') \<Longrightarrow> serial_inv all got c'"
  by (auto simp: serial_inv_def Close_serial_eq) (auto simp: serial_ok_def)

lemma serial_run_inv:
  assumes "serial_run ops c0 outs c" and "serial_inv all [] c0"
  shows "serial_inv all (packets_of outs) c"
  using assms(1)
proof induction
  case start
  show ?case using assms(2) by simp
next
  case (loop outs c c' i)
  then show ?case by (blast intro: serial_inv_loop)
next
  case (read outs c r c' ctx)
  from serial_inv_read [OF read.IH read.hyps(2)] show ?case by simp
next
  case (send outs c p)
  then show ?case by (blast intro: serial_inv_write)
next
  case (close outs c e c')
  then show ?case by (blast intro: serial_inv_close)
qed

text \<open>While the connection is open and something has not been returned, the reader or a call of
  \<open>ReadPacket\<close> can go on.\<close>

lemma serial_inv_progress:
  assumes "serial_inv all got c" and "ch_open (sl_done c)" and "got \<noteq> all"
  shows "readLoop_steps 0 c \<noteq> [] \<or> (\<exists>p c'. (Inr p, c') \<in> set (ReadPacket_serial None c))"
proof (cases "ch_buf (sl_packets c)")
  case (Cons p ps)
  then show ?thesis by (auto simp: ReadPacket_serial_def try_recv_def)
next
  case Nil
  with assms obtain rd where rd: "sl_readers c = [rd]" "all = got @ still_to_come rd" "serial_ok c"
    by (auto simp: serial_inv_def)
  with assms(3) have "rd \<noteq> Stopped" by auto
  with rd Nil have "readLoop_steps 0 c \<noteq> []"
    by (cases rd) (auto simp: readLoop_steps_def serial_ok_def try_send_def stop_with_def
        split: prod.splits sum.splits)
  then show ?thesis ..
qed

text \<open>C32: The serial connection delivers the packets of the device unchanged, in order and none twice. For a
  device that sends the packets \<open>ps\<close> framed, and any interleaving of the background reader with
  \<open>ReadPacket\<close>, \<open>WritePacket\<close> and \<open>Close\<close>, what \<open>ReadPacket\<close> returned is a prefix of \<open>ps\<close>, at most 16 packets are
  buffered, and until \<open>Close\<close> is called no packet is lost: as long as one is missing, the reader can go
  on or \<open>ReadPacket\<close> has a packet to return.\<close>

theorem serial_delivers_in_order:
  assumes "list_all (\<lambda>p. length p \<le> MaxLen) ps"
    and "Open_serial (\<lambda>path baud. Inr (port, concat (map (frame_bytes ToHost) ps))) (New_serial path []) = (err, c0)"
    and "serial_run ops c0 outs c"
  shows "prefix (packets_of outs) ps \<and> length (ch_buf (sl_packets c)) \<le> 16 \<and>
    (ch_open (sl_done c) \<and> packets_of outs \<noteq> ps \<longrightarrow>
       readLoop_steps 0 c \<noteq> [] \<or> (\<exists>p c'. (Inr p, c') \<in> set (ReadPacket_serial None c)))"
proof -
  have "serial_inv ps [] c0"
    using assms(2) frames_written [OF assms(1)]
    by (auto simp: Open_serial_def New_serial_def serial_inv_def serial_ok_def)
  from serial_run_inv [OF assms(3) this] have inv: "serial_inv ps (packets_of outs) c" .
  then have "prefix (packets_of outs) ps" "length (ch_buf (sl_packets c)) \<le> 16"
    by (auto simp: serial_inv_def serial_ok_def chan_ok_def)
  with serial_inv_progress [OF inv] show ?thesis by blast
qed

theorem serial_delivers_in_order_witness:
  "\<exists>c0 c :: bytes serial_conn. Open_serial (\<lambda>path baud. Inr ([], [0x3e, 1, 0, 7])) (New_serial ''/dev/ttyACM0'' []) = (None, c0) \<and>
     serial_run \<lparr>op_write = buffer_write, op_close = \<lambda>_. None\<rparr> c0 [Inr [7]] c \<and> prefix (packets_of [Inr [7]]) [[7]]"
proof -
  let ?ops = "\<lparr>op_write = buffer_write, op_close = \<lambda>_. None\<rparr>" and ?n = "New_serial ''/dev/ttyACM0'' [] :: bytes serial_conn"
  let ?c0 = "?n\<lparr>sl_port := Some [], sl_readers := [Reading (frame_bytes ToHost [7])]\<rparr>"
  let ?c1 = "?c0\<lparr>sl_readers := [Delivering [7] []]\<rparr>"
  let ?c2 = "?c1\<lparr>sl_packets := (sl_packets ?c1)\<lparr>ch_buf := [[7]]\<rparr>, sl_readers := [Reading []]\<rparr>"
  let ?c3 = "?c2\<lparr>sl_packets := (sl_packets ?c2)\<lparr>ch_buf := []\<rparr>\<rparr>"
  have f: "frame_bytes ToHost [7] = [0x3e, 1, 0, 7]" by (simp add: frame_bytes_def ToHost_def put_u16_def)
  have opn: "Open_serial (\<lambda>path baud. Inr ([], frame_bytes ToHost [7])) ?n = (None, ?c0)"
    by (simp add: Open_serial_def New_serial_def)
  have "ReadDeviceFrame (frame_bytes ToHost [7]) = (Inr [7], [])"
    using read_frame_written [of "[7]" ToHost "[]" "[]" False]
    by (simp add: ReadDeviceFrame_def readFrameWithMarkerMode_def Read_def MaxLen_def)
  then have "?c1 \<in> set (readLoop_steps 0 ?c0)" by (simp add: readLoop_steps_def New_serial_def)
  with serial_run.start [of ?ops ?c0] have "serial_run ?ops ?c0 [] ?c1" by (rule serial_run.loop)
  moreover have "?c2 \<in> set (readLoop_steps 0 ?c1)"
    by (simp add: readLoop_steps_def New_serial_def try_send_def)
  ultimately have "serial_run ?ops ?c0 [] ?c2" by (rule serial_run.loop)
  moreover have "(Inr [7], ?c3) \<in> set (ReadPacket_serial None ?c2)"
    by (simp add: ReadPacket_serial_def New_serial_def try_recv_def)
  ultimately have run: "serial_run ?ops ?c0 [Inr [7]] ?c3" by (auto dest: serial_run.read)
  from serial_delivers_in_order [of "[[7]]" "[]" "''/dev/ttyACM0''" None ?c0, OF _ _ run] opn
  have "prefix (packets_of [Inr [7]]) [[7 :: byte]]" by (simp add: MaxLen_def)
  with opn run show ?thesis unfolding f by blast
qed

end
