(* ===== verification/Tcp_Conn.thy ===== *)
theory Tcp_Conn
  imports Transport
begin

text \<open>
  The TCP connection: \<open>transport/tcp/tcp.go\<close>. \<open>sk_buffered\<close> are the bytes the \<open>bufio.Reader\<close> has received and
  not yet returned, \<open>sk_deadline\<close> tells whether a read deadline in the past was set on the socket: reading
  from the socket then fails at once. What the network does during a call is an argument of the call.
  The URI the connection was made from is only printed and not modelled.
\<close>

section \<open>Connection\<close>

record 'p socket =
  sk_buffered :: bytes
  sk_deadline :: bool
  sk_peer :: 'p

record 'p tcp_ops =
  tcp_write :: "'p \<Rightarrow> bytes \<Rightarrow> string option \<times> 'p"
  tcp_close :: "'p \<Rightarrow> string option"
  tcp_write_deadline :: "'p \<Rightarrow> 'p"

record 'p tcp_conn =
  tc_addr :: string
  tc_conn :: "'p socket option"

definition New_tcp :: "string \<Rightarrow> 'p tcp_conn" where
  "New_tcp addr = \<lparr>tc_addr = addr, tc_conn = None\<rparr>"

definition Open_tcp :: "(string \<Rightarrow> string + 'p) \<Rightarrow> 'p tcp_conn \<Rightarrow> transport_error option \<times> 'p tcp_conn" where
  "Open_tcp dial c =
     (if tc_conn c \<noteq> None then (None, c)
      else case dial (tc_addr c) of
          Inl err \<Rightarrow> (Some (TcpOpenFailed err), c)
        | Inr p \<Rightarrow> (None, c\<lparr>tc_conn := Some \<lparr>sk_buffered = [], sk_deadline = False, sk_peer = p\<rparr>\<rparr>))"

text \<open>How the socket stands when all bytes that arrived are consumed: more may come, or it is at its end.\<close>

datatype link = Waits | AtEOF | Broken string

definition timeout_text :: string where
  "timeout_text = ''i/o timeout''"

text \<open>\<open>arrived\<close> are the bytes the reader gets from the socket during the call. \<open>ctx\<close> is the error of the
  context when it ends during the call; the flag tells whether the helper goroutine then sets the
  deadline even though the read is not waiting any more.\<close>

definition ReadPacket_tcp :: "bytes \<Rightarrow> link \<Rightarrow> (ctx_error \<times> bool) option \<Rightarrow> 'p tcp_conn \<Rightarrow>
    ((transport_error + bytes) \<times> 'p tcp_conn) outcome" where
  "ReadPacket_tcp arrived lnk ctx c =
     (case tc_conn c of
        None \<Rightarrow> Finished (Inl NotOpen, c)
      | Some s \<Rightarrow>
          (let (pkt, rest) = Read (sk_buffered s @ (if sk_deadline s then [] else arrived)) ToHost;
               s' = s\<lparr>sk_buffered := rest\<rparr>;
               return = (\<lambda>r. Finished
                 (case ctx of
                    Some (e, late) \<Rightarrow> (Inl (ContextEnded e), c\<lparr>tc_conn := Some (s'\<lparr>sk_deadline := sk_deadline s \<or> late\<rparr>)\<rparr>)
                  | None \<Rightarrow> (r, c\<lparr>tc_conn := Some s'\<rparr>)))
           in case pkt of
                Inr p \<Rightarrow> return (Inr p)
              | Inl (FrameLengthExceedsMaximum n) \<Rightarrow> return (Inl (StreamFailed (FrameLengthExceedsMaximum n)))
              | Inl e \<Rightarrow>
                  if sk_deadline s then return (Inl (LinkFailed timeout_text))
                  else (case lnk of
                          AtEOF \<Rightarrow> return (Inl (StreamFailed e))
                        | Broken m \<Rightarrow> return (Inl (LinkFailed m))
                        | Waits \<Rightarrow>
                            (case ctx of
                               None \<Rightarrow> Blocked
                             | Some (err, _) \<Rightarrow>
                                 Finished (Inl (ContextEnded err), c\<lparr>tc_conn := Some (s'\<lparr>sk_deadline := True\<rparr>)\<rparr>)))))"

text \<open>When the context ends during a write, the deadline is set before the socket is written to, after
  that, or not at all.\<close>

datatype deadline_set = SetBefore | SetAfter | NotSet

definition WritePacket_tcp :: "'p tcp_ops \<Rightarrow> (ctx_error \<times> deadline_set) option \<Rightarrow> bytes \<Rightarrow> 'p tcp_conn \<Rightarrow>
    transport_error option \<times> 'p tcp_conn" where
  "WritePacket_tcp ops ctx packet c =
     (case tc_conn c of
        None \<Rightarrow> (Some NotOpen, c)
      | Some s \<Rightarrow>
          (let p0 = (case ctx of Some (_, SetBefore) \<Rightarrow> tcp_write_deadline ops (sk_peer s) | _ \<Rightarrow> sk_peer s);
               (err, p1) = Write (tcp_write ops) p0 ToDevice packet;
               p2 = (case ctx of Some (_, SetAfter) \<Rightarrow> tcp_write_deadline ops p1 | _ \<Rightarrow> p1);
               c' = c\<lparr>tc_conn := Some (s\<lparr>sk_peer := p2\<rparr>)\<rparr>
           in case err of
                None \<Rightarrow> (None, c')
              | Some e \<Rightarrow>
                  (case ctx of
                     Some (cerr, _) \<Rightarrow> (Some (ContextEnded cerr), c')
                   | None \<Rightarrow>
                       (Some (case e of PayloadTooLarge n \<Rightarrow> TooLarge n | WriterError m \<Rightarrow> LinkFailed m), c'))))"

definition Close_tcp :: "'p tcp_ops \<Rightarrow> 'p tcp_conn \<Rightarrow> (transport_error option \<times> 'p tcp_conn) option" where
  "Close_tcp ops c =
     (case tc_conn c of
        None \<Rightarrow> Some (None, c)
      | Some s \<Rightarrow> Some (map_option LinkFailed (tcp_close ops (sk_peer s)), c\<lparr>tc_conn := None\<rparr>))"

definition Dial_tcp :: "'p tcp_conn dialer" where
  "Dial_tcp uri =
     (let addr = (if u_Host uri = [] then u_Opaque uri else u_Host uri) in
      if addr = [] then Inl TcpWithoutAddress else Inr (New_tcp addr))"

interpretation tcp: packet_conn "\<lambda>_. True" "\<lambda>c. tc_conn c \<noteq> None" "WritePacket_tcp ops ctx" "Close_tcp ops" for ops ctx
  by unfold_locales (auto simp: Close_tcp_def WritePacket_tcp_def split: option.splits)

section \<open>Reading a stream in pieces\<close>

text \<open>A frame that was read stays the first frame when more bytes follow.\<close>

lemma skip_to_marker_append: "skip_to_marker r m = (Inr x, r') \<Longrightarrow> skip_to_marker (r @ t) m = (Inr x, r' @ t)"
  by (induction r m rule: skip_to_marker.induct) (auto split: if_splits)

lemma ReadFull_append: "ReadFull r n = (Inr x, r') \<Longrightarrow> ReadFull (r @ t) n = (Inr x, r' @ t)"
  by (auto simp: ReadFull_def split: if_splits)

lemma skip_to_marker_error: "skip_to_marker r m = (Inl e, r') \<Longrightarrow> e = EOF \<and> r' = []"
  by (induction r m rule: skip_to_marker.induct) (auto split: if_splits)

lemma Read_append:
  assumes "Read r m = (Inr p, r')"
  shows "Read (r @ t) m = (Inr p, r' @ t)"
proof -
  from assms obtain r1 lb r2 where
    "skip_to_marker r m = (Inr (), r1)" "ReadFull r1 2 = (Inr lb, r2)" "\<not> MaxLen < unat (the (le_u16 lb))"
    "ReadFull r2 (unat (the (le_u16 lb))) = (Inr p, r')"
    unfolding Read_def by (subst (asm) read_frame.simps) (auto simp: Let_def split: prod.splits sum.splits if_splits)
  then show ?thesis
    unfolding Read_def
    by (subst read_frame.simps) (simp add: skip_to_marker_append ReadFull_append)
qed

lemma Read_ran_out: "Read r m = (Inl e, r') \<Longrightarrow> e = EOF \<or> e = ErrUnexpectedEOF \<Longrightarrow> r' = []"
  unfolding Read_def
  by (subst (asm) read_frame.simps)
    (auto simp: Let_def ReadFull_def dest: skip_to_marker_error split: prod.splits sum.splits if_splits)

section \<open>Calls one after the other\<close>

text \<open>The packets of a number of calls that all return a packet, each with the bytes that arrive during it.\<close>

fun read_all :: "bytes list \<Rightarrow> 'p tcp_conn \<Rightarrow> (bytes list \<times> 'p tcp_conn) option" where
  "read_all [] c = Some ([], c)"
| "read_all (arrived # rest) c =
     (case ReadPacket_tcp arrived Waits None c of
        Finished (Inr p, c') \<Rightarrow> map_option (\<lambda>(ps, c''). (p # ps, c'')) (read_all rest c')
      | _ \<Rightarrow> None)"

definition live_socket :: "bytes \<Rightarrow> 'p tcp_conn \<Rightarrow> bool" where
  "live_socket buf c \<longleftrightarrow> (\<exists>s. tc_conn c = Some s \<and> sk_buffered s = buf \<and> \<not> sk_deadline s)"

lemma ReadPacket_tcp_packet:
  assumes "live_socket buf c" and "ReadPacket_tcp arrived Waits None c = Finished (Inr p, c')"
  shows "\<exists>rest. Read (buf @ arrived) ToHost = (Inr p, rest) \<and> live_socket rest c'"
  using assms
  by (auto simp: ReadPacket_tcp_def live_socket_def Let_def split: prod.splits sum.splits read_error.splits)

lemma ReadPacket_tcp_returns:
  assumes "live_socket buf c" and "Read (buf @ arrived) ToHost = (Inr p, rest)"
  shows "\<exists>c'. ReadPacket_tcp arrived lnk None c = Finished (Inr p, c') \<and> live_socket rest c'"
  using assms by (auto simp: ReadPacket_tcp_def live_socket_def)

lemma read_all_frames:
  assumes "live_socket buf c" and "read_all chunks c = Some (qs, c')"
  shows "\<exists>rest. live_socket rest c' \<and> (\<forall>later. frames (buf @ concat chunks @ later) = qs @ frames (rest @ later))"
  using assms
proof (induction chunks arbitrary: buf c qs)
  case (Cons arrived chunks)
  from Cons.prems(2) obtain p c1 ps where p: "ReadPacket_tcp arrived Waits None c = Finished (Inr p, c1)"
    and ps: "read_all chunks c1 = Some (ps, c')" "qs = p # ps"
    by (auto split: outcome.splits prod.splits sum.splits)
  from ReadPacket_tcp_packet [OF Cons.prems(1) p] obtain r where r: "Read (buf @ arrived) ToHost = (Inr p, r)" "live_socket r c1"
    by blast
  from Cons.IH [OF r(2) ps(1)] obtain rest where rest: "live_socket rest c'"
    "\<And>later. frames (r @ concat chunks @ later) = ps @ frames (rest @ later)" by blast
  have "frames (buf @ concat (arrived # chunks) @ later) = qs @ frames (rest @ later)" for later
    using frames_Read [OF Read_append [OF r(1)], of "concat chunks @ later"] rest(2) ps(2) by simp
  with rest(1) show ?case by blast
qed auto

text \<open>A context that ends while the call waits leaves an empty buffer and an expired deadline.\<close>

lemma ReadPacket_tcp_timeout:
  assumes "live_socket buf c" and "ReadPacket_tcp arrived Waits None c = Blocked"
  shows "\<exists>c' s. ReadPacket_tcp arrived Waits (Some (err, late)) c = Finished (Inl (ContextEnded err), c') \<and>
    tc_conn c' = Some s \<and> sk_buffered s = [] \<and> sk_deadline s"
proof -
  from assms obtain e rest where "Read (buf @ arrived) ToHost = (Inl e, rest)" and "e = EOF \<or> e = ErrUnexpectedEOF"
    by (auto simp: ReadPacket_tcp_def live_socket_def Let_def split: prod.splits sum.splits read_error.splits)
  with Read_ran_out [OF this] assms(1) show ?thesis by (auto simp: ReadPacket_tcp_def live_socket_def)
qed

lemma ReadPacket_tcp_expired:
  assumes "tc_conn c = Some s" and "sk_buffered s = []" and "sk_deadline s"
  shows "ReadPacket_tcp arrived lnk None c = Finished (Inl (LinkFailed timeout_text), c)"
proof -
  have "Read [] ToHost = (Inl EOF, [])" unfolding Read_def by (subst read_frame.simps) simp
  moreover have "c\<lparr>tc_conn := Some (s\<lparr>sk_buffered := []\<rparr>)\<rparr> = c" using assms(1, 2) by simp
  ultimately show ?thesis using assms by (simp add: ReadPacket_tcp_def)
qed

text \<open>C33: A TCP connection delivers packets in order until one read times out, and then never again. Whatever
  pieces the byte stream arrives in, the packets of successive calls are a prefix of the packets the
  device sent. When the context of a call ends while it waits, that call returns the context's error and
  every later call fails at once with a timeout, whatever arrives, because the read deadline that woke
  the call is never cleared.\<close>

theorem tcp_reads_in_order_until_timeout:
  assumes "live_socket [] c" and "list_all (\<lambda>p. length p \<le> MaxLen) ps"
    and "concat chunks @ later = concat (map (frame_bytes ToHost) ps)" and "read_all chunks c = Some (qs, c1)"
  shows "prefix qs ps \<and>
    (ReadPacket_tcp part Waits None c1 = Blocked \<longrightarrow>
      (\<exists>c2. ReadPacket_tcp part Waits (Some (err, late)) c1 = Finished (Inl (ContextEnded err), c2) \<and>
         (\<forall>arrived lnk. ReadPacket_tcp arrived lnk None c2 = Finished (Inl (LinkFailed timeout_text), c2))))"
proof -
  from read_all_frames [OF assms(1, 4)] obtain rest where rest: "live_socket rest c1"
    "frames (concat chunks @ later) = qs @ frames (rest @ later)" by auto
  have "prefix qs ps" using rest(2) frames_written [OF assms(2)] assms(3) by (auto simp: prefix_def)
  with ReadPacket_tcp_timeout [OF rest(1)] ReadPacket_tcp_expired show ?thesis by metis
qed

theorem tcp_reads_in_order_until_timeout_witness:
  "\<exists>c1 c2 :: unit tcp_conn. read_all [[0x3e, 1, 0, 7]]
      \<lparr>tc_addr = ''host:5000'', tc_conn = Some \<lparr>sk_buffered = [], sk_deadline = False, sk_peer = ()\<rparr>\<rparr> = Some ([[7]], c1) \<and>
    ReadPacket_tcp [] Waits (Some (DeadlineExceeded, False)) c1 = Finished (Inl (ContextEnded DeadlineExceeded), c2) \<and>
    ReadPacket_tcp [0x3e, 1, 0, 8] Waits None c2 = Finished (Inl (LinkFailed timeout_text), c2)"
proof -
  let ?c = "\<lparr>tc_addr = ''host:5000'', tc_conn = Some \<lparr>sk_buffered = [], sk_deadline = False, sk_peer = ()\<rparr>\<rparr>"
  have f: "frame_bytes ToHost [7] = [0x3e, 1, 0, 7]" by (simp add: frame_bytes_def ToHost_def put_u16_def)
  have "Read (frame_bytes ToHost [7]) ToHost = (Inr [7], [])"
    using read_frame_written [of "[7]" ToHost "[]" "[]" False] by (simp add: Read_def MaxLen_def)
  then have r: "Read [0x3e, 1, 0, 7] ToHost = (Inr [7], [])" by (simp only: f)
  then have a: "read_all [[0x3e, 1, 0, 7]] ?c = Some ([[7]], ?c)" by (simp add: ReadPacket_tcp_def)
  have "Read [] ToHost = (Inl EOF, [])" unfolding Read_def by (subst read_frame.simps) simp
  then have "ReadPacket_tcp [] Waits None ?c = Blocked" by (simp add: ReadPacket_tcp_def)
  with tcp_reads_in_order_until_timeout [of ?c "[[7]]" "[[0x3e, 1, 0, 7]]" "[]" "[[7]]" ?c "[]" DeadlineExceeded False] a f
  show ?thesis by (auto simp: live_socket_def MaxLen_def)
qed

end
