(* ===== verification/Go_Duration.thy ===== *)
theory Go_Duration
  imports Go_Strconv Go_Float Go_Url
begin

text \<open>\<open>time.ParseDuration\<close>: a signed sequence of decimal numbers, each with an optional fraction and a unit.
  \<open>None\<close> is an error, a syntax error or a value that does not fit.\<close>

definition unitMap :: "string \<Rightarrow> nat option" where
  "unitMap = map_of
     [(''ns'', 1), (''us'', 1000), ([CHR 0xC2, CHR 0xB5, CHR ''s''], 1000), ([CHR 0xCE, CHR 0xBC, CHR ''s''], 1000),
      (''ms'', 1000000), (''s'', 1000000000), (''m'', 60000000000), (''h'', 3600000000000)]"

text \<open>The digits of a fraction as a number and its scale; digits beyond 63 bits are skipped.\<close>

fun leadingFraction :: "nat \<Rightarrow> nat \<Rightarrow> string \<Rightarrow> nat \<times> nat" where
  "leadingFraction x scale [] = (x, scale)"
| "leadingFraction x scale (c # s) =
     (let y = 10 * x + (case digit_val c of Some d \<Rightarrow> d | None \<Rightarrow> 0) in
      if x > (2 ^ 63 - 1) div 10 \<or> y > 2 ^ 63 then (x, scale) else leadingFraction y (10 * scale) s)"

text \<open>One number with its unit: its whole digits, its fraction, the unit and what follows.\<close>

definition unit_parts :: "string \<Rightarrow> string \<times> string \<times> string \<times> string" where
  "unit_parts s =
     (let s1 = dropWhile is_digit s;
          fraction = (if prefix ''.'' s1 then takeWhile is_digit (tl s1) else []);
          s2 = (if prefix ''.'' s1 then dropWhile is_digit (tl s1) else s1)
      in (takeWhile is_digit s, fraction, takeWhile (\<lambda>c. c \<noteq> CHR ''.'' \<and> \<not> is_digit c) s2,
          dropWhile (\<lambda>c. c \<noteq> CHR ''.'' \<and> \<not> is_digit c) s2))"

lemma unit_parts_length: "unit_parts s = (whole, fraction, u, s') \<Longrightarrow> u \<noteq> [] \<Longrightarrow> length s' < length s"
proof -
  assume a: "unit_parts s = (whole, fraction, u, s')" "u \<noteq> []"
  define p where "p = (\<lambda>c. c \<noteq> CHR ''.'' \<and> \<not> is_digit c)"
  define s1 where "s1 = dropWhile is_digit s"
  define s2 where "s2 = (if prefix ''.'' s1 then dropWhile is_digit (tl s1) else s1)"
  have "u = takeWhile p s2" "s' = dropWhile p s2"
    using a(1) unfolding unit_parts_def Let_def p_def s1_def s2_def by (simp_all only: prod.inject)
  with a(2) have "length s' < length s2"
    by (metis length_0_conv length_append less_add_same_cancel2 not_gr_zero takeWhile_dropWhile_id)
  also have "length s2 \<le> length s1"
    unfolding s2_def using length_dropWhile_le [of is_digit "tl s1"] by auto
  also have "\<dots> \<le> length s" unfolding s1_def by (rule length_dropWhile_le)
  finally show "length s' < length s" .
qed

definition duration_unit :: "string \<Rightarrow> (nat \<times> string) option" where
  "duration_unit s =
     (case unit_parts s of (whole, fraction, u, s') \<Rightarrow>
        if whole = [] \<and> fraction = [] then None
        else if u = [] then None
        else case (digits_val 0 whole, unitMap u) of
            (Some v, Some unit) \<Rightarrow>
              (if v > 2 ^ 63 \<or> v > 2 ^ 63 div unit then None
               else
                 let (f, scale) = leadingFraction 0 1 fraction;
                     extra = (if f > 0
                       then nat \<lfloor>f64_round (f64_of_int (int f) * f64_div (of_nat unit) (of_nat scale))\<rfloor> else 0);
                     n = v * unit + extra
                 in if n > 2 ^ 63 then None else Some (n, s'))
          | _ \<Rightarrow> None)"

lemma duration_unit_length: "duration_unit s = Some (n, s') \<Longrightarrow> length s' < length s"
  by (auto simp: duration_unit_def Let_def dest: unit_parts_length split: if_splits option.splits prod.splits)

function duration_sum :: "nat \<Rightarrow> string \<Rightarrow> nat option" where
  "duration_sum d s =
     (if s = [] then Some d
      else case duration_unit s of
          None \<Rightarrow> None
        | Some (n, s') \<Rightarrow> if d + n > 2 ^ 63 then None else duration_sum (d + n) s')"
  by pat_completeness auto
termination
  by (relation "measure (\<lambda>(d, s). length s)") (auto dest: duration_unit_length)

declare duration_sum.simps [simp del]

definition ParseDuration :: "string \<Rightarrow> duration option" where
  "ParseDuration s0 =
     (let neg = prefix ''-'' s0; s = (if prefix ''-'' s0 \<or> prefix ''+'' s0 then tl s0 else s0) in
      if s = ''0'' then Some 0
      else if s = [] then None
      else case duration_sum 0 s of
          None \<Rightarrow> None
        | Some d \<Rightarrow> if neg then Some (- int d) else if d > 2 ^ 63 - 1 then None else Some (int d))"

lemma ParseDuration_range: "ParseDuration s = Some d \<Longrightarrow> - (2 ^ 63) \<le> d \<and> d < 2 ^ 63"
proof -
  have "duration_sum d s = Some n \<Longrightarrow> d \<le> 2 ^ 63 \<Longrightarrow> n \<le> 2 ^ 63" for d n s
    by (induction d s rule: duration_sum.induct)
      (auto simp: duration_sum.simps split: if_splits option.splits)
  from this [of 0] show "ParseDuration s = Some d \<Longrightarrow> - (2 ^ 63) \<le> d \<and> d < 2 ^ 63"
    by (auto simp: ParseDuration_def Let_def split: if_splits option.splits)
qed

end
