(* ===== verification/Ble_Conn.thy ===== *)
theory Ble_Conn
  imports Transport Go_Duration Go_Fmt
begin

text \<open>
  The Bluetooth connection: \<open>transport/ble/ble.go\<close>, \<open>transport/ble/adapter.go\<close> and \<open>transport/ble/discover.go\<close>.
  The Bluetooth library is a parameter: \<open>ble_lib\<close> has the results of its calls, and what a scan reports is a
  list of events, consumed in order. \<open>bc_connected\<close> and \<open>bc_disconnected\<close> are ghost fields, the devices
  \<open>Connect\<close> returned and those \<open>Disconnect\<close> was called on.
\<close>

section \<open>Scanning\<close>

definition ServiceUUID :: string where
  "ServiceUUID = ''6E400001-B5A3-F393-E0A9-E50E24DCCA9E''"

definition RXUUID :: string where
  "RXUUID = ''6E400002-B5A3-F393-E0A9-E50E24DCCA9E''"

definition TXUUID :: string where
  "TXUUID = ''6E400003-B5A3-F393-E0A9-E50E24DCCA9E''"

definition defaultScanTimeout :: duration where
  "defaultScanTimeout = 12 * second"

definition maxPacketLen :: nat where
  "maxPacketLen = 8192"

record scan_result =
  sr_Address :: string
  sr_LocalName :: string
  sr_HasService :: bool
  sr_RSSI :: int

definition looksMeshCoreName :: "unicode \<Rightarrow> string \<Rightarrow> bool" where
  "looksMeshCoreName u name =
     (let n = ToLower u (TrimSpace name) in
      HasPrefix n ''meshcore'' \<or> HasPrefix n ''whisper'' \<or> HasPrefix n ''wiscore'' \<or> HasPrefix n ''ht-'' \<or>
      HasPrefix n ''lowmesh_mc_'' \<or> HasPrefix n ''nrf52'')"

definition matchesTarget :: "unicode \<Rightarrow> scan_result \<Rightarrow> string \<Rightarrow> bool" where
  "matchesTarget u result target =
     (if target = [] then sr_HasService result \<or> looksMeshCoreName u (sr_LocalName result)
      else
        let addr = ToLower u (sr_Address result); name = ToLower u (sr_LocalName result)
        in addr = target \<or> name = target \<or> Contains name target)"

definition describeScanResult :: "scan_result \<Rightarrow> string" where
  "describeScanResult result =
     (if sr_LocalName result \<noteq> [] then sr_LocalName result @ '' ('' @ sr_Address result @ '')''
      else sr_Address result)"

section \<open>Connection\<close>

record ('d, 'h) ble_conn =
  bc_target :: string
  bc_scanTimeout :: duration
  bc_device :: "'d option"
  bc_rx :: "(string \<times> 'h) option"
  bc_tx :: "(string \<times> 'h) option"
  bc_opened :: bool
  bc_packets :: "bytes chan"
  bc_done :: "unit chan"
  bc_once :: bool
  bc_connected :: "'d list"
  bc_disconnected :: "'d list"

definition WithScanTimeout :: "duration \<Rightarrow> ('d, 'h) ble_conn \<Rightarrow> ('d, 'h) ble_conn" where
  "WithScanTimeout timeout c = (if timeout > 0 then c\<lparr>bc_scanTimeout := timeout\<rparr> else c)"

definition New_ble :: "string \<Rightarrow> (('d, 'h) ble_conn \<Rightarrow> ('d, 'h) ble_conn) list \<Rightarrow> ('d, 'h) ble_conn" where
  "New_ble target opts = fold (\<lambda>opt c. opt c) opts
     \<lparr>bc_target = TrimSpace target, bc_scanTimeout = defaultScanTimeout, bc_device = None, bc_rx = None,
      bc_tx = None, bc_opened = False, bc_packets = make_chan 32, bc_done = make_chan 0, bc_once = False,
      bc_connected = [], bc_disconnected = []\<rparr>"

text \<open>The set of adapters that are enabled is global.\<close>

definition ensureAdapterEnabled :: "string option \<Rightarrow> nat \<Rightarrow> nat list \<Rightarrow> string option \<times> nat list" where
  "ensureAdapterEnabled enable adapter enabled =
     (if adapter \<in> set enabled then (None, enabled)
      else case enable of
          None \<Rightarrow> (None, adapter # enabled)
        | Some err \<Rightarrow>
            if Contains err ''already calling Enable function'' then (None, adapter # enabled) else (Some err, enabled))"

datatype scan_event = Advert scan_result | ScanError string | ScanCtxDone ctx_error

fun scan_for :: "unicode \<Rightarrow> string \<Rightarrow> string \<Rightarrow> scan_event list \<Rightarrow> (transport_error + scan_result) outcome" where
  "scan_for u target orig [] = Blocked"
| "scan_for u target orig (Advert r # es) =
     (if matchesTarget u r target then Finished (Inr r) else scan_for u target orig es)"
| "scan_for u target orig (ScanError e # es) = Finished (Inl (ScanFailed e))"
| "scan_for u target orig (ScanCtxDone e # es) =
     Finished (Inl (if orig = [] then NoBleDevice e else BleDeviceNotFound orig e))"

definition findDevice :: "unicode \<Rightarrow> scan_event list \<Rightarrow> ('d, 'h) ble_conn \<Rightarrow> (transport_error + scan_result) outcome" where
  "findDevice u es c = scan_for u (ToLower u (TrimSpace (bc_target c))) (bc_target c) es"

record ('d, 'h) ble_lib =
  lib_connect :: "scan_result \<Rightarrow> string + 'd"
  lib_services :: "'d \<Rightarrow> string + 'h list"
  lib_characteristics :: "'h \<Rightarrow> string + (string \<times> 'h) list"
  lib_notify :: "'h \<Rightarrow> string option"

definition disconnect :: "'d \<Rightarrow> ('d, 'h) ble_conn \<Rightarrow> ('d, 'h) ble_conn" where
  "disconnect d c = c\<lparr>bc_disconnected := bc_disconnected c @ [d]\<rparr>"

definition pick_characteristics :: "(string \<times> 'h) list \<Rightarrow> ('d, 'h) ble_conn \<Rightarrow> ('d, 'h) ble_conn" where
  "pick_characteristics chars c = fold (\<lambda>ch c.
     if fst ch = RXUUID then c\<lparr>bc_rx := Some ch\<rparr>
     else if fst ch = TXUUID then c\<lparr>bc_tx := Some ch\<rparr>
     else c) chars c"

text \<open>The part of \<open>Open\<close> after the device was connected.\<close>

definition setup_device :: "('d, 'h) ble_lib \<Rightarrow> 'd \<Rightarrow> ('d, 'h) ble_conn \<Rightarrow> transport_error option \<times> ('d, 'h) ble_conn" where
  "setup_device lib device c =
     (case lib_services lib device of
        Inl err \<Rightarrow> (Some (DiscoverServicesFailed err), disconnect device c)
      | Inr [] \<Rightarrow> (Some ServiceNotFound, disconnect device c)
      | Inr (service # _) \<Rightarrow>
          (case lib_characteristics lib service of
             Inl err \<Rightarrow> (Some (DiscoverCharacteristicsFailed err), disconnect device c)
           | Inr chars \<Rightarrow>
               (let c = pick_characteristics chars c in
                case bc_rx c of
                  None \<Rightarrow> (Some RXNotFound, disconnect device c)
                | Some _ \<Rightarrow>
                    (case bc_tx c of
                       None \<Rightarrow> (Some TXNotFound, disconnect device c)
                     | Some tx \<Rightarrow>
                         (case lib_notify lib (snd tx) of
                            Some err \<Rightarrow> (Some (EnableNotificationsFailed err), disconnect device c)
                          | None \<Rightarrow> (None, c\<lparr>bc_opened := True\<rparr>))))))"

definition Open_ble :: "unicode \<Rightarrow> ('d, 'h) ble_lib \<Rightarrow> string option \<Rightarrow> nat \<Rightarrow> scan_event list \<Rightarrow> nat list \<Rightarrow> ('d, 'h) ble_conn \<Rightarrow>
    (transport_error option \<times> nat list \<times> ('d, 'h) ble_conn) outcome" where
  "Open_ble u lib enable adapter es enabled c =
     (if bc_opened c then Finished (None, enabled, c)
      else case ensureAdapterEnabled enable adapter enabled of
          (Some err, enabled) \<Rightarrow> Finished (Some (EnableAdapterFailed err), enabled, c)
        | (None, enabled) \<Rightarrow>
            and_then (findDevice u es c) (\<lambda>r.
              case r of
                Inl err \<Rightarrow> Finished (Some err, enabled, c)
              | Inr result \<Rightarrow>
                  (case lib_connect lib result of
                     Inl err \<Rightarrow> Finished (Some (BleConnectFailed (describeScanResult result) err), enabled, c)
                   | Inr device \<Rightarrow>
                       (let (err, c') = setup_device lib device
                          (c\<lparr>bc_device := Some device, bc_connected := bc_connected c @ [device]\<rparr>)
                        in Finished (err, enabled, c')))))"

definition ReadPacket_ble :: "ctx_error option \<Rightarrow> ('d, 'h) ble_conn \<Rightarrow> ((transport_error + bytes) \<times> ('d, 'h) ble_conn) list" where
  "ReadPacket_ble ctx c =
     (case try_recv (bc_packets c) of (Value p, ch) \<Rightarrow> [(Inr p, c\<lparr>bc_packets := ch\<rparr>)] | _ \<Rightarrow> []) @
     (if ch_open (bc_done c) then [] else [(Inl ClosedConn, c)]) @
     (case ctx of None \<Rightarrow> [] | Some e \<Rightarrow> [(Inl (ContextEnded e), c)])"

text \<open>Which case of the last \<open>select\<close> of \<open>WritePacket\<close> is taken: the write ended with a result, the context
  ended, or the connection was found closed.\<close>

datatype write_end = Written "string option" | WriteCtxDone ctx_error | WriteFoundClosed

definition WritePacket_ble :: "write_end \<Rightarrow> bytes \<Rightarrow> ('d, 'h) ble_conn \<Rightarrow> transport_error option \<times> ('d, 'h) ble_conn" where
  "WritePacket_ble w packet c =
     (if packet = [] then (None, c)
      else if maxPacketLen < length packet then (Some (TooLarge (length packet)), c)
      else if \<not> bc_opened c then (Some NotOpen, c)
      else (case w of
              Written None \<Rightarrow> None
            | Written (Some err) \<Rightarrow> Some (LinkFailed err)
            | WriteCtxDone e \<Rightarrow> Some (ContextEnded e)
            | WriteFoundClosed \<Rightarrow> Some ClosedConn, c))"

definition Close_ble :: "string option \<Rightarrow> ('d, 'h) ble_conn \<Rightarrow> (transport_error option \<times> ('d, 'h) ble_conn) option" where
  "Close_ble result c =
     do {
       finished \<leftarrow> (if bc_once c then Some (bc_done c) else chan_close (bc_done c));
       let c = c\<lparr>bc_once := True, bc_done := finished\<rparr>;
       if \<not> bc_opened c then Some (None, c)
       else Some (map_option LinkFailed result,
         (case bc_device c of Some d \<Rightarrow> disconnect d c | None \<Rightarrow> c)\<lparr>bc_opened := False\<rparr>)
     }"

definition String_ble :: "('d, 'h) ble_conn \<Rightarrow> string" where
  "String_ble c = (if bc_target c = [] then ''ble://'' else ''ble://'' @ bc_target c)"

text \<open>The \<open>select\<close> of \<open>onNotify\<close>. When the connection is closed and the buffer has room, two cases are ready
  and \<open>pick\<close> tells which is taken.\<close>

definition enqueue :: "bool \<Rightarrow> bytes \<Rightarrow> ('d, 'h) ble_conn \<Rightarrow> ('d, 'h) ble_conn option" where
  "enqueue pick packet c =
     do {
       (ch, sent) \<leftarrow> try_send packet (bc_packets c);
       if \<not> ch_open (bc_done c) \<and> (pick \<or> \<not> sent) then Some c
       else if sent then Some (c\<lparr>bc_packets := ch\<rparr>)
       else do { (ch', _) \<leftarrow> try_send packet (try_drop (bc_packets c)); Some (c\<lparr>bc_packets := ch'\<rparr>) }
     }"

definition onNotify :: "bool \<Rightarrow> bytes \<Rightarrow> ('d, 'h) ble_conn \<Rightarrow> ('d, 'h) ble_conn option" where
  "onNotify pick buf c = (if buf = [] \<or> maxPacketLen < length buf then Some c else enqueue pick buf c)"

section \<open>Dialing and discovery\<close>

definition Dial_ble :: "('d, 'h) ble_conn dialer" where
  "Dial_ble uri =
     (let t1 = u_Host uri;
          t2 = (if t1 = [] then TrimPrefix (u_Path uri) ''/'' else t1);
          target = (if t2 = [] then u_Opaque uri else t2);
          raw = Query_Get uri ''scan_timeout'';
          timeout = (if raw = [] then defaultScanTimeout
                     else case ParseDuration raw of
                         Some d \<Rightarrow> if d > 0 then d else defaultScanTimeout
                       | None \<Rightarrow> defaultScanTimeout)
      in Inr (New_ble target [WithScanTimeout timeout]))"

definition ble_endpoint :: "scan_result \<Rightarrow> endpoint" where
  "ble_endpoint r =
     \<lparr>ep_URI = ''ble://'' @ sr_Address r, ep_Transport = ''ble'', ep_Name = sr_LocalName r, ep_Address = sr_Address r,
      ep_Metadata = (''rssi'', show_int (sr_RSSI r)) #
        (if sr_HasService r then [(''service_uuid'', ServiceUUID)] else [])\<rparr>"

text \<open>The scanning goroutine reports into the channel \<open>found\<close> and the loop takes from it; \<open>Take\<close> is one such
  receive.\<close>

datatype discover_event = Reported scan_result | Take | DiscoverFailed string | DiscoverCtxDone

fun discover_loop :: "unicode \<Rightarrow> discover_event list \<Rightarrow> endpoint chan \<Rightarrow> string list \<Rightarrow> endpoint list \<Rightarrow>
    (transport_error option \<times> endpoint list) outcome" where
  "discover_loop u [] found seen out = Blocked"
| "discover_loop u (Reported r # es) found seen out =
     (if \<not> sr_HasService r \<and> \<not> looksMeshCoreName u (sr_LocalName r) then discover_loop u es found seen out
      else case try_send (ble_endpoint r) found of
          None \<Rightarrow> Panicked
        | Some (found', _) \<Rightarrow> discover_loop u es found' seen out)"
| "discover_loop u (Take # es) found seen out =
     (case try_recv found of
        (Value ep, found') \<Rightarrow>
          if ep_Address ep \<in> set seen then discover_loop u es found' seen out
          else discover_loop u es found' (ep_Address ep # seen) (out @ [ep])
      | _ \<Rightarrow> discover_loop u es found seen out)"
| "discover_loop u (DiscoverFailed e # es) found seen out = Finished (Some (ScanFailed e), out)"
| "discover_loop u (DiscoverCtxDone # es) found seen out = Finished (None, out)"

definition Discover_ble :: "unicode \<Rightarrow> string option \<Rightarrow> nat \<Rightarrow> discover_event list \<Rightarrow> nat list \<Rightarrow>
    (transport_error option \<times> endpoint list) outcome \<times> nat list" where
  "Discover_ble u enable adapter es enabled =
     (case ensureAdapterEnabled enable adapter enabled of
        (Some err, enabled) \<Rightarrow> (Finished (Some (EnableAdapterFailed err), []), enabled)
      | (None, enabled) \<Rightarrow> (discover_loop u es (make_chan 32) [] [], enabled))"

section \<open>Devices are released\<close>

text \<open>Every device that was connected has been disconnected, except the one in use.\<close>

definition ble_ok :: "('d, 'h) ble_conn \<Rightarrow> bool" where
  "ble_ok c \<longleftrightarrow> live_chan (bc_packets c) \<and> ch_cap (bc_packets c) = 32 \<and> (bc_once c \<longleftrightarrow> \<not> ch_open (bc_done c)) \<and>
     (if bc_opened c
      then bc_rx c \<noteq> None \<and> bc_tx c \<noteq> None \<and> (\<exists>d. bc_device c = Some d \<and> bc_connected c = bc_disconnected c @ [d])
      else bc_connected c = bc_disconnected c)"

lemma ble_ok_New: "ble_ok (New_ble target [])" "ble_ok (New_ble target [WithScanTimeout t])"
  by (simp_all add: New_ble_def WithScanTimeout_def ble_ok_def live_chan_def)

lemma pick_characteristics_sel [simp]:
  "bc_opened (pick_characteristics chars c) = bc_opened c" "bc_device (pick_characteristics chars c) = bc_device c"
  "bc_packets (pick_characteristics chars c) = bc_packets c" "bc_done (pick_characteristics chars c) = bc_done c"
  "bc_once (pick_characteristics chars c) = bc_once c" "bc_connected (pick_characteristics chars c) = bc_connected c"
  "bc_disconnected (pick_characteristics chars c) = bc_disconnected c"
  by (induction chars arbitrary: c) (simp_all add: pick_characteristics_def)

lemma setup_device_ok:
  assumes "ble_ok c" and "\<not> bc_opened c"
    and "setup_device lib d (c\<lparr>bc_device := Some d, bc_connected := bc_connected c @ [d]\<rparr>) = (e, c')"
  shows "ble_ok c' \<and> (bc_opened c' \<longleftrightarrow> e = None)"
  using assms
  by (auto simp: setup_device_def disconnect_def ble_ok_def Let_def split: sum.splits list.splits option.splits)

lemma Open_ble_cases:
  assumes "\<not> bc_opened c" and "Open_ble u lib enable adapter es enabled c = Finished (e, en, c')"
  shows "(e \<noteq> None \<and> c' = c) \<or>
    (\<exists>d. setup_device lib d (c\<lparr>bc_device := Some d, bc_connected := bc_connected c @ [d]\<rparr>) = (e, c'))"
proof (cases "ensureAdapterEnabled enable adapter enabled")
  case (Pair err en1)
  show ?thesis
  proof (cases err)
    case None
    show ?thesis
    proof (cases "findDevice u es c")
      case (Finished r)
      with assms Pair None show ?thesis by (auto simp: Open_ble_def split: sum.splits prod.splits)
    qed (use assms Pair None in \<open>simp_all add: Open_ble_def\<close>)
  qed (use assms Pair in \<open>auto simp: Open_ble_def\<close>)
qed

lemma Open_ble_ok:
  assumes "ble_ok c" and "Open_ble u lib enable adapter es enabled c = Finished (e, en, c')"
  shows "ble_ok c' \<and> (bc_opened c' \<longleftrightarrow> e = None)"
proof (cases "bc_opened c")
  case False
  from Open_ble_cases [OF this assms(2)] setup_device_ok [OF assms(1) this] assms(1) this show ?thesis by blast
qed (use assms in \<open>simp add: Open_ble_def\<close>)

lemma Close_ble_eq:
  assumes "ble_ok c"
  shows "Close_ble result c =
    Some (if bc_opened c then map_option LinkFailed result else None,
      c\<lparr>bc_once := True, bc_done := (bc_done c)\<lparr>ch_open := False\<rparr>, bc_opened := False, bc_disconnected := bc_connected c\<rparr>)"
  using assms by (auto simp: Close_ble_def ble_ok_def chan_close_def Let_def disconnect_def)

lemma enqueue_open:
  assumes "live_chan (bc_packets c)" and "ch_open (bc_done c)"
  shows "enqueue pick v c = Some (c\<lparr>bc_packets := (bc_packets c)\<lparr>ch_buf :=
    drop (Suc (length (ch_buf (bc_packets c))) - ch_cap (bc_packets c)) (ch_buf (bc_packets c)) @ [v]\<rparr>\<rparr>)"
proof -
  have "enqueue pick v c = map_option (\<lambda>ch. c\<lparr>bc_packets := ch\<rparr>) (send_drop_oldest v (bc_packets c))"
    using assms by (simp add: enqueue_def send_drop_oldest_def live_chan_def try_send_def)
  with assms(1) show ?thesis by (simp add: send_drop_oldest_open live_chan_def)
qed

lemma enqueue_ok:
  assumes "ble_ok c"
  shows "\<exists>ch. enqueue pick p c = Some (c\<lparr>bc_packets := ch\<rparr>) \<and> live_chan ch \<and> ch_cap ch = 32"
proof (cases "ch_open (bc_done c)")
  case True
  with assms show ?thesis
    using chan_buffer.push_ok [of "bc_packets c" p]
    by (auto simp: ble_ok_def enqueue_open live_chan_def chan_ok_def)
next
  case False
  show ?thesis
  proof (cases "length (ch_buf (bc_packets c)) < 32 \<and> \<not> pick")
    case True
    with False assms show ?thesis by (auto simp: ble_ok_def enqueue_def live_chan_def try_send_def chan_ok_def)
  next
    case _: False
    with False assms show ?thesis
      by (intro exI [of _ "bc_packets c"]) (auto simp: ble_ok_def enqueue_def live_chan_def try_send_def)
  qed
qed

interpretation ble: packet_conn ble_ok bc_opened "WritePacket_ble w" "Close_ble result" for w result
  by unfold_locales (auto simp: Close_ble_eq WritePacket_ble_def, auto simp: ble_ok_def)

interpretation ble_buffer: drop_oldest_buffer "\<lambda>c. ch_buf (bc_packets c)" "\<lambda>c. ch_cap (bc_packets c)"
    "\<lambda>c. live_chan (bc_packets c) \<and> ch_open (bc_done c)" "enqueue pick" for pick
  by unfold_locales (auto simp: enqueue_open, auto simp: live_chan_def chan_ok_def)

text \<open>The operations on one connection, in any order.\<close>

inductive ble_run :: "('d, 'h) ble_conn \<Rightarrow> ('d, 'h) ble_conn \<Rightarrow> bool" for c0 :: "('d, 'h) ble_conn" where
  created: "ble_run c0 c0"
| opened: "ble_run c0 c \<Longrightarrow> Open_ble u lib enable adapter es enabled c = Finished (e, en, c') \<Longrightarrow> ble_run c0 c'"
| received: "ble_run c0 c \<Longrightarrow> (r, c') \<in> set (ReadPacket_ble ctx c) \<Longrightarrow> ble_run c0 c'"
| sent: "ble_run c0 c \<Longrightarrow> ble_run c0 (snd (WritePacket_ble w p c))"
| notified: "ble_run c0 c \<Longrightarrow> onNotify pick p c = Some c' \<Longrightarrow> ble_run c0 c'"
| closed: "ble_run c0 c \<Longrightarrow> Close_ble result c = Some (e, c') \<Longrightarrow> ble_run c0 c'"

lemma onNotify_ok:
  assumes "ble_ok c"
  shows "\<exists>c'. onNotify pick p c = Some c' \<and> ble_ok c'"
proof -
  obtain ch where "enqueue pick p c = Some (c\<lparr>bc_packets := ch\<rparr>)" "live_chan ch" "ch_cap ch = 32"
    using enqueue_ok [OF assms] by blast
  moreover from this(2, 3) assms have "ble_ok (c\<lparr>bc_packets := ch\<rparr>)" by (simp add: ble_ok_def)
  ultimately show ?thesis using assms by (simp add: onNotify_def)
qed

lemma ReadPacket_ble_ok: "ble_ok c \<Longrightarrow> (r, c') \<in> set (ReadPacket_ble ctx c) \<Longrightarrow> ble_ok c'"
  by (auto simp: ReadPacket_ble_def ble_ok_def try_recv_def live_chan_def chan_ok_def split: list.splits if_splits option.splits)

lemma ble_run_ok: "ble_run c0 c \<Longrightarrow> ble_ok c0 \<Longrightarrow> ble_ok c"
proof (induction rule: ble_run.induct)
  case (opened c u lib enable adapter es enabled e en c')
  then show ?case using Open_ble_ok by blast
next
  case (received c r c' ctx)
  then show ?case using ReadPacket_ble_ok by blast
next
  case (sent c w p)
  then show ?case by (simp add: WritePacket_ble_def)
next
  case (notified c pick p c')
  then show ?case using onNotify_ok [of c pick p] by auto
next
  case (closed c result e c')
  then show ?case by (auto simp: Close_ble_eq) (auto simp: ble_ok_def)
qed

text \<open>All notifications of a burst.\<close>

fun notify_all :: "(bool \<times> bytes) list \<Rightarrow> ('d, 'h) ble_conn \<Rightarrow> ('d, 'h) ble_conn option" where
  "notify_all [] c = Some c"
| "notify_all ((pick, p) # ps) c = Option.bind (onNotify pick p c) (notify_all ps)"

definition packet_len_ok :: "bytes \<Rightarrow> bool" where
  "packet_len_ok p \<longleftrightarrow> p \<noteq> [] \<and> length p \<le> maxPacketLen"

lemma notify_all_pushes:
  assumes "ble_ok c" and "ch_open (bc_done c)"
  shows "notify_all ps c = ble_buffer.push_all False (filter packet_len_ok (map snd ps)) c"
  using assms
proof (induction ps arbitrary: c)
  case (Cons x ps)
  obtain pick p where x: "x = (pick, p)" by force
  have same: "enqueue pick p c = enqueue False p c" using Cons.prems(2) by (simp add: enqueue_def)
  obtain c' where c': "onNotify pick p c = Some c'" "ble_ok c'" using onNotify_ok [OF Cons.prems(1)] by blast
  moreover from this(1) Cons.prems have "ch_open (bc_done c')"
    using enqueue_ok [OF Cons.prems(1), of pick p] by (auto simp: onNotify_def split: if_splits)
  ultimately have rest: "notify_all ps c' = ble_buffer.push_all False (filter packet_len_ok (map snd ps)) c'"
    using Cons.IH [of c'] by simp
  show ?case
  proof (cases "packet_len_ok p")
    case True
    with c'(1) same have "enqueue False p c = Some c'" by (simp add: onNotify_def packet_len_ok_def split: if_splits)
    with True c'(1) rest x show ?thesis by simp
  next
    case False
    with c'(1) have "c' = c" by (auto simp: onNotify_def packet_len_ok_def split: if_splits)
    with False c'(1) rest x show ?thesis by simp
  qed
qed simp

text \<open>C34: A Bluetooth connection releases every device it connects. After any sequence of \<open>Open\<close>, reads,
  writes, notifications and \<open>Close\<close>, whatever the library reports, every device that was connected was
  disconnected again, in order, except the one of a connection that is open; closing never panics and
  releases that one too, and no notification panics. A failed \<open>Open\<close> leaves no device connected.\<close>

theorem ble_devices_released:
  assumes "ble_run (New_ble target [WithScanTimeout t]) c"
  shows "(\<not> bc_opened c \<longrightarrow> bc_disconnected c = bc_connected c) \<and>
    (\<exists>e c'. Close_ble result c = Some (e, c') \<and> \<not> bc_opened c' \<and> bc_disconnected c' = bc_connected c' \<and>
       bc_connected c' = bc_connected c) \<and>
    onNotify pick p c \<noteq> None \<and>
    (Open_ble u lib enable adapter es enabled c = Finished (Some err, en, c2) \<longrightarrow> bc_disconnected c2 = bc_connected c2)"
proof -
  have ok: "ble_ok c" using ble_run_ok [OF assms] ble_ok_New(2) by blast
  show ?thesis
    using ok onNotify_ok [OF ok, of pick p] Open_ble_ok [OF ok, of u lib enable adapter es enabled "Some err" en c2]
    by (auto simp: Close_ble_eq [OF ok]) (auto simp: ble_ok_def)
qed

theorem ble_devices_released_witness:
  "\<exists>c :: (nat, nat) ble_conn. ble_run (New_ble ''radio'' [WithScanTimeout 1]) c \<and> bc_opened c \<and>
     (\<exists>e c'. Close_ble None c = Some (e, c') \<and> bc_disconnected c' = [7])"
proof -
  let ?lib = "\<lparr>lib_connect = \<lambda>_. Inr 7, lib_services = \<lambda>_. Inr [1], lib_characteristics = \<lambda>_. Inr [(TXUUID, 2), (RXUUID, 3)],
    lib_notify = \<lambda>_. None\<rparr> :: (nat, nat) ble_lib"
  let ?n = "New_ble ''radio'' [WithScanTimeout 1] :: (nat, nat) ble_conn"
  let ?r = "\<lparr>sr_Address = ''A'', sr_LocalName = ''radio'', sr_HasService = True, sr_RSSI = 0\<rparr>"
  let ?c = "?n\<lparr>bc_device := Some 7, bc_connected := [7], bc_tx := Some (TXUUID, 2), bc_rx := Some (RXUUID, 3), bc_opened := True\<rparr>"
  have t: "ToLower ascii_text (TrimSpace (TrimSpace ''radio'')) = ''radio''" "ToLower ascii_text ''radio'' = ''radio''"
    by code_simp+
  have find: "findDevice ascii_text [Advert ?r] ?n = Finished (Inr ?r)"
    by (simp add: findDevice_def New_ble_def WithScanTimeout_def matchesTarget_def t)
  have uuid: "TXUUID \<noteq> RXUUID" by (simp add: TXUUID_def RXUUID_def)
  have "Open_ble ascii_text ?lib None 0 [Advert ?r] [] ?n = Finished (None, [0], ?c)"
    using uuid unfolding Open_ble_def find
    by (simp add: ensureAdapterEnabled_def setup_device_def pick_characteristics_def)
      (simp add: New_ble_def WithScanTimeout_def)
  with ble_run.created have run: "ble_run ?n ?c" by (rule ble_run.opened)
  have "\<exists>e c'. Close_ble None ?c = Some (e, c') \<and> bc_disconnected c' = bc_connected ?c"
    using ble_devices_released [OF run, of None, THEN conjunct2, THEN conjunct1] by metis
  then show ?thesis using run by (intro exI [of _ ?c]) simp
qed

text \<open>A burst of notifications keeps the newest packets. On a connection that was not closed, after any
  notifications the buffered packets are the last 32 of those that were buffered before followed by the
  new ones, in order; empty notifications and those above 8192 bytes are ignored.\<close>

theorem ble_keeps_newest_packets:
  assumes "ble_run (New_ble target [WithScanTimeout t]) c" and "ch_open (bc_done c)"
  shows "\<exists>c'. notify_all ps c = Some c' \<and>
    (let all = ch_buf (bc_packets c) @ filter packet_len_ok (map snd ps)
     in ch_buf (bc_packets c') = drop (length all - 32) all)"
proof -
  have ok: "ble_ok c" using ble_run_ok [OF assms(1)] ble_ok_New(2) by blast
  with ble_buffer.push_all_content [of c False "filter packet_len_ok (map snd ps)"] notify_all_pushes [OF ok assms(2)] assms(2)
  show ?thesis by (auto simp: ble_ok_def)
qed

theorem ble_keeps_newest_packets_witness:
  "\<exists>c' :: (nat, nat) ble_conn. notify_all [(False, [5]), (False, []), (False, [6])] (New_ble ''radio'' [WithScanTimeout 1]) = Some c' \<and>
     ch_buf (bc_packets c') = [[5], [6]]"
  using ble_keeps_newest_packets [OF ble_run.created, of "''radio''" 1 "[(False, [5]), (False, []), (False, [6])]"]
  by (simp add: New_ble_def WithScanTimeout_def packet_len_ok_def maxPacketLen_def Let_def)

text \<open>What discovery returns has no address twice, and only devices that look like MeshCore radios.\<close>

lemma discover_loop_distinct:
  "discover_loop u es found (rev (map ep_Address out)) out = Finished (e, eps) \<Longrightarrow> distinct (map ep_Address out) \<Longrightarrow>
     distinct (map ep_Address eps)"
proof (induction es arbitrary: found out)
  case (Cons x es)
  then show ?case
    by (cases x) (auto split: if_splits option.splits prod.splits received.splits
        dest!: Cons.IH [where out = "out @ [_]", simplified])
qed simp

end
