(* ===== verification/Dialing.thy ===== *)
theory Dialing
  imports Client Serial_Conn Tcp_Conn Ble_Conn
begin

text \<open>
  Connecting by URI (\<open>dial.go\<close>) and listing endpoints (\<open>discover.go\<close>): the default registry with the three
  built-in transports, and whether an endpoint that discovery lists can be dialed by its URI.
\<close>

section \<open>Dialing\<close>

datatype ('p, 'q, 'd, 'h) conn =
    SerialConn "'p serial_conn"
  | TcpConn "'q tcp_conn"
  | BleConn "('d, 'h) ble_conn"

definition DefaultRegistry :: "('p, 'q, 'd, 'h) conn registry" where
  "DefaultRegistry =
     (let r = NewRegistry;
          r = Register ''serial'' (map_sum id SerialConn \<circ> Dial_serial) r;
          r = Register ''ble'' (map_sum id BleConn \<circ> Dial_ble) r;
          r = Register ''tcp'' (map_sum id TcpConn \<circ> Dial_tcp) r
      in r)"

record 'c dial_config =
  dc_registry :: "'c registry"
  dc_clientOpts :: "client_option list"

datatype 'c dial_option = WithTransportRegistry "'c registry" | WithClientOptions "client_option list"

fun apply_dial_option :: "'c dial_option \<Rightarrow> 'c dial_config \<Rightarrow> 'c dial_config" where
  "apply_dial_option (WithTransportRegistry r) c = c\<lparr>dc_registry := r\<rparr>"
| "apply_dial_option (WithClientOptions opts) c = c\<lparr>dc_clientOpts := dc_clientOpts c @ opts\<rparr>"

datatype dial_error = DialFailed transport_error | ConnectFailed go_error

text \<open>The result of opening a connection and the world it then lives in are arguments.\<close>

definition Dial :: "(('p, 'q, 'd, 'h) conn \<Rightarrow> go_error option \<times> world) \<Rightarrow> string \<Rightarrow> ('p, 'q, 'd, 'h) conn dial_option list \<Rightarrow>
    (dial_error + client) outcome" where
  "Dial link uri opts =
     (let cfg = fold apply_dial_option opts \<lparr>dc_registry = DefaultRegistry, dc_clientOpts = []\<rparr> in
      case Dial_registry (dc_registry cfg) uri of
        Inl err \<Rightarrow> Finished (Inl (DialFailed err))
      | Inr conn \<Rightarrow>
          (let client = New_client (snd (link conn)) (dc_clientOpts cfg) in
           and_then (Connect (fst (link conn)) client) (\<lambda>(err, client).
             case err of
               Some e \<Rightarrow> Finished (Inl (ConnectFailed e))
             | None \<Rightarrow> Finished (Inr client))))"

section \<open>Discovery\<close>

text \<open>What a provider returns: endpoints and an error.\<close>

type_synonym provider = "transport_error option \<times> endpoint list"

fun run_providers :: "provider list \<Rightarrow> endpoint list \<Rightarrow> transport_error option \<times> endpoint list" where
  "run_providers [] endpoints = (None, endpoints)"
| "run_providers ((err, eps) # ps) endpoints =
     (case err of
        Some e \<Rightarrow> (Some e, endpoints)
      | None \<Rightarrow> run_providers ps (endpoints @ eps))"

datatype discover_option = WithSerialDiscovery | WithBLEDiscovery | WithDiscoverer provider

fun provider_of :: "provider \<Rightarrow> provider \<Rightarrow> discover_option \<Rightarrow> provider" where
  "provider_of serial ble WithSerialDiscovery = serial"
| "provider_of serial ble WithBLEDiscovery = ble"
| "provider_of serial ble (WithDiscoverer d) = d"

definition Discover :: "provider \<Rightarrow> provider \<Rightarrow> discover_option list \<Rightarrow> transport_error option \<times> endpoint list" where
  "Discover serial ble opts =
     (let providers = map (provider_of serial ble) opts;
          providers = (if providers = [] then [serial] else providers)
      in run_providers providers [])"

section \<open>Registry facts\<close>

lemma Schemes_default: "Schemes DefaultRegistry = [''ble'', ''serial'', ''tcp'']"
  by (simp add: Schemes_def DefaultRegistry_def Register_def NewRegistry_def Let_def sort_Strings_def)

lemma Dial_default:
  assumes "ParseURI uri = Inr u"
  shows "Dial_registry DefaultRegistry uri =
    (if u_Scheme u = ''tcp'' then map_sum id TcpConn (Dial_tcp u)
     else if u_Scheme u = ''ble'' then map_sum id BleConn (Dial_ble u)
     else if u_Scheme u = ''serial'' then map_sum id SerialConn (Dial_serial u)
     else Inl (NoDialerFor (u_Scheme u)))"
  using assms by (simp add: DefaultRegistry_def Dial_registry_def NewRegistry_def)

lemma scheme_facts:
  "list_all is_letter ''serial''" "list_all is_letter ''ble''" "list_all is_letter ''tcp''"
  "ascii_lower ''serial'' = ''serial''" "ascii_lower ''ble'' = ''ble''" "ascii_lower ''tcp'' = ''tcp''"
  by code_simp+

lemma Query_Get_empty [simp]: "u_RawQuery u = [] \<Longrightarrow> Query_Get u k = []"
  by (simp add: Query_Get_def map_filter_simps parse_pair_def)

lemma Dial_serial_path:
  assumes "prefix ''/'' path" and "plain_path path"
  shows "Dial_registry DefaultRegistry (''serial://'' @ path) = Inr (SerialConn (New_serial path []))"
proof -
  have "ParseURI (''serial://'' @ path) =
      Inr \<lparr>u_Scheme = ''serial'', u_Opaque = [], u_Host = [], u_Path = path, u_RawQuery = []\<rparr>"
    using Parse_url_authority [of "''serial''" "[]" path] assms scheme_facts parseHost_plain [of "[]"]
    by (simp add: ParseURI_def plain_host_def)
  have "path \<noteq> []" using assms(1) by auto
  then show ?thesis unfolding Dial_default [OF \<open>ParseURI _ = _\<close>] by (simp add: Dial_serial_def)
qed

text \<open>A port without a leading slash, such as a Windows port, becomes the host of the URI.\<close>

lemma Dial_serial_host:
  assumes "plain_host name" and "CHR '':'' \<notin> set name"
  shows "Dial_registry DefaultRegistry (''serial://'' @ name) = Inl SerialWithoutPath"
proof -
  have "ParseURI (''serial://'' @ name) =
      Inr \<lparr>u_Scheme = ''serial'', u_Opaque = [], u_Host = name, u_Path = [], u_RawQuery = []\<rparr>"
    using Parse_url_authority [of "''serial''" name "[]"] assms scheme_facts parseHost_plain [OF assms]
    by (simp add: ParseURI_def plain_path_def)
  then show ?thesis by (simp add: Dial_default Dial_serial_def)
qed

lemma Dial_ble_address:
  assumes "plain_host (a @ CHR '':'' # l)" and "CHR '':'' \<notin> set l"
  shows "Dial_registry DefaultRegistry (''ble://'' @ a @ CHR '':'' # l) =
    (if list_all is_digit l then Inr (BleConn (New_ble (a @ CHR '':'' # l) [WithScanTimeout defaultScanTimeout]))
     else Inl (InvalidURI (''ble://'' @ a @ CHR '':'' # l) (InvalidPort (CHR '':'' # l))))"
proof (cases "list_all is_digit l")
  case True
  then have "ParseURI (''ble://'' @ a @ CHR '':'' # l) =
      Inr \<lparr>u_Scheme = ''ble'', u_Opaque = [], u_Host = a @ CHR '':'' # l, u_Path = [], u_RawQuery = []\<rparr>"
    using Parse_url_authority [of "''ble''" "a @ CHR '':'' # l" "[]"] scheme_facts parseHost_port [OF assms] assms(1)
    by (simp add: ParseURI_def plain_path_def)
  with True show ?thesis by (simp add: Dial_default Dial_ble_def)
next
  case False
  then have "ParseURI (''ble://'' @ a @ CHR '':'' # l) = Inl (InvalidURI (''ble://'' @ a @ CHR '':'' # l) (InvalidPort (CHR '':'' # l)))"
    using Parse_url_authority [of "''ble''" "a @ CHR '':'' # l" "[]"] scheme_facts parseHost_port [OF assms] assms(1)
    by (simp add: ParseURI_def plain_path_def)
  with False show ?thesis by (simp add: Dial_registry_def)
qed

text \<open>The characters of a Bluetooth device address.\<close>

definition address_char :: "char \<Rightarrow> bool" where
  "address_char c \<longleftrightarrow> from_hex_digit c \<noteq> None \<or> c = CHR '':''"

lemma address_plain_host:
  assumes "list_all address_char s"
  shows "plain_host s"
proof -
  have c: "address_char c \<Longrightarrow> host_char c \<and> c \<noteq> CHR ''%''" for c
  proof -
    assume a: "address_char c"
    have "\<not> address_char (CHR ''%'')" by code_simp
    with a have "c \<noteq> CHR ''%''" by metis
    moreover have "host_char (CHR '':'')" by code_simp
    with a have "host_char c"
      by (auto simp: address_char_def from_hex_digit_def host_char_def is_letter_def is_digit_def Let_def split: if_splits)
    ultimately show ?thesis by simp
  qed
  moreover have "\<not> prefix ''['' s"
  proof
    assume "prefix ''['' s"
    then obtain t where "s = CHR ''['' # t" by (auto simp: prefix_def)
    moreover have "\<not> address_char (CHR ''['')" by code_simp
    ultimately show False using assms by simp
  qed
  ultimately show ?thesis using assms unfolding plain_host_def list_all_iff by blast
qed

text \<open>C35: Which discovered endpoints can be dialed by their URI. A serial port with an absolute path without
  URI syntax is dialed as that path. A serial port whose name is no path, such as a Windows port, is
  rejected. A Bluetooth address of colon-separated hexadecimal octets is dialed as that address when its
  last octet has only decimal digits; with a letter there, it is rejected, since URL parsing takes the
  last octet for a port number.\<close>

theorem endpoint_uris_dialable:
  "(prefix ''/'' (pd_Name p) \<and> plain_path (pd_Name p) \<longrightarrow>
      Dial_registry DefaultRegistry (ep_URI (serial_endpoint p)) =
        Inr (SerialConn (New_serial (pd_Name p) []) :: ('p, 'q, 'd, 'h) conn)) \<and>
   (plain_host (pd_Name p) \<and> CHR '':'' \<notin> set (pd_Name p) \<longrightarrow>
      Dial_registry (DefaultRegistry :: ('p, 'q, 'd, 'h) conn registry) (ep_URI (serial_endpoint p)) = Inl SerialWithoutPath) \<and>
   (sr_Address r = octets @ CHR '':'' # final \<and> list_all address_char octets \<and>
      list_all (\<lambda>c. from_hex_digit c \<noteq> None) final \<longrightarrow>
      Dial_registry (DefaultRegistry :: ('p, 'q, 'd, 'h) conn registry) (ep_URI (ble_endpoint r)) =
        (if list_all is_digit final then Inr (BleConn (New_ble (sr_Address r) [WithScanTimeout defaultScanTimeout]))
         else Inl (InvalidURI (ep_URI (ble_endpoint r)) (InvalidPort (CHR '':'' # final)))))"
proof (intro conjI impI; elim conjE)
  assume "prefix ''/'' (pd_Name p)" "plain_path (pd_Name p)"
  from Dial_serial_path [OF this]
  show "Dial_registry DefaultRegistry (ep_URI (serial_endpoint p)) =
      Inr (SerialConn (New_serial (pd_Name p) []) :: ('p, 'q, 'd, 'h) conn)"
    by (simp add: serial_endpoint_def)
next
  assume "plain_host (pd_Name p)" "CHR '':'' \<notin> set (pd_Name p)"
  from Dial_serial_host [OF this]
  show "Dial_registry (DefaultRegistry :: ('p, 'q, 'd, 'h) conn registry) (ep_URI (serial_endpoint p)) = Inl SerialWithoutPath"
    by (simp add: serial_endpoint_def)
next
  assume a: "sr_Address r = octets @ CHR '':'' # final" "list_all address_char octets"
    "list_all (\<lambda>c. from_hex_digit c \<noteq> None) final"
  have "from_hex_digit (CHR '':'') = None" by code_simp
  with a(3) have colon: "CHR '':'' \<notin> set final" unfolding list_all_iff by metis
  have plain: "plain_host (octets @ CHR '':'' # final)"
    by (rule address_plain_host) (use a(2, 3) in \<open>simp add: list_all_iff address_char_def ball_Un\<close>)
  show "Dial_registry (DefaultRegistry :: ('p, 'q, 'd, 'h) conn registry) (ep_URI (ble_endpoint r)) =
      (if list_all is_digit final then Inr (BleConn (New_ble (sr_Address r) [WithScanTimeout defaultScanTimeout]))
       else Inl (InvalidURI (ep_URI (ble_endpoint r)) (InvalidPort (CHR '':'' # final))))"
    unfolding ble_endpoint_def endpoint.select_convs a(1) by (rule Dial_ble_address [OF plain colon])
qed

theorem endpoint_uris_dialable_witness:
  "Dial_registry (DefaultRegistry :: (unit, unit, unit, unit) conn registry) ''ble://C4:20:12:34:56:AB'' =
     Inl (InvalidURI ''ble://C4:20:12:34:56:AB'' (InvalidPort '':AB'')) \<and>
   Dial_registry DefaultRegistry ''serial:///dev/ttyACM0'' =
     Inr (SerialConn (New_serial ''/dev/ttyACM0'' []) :: (unit, unit, unit, unit) conn)"
proof -
  let ?p = "\<lparr>pd_Name = ''/dev/ttyACM0'', pd_IsUSB = True, pd_VID = [], pd_PID = [], pd_SerialNumber = [], pd_Product = [], pd_Manufacturer = []\<rparr>"
  let ?r = "\<lparr>sr_Address = ''C4:20:12:34:56:AB'', sr_LocalName = [], sr_HasService = True, sr_RSSI = 0\<rparr>"
  have facts: "plain_path ''/dev/ttyACM0''" "list_all address_char ''C4:20:12:34:56''"
    "list_all (\<lambda>c. from_hex_digit c \<noteq> None) ''AB''" "\<not> list_all is_digit ''AB''"
    by code_simp+
  from endpoint_uris_dialable [of ?p ?r "''C4:20:12:34:56''" "''AB''", where ?'p = unit and ?'q = unit and ?'d = unit and ?'h = unit]
  show ?thesis using facts by (simp add: serial_endpoint_def ble_endpoint_def)
qed

end
