(* ===== verification/Radio_Executor.thy ===== *)
theory Radio_Executor
  imports State_Store
begin

text \<open>
  The lock around the radio (\<open>backend/radio_activity.go\<close>). Goroutines that want the radio call \<open>Lock\<close>,
  \<open>TryLock\<close> and \<open>Unlock\<close>; each call consists of several atomic actions, and the steps of the model are
  these actions in any interleaving. A mutex is free or held; who holds it is known only to the goroutines.
\<close>

section \<open>The executor\<close>

text \<open>\<open>Milliseconds\<close> of a duration.\<close>

definition Milliseconds :: "duration \<Rightarrow> int" where
  "Milliseconds d = sgn d * (\<bar>d\<bar> div millisecond)"

record radio_executor =
  rx_mu :: bool
  rx_active :: bool
  rx_method :: string
  rx_since :: go_time
  rx_lastAt :: go_time
  rx_lastMethod :: string
  rx_lastDurationMs :: int
  rx_pending :: "32 word"

definition NewRadioExecutor :: radio_executor where
  "NewRadioExecutor = \<lparr>rx_mu = False, rx_active = False, rx_method = [], rx_since = zero_time, rx_lastAt = zero_time,
     rx_lastMethod = [], rx_lastDurationMs = 0, rx_pending = 0\<rparr>"

definition trackRadioWaiter :: "int \<Rightarrow> radio_executor \<Rightarrow> radio_executor" where
  "trackRadioWaiter delta r = r\<lparr>rx_pending := rx_pending r + word_of_int delta\<rparr>"

definition rx_start :: "go_time \<Rightarrow> string \<Rightarrow> radio_executor \<Rightarrow> radio_executor" where
  "rx_start now m r = r\<lparr>rx_active := True, rx_method := m, rx_since := now\<rparr>"

definition rx_finish :: "go_time \<Rightarrow> radio_executor \<Rightarrow> radio_executor" where
  "rx_finish now r =
     (let r = (if rx_active r \<and> \<not> IsZero (rx_since r)
               then r\<lparr>rx_lastMethod := rx_method r, rx_lastDurationMs := Milliseconds (time_Since now (rx_since r))\<rparr> else r)
      in r\<lparr>rx_active := False, rx_method := [], rx_since := zero_time, rx_lastAt := now\<rparr>)"

record radio_status =
  rs_Active :: bool
  rs_Idle :: bool
  rs_Method :: string
  rs_Since :: go_time
  rs_DurationMs :: int
  rs_LastAt :: go_time
  rs_LastMethod :: string
  rs_LastDurationMs :: int

definition rx_Status :: "go_time \<Rightarrow> radio_executor \<Rightarrow> radio_status" where
  "rx_Status now r =
     (if \<not> rx_active r then
        \<lparr>rs_Active = False, rs_Idle = True, rs_Method = [], rs_Since = zero_time, rs_DurationMs = 0, rs_LastAt = rx_lastAt r,
         rs_LastMethod = rx_lastMethod r, rs_LastDurationMs = rx_lastDurationMs r\<rparr>
      else
        \<lparr>rs_Active = True, rs_Idle = False, rs_Method = rx_method r, rs_Since = rx_since r,
         rs_DurationMs = (if IsZero (rx_since r) then 0 else Milliseconds (time_Since now (rx_since r))),
         rs_LastAt = zero_time, rs_LastMethod = [], rs_LastDurationMs = 0\<rparr>)"

section \<open>Goroutines\<close>

text \<open>Where a goroutine is: it has not asked for the radio, waits for the mutex, has it and still counts as
  waiting, has it but has not recorded its method, works with the radio, or has recorded the end of its work
  and still holds the mutex.\<close>

datatype phase = Outside | Waiting string | Counted string | Entering string | Working string | Leaving

record radio_state =
  gs_radio :: radio_executor
  gs_phase :: "phase list"

fun holding :: "phase \<Rightarrow> bool" where
  "holding (Counted _) = True"
| "holding (Entering _) = True"
| "holding (Working _) = True"
| "holding Leaving = True"
| "holding _ = False"

fun counted :: "phase \<Rightarrow> bool" where
  "counted (Waiting _) = True"
| "counted (Counted _) = True"
| "counted _ = False"

text \<open>The actions of a goroutine in its phase; \<open>None\<close> when it has to wait.\<close>

fun lock_action :: "go_time \<Rightarrow> phase \<Rightarrow> radio_executor \<Rightarrow> (phase \<times> radio_executor) option" where
  "lock_action now (Waiting m) r = (if rx_mu r then None else Some (Counted m, r\<lparr>rx_mu := True\<rparr>))"
| "lock_action now (Counted m) r = Some (Entering m, trackRadioWaiter (-1) r)"
| "lock_action now (Entering m) r = Some (Working m, rx_start now m r)"
| "lock_action now (Working m) r = Some (Leaving, rx_finish now r)"
| "lock_action now Leaving r = Some (Outside, r\<lparr>rx_mu := False\<rparr>)"
| "lock_action now Outside r = None"

inductive radio_step :: "radio_state \<Rightarrow> radio_state \<Rightarrow> bool" where
  spawn: "radio_step g (g\<lparr>gs_phase := gs_phase g @ [Outside]\<rparr>)"
| Lock: "i < length (gs_phase g) \<Longrightarrow> gs_phase g ! i = Outside \<Longrightarrow>
    radio_step g \<lparr>gs_radio = trackRadioWaiter 1 (gs_radio g), gs_phase = (gs_phase g)[i := Waiting m]\<rparr>"
| TryLock: "i < length (gs_phase g) \<Longrightarrow> gs_phase g ! i = Outside \<Longrightarrow> \<not> rx_mu (gs_radio g) \<Longrightarrow>
    radio_step g \<lparr>gs_radio = (gs_radio g)\<lparr>rx_mu := True\<rparr>, gs_phase = (gs_phase g)[i := Entering m]\<rparr>"
| action: "i < length (gs_phase g) \<Longrightarrow> lock_action now (gs_phase g ! i) (gs_radio g) = Some (p, r) \<Longrightarrow>
    radio_step g \<lparr>gs_radio = r, gs_phase = (gs_phase g)[i := p]\<rparr>"

definition idle_radio :: radio_state where
  "idle_radio = \<lparr>gs_radio = NewRadioExecutor, gs_phase = []\<rparr>"

section \<open>Invariant\<close>

definition holders :: "phase list \<Rightarrow> nat" where
  "holders ps = length (filter holding ps)"

definition waiters :: "phase list \<Rightarrow> nat" where
  "waiters ps = length (filter counted ps)"

definition radio_inv :: "radio_state \<Rightarrow> bool" where
  "radio_inv g \<longleftrightarrow> holders (gs_phase g) = (if rx_mu (gs_radio g) then 1 else 0) \<and>
     rx_pending (gs_radio g) = word_of_nat (waiters (gs_phase g)) \<and>
     (\<forall>m. Working m \<in> set (gs_phase g) \<longrightarrow> rx_active (gs_radio g) \<and> rx_method (gs_radio g) = m) \<and>
     (rx_active (gs_radio g) \<longrightarrow> (\<exists>m. Working m \<in> set (gs_phase g)))"

lemma holders_Suc: "0 < holders ps \<longleftrightarrow> (\<exists>p \<in> set ps. holding p)"
  by (auto simp: holders_def filter_empty_conv)

lemma length_filter_update:
  assumes "i < length ps"
  shows "length (filter P (ps[i := p])) + (if P (ps ! i) then 1 else 0) = length (filter P ps) + (if P p then 1 else 0)"
  using assms
proof (induction ps arbitrary: i)
  case (Cons x xs)
  then show ?case by (cases i) (auto split: if_splits)
qed simp

lemmas holders_update = length_filter_update [where P = holding, folded holders_def]
  and waiters_update = length_filter_update [where P = counted, folded waiters_def]

text \<open>With one holder, a goroutine that holds the mutex is the only one.\<close>

lemma mem_update:
  assumes "i < length ps" and "x \<noteq> ps ! i" and "x \<noteq> p"
  shows "x \<in> set (ps[i := p]) \<longleftrightarrow> x \<in> set ps"
proof
  assume "x \<in> set (ps[i := p])"
  then show "x \<in> set ps" using assms(3) set_update_subset_insert [of ps i p] by auto
next
  assume "x \<in> set ps"
  then obtain k where k: "k < length ps" "ps ! k = x" unfolding in_set_conv_nth by blast
  with assms(2) have "k \<noteq> i" by blast
  with k show "x \<in> set (ps[i := p])" using nth_mem [of k "ps[i := p]"] by simp
qed

lemma no_other_holder:
  assumes "holders ps = 1" and "i < length ps" and "holding (ps ! i)" and "j < length ps" and "holding (ps ! j)"
  shows "i = j"
proof (rule ccontr)
  assume "i \<noteq> j"
  have "holders (ps[i := Outside]) = 0" using holders_update [OF assms(2), of Outside] assms(1, 3) by simp
  moreover have "ps ! j \<in> set (ps[i := Outside])" using \<open>i \<noteq> j\<close> assms(4) nth_mem [of j "ps[i := Outside]"] by simp
  ultimately show False using assms(5) holders_Suc [of "ps[i := Outside]"] by auto
qed

lemma only_holder:
  assumes "holders ps = 1" and "i < length ps" and "holding (ps ! i)" and "p \<in> set (ps[i := q])" and "holding p"
  shows "p = q"
proof -
  obtain k where k: "k < length ps" "ps[i := q] ! k = p" using assms(4) unfolding in_set_conv_nth by auto
  show ?thesis
  proof (cases "k = i")
    case False
    then have "ps ! k = p" using k by simp
    then show ?thesis using no_other_holder [OF assms(1-3) k(1)] assms(5) False by simp
  qed (use k in simp)
qed

lemma radio_inv_holders:
  assumes "radio_inv g" and "i < length (gs_phase g)" and "holding (gs_phase g ! i)"
  shows "holders (gs_phase g) = 1"
proof -
  have "0 < holders (gs_phase g)" using holders_Suc assms(2, 3) nth_mem by blast
  then show ?thesis using assms(1) unfolding radio_inv_def by (metis less_irrefl)
qed

text \<open>An action that neither starts nor ends the work of a goroutine keeps what is known of the work.\<close>

lemma radio_inv_quiet:
  assumes "radio_inv g" and "i < length (gs_phase g)" and "\<And>m. gs_phase g ! i \<noteq> Working m" and "\<And>m. p \<noteq> Working m"
    and "holders ((gs_phase g)[i := p]) = (if rx_mu r then 1 else 0)" and "rx_pending r = word_of_nat (waiters ((gs_phase g)[i := p]))"
    and "rx_active r = rx_active (gs_radio g)" and "rx_method r = rx_method (gs_radio g)"
  shows "radio_inv \<lparr>gs_radio = r, gs_phase = (gs_phase g)[i := p]\<rparr>"
proof -
  have "Working m \<in> set ((gs_phase g)[i := p]) \<longleftrightarrow> Working m \<in> set (gs_phase g)" for m
    using mem_update [OF assms(2)] assms(3, 4) by metis
  with assms show ?thesis by (simp add: radio_inv_def)
qed

lemma lock_action_inv:
  assumes inv: "radio_inv g" and i: "i < length (gs_phase g)" and act: "lock_action now (gs_phase g ! i) (gs_radio g) = Some (p, r)"
  shows "radio_inv \<lparr>gs_radio = r, gs_phase = (gs_phase g)[i := p]\<rparr>"
proof -
  note upd = holders_update [OF i, of p] waiters_update [OF i, of p]
  have h: "holders (gs_phase g) = (if rx_mu (gs_radio g) then 1 else 0)" "rx_pending (gs_radio g) = word_of_nat (waiters (gs_phase g))"
    using inv by (simp_all add: radio_inv_def)
  show ?thesis
  proof (cases "gs_phase g ! i")
    case (Waiting m)
    then show ?thesis using act upd h by (intro radio_inv_quiet [OF inv i]) (auto split: if_splits)
  next
    case (Counted m)
    then have p: "p = Entering m" "r = trackRadioWaiter (-1) (gs_radio g)" using act by auto
    have w: "waiters (gs_phase g) = Suc (waiters ((gs_phase g)[i := p]))" using upd(2) Counted p(1) by simp
    have "holders ((gs_phase g)[i := p]) = (if rx_mu r then 1 else 0)" using upd(1) h(1) Counted p by (simp add: trackRadioWaiter_def)
    moreover have "rx_pending r = word_of_nat (waiters ((gs_phase g)[i := p]))" using h(2) p(2) unfolding w by (simp add: trackRadioWaiter_def)
    ultimately show ?thesis using Counted p by (intro radio_inv_quiet [OF inv i]) (simp_all add: trackRadioWaiter_def)
  next
    case (Entering m)
    then have p: "p = Working m" "r = rx_start now m (gs_radio g)" using act by auto
    have "m' = m" if "Working m' \<in> set ((gs_phase g)[i := p])" for m'
      using only_holder [OF radio_inv_holders [OF inv i] i _ that] Entering p by simp
    moreover have "Working m \<in> set ((gs_phase g)[i := p])" using p i by (simp add: set_update_memI)
    ultimately show ?thesis using p upd h Entering by (auto simp: radio_inv_def rx_start_def)
  next
    case (Working m)
    then have p: "p = Leaving" "r = rx_finish now (gs_radio g)" using act by auto
    have "Working m' \<notin> set ((gs_phase g)[i := p])" for m'
      using only_holder [OF radio_inv_holders [OF inv i] i, of "Working m'" p] Working p by auto
    then show ?thesis using p upd h Working by (simp add: radio_inv_def rx_finish_def Let_def)
  next
    case Leaving
    then show ?thesis using act upd h radio_inv_holders [OF inv i]
      by (intro radio_inv_quiet [OF inv i]) (auto split: if_splits)
  qed (use act in simp)
qed

lemma radio_step_inv:
  assumes "radio_step g g'" and "radio_inv g"
  shows "radio_inv g'"
  using assms
proof (induction rule: radio_step.induct)
  case (spawn g)
  then show ?case by (auto simp: radio_inv_def holders_def waiters_def)
next
  case (Lock i g m)
  note i = Lock(1, 2)
  have "rx_pending (gs_radio g) = word_of_nat (waiters (gs_phase g))" "holders (gs_phase g) = (if rx_mu (gs_radio g) then 1 else 0)"
    using Lock.prems by (simp_all add: radio_inv_def)
  with i show ?case using holders_update [OF i(1), of "Waiting m"] waiters_update [OF i(1), of "Waiting m"]
    by (intro radio_inv_quiet [OF Lock.prems]) (auto simp: trackRadioWaiter_def)
next
  case (TryLock i g m)
  note i = TryLock(1-3)
  have "rx_pending (gs_radio g) = word_of_nat (waiters (gs_phase g))" "holders (gs_phase g) = (if rx_mu (gs_radio g) then 1 else 0)"
    using TryLock.prems by (simp_all add: radio_inv_def)
  with i show ?case using holders_update [OF i(1), of "Entering m"] waiters_update [OF i(1), of "Entering m"]
    by (intro radio_inv_quiet [OF TryLock.prems]) auto
next
  case (action i g now p r)
  then show ?case using lock_action_inv by blast
qed

lemma radio_reachable_inv:
  assumes "radio_step\<^sup>*\<^sup>* idle_radio g"
  shows "radio_inv g"
  using assms
proof (induction rule: rtranclp_induct)
  case base
  show ?case by (simp add: radio_inv_def idle_radio_def NewRadioExecutor_def holders_def waiters_def)
next
  case (step g g')
  then show ?case using radio_step_inv by blast
qed

text \<open>C22: The radio is used by one goroutine at a time, whatever the interleaving of \<open>Lock\<close>, \<open>TryLock\<close> and
  \<open>Unlock\<close>. Two goroutines that hold it are the same; the counter of waiting requests is the number of
  goroutines that wait; the status names the method of the goroutine that works with the radio and is idle
  exactly when none does; and as long as a goroutine waits or holds the radio, some goroutine can go on.\<close>

theorem radio_exclusive:
  assumes "radio_step\<^sup>*\<^sup>* idle_radio g"
  shows "(i < length (gs_phase g) \<and> j < length (gs_phase g) \<and> holding (gs_phase g ! i) \<and> holding (gs_phase g ! j) \<longrightarrow> i = j) \<and>
    rx_pending (gs_radio g) = word_of_nat (waiters (gs_phase g)) \<and>
    (Working m \<in> set (gs_phase g) \<longrightarrow> rs_Active (rx_Status now (gs_radio g)) \<and> rs_Method (rx_Status now (gs_radio g)) = m) \<and>
    (rs_Idle (rx_Status now (gs_radio g)) \<longleftrightarrow> (\<nexists>m. Working m \<in> set (gs_phase g))) \<and>
    (i < length (gs_phase g) \<and> gs_phase g ! i \<noteq> Outside \<longrightarrow>
      (\<exists>k < length (gs_phase g). \<exists>p r. lock_action now (gs_phase g ! k) (gs_radio g) = Some (p, r)))"
proof (intro conjI impI)
  note inv = radio_reachable_inv [OF assms]
  have goes: "\<exists>p r. lock_action now x (gs_radio g) = Some (p, r)" if "holding x" for x
    using that by (cases x) auto
  assume "i < length (gs_phase g) \<and> gs_phase g ! i \<noteq> Outside"
  then have i: "i < length (gs_phase g)" "gs_phase g ! i \<noteq> Outside" by auto
  show "\<exists>k < length (gs_phase g). \<exists>p r. lock_action now (gs_phase g ! k) (gs_radio g) = Some (p, r)"
  proof (cases "rx_mu (gs_radio g)")
    case True
    then have "0 < holders (gs_phase g)" using inv by (simp add: radio_inv_def)
    then obtain x where x: "x \<in> set (gs_phase g)" "holding x" using holders_Suc by blast
    then obtain k where "k < length (gs_phase g)" "gs_phase g ! k = x" unfolding in_set_conv_nth by blast
    with goes [OF x(2)] show ?thesis by blast
  next
    case False
    then have "\<exists>p r. lock_action now (gs_phase g ! i) (gs_radio g) = Some (p, r)" using i by (cases "gs_phase g ! i") auto
    with i show ?thesis by blast
  qed
qed (use radio_reachable_inv [OF assms] radio_inv_holders [of g i] no_other_holder [of "gs_phase g" i j]
     in \<open>auto simp: radio_inv_def rx_Status_def\<close>)

theorem radio_exclusive_witness:
  "\<exists>g. radio_step\<^sup>*\<^sup>* idle_radio g \<and> gs_phase g = [Working ''stats'', Waiting ''inbox''] \<and> rx_pending (gs_radio g) = 1 \<and>
     rs_Method (rx_Status zero_time (gs_radio g)) = ''stats''"
proof -
  let ?g1 = "\<lparr>gs_radio = NewRadioExecutor, gs_phase = [Outside]\<rparr>"
  let ?g2 = "\<lparr>gs_radio = NewRadioExecutor, gs_phase = [Outside, Outside]\<rparr>"
  let ?g3 = "\<lparr>gs_radio = NewRadioExecutor\<lparr>rx_mu := True\<rparr>, gs_phase = [Entering ''stats'', Outside]\<rparr>"
  let ?g4 = "\<lparr>gs_radio = rx_start zero_time ''stats'' (NewRadioExecutor\<lparr>rx_mu := True\<rparr>), gs_phase = [Working ''stats'', Outside]\<rparr>"
  let ?g5 = "\<lparr>gs_radio = trackRadioWaiter 1 (rx_start zero_time ''stats'' (NewRadioExecutor\<lparr>rx_mu := True\<rparr>)), gs_phase = [Working ''stats'', Waiting ''inbox'']\<rparr>"
  have "radio_step idle_radio ?g1" using radio_step.spawn [of idle_radio] by (simp add: idle_radio_def)
  moreover have "radio_step ?g1 ?g2" using radio_step.spawn [of ?g1] by simp
  moreover have "radio_step ?g2 ?g3" using radio_step.TryLock [of 0 ?g2 "''stats''"] by (simp add: NewRadioExecutor_def)
  moreover have "radio_step ?g3 ?g4" using radio_step.action [of 0 ?g3 zero_time] by simp
  moreover have "radio_step ?g4 ?g5" using radio_step.Lock [of 1 ?g4 "''inbox''"] by simp
  ultimately have reach: "radio_step\<^sup>*\<^sup>* idle_radio ?g5"
    by (meson converse_rtranclp_into_rtranclp rtranclp.rtrancl_refl)
  show ?thesis
    using radio_exclusive [OF reach, of 0 0 "''stats''" zero_time] reach
    by (intro exI [of _ ?g5]) (simp add: waiters_def)
qed

end
