(* ===== verification/Device_Session.thy ===== *)
theory Device_Session
  imports Message_History Tracing Dialing Radio_Executor
begin

text \<open>
  A device session of the backend (\<open>backend/server.go\<close>, \<open>backend/device_stats.go\<close>, \<open>backend/diagnostics.go\<close>,
  \<open>backend/config_sessions.go\<close>): its state, how it is opened, how it notices that the radio is gone and
  reconnects, and the calls the rest is built from.

  A session owns a client and a database. The methods run one after the other; what a method does to the
  client and to the database it does through \<open>on_client\<close> and \<open>in_store\<close>. A session is always made with a
  store, so the tests for a missing store are left out. An error message is kept as the error it is the
  text of; the empty message is \<open>None\<close>. The result of dialing is an argument.
\<close>

section \<open>State\<close>

datatype session_state = StateReady | StateDegraded | StateBridge

datatype session_error =
    RadioError go_error
  | StoreError store_error
  | DialError dial_error
  | Unavailable session_error
  | NoActiveClient
  | BridgeIsActive
  | RadioNotResponding
  | BridgeDisconnected
  | AnotherBridge
  | NoLocalContact string
  | NoLocalChannel string
  | NoUsablePublicKey string
  | IdentityMismatch string string string
  | BadParams string
  | UnknownMethod string
  | UnknownBridgeType string
  | BridgeFailed string

record bridge_config =
  bc_Enabled :: bool
  bc_Type :: string
  bc_Listen :: string
  bc_Name :: string

record bridge_status =
  bs_Name :: string
  bs_Type :: string
  bs_Listen :: string
  bs_Path :: string
  bs_Active :: bool
  bs_Error :: "session_error option"
  bs_Note :: string

record device_session =
  ss_id :: string
  ss_uri :: string
  ss_publicKey :: string
  ss_bridges :: "bridge_config list"
  ss_client :: "client option"
  ss_store :: db
  ss_state :: session_state
  ss_lastSeen :: go_time
  ss_lastError :: "session_error option"
  ss_lastErrorAt :: go_time
  ss_bridgeStatuses :: "(string \<times> bridge_status) list"
  ss_contactSyncing :: bool
  ss_contactSyncRecv :: nat
  ss_contactSyncTotal :: nat
  ss_contactCount :: nat
  ss_contactSyncedAt :: go_time
  ss_contactError :: "session_error option"
  ss_refreshCancel :: bool
  ss_channelSyncing :: bool
  ss_channelCount :: nat
  ss_channelSyncedAt :: go_time
  ss_channelError :: "session_error option"
  ss_deviceInfo :: client_device_info
  ss_deviceInfoOK :: bool
  ss_deviceStats :: "local_stats option"
  ss_deviceStatsAt :: go_time
  ss_startedAt :: go_time
  ss_stopped :: bool
  ss_started :: bool
  ss_drainReq :: bool
  ss_ipcClients :: "32 word"
  ss_reconnects :: "32 word"
  ss_requestsOK :: "64 word"
  ss_requestsFailed :: "64 word"
  ss_now :: go_time

section \<open>Composition\<close>

type_synonym 'a sess = "device_session \<Rightarrow> ((session_error + 'a) \<times> device_session) outcome"

definition s_ret :: "'a \<Rightarrow> 'a sess" where
  "s_ret x s = Finished (Inr x, s)"

definition s_err :: "session_error \<Rightarrow> 'a sess" where
  "s_err e s = Finished (Inl e, s)"

definition s_bind :: "'a sess \<Rightarrow> ('a \<Rightarrow> 'b sess) \<Rightarrow> 'b sess" where
  "s_bind m f s = and_then (m s) (\<lambda>(r, s). case r of Inl e \<Rightarrow> Finished (Inl e, s) | Inr x \<Rightarrow> f x s)"

text \<open>A call whose error is looked at or dropped.\<close>

definition s_try :: "'a sess \<Rightarrow> (session_error + 'a \<Rightarrow> 'b sess) \<Rightarrow> 'b sess" where
  "s_try m f s = and_then (m s) (\<lambda>(r, s). f r s)"

definition s_get :: "(device_session \<Rightarrow> 'a sess) \<Rightarrow> 'a sess" where
  "s_get f s = f s s"

definition s_put :: "(device_session \<Rightarrow> device_session) \<Rightarrow> 'a sess \<Rightarrow> 'a sess" where
  "s_put g m s = m (g s)"

definition in_store :: "'a stm \<Rightarrow> 'a sess" where
  "in_store m s = (let (r, d) = m (ss_store s) in Finished (map_sum StoreError id r, s\<lparr>ss_store := d\<rparr>))"

text \<open>A call of a client that is not there is a nil dereference.\<close>

definition on_client :: "(client \<Rightarrow> 'a result) \<Rightarrow> 'a sess" where
  "on_client f s =
     (case ss_client s of
        None \<Rightarrow> Panicked
      | Some c \<Rightarrow> and_then (f c) (\<lambda>(r, c). Finished (map_sum RadioError id r, s\<lparr>ss_client := Some c, ss_now := w_now c\<rparr>)))"

definition close_old :: "client option \<Rightarrow> unit outcome" where
  "close_old c = (case c of None \<Rightarrow> Finished () | Some c \<Rightarrow> and_then (no_panic (Close_client c)) (\<lambda>_. Finished ()))"

section \<open>Snapshots\<close>

definition healthy :: "device_session \<Rightarrow> bool" where
  "healthy s = (ss_state s = StateReady)"

definition lastErr :: "device_session \<Rightarrow> session_error" where
  "lastErr s =
     (case ss_lastError s of
        None \<Rightarrow> if ss_state s = StateBridge then BridgeIsActive else RadioNotResponding
      | Some e \<Rightarrow> e)"

definition storeDeviceInfo :: "client_device_info \<Rightarrow> device_session \<Rightarrow> device_session" where
  "storeDeviceInfo info s =
     s\<lparr>ss_deviceInfo := info,
       ss_deviceInfoOK := se_Name (cdi_Session info) \<noteq> [] \<or> se_PublicKey (cdi_Session info) \<noteq> []\<rparr>"

definition deviceInfoSnapshot :: "device_session \<Rightarrow> client_device_info option" where
  "deviceInfoSnapshot s = (if \<not> ss_deviceInfoOK s then None else Some (ss_deviceInfo s))"

definition storeDeviceStats :: "local_stats \<Rightarrow> device_session \<Rightarrow> device_session" where
  "storeDeviceStats stats s = s\<lparr>ss_deviceStats := Some stats, ss_deviceStatsAt := ss_now s\<rparr>"

definition deviceStatsSnapshot :: "device_session \<Rightarrow> local_stats option" where
  "deviceStatsSnapshot s = ss_deviceStats s"

section \<open>Counters\<close>

definition trackIPCClient :: "int \<Rightarrow> device_session \<Rightarrow> device_session" where
  "trackIPCClient delta s = s\<lparr>ss_ipcClients := ss_ipcClients s + word_of_int delta\<rparr>"

definition trackReconnect :: "device_session \<Rightarrow> device_session" where
  "trackReconnect s = s\<lparr>ss_reconnects := ss_reconnects s + 1\<rparr>"

definition trackRequestOK :: "device_session \<Rightarrow> device_session" where
  "trackRequestOK s = s\<lparr>ss_requestsOK := ss_requestsOK s + 1\<rparr>"

definition trackRequestFailed :: "device_session \<Rightarrow> device_session" where
  "trackRequestFailed s = s\<lparr>ss_requestsFailed := ss_requestsFailed s + 1\<rparr>"

section \<open>Caches of device information and statistics\<close>

definition refreshDeviceInfoCache :: "unit sess" where
  "refreshDeviceInfoCache =
     s_try (on_client Client_DeviceInfo) (\<lambda>r. case r of Inl _ \<Rightarrow> s_ret () | Inr info \<Rightarrow> s_put (storeDeviceInfo info) (s_ret ()))"

definition refreshDeviceStatsCache :: "unit sess" where
  "refreshDeviceStatsCache =
     s_try (on_client Stats) (\<lambda>r. case r of Inl _ \<Rightarrow> s_ret () | Inr stats \<Rightarrow> s_put (storeDeviceStats stats) (s_ret ()))"

definition refreshStartupCaches :: "unit sess" where
  "refreshStartupCaches = s_bind refreshDeviceInfoCache (\<lambda>_. refreshDeviceStatsCache)"

section \<open>Ready, degraded, reconnecting\<close>

definition markReady :: "device_session \<Rightarrow> device_session" where
  "markReady s = s\<lparr>ss_state := StateReady, ss_lastSeen := ss_now s, ss_lastError := None, ss_lastErrorAt := zero_time\<rparr>"

definition markDegraded :: "session_error \<Rightarrow> unit sess" where
  "markDegraded err s =
     and_then (close_old (ss_client s)) (\<lambda>_.
       s_ret () (s\<lparr>ss_state := StateDegraded, ss_lastError := Some err, ss_lastErrorAt := ss_now s, ss_client := None\<rparr>))"

definition markReconnectFailed :: "session_error \<Rightarrow> device_session \<Rightarrow> device_session" where
  "markReconnectFailed err s = s\<lparr>ss_state := StateDegraded, ss_lastError := Some err, ss_lastErrorAt := ss_now s\<rparr>"

text \<open>The part of \<open>tryReconnect\<close> after dialing.\<close>

definition install_client :: "client \<Rightarrow> unit sess" where
  "install_client client s =
     and_then (close_old (ss_client s)) (\<lambda>_.
       refreshStartupCaches (s\<lparr>ss_client := Some client, ss_state := StateReady, ss_lastSeen := ss_now s, ss_lastError := None\<rparr>))"

definition reconnected :: "(dial_error + client) outcome \<Rightarrow> unit sess" where
  "reconnected dialed s =
     and_then dialed (\<lambda>r. case r of
         Inl e \<Rightarrow> s_ret () (markReconnectFailed (DialError e) s)
       | Inr client \<Rightarrow> install_client client s)"

definition tryReconnect :: "(dial_error + client) outcome \<Rightarrow> unit sess" where
  "tryReconnect dialed s = (if ss_state s = StateBridge then s_ret () s else reconnected dialed (trackReconnect s))"

text \<open>Whether the radio lock was free is an argument.\<close>

definition runStatsPoll :: "bool \<Rightarrow> (dial_error + client) outcome \<Rightarrow> unit sess" where
  "runStatsPoll lockFree dialed s =
     (if ss_state s = StateBridge then s_ret () s
      else if \<not> lockFree then s_ret () s
      else if \<not> healthy s then tryReconnect dialed s
      else if ss_client s = None then markDegraded NoActiveClient s
      else s_try (on_client Stats) (\<lambda>r. case r of
          Inl err \<Rightarrow> markDegraded err
        | Inr stats \<Rightarrow> s_put (storeDeviceStats stats) (s_put markReady (s_ret ()))) s)"

definition statsPollTimeout :: "device_session \<Rightarrow> duration" where
  "statsPollTimeout s = (if HasPrefix (ss_uri s) ''ble://'' then 30 * second else 15 * second)"

text \<open>The first poll and one for each tick until the session is stopped.\<close>

fun pollStats :: "(bool \<times> (dial_error + client) outcome) list \<Rightarrow> unit sess" where
  "pollStats [] = s_ret ()"
| "pollStats ((free, dialed) # ticks) = s_try (runStatsPoll free dialed) (\<lambda>_. s_get (\<lambda>s. if ss_stopped s then s_ret () else pollStats ticks))"

section \<open>Opening and stopping\<close>

text \<open>The part of a text after the first occurrence of a separator.\<close>

fun cut_after :: "string \<Rightarrow> string \<Rightarrow> string option" where
  "cut_after sep [] = (if sep = [] then Some [] else None)"
| "cut_after sep (c # s) = (if prefix sep (c # s) then Some (drop (length sep) (c # s)) else cut_after sep s)"

definition sessionSlug :: "string \<Rightarrow> string" where
  "sessionSlug uri =
     (let slug = (case cut_after ''://'' uri of Some r \<Rightarrow> r | None \<Rightarrow> uri);
          slug = TrimSpace slug
      in if slug = [] then ''default'' else slug)"

record session_options =
  so_ID :: string
  so_PublicKey :: string
  so_Bridges :: "bridge_config list"

definition new_device_session :: "go_time \<Rightarrow> string \<Rightarrow> string \<Rightarrow> string \<Rightarrow> bridge_config list \<Rightarrow> client \<Rightarrow> db \<Rightarrow> device_session" where
  "new_device_session now uri i key bridges client store =
     \<lparr>ss_id = i, ss_uri = uri, ss_publicKey = key, ss_bridges = bridges, ss_client = Some client, ss_store = store,
      ss_state = StateReady, ss_lastSeen = now, ss_lastError = None, ss_lastErrorAt = zero_time, ss_bridgeStatuses = [],
      ss_contactSyncing = False, ss_contactSyncRecv = 0, ss_contactSyncTotal = 0, ss_contactCount = 0,
      ss_contactSyncedAt = zero_time, ss_contactError = None, ss_refreshCancel = False, ss_channelSyncing = False,
      ss_channelCount = 0, ss_channelSyncedAt = zero_time, ss_channelError = None,
      ss_deviceInfo = \<lparr>cdi_Session = empty_session, cdi_Extensions = []\<rparr>, ss_deviceInfoOK = False, ss_deviceStats = None,
      ss_deviceStatsAt = zero_time, ss_startedAt = now, ss_stopped = False, ss_started = False, ss_drainReq = False,
      ss_ipcClients = 0, ss_reconnects = 0, ss_requestsOK = 0, ss_requestsFailed = 0, ss_now = now\<rparr>"

text \<open>Opening a store, with the failures the database will have, as a step of \<open>newSession\<close>.\<close>

definition open_known :: "unicode \<Rightarrow> go_time \<Rightarrow> string option list \<Rightarrow> string \<Rightarrow> files \<Rightarrow> (session_error + db option) \<times> files" where
  "open_known u now faults knownKey files =
     (if knownKey = [] then (Inr None, files)
      else let (r, files) = OpenStateStore u now faults knownKey files in (map_sum StoreError Some r, files))"

text \<open>Each error return after dialing closes the client.\<close>

definition reject :: "client \<Rightarrow> session_error \<Rightarrow> files \<Rightarrow> ((session_error + device_session) \<times> files) outcome" where
  "reject client e files = and_then (close_old (Some client)) (\<lambda>_. Finished (Inl e, files))"

definition newSession :: "unicode \<Rightarrow> go_time \<Rightarrow> string option list \<Rightarrow> (dial_error + client) outcome \<Rightarrow> string \<Rightarrow> session_options \<Rightarrow> files \<Rightarrow>
    ((session_error + device_session) \<times> files) outcome" where
  "newSession u now faults dialed uri cfg files =
     (let i = (if so_ID cfg = [] then sessionSlug uri else so_ID cfg);
          knownKey = normalizePublicKey u (so_PublicKey cfg);
          (opened, files) = open_known u now faults knownKey files
      in case opened of
           Inl e \<Rightarrow> Finished (Inl e, files)
         | Inr known \<Rightarrow>
             and_then dialed (\<lambda>r. case r of
                 Inl e \<Rightarrow> Finished (Inl (DialError e), files)
               | Inr client \<Rightarrow>
                   and_then (Client_DeviceInfo client) (\<lambda>(r, client). case r of
                       Inl e \<Rightarrow> reject client (RadioError e) files
                     | Inr info \<Rightarrow>
                         (let actualKey = normalizePublicKey u (se_PublicKey (cdi_Session info)) in
                          if \<not> looksLikePublicKey actualKey then reject client (NoUsablePublicKey i) files
                          else
                            let (store, files) =
                              (case known of
                                 Some store \<Rightarrow>
                                   (if actualKey \<noteq> knownKey then Inl (IdentityMismatch i knownKey actualKey) else Inr store, files)
                               | None \<Rightarrow>
                                   (let (r, files) = OpenStateStore u now faults actualKey files in (map_sum StoreError id r, files)))
                            in case store of
                                 Inl e \<Rightarrow> reject client e files
                               | Inr store \<Rightarrow>
                                   and_then (refreshDeviceStatsCache (storeDeviceInfo info
                                       (new_device_session (w_now client) uri i actualKey (so_Bridges cfg) client store)))
                                     (\<lambda>(_, s). Finished (Inr s, files))))))"

text \<open>\<open>start\<close> launches the background work once; the result says whether it does.\<close>

definition start_session :: "device_session \<Rightarrow> bool \<times> device_session" where
  "start_session s = (if ss_started s then (False, s) else (True, s\<lparr>ss_started := True\<rparr>))"

definition stop_session :: "unit sess" where
  "stop_session s =
     (if ss_stopped s then s_ret () s
      else and_then (close_old (ss_client s)) (\<lambda>_. s_ret () (s\<lparr>ss_stopped := True\<rparr>)))"

section \<open>Bridges\<close>

text \<open>A bridge is given by its status; the registered statuses are kept by name.\<close>

definition addBridgeRuntime :: "bridge_status \<Rightarrow> device_session \<Rightarrow> device_session" where
  "addBridgeRuntime rt s = s\<lparr>ss_bridgeStatuses := AList.update (bs_Name rt) rt (ss_bridgeStatuses s)\<rparr>"

definition setBridgeError :: "session_error \<Rightarrow> bridge_status \<Rightarrow> device_session \<Rightarrow> bridge_status \<times> device_session" where
  "setBridgeError e rt s = (let rt = rt\<lparr>bs_Error := Some e\<rparr> in (rt, addBridgeRuntime rt s))"

definition bridge_of :: "unicode \<Rightarrow> bridge_config \<Rightarrow> bridge_status" where
  "bridge_of u cfg =
     (let t = ToLower u (bc_Type cfg)
      in \<lparr>bs_Name = (if bc_Name cfg = [] then t else bc_Name cfg), bs_Type = t, bs_Listen = bc_Listen cfg, bs_Path = [],
          bs_Active = False, bs_Error = None, bs_Note = []\<rparr>)"

text \<open>The bridges that \<open>startBridges\<close> serves, and the session with all of them registered.\<close>

fun start_bridges :: "unicode \<Rightarrow> bridge_config list \<Rightarrow> device_session \<Rightarrow> bridge_status list \<times> device_session" where
  "start_bridges u [] s = ([], s)"
| "start_bridges u (cfg # cfgs) s =
     (if \<not> bc_Enabled cfg then start_bridges u cfgs s
      else
        let rt = bridge_of u cfg; s = addBridgeRuntime rt s in
        if bs_Type rt = ''tcp'' \<or> bs_Type rt = ''pty'' then
          (let (rts, s) = start_bridges u cfgs s in (rt # rts, s))
        else start_bridges u cfgs (snd (setBridgeError (UnknownBridgeType (bc_Type cfg)) rt s)))"

definition startBridges :: "unicode \<Rightarrow> device_session \<Rightarrow> bridge_status list \<times> device_session" where
  "startBridges u s = start_bridges u (ss_bridges s) s"

definition enterBridge :: "bridge_status \<Rightarrow> bridge_status sess" where
  "enterBridge rt s =
     (if ss_state s = StateBridge then s_err AnotherBridge s
      else and_then (close_old (ss_client s)) (\<lambda>_.
        let rt = rt\<lparr>bs_Active := True\<rparr>
        in s_ret rt (addBridgeRuntime rt (s\<lparr>ss_client := None, ss_state := StateBridge, ss_lastError := None\<rparr>))))"

text \<open>The reconnection that \<open>leaveBridge\<close> starts in the background is a step of its own.\<close>

definition leaveBridge :: "bridge_status \<Rightarrow> device_session \<Rightarrow> device_session" where
  "leaveBridge rt s =
     addBridgeRuntime (rt\<lparr>bs_Active := False\<rparr>)
       (if ss_state s = StateBridge
        then s\<lparr>ss_state := StateDegraded, ss_lastError := Some BridgeDisconnected, ss_lastErrorAt := ss_now s\<rparr>
        else s)"

section \<open>Status\<close>

record sync_status =
  st_Syncing :: bool
  st_SyncReceived :: nat
  st_SyncTotal :: nat
  st_Count :: nat
  st_SyncedAt :: go_time
  st_Error :: "session_error option"

definition contact_status :: "device_session \<Rightarrow> sync_status" where
  "contact_status s =
     \<lparr>st_Syncing = ss_contactSyncing s, st_SyncReceived = ss_contactSyncRecv s, st_SyncTotal = ss_contactSyncTotal s,
      st_Count = ss_contactCount s, st_SyncedAt = ss_contactSyncedAt s, st_Error = ss_contactError s\<rparr>"

definition channel_status :: "device_session \<Rightarrow> sync_status" where
  "channel_status s =
     \<lparr>st_Syncing = ss_channelSyncing s, st_SyncReceived = 0, st_SyncTotal = 0, st_Count = ss_channelCount s,
      st_SyncedAt = ss_channelSyncedAt s, st_Error = ss_channelError s\<rparr>"

datatype list_state = Running session_state | Stopped

record device_list_entry =
  dl_ID :: string
  dl_Default :: bool
  dl_Session :: list_state
  dl_Connected :: bool
  dl_Replica :: string
  dl_Contacts :: "sync_status option"
  dl_Channels :: "sync_status option"
  dl_Transport :: string
  dl_URI :: string
  dl_LastError :: "session_error option"

definition listEntry :: "bool \<Rightarrow> device_session \<Rightarrow> device_list_entry" where
  "listEntry isDefault s =
     \<lparr>dl_ID = ss_id s, dl_Default = isDefault, dl_Session = Running (ss_state s),
      dl_Connected = (ss_state s = StateReady \<or> ss_state s = StateBridge),
      dl_Replica = (if \<not> IsZero (ss_contactSyncedAt s) \<and> \<not> IsZero (ss_channelSyncedAt s) then ''fresh'' else ''stale''),
      dl_Contacts = Some (contact_status s), dl_Channels = Some (channel_status s), dl_Transport = Scheme (ss_uri s),
      dl_URI = ss_uri s, dl_LastError = ss_lastError s\<rparr>"

record status_result =
  sr_Healthy :: bool
  sr_State :: session_state
  sr_DeviceID :: string
  sr_URI :: string
  sr_StartedAt :: go_time
  sr_UptimeSec :: int
  sr_LastSeen :: go_time
  sr_LastError :: "session_error option"
  sr_LastErrorAt :: go_time
  sr_Bridges :: "bridge_status list"
  sr_Contacts :: sync_status
  sr_Channels :: sync_status
  sr_Device :: "client_device_info option"
  sr_Stats :: "local_stats option"
  sr_StatsAt :: go_time
  sr_Reconnects :: "32 word"
  sr_Clients :: "32 word"
  sr_RequestsCompleted :: "64 word"
  sr_RequestsFailed :: "64 word"
  sr_QueuePending :: "32 word"
  sr_Radio :: radio_status

text \<open>The status, without the identity of the process and the text that describes the connection. A duration
  in seconds is cut off to an integer. The state of the radio lock at that moment is an argument.\<close>

definition status_of :: "radio_executor \<Rightarrow> device_session \<Rightarrow> status_result" where
  "status_of radio s =
     \<lparr>sr_Healthy = (ss_state s = StateReady), sr_State = ss_state s, sr_DeviceID = ss_id s, sr_URI = ss_uri s,
      sr_StartedAt = ss_startedAt s,
      sr_UptimeSec = (if IsZero (ss_startedAt s) then 0 else let d = time_Since (ss_now s) (ss_startedAt s) in sgn d * (\<bar>d\<bar> div second)),
      sr_LastSeen = ss_lastSeen s, sr_LastError = ss_lastError s, sr_LastErrorAt = ss_lastErrorAt s,
      sr_Bridges = map snd (ss_bridgeStatuses s), sr_Contacts = contact_status s, sr_Channels = channel_status s,
      sr_Device = deviceInfoSnapshot s, sr_Stats = deviceStatsSnapshot s,
      sr_StatsAt = (if ss_deviceStats s = None then zero_time else ss_deviceStatsAt s),
      sr_Reconnects = ss_reconnects s, sr_Clients = ss_ipcClients s, sr_RequestsCompleted = ss_requestsOK s,
      sr_RequestsFailed = ss_requestsFailed s, sr_QueuePending = rx_pending radio, sr_Radio = rx_Status (ss_now s) radio\<rparr>"

section \<open>Well-formed sessions\<close>

text \<open>A session that is ready has a client, its client is well formed and so is its history.\<close>

definition session_ok :: "device_session \<Rightarrow> bool" where
  "session_ok s \<longleftrightarrow> (\<forall>c. ss_client s = Some c \<longrightarrow> client_ok c) \<and> (ss_state s = StateReady \<longrightarrow> ss_client s \<noteq> None) \<and>
     messages_ok (db_tables (ss_store s))"

text \<open>What a request leaves as it was: the identity, the state, whether there is a client, and every stored message.\<close>

definition keep :: "device_session \<Rightarrow> device_session \<Rightarrow> bool" where
  "keep s s' \<longleftrightarrow> session_ok s' \<and> ss_id s' = ss_id s \<and> ss_publicKey s' = ss_publicKey s \<and> ss_state s' = ss_state s \<and> (ss_client s' = None \<longleftrightarrow> ss_client s = None) \<and>
     grows (db_tables (ss_store s)) (db_tables (ss_store s'))"

lemma keep_refl: "session_ok s \<Longrightarrow> keep s s"
  by (simp add: keep_def session_ok_def grows_refl)

lemma keep_trans: "keep a b \<Longrightarrow> keep b c \<Longrightarrow> keep a c"
  by (auto simp: keep_def intro: grows_trans)

named_theorems sess_safe

definition s_safe :: "bool \<Rightarrow> 'a sess \<Rightarrow> bool" where
  "s_safe b m \<longleftrightarrow> (\<forall>s. session_ok s \<longrightarrow> (b \<longrightarrow> ss_client s \<noteq> None) \<longrightarrow>
     m s \<noteq> Panicked \<and> (\<forall>r s'. m s = Finished (r, s') \<longrightarrow> keep s s'))"

lemma s_safeD:
  assumes "s_safe b m" and "session_ok s" and "b \<Longrightarrow> ss_client s \<noteq> None"
  shows "m s \<noteq> Panicked" and "m s = Finished (r, s') \<Longrightarrow> keep s s'"
  using assms unfolding s_safe_def by blast+

lemma s_safe_ret [sess_safe]: "s_safe b (s_ret x)" "s_safe b (s_err e)"
  by (simp_all add: s_safe_def s_ret_def s_err_def keep_refl)

lemma s_safe_try [sess_safe]:
  assumes "s_safe b m" and "\<And>r. s_safe b (f r)"
  shows "s_safe b (s_try m f)"
  unfolding s_safe_def
proof (intro allI impI)
  fix s
  assume s: "session_ok s" "b \<longrightarrow> ss_client s \<noteq> None"
  show "s_try m f s \<noteq> Panicked \<and> (\<forall>r s'. s_try m f s = Finished (r, s') \<longrightarrow> keep s s')"
  proof (cases "m s")
    case (Finished p)
    obtain r s1 where p: "p = (r, s1)" by force
    with Finished s_safeD(2) [OF assms(1) s(1)] s(2) have k: "keep s s1" by blast
    then have "session_ok s1" "b \<longrightarrow> ss_client s1 \<noteq> None" using s by (auto simp: keep_def)
    with s_safeD [OF assms(2)] have "f r s1 \<noteq> Panicked" "\<And>r' s2. f r s1 = Finished (r', s2) \<Longrightarrow> keep s1 s2" by blast+
    with k Finished p show ?thesis by (auto simp: s_try_def intro: keep_trans)
  qed (use s s_safeD(1) [OF assms(1) s(1)] in \<open>simp_all add: s_try_def\<close>)
qed

lemma s_bind_try: "s_bind m f = s_try m (\<lambda>r. case r of Inl e \<Rightarrow> s_err e | Inr x \<Rightarrow> f x)"
  by (intro ext arg_cong2 [where f = and_then]) (auto simp: s_bind_def s_try_def s_err_def intro!: arg_cong2 [where f = and_then] split: sum.splits)

lemma s_safe_split_sum [sess_safe]:
  "(\<And>e. x = Inl e \<Longrightarrow> s_safe b (f e)) \<Longrightarrow> (\<And>y. x = Inr y \<Longrightarrow> s_safe b (g y)) \<Longrightarrow>
   s_safe b (case x of Inl e \<Rightarrow> f e | Inr y \<Rightarrow> g y)"
  by (cases x) auto

lemma s_safe_split_option [sess_safe]:
  "(x = None \<Longrightarrow> s_safe b f) \<Longrightarrow> (\<And>y. x = Some y \<Longrightarrow> s_safe b (g y)) \<Longrightarrow> s_safe b (case x of None \<Rightarrow> f | Some y \<Rightarrow> g y)"
  by (cases x) auto

lemma s_safe_if [sess_safe]: "(P \<Longrightarrow> s_safe b f) \<Longrightarrow> (\<not> P \<Longrightarrow> s_safe b g) \<Longrightarrow> s_safe b (if P then f else g)"
  by simp

lemma s_safe_bind [sess_safe]: "s_safe b m \<Longrightarrow> (\<And>x. s_safe b (f x)) \<Longrightarrow> s_safe b (s_bind m f)"
  unfolding s_bind_try by (intro sess_safe)

lemma s_safe_get [sess_safe]: "(\<And>s. s_safe b (f s)) \<Longrightarrow> s_safe b (s_get f)"
  by (simp add: s_safe_def s_get_def)

text \<open>Changes of the other fields.\<close>

definition plain :: "(device_session \<Rightarrow> device_session) \<Rightarrow> bool" where
  "plain g \<longleftrightarrow> (\<forall>s. ss_id (g s) = ss_id s \<and> ss_publicKey (g s) = ss_publicKey s \<and> ss_state (g s) = ss_state s \<and> ss_client (g s) = ss_client s \<and> ss_store (g s) = ss_store s)"

lemma keep_plain: "plain g \<Longrightarrow> session_ok s \<Longrightarrow> keep s (g s)"
  by (auto simp: plain_def keep_def session_ok_def grows_refl)

lemma s_safe_put [sess_safe]:
  assumes "plain g" and "s_safe b m"
  shows "s_safe b (s_put g m)"
  unfolding s_safe_def
proof (intro allI impI)
  fix s
  assume s: "session_ok s" "b \<longrightarrow> ss_client s \<noteq> None"
  from keep_plain [OF assms(1) s(1)] have k: "keep s (g s)" .
  then have "session_ok (g s)" "b \<longrightarrow> ss_client (g s) \<noteq> None" using s by (auto simp: keep_def)
  with s_safeD [OF assms(2)] have "m (g s) \<noteq> Panicked" "\<And>r s'. m (g s) = Finished (r, s') \<Longrightarrow> keep (g s) s'" by blast+
  with k show "s_put g m s \<noteq> Panicked \<and> (\<forall>r s'. s_put g m s = Finished (r, s') \<longrightarrow> keep s s')"
    by (auto simp: s_put_def intro: keep_trans)
qed

lemma s_safe_in_store [sess_safe]: "keeps m \<Longrightarrow> s_safe b (in_store m)"
  unfolding s_safe_def
proof (intro allI impI)
  fix s
  assume m: "keeps m" and s: "session_ok s"
  obtain r d where "m (ss_store s) = (r, d)" by force
  with keepsD [OF m, of "ss_store s"] s show "in_store m s \<noteq> Panicked \<and> (\<forall>r s'. in_store m s = Finished (r, s') \<longrightarrow> keep s s')"
    by (auto simp: in_store_def keep_def session_ok_def grows_def)
qed

lemma s_safe_on_client [sess_safe]:
  assumes "\<And>c. client_ok c \<Longrightarrow> safe (f c)"
  shows "s_safe True (on_client f)"
  unfolding s_safe_def
proof (intro allI impI)
  fix s
  assume s: "session_ok s" "True \<longrightarrow> ss_client s \<noteq> None"
  then obtain c where c: "ss_client s = Some c" "client_ok c" by (auto simp: session_ok_def)
  with assms [of c] s show "on_client f s \<noteq> Panicked \<and> (\<forall>r s'. on_client f s = Finished (r, s') \<longrightarrow> keep s s')"
    by (cases "f c") (auto simp: on_client_def safe_def keep_def session_ok_def grows_refl)
qed

lemma plain_updates [simp]:
  "plain (storeDeviceInfo info)" "plain (storeDeviceStats stats)" "plain (trackIPCClient n)" "plain trackRequestOK"
  "plain trackRequestFailed" "plain trackReconnect" "plain (addBridgeRuntime rt)"
  by (simp_all add: plain_def storeDeviceInfo_def storeDeviceStats_def trackIPCClient_def trackRequestOK_def
    trackRequestFailed_def trackReconnect_def addBridgeRuntime_def)

lemma safe_calls [api_safe]:
  assumes "client_ok c"
  shows "safe (Stats c)" "safe (Advertise flood c)" "safe (AddChannel n u name secret c)" "safe (RemoveChannel u name c)"
    "safe (SendChannelText u name text c)"
proof -
  show "safe (Stats c)" unfolding Stats_def statsCore_def statsRadio_def statsPackets_def by (intro api_safe assms)
  show "safe (Advertise flood c)" unfolding Advertise_def by (intro api_safe assms)
  show "safe (AddChannel n u name secret c)" unfolding AddChannel_def by (intro api_safe assms)
  show "safe (RemoveChannel u name c)" unfolding RemoveChannel_def by (intro api_safe assms)
  show "safe (SendChannelText u name text c)" unfolding SendChannelText_def by (intro api_safe assms)
qed

lemma s_safe_caches [sess_safe]: "s_safe True refreshDeviceInfoCache" "s_safe True refreshDeviceStatsCache"
  unfolding refreshDeviceInfoCache_def refreshDeviceStatsCache_def
  by (intro sess_safe plain_updates api_safe | assumption)+

lemma s_safe_startup [sess_safe]: "s_safe True refreshStartupCaches"
  unfolding refreshStartupCaches_def by (intro sess_safe)

section \<open>The life of a session\<close>

definition dial_ok :: "(dial_error + client) outcome \<Rightarrow> bool" where
  "dial_ok dialed \<longleftrightarrow> dialed \<noteq> Panicked \<and> (\<forall>c. dialed = Finished (Inr c) \<longrightarrow> client_ok c)"

text \<open>The handshake touches only the world, so that dialing yields a well-formed client.\<close>

lemma WritePacket_more: "WritePacket pkt w = (r, w') \<Longrightarrow> world.more w' = world.more w"
  by (auto simp: WritePacket_def Let_def split: list.splits)

lemma readNext_more: "readNext es w = Finished (r, d, w') \<Longrightarrow> world.more w' = world.more w"
  by (induction es w rule: readNext.induct) (auto split: option.splits if_splits)

lemma handshake_more: "handshake start le dn w = Finished (r, d, w') \<Longrightarrow> world.more w' = world.more w"
proof (induction le dn w arbitrary: r d w' rule: handshake_induct)
  case (turn le dn w)
  obtain e w1 where wp: "WritePacket start w = (e, w1)" by force
  note m1 = WritePacket_more [OF wp]
  show ?case
  proof (cases "dn = None \<and> e = None")
    case True
    then obtain q dd w2 where rn: "readNext (w_env w1) w1 = Finished (q, dd, w2)"
      using turn(2) handshake_turn [OF wp, of le] by (auto simp: and_then_Finished_iff)
    have shorter: "length (w_env w2) < length (w_env w)" using readNext_consumes [OF rn] wp by simp
    have "world.more w2 = world.more w" using readNext_more [OF rn] m1 by simp
    with turn(1) [OF shorter] turn(2) True rn handshake_turn [OF wp, of le] show ?thesis
      by (auto split: sum.splits option.splits)
  qed (use turn(2) m1 handshake_turn [OF wp, of le] in \<open>cases dn; auto simp: handshake_done\<close>)
qed

lemma deviceQuery_more:
  assumes "deviceQuery dn w = Finished (r, d, w')"
  shows "world.more w' = world.more w"
proof -
  obtain q where q: "encode (w_now w) DeviceQuery = Some q"
    "(case q of Inl e \<Rightarrow> Finished (Inl (EncodeError e), dn, w)
       | Inr q \<Rightarrow>
           (case WritePacket q w of
              (Some err, w1) \<Rightarrow> Finished (Inl err, dn, w1)
            | (None, w1) \<Rightarrow>
                (case dn of
                   Some e \<Rightarrow> Finished (Inl (CtxError e), dn, w1)
                 | None \<Rightarrow>
                     and_then (readNext (w_env w1) w1) (\<lambda>(r, d, w2).
                       case r of
                         Inl err \<Rightarrow> Finished (Inl err, d, w2)
                       | Inr (DeviceInfo dev) \<Rightarrow> Finished (Inr dev, d, w2)
                       | Inr _ \<Rightarrow> Finished (Inl ErrUnexpectedResponse, d, w2))))) = Finished (r, d, w')"
    using assms unfolding deviceQuery_def and_then_Finished_iff by auto
  have m: "(case m of DeviceInfo dev \<Rightarrow> Finished (Inr dev, dd, w2) | _ \<Rightarrow> Finished (Inl ErrUnexpectedResponse, dd, w2)) = Finished (r, d, w') \<Longrightarrow> w2 = w'"
    for m dd w2 by (cases m) auto
  show ?thesis
  proof (cases q)
    case (Inr pkt)
    obtain e w1 where wp: "WritePacket pkt w = (e, w1)" by force
    note m1 = WritePacket_more [OF wp]
    show ?thesis
    proof (cases "e = None \<and> dn = None")
      case True
      with q(2) Inr wp obtain y dd w2 where rn: "readNext (w_env w1) w1 = Finished (y, dd, w2)"
        by (auto simp: and_then_Finished_iff)
      have "w2 = w'" using q(2) Inr wp True rn m by (cases y) auto
      with readNext_more [OF rn] m1 show ?thesis by simp
    qed (use q(2) Inr wp m1 in \<open>auto split: option.splits\<close>)
  qed (use q(2) in simp)
qed

lemma query_attempts_more: "query_attempts n le dn w = Finished (r, d, w') \<Longrightarrow> world.more w' = world.more w"
proof (induction n arbitrary: le dn w)
  case (Suc n)
  then obtain q dd w1 where q: "deviceQuery dn w = Finished (q, dd, w1)" by (auto simp: and_then_Finished_iff)
  with Suc.IH [of _ dd w1] Suc.prems deviceQuery_more [OF q] show ?case by (cases q) auto
qed simp

lemma Initialize_more:
  assumes "Initialize name w = Finished (r, w')"
  shows "world.more w' = world.more w"
proof -
  obtain start where "encode (w_now w) (AppStart name) = Some start" using encode_returns by blast
  show ?thesis
  proof (cases start)
    case (Inr pkt)
    obtain q d w1 where h: "handshake pkt None None w = Finished (q, d, w1)"
      using assms \<open>encode _ _ = Some start\<close> Inr by (auto simp: Initialize_def and_then_Finished_iff)
    show ?thesis
    proof (cases q)
      case (Inr self)
      with h assms \<open>encode _ _ = Some start\<close> \<open>start = Inr pkt\<close>
      obtain a b w2 where q2: "deviceQueryWithRetry d w1 = Finished (a, b, w2)"
        by (auto simp: Initialize_def and_then_Finished_iff)
      with h assms \<open>encode _ _ = Some start\<close> \<open>start = Inr pkt\<close> Inr have "w2 = w'"
        by (cases a) (simp_all add: Initialize_def Let_def)
      with q2 show ?thesis using query_attempts_more handshake_more [OF h] by (metis deviceQueryWithRetry_def)
    qed (use assms h \<open>encode _ _ = Some start\<close> Inr handshake_more [OF h] in \<open>simp add: Initialize_def\<close>)
  qed (use assms \<open>encode _ _ = Some start\<close> in \<open>simp add: Initialize_def\<close>)
qed

lemma Initialize_returns: "Initialize name w \<noteq> Panicked"
  using encode_returns [of "w_now w" "AppStart name"]
  by (auto simp: Initialize_def deviceQueryWithRetry_def and_then_Panicked_iff Let_def split: sum.splits)

lemma client_ok_more: "world.more c = world.more c' \<Longrightarrow> client_ok c = client_ok (c' :: client)"
  by (cases c; cases c') (simp add: client_ok_def)

lemma Connect_ok:
  assumes "client_ok c"
  shows "Connect e c \<noteq> Panicked \<and> (\<forall>r c'. Connect e c = Finished (r, c') \<longrightarrow> client_ok c')"
proof (cases e)
  case None
  show ?thesis
  proof (cases "Initialize [] c")
    case (Finished x)
    obtain r c1 where x: "x = (r, c1)" by force
    have ok: "client_ok c1" using client_ok_more [OF Initialize_more] Finished x assms by blast
    obtain ea eu ev ra ru rw where sub: "Subscribe 64 (cl_events c1) = (ea, eu, ev)" "Subscribe 256 (cl_raw c1) = (ra, ru, rw)"
      by (metis prod_cases3)
    from ok have "dispatcher_ok (cl_events c1)" "dispatcher_ok (cl_raw c1)" by (simp_all add: client_ok_def)
    with dispatcher_ok_Subscribe sub have "dispatcher_ok ev" "dispatcher_ok rw" "ea < length (d_heap ev)" by blast+
    with ok sub x None Finished show ?thesis by (cases r) (simp_all add: Connect_def client_ok_def event_ref_ok_def)
  qed (use None Initialize_returns [of "[]" c] in \<open>simp_all add: Connect_def\<close>)
qed (use assms in \<open>simp add: Connect_def\<close>)

lemma Dial_ok: "dial_ok (Dial link uri opts)"
proof -
  let ?cfg = "fold apply_dial_option opts \<lparr>dc_registry = DefaultRegistry, dc_clientOpts = []\<rparr>"
  show ?thesis
  proof (cases "Dial_registry (dc_registry ?cfg) uri")
    case (Inr conn)
    let ?m = "Connect (fst (link conn)) (New_client (snd (link conn)) (dc_clientOpts ?cfg))"
    from Connect_ok [OF client_ok_New] have "?m \<noteq> Panicked" "\<And>r c'. ?m = Finished (r, c') \<Longrightarrow> client_ok c'" by blast+
    with Inr show ?thesis by (cases ?m) (auto simp: dial_ok_def Dial_def Let_def split: option.splits)
  qed (simp add: dial_ok_def Dial_def)
qed

text \<open>A step of a session that may change its state.\<close>

definition life_ok :: "'a sess \<Rightarrow> device_session \<Rightarrow> bool" where
  "life_ok m s \<longleftrightarrow> m s \<noteq> Panicked \<and>
     (\<forall>r s'. m s = Finished (r, s') \<longrightarrow> session_ok s' \<and> ss_id s' = ss_id s \<and> ss_publicKey s' = ss_publicKey s \<and>
       grows (db_tables (ss_store s)) (db_tables (ss_store s')))"

lemma life_ok_safe:
  assumes "s_safe b m" and "session_ok s" and "b \<Longrightarrow> ss_client s \<noteq> None"
  shows "life_ok m s"
proof -
  have "m s \<noteq> Panicked" using s_safeD(1) [OF assms] .
  moreover have "keep s s'" if "m s = Finished (r, s')" for r s' using s_safeD(2) [OF assms that] .
  ultimately show ?thesis unfolding life_ok_def keep_def by blast
qed

lemma life_ok_eq: "m s = m' s \<Longrightarrow> life_ok m' s \<Longrightarrow> life_ok m s"
  unfolding life_ok_def by metis

lemma life_ok_ret: "session_ok s \<Longrightarrow> life_ok (s_ret x) s"
  by (simp add: life_ok_def s_ret_def grows_refl session_ok_def)

lemma close_old_ok: "session_ok s \<Longrightarrow> close_old (ss_client s) = Finished ()"
proof (cases "ss_client s")
  case (Some c)
  assume "session_ok s"
  with Some Close_client_some [of c] show ?thesis by (auto simp: session_ok_def close_old_def)
qed (simp add: close_old_def)

lemma markDegraded_ok: "session_ok s \<Longrightarrow> life_ok (markDegraded e) s"
  by (auto simp: life_ok_def markDegraded_def close_old_ok s_ret_def session_ok_def grows_refl)

lemma life_ok_kept:
  assumes "s_safe True m" and "session_ok s'" and "ss_client s' \<noteq> None" and "ss_store s' = ss_store s"
    and "ss_id s' = ss_id s" and "ss_publicKey s' = ss_publicKey s"
  shows "m s' \<noteq> Panicked \<and> (\<forall>r s2. m s' = Finished (r, s2) \<longrightarrow> session_ok s2 \<and> ss_id s2 = ss_id s \<and> ss_publicKey s2 = ss_publicKey s \<and> grows (db_tables (ss_store s)) (db_tables (ss_store s2)))"
  using s_safeD [OF assms(1, 2)] assms(3-6) by (auto simp: keep_def)

lemma tryReconnect_ok:
  assumes "session_ok s" and "dial_ok dialed"
  shows "life_ok (tryReconnect dialed) s"
proof (cases dialed)
  case (Finished r)
  have ok: "messages_ok (db_tables (ss_store s))" using assms(1) by (simp add: session_ok_def)
  show ?thesis
  proof (cases r)
    case (Inl e)
    with assms Finished show ?thesis
      by (auto simp: life_ok_def tryReconnect_def reconnected_def markReconnectFailed_def trackReconnect_def s_ret_def session_ok_def grows_refl)
  next
    case (Inr c)
    let ?s = "(trackReconnect s)\<lparr>ss_client := Some c, ss_state := StateReady, ss_lastSeen := ss_now s, ss_lastError := None\<rparr>"
    have s: "session_ok ?s" using assms(1, 2) Finished Inr by (simp add: session_ok_def trackReconnect_def dial_ok_def)
    have "life_ok (\<lambda>_. refreshStartupCaches ?s) s"
      unfolding life_ok_def by (rule life_ok_kept [OF s_safe_startup s]) (simp_all add: trackReconnect_def)
    moreover have "tryReconnect dialed s = (if ss_state s = StateBridge then s_ret () s else refreshStartupCaches ?s)"
      using close_old_ok [OF assms(1)] Finished Inr by (simp add: tryReconnect_def reconnected_def install_client_def trackReconnect_def)
    ultimately show ?thesis
      by (cases "ss_state s = StateBridge") (auto intro: life_ok_eq [OF _ life_ok_ret [OF assms(1)]] life_ok_eq)
  qed
qed (use assms in \<open>auto simp: dial_ok_def life_ok_def tryReconnect_def reconnected_def s_ret_def grows_refl session_ok_def\<close>)

lemma runStatsPoll_ok:
  assumes "session_ok s" and "dial_ok dialed"
  shows "life_ok (runStatsPoll free dialed) s"
proof (cases "ss_state s = StateReady \<and> free")
  case True
  then obtain c where c: "ss_client s = Some c" "client_ok c" using assms(1) by (auto simp: session_ok_def)
  have sf: "s_safe True (on_client Stats)" by (intro sess_safe api_safe)
  note p = s_safeD [OF sf assms(1)]
  show ?thesis
  proof (cases "on_client Stats s")
    case (Finished x)
    obtain r s1 where x: "x = (r, s1)" by force
    have k: "keep s s1" using p(2) [of r s1] c Finished x by simp
    have k2: "keep s1 (storeDeviceStats st s1)" for st
      using k by (intro keep_plain) (simp_all add: keep_def)
    have "session_ok (markReady (storeDeviceStats st s1)) \<and> ss_store (markReady (storeDeviceStats st s1)) = ss_store s1 \<and>
        ss_id (markReady (storeDeviceStats st s1)) = ss_id s1 \<and> ss_publicKey (markReady (storeDeviceStats st s1)) = ss_publicKey s1" for st
      using k True c(1) by (simp add: keep_def session_ok_def markReady_def storeDeviceStats_def)
    with markDegraded_ok [of s1] k True c(1) Finished x show ?thesis
      by (cases r) (auto simp: life_ok_def runStatsPoll_def healthy_def s_try_def s_put_def s_ret_def keep_def intro: grows_trans)
  qed (use True c(1) p(1) in \<open>simp_all add: life_ok_def runStatsPoll_def healthy_def s_try_def\<close>)
next
  case False
  then have "runStatsPoll free dialed s = s_ret () s \<or> runStatsPoll free dialed s = tryReconnect dialed s"
    by (auto simp: runStatsPoll_def healthy_def)
  then show ?thesis by (auto intro: life_ok_eq [OF _ life_ok_ret [OF assms(1)]] life_ok_eq [OF _ tryReconnect_ok [OF assms]])
qed

lemma enterBridge_ok: "session_ok s \<Longrightarrow> life_ok (enterBridge rt) s"
  by (auto simp: life_ok_def enterBridge_def addBridgeRuntime_def s_err_def s_ret_def close_old_ok Let_def session_ok_def grows_refl)

lemma leaveBridge_ok:
  "session_ok s \<Longrightarrow> session_ok (leaveBridge rt s) \<and> ss_id (leaveBridge rt s) = ss_id s \<and> ss_publicKey (leaveBridge rt s) = ss_publicKey s \<and>
     grows (db_tables (ss_store s)) (db_tables (ss_store (leaveBridge rt s)))"
  by (auto simp: leaveBridge_def addBridgeRuntime_def session_ok_def grows_refl)

lemma stop_session_ok: "session_ok s \<Longrightarrow> life_ok stop_session s"
  by (auto simp: life_ok_def stop_session_def s_ret_def close_old_ok session_ok_def grows_refl)

section \<open>Opening\<close>

definition files_ok :: "files \<Rightarrow> bool" where
  "files_ok files \<longleftrightarrow> (\<forall>n t. files n = Some t \<longrightarrow> messages_ok t)"

text \<open>Every file is still there, with the messages it had.\<close>

definition disk_le :: "files \<Rightarrow> files \<Rightarrow> bool" where
  "disk_le files files' \<longleftrightarrow> (\<forall>n t. files n = Some t \<longrightarrow> (\<exists>t'. files' n = Some t' \<and> grows t t'))"

lemma disk_le_refl: "files_ok files \<Longrightarrow> disk_le files files"
  by (simp add: disk_le_def files_ok_def grows_refl)

lemma disk_le_trans: "disk_le a b \<Longrightarrow> disk_le b c \<Longrightarrow> disk_le a c"
  unfolding disk_le_def by (meson grows_trans)

lemma messages_ok_empty: "messages_ok empty_tables"
  by (simp add: messages_ok_def empty_tables_def)

text \<open>Opening a database keeps its messages, also when it fails.\<close>

lemma OpenStateStore_ok:
  assumes "files_ok files" and "OpenStateStore u now faults key files = (r, files')"
  shows "files_ok files'" and "disk_le files files'" and "r = Inr d \<Longrightarrow> messages_ok (db_tables d) \<and>
      files' (StatePrefix u (normalizePublicKey u key)) = Some (db_tables d) \<and>
      (\<forall>t. files (StatePrefix u (normalizePublicKey u key)) = Some t \<longrightarrow> grows t (db_tables d))"
proof -
  let ?k = "normalizePublicKey u key"
  let ?t = "case files (StatePrefix u ?k) of Some t \<Rightarrow> t | None \<Rightarrow> empty_tables"
  have k: "keeps (seq init (\<lambda>_. ensureIdentity u now ?k))" 
    by (auto simp: init_def ensureIdentity_def metaGet_def metaSet_def intro!: keeps_intros)
  obtain r0 d0 where d0: "seq init (\<lambda>_. ensureIdentity u now ?k) \<lparr>db_tables = ?t, db_faults = faults\<rparr> = (r0, d0)" by force
  have "messages_ok ?t" using assms(1) messages_ok_empty by (auto simp: files_ok_def split: option.split)
  then have g: "grows ?t (db_tables d0)" using keepsD [OF k, of "\<lparr>db_tables = ?t, db_faults = faults\<rparr>"] d0 by simp
  have "files' = files \<or> files' = files(StatePrefix u ?k \<mapsto> db_tables d0)"
    using assms(2) d0 by (auto simp: OpenStateStore_def Let_def split: if_splits)
  then show "files_ok files'" and "disk_le files files'"
    using assms(1) g disk_le_refl [OF assms(1)] by (auto simp: files_ok_def grows_def disk_le_def split: if_splits)
  show "messages_ok (db_tables d) \<and> files' (StatePrefix u ?k) = Some (db_tables d) \<and>
      (\<forall>t. files (StatePrefix u ?k) = Some t \<longrightarrow> grows t (db_tables d))" if "r = Inr d"
    using assms(2) d0 g that by (auto simp: OpenStateStore_def Let_def grows_def split: if_splits sum.splits option.splits)
qed

text \<open>A new session is well formed, carries the identity it was opened for, and its database continues the
  file it was opened from. Opening never panics.\<close>

lemma reject_eq: "client_ok c \<Longrightarrow> reject c e files = Finished (Inl e, files)"
  using Close_client_some [of c] by (auto simp: reject_def close_old_def)

lemma Client_DeviceInfo_ok:
  assumes "client_ok c"
  shows "Client_DeviceInfo c \<noteq> Panicked" and "Client_DeviceInfo c = Finished (r, c') \<Longrightarrow> client_ok c'"
proof -
  have "safe (Client_DeviceInfo c)" using assms by (intro api_safe)
  then show "Client_DeviceInfo c \<noteq> Panicked" and "Client_DeviceInfo c = Finished (r, c') \<Longrightarrow> client_ok c'"
    by (auto simp: safe_def)
qed

lemma new_device_session_ok:
  "client_ok c \<Longrightarrow> messages_ok (db_tables d) \<Longrightarrow> session_ok (storeDeviceInfo info (new_device_session now uri i key bs c d))"
  by (simp add: session_ok_def storeDeviceInfo_def new_device_session_def)

lemma first_poll_ok:
  assumes "client_ok c" and "messages_ok (db_tables d)"
  shows "refreshDeviceStatsCache (storeDeviceInfo info (new_device_session now uri i key bs c d)) \<noteq> Panicked"
    and "refreshDeviceStatsCache (storeDeviceInfo info (new_device_session now uri i key bs c d)) = Finished (r, s) \<Longrightarrow>
      session_ok s \<and> ss_id s = i \<and> ss_publicKey s = key \<and> grows (db_tables d) (db_tables (ss_store s))"
proof -
  let ?s = "storeDeviceInfo info (new_device_session now uri i key bs c d)"
  have sf: "s_safe True refreshDeviceStatsCache" unfolding refreshDeviceStatsCache_def by (intro sess_safe api_safe plain_updates)
  have c: "ss_client ?s \<noteq> None" by (simp add: storeDeviceInfo_def new_device_session_def)
  note p = s_safeD [OF sf new_device_session_ok [OF assms] c]
  show "refreshDeviceStatsCache ?s \<noteq> Panicked" by (rule p(1))
  show "session_ok s \<and> ss_id s = i \<and> ss_publicKey s = key \<and> grows (db_tables d) (db_tables (ss_store s))"
    if "refreshDeviceStatsCache ?s = Finished (r, s)"
    using p(2) [OF that] by (simp add: keep_def storeDeviceInfo_def new_device_session_def)
qed

lemma key_normal:
  assumes "unicode_ok u" and "looksLikePublicKey k"
  shows "normalizePublicKey u k = k"
proof -
  have chars: "list_all (\<lambda>c. let n = of_char c :: nat in (48 \<le> n \<and> n \<le> 57) \<or> (97 \<le> n \<and> n \<le> 102)) k"
    using assms(2) by (simp add: looksLikePublicKey_def split: if_splits)
  then have "list_all graphic k" "is_ascii k"
    by (auto simp: list_all_iff graphic_def is_ascii_def Let_def)
  moreover have "ascii_lower k = k"
    using chars by (auto simp: ascii_lower_def ascii_lower_char_def list_all_iff Let_def intro!: map_idI)
  moreover have "k \<noteq> []" using assms(2) by (auto simp: looksLikePublicKey_def statePrefixLen_def)
  ultimately have "TrimSpace k = k" by (intro TrimSpace_graphic) (auto simp: list_all_iff)
  with \<open>is_ascii k\<close> \<open>ascii_lower k = k\<close> show ?thesis using assms(1) by (simp add: normalizePublicKey_def unicode_ok_def)
qed

text \<open>The part of \<open>newSession\<close> after the device has told its key.\<close>

definition identified :: "unicode \<Rightarrow> go_time \<Rightarrow> string option list \<Rightarrow> string \<Rightarrow> string \<Rightarrow> db option \<Rightarrow> files \<Rightarrow> string \<Rightarrow> (session_error + db) \<times> files" where
  "identified u now faults i knownKey known files actualKey =
     (case known of
        Some store \<Rightarrow> (if actualKey \<noteq> knownKey then Inl (IdentityMismatch i knownKey actualKey) else Inr store, files)
      | None \<Rightarrow> (let (r, files) = OpenStateStore u now faults actualKey files in (map_sum StoreError id r, files)))"

lemma open_known_ok:
  assumes "files_ok files" and "open_known u now faults k files = (r, files')"
  shows "files_ok files' \<and> disk_le files files' \<and> (\<forall>d. r = Inr (Some d) \<longrightarrow> messages_ok (db_tables d) \<and>
    (\<forall>t. files (StatePrefix u (normalizePublicKey u k)) = Some t \<longrightarrow> grows t (db_tables d))) \<and> (r = Inr None \<longrightarrow> files' = files)"
proof (cases "k = []")
  case False
  obtain r0 f0 where o: "OpenStateStore u now faults k files = (r0, f0)" by force
  show ?thesis using False assms(2) o OpenStateStore_ok [OF assms(1) o]
    by (cases r0) (auto simp: open_known_def)
qed (use assms disk_le_refl in \<open>auto simp: open_known_def\<close>)

lemma identified_ok:
  assumes "unicode_ok u" and "looksLikePublicKey key" and "files_ok files" and "open_known u now faults k files = (Inr known, files1)"
    and "identified u now faults i k known files1 key = (r, files')"
  shows "files_ok files' \<and> disk_le files files' \<and> (\<forall>d. r = Inr d \<longrightarrow> messages_ok (db_tables d) \<and>
    (\<forall>t. files (StatePrefix u key) = Some t \<longrightarrow> grows t (db_tables d)))"
proof (cases known)
  case None
  with open_known_ok [OF assms(3, 4)] have "files1 = files" by simp
  obtain r0 f0 where o: "OpenStateStore u now faults key files = (r0, f0)" by force
  from OpenStateStore_ok [OF assms(3) o] show ?thesis
    using assms(5) None o key_normal [OF assms(1, 2)] \<open>files1 = files\<close> by (cases r0) (auto simp: identified_def)
next
  case (Some d)
  with open_known_ok [OF assms(3, 4)] assms(5) key_normal [OF assms(1, 2)] show ?thesis
    by (auto simp: identified_def split: if_splits)
qed

definition opens :: "unicode \<Rightarrow> string \<Rightarrow> files \<Rightarrow> ((session_error + device_session) \<times> files) outcome \<Rightarrow> bool" where
  "opens u i files m \<longleftrightarrow> m \<noteq> Panicked \<and> (\<forall>r files'. m = Finished (r, files') \<longrightarrow> files_ok files' \<and> disk_le files files' \<and> (\<forall>s. r = Inr s \<longrightarrow> session_ok s \<and>
     ss_id s = i \<and> (\<forall>t. files (StatePrefix u (ss_publicKey s)) = Some t \<longrightarrow> grows t (db_tables (ss_store s)))))"

lemma opens_failed: "files_ok files' \<Longrightarrow> disk_le files files' \<Longrightarrow> opens u i files (Finished (Inl e, files'))"
  by (simp add: opens_def)

text \<open>What is done with a client that has told its key, and with a client just dialed.\<close>

definition with_key :: "unicode \<Rightarrow> go_time \<Rightarrow> string option list \<Rightarrow> string \<Rightarrow> session_options \<Rightarrow> string \<Rightarrow> db option \<Rightarrow> files \<Rightarrow> client_device_info \<Rightarrow> client \<Rightarrow>
    ((session_error + device_session) \<times> files) outcome" where
  "with_key u now faults uri cfg i known files info client =
     (let actualKey = normalizePublicKey u (se_PublicKey (cdi_Session info)) in
      if \<not> looksLikePublicKey actualKey then reject client (NoUsablePublicKey i) files
      else
        let (store, files) = identified u now faults i (normalizePublicKey u (so_PublicKey cfg)) known files actualKey
        in case store of
             Inl e \<Rightarrow> reject client e files
           | Inr store \<Rightarrow>
               and_then (refreshDeviceStatsCache (storeDeviceInfo info
                   (new_device_session (w_now client) uri i actualKey (so_Bridges cfg) client store)))
                 (\<lambda>(_, s). Finished (Inr s, files)))"

definition with_client :: "unicode \<Rightarrow> go_time \<Rightarrow> string option list \<Rightarrow> string \<Rightarrow> session_options \<Rightarrow> string \<Rightarrow> db option \<Rightarrow> files \<Rightarrow> client \<Rightarrow>
    ((session_error + device_session) \<times> files) outcome" where
  "with_client u now faults uri cfg i known files client =
     and_then (Client_DeviceInfo client) (\<lambda>(r, client). case r of
         Inl e \<Rightarrow> reject client (RadioError e) files
       | Inr info \<Rightarrow> with_key u now faults uri cfg i known files info client)"

lemma newSession_eq:
  "newSession u now faults dialed uri cfg files =
     (let i = (if so_ID cfg = [] then sessionSlug uri else so_ID cfg);
          (opened, files) = open_known u now faults (normalizePublicKey u (so_PublicKey cfg)) files
      in case opened of
           Inl e \<Rightarrow> Finished (Inl e, files)
         | Inr known \<Rightarrow>
             and_then dialed (\<lambda>r. case r of
                 Inl e \<Rightarrow> Finished (Inl (DialError e), files)
               | Inr client \<Rightarrow> with_client u now faults uri cfg i known files client))"
  by (simp only: newSession_def with_client_def with_key_def identified_def Let_def)

lemma opens_with_key:
  assumes "unicode_ok u" and "files_ok files" and "open_known u now faults (normalizePublicKey u (so_PublicKey cfg)) files = (Inr known, files1)"
    and "client_ok c"
  shows "opens u i files (with_key u now faults uri cfg i known files1 info c)"
proof -
  let ?k = "normalizePublicKey u (so_PublicKey cfg)" and ?key = "normalizePublicKey u (se_PublicKey (cdi_Session info))"
  obtain st files2 where st: "identified u now faults i ?k known files1 ?key = (st, files2)" by force
  show ?thesis
  proof (cases "looksLikePublicKey ?key")
    case False
    with open_known_ok [OF assms(2, 3)] show ?thesis by (simp add: with_key_def reject_eq [OF assms(4)] opens_failed)
  next
    case True
    note ok = identified_ok [OF assms(1) True assms(2, 3) st]
    show ?thesis
    proof (cases st)
      case (Inl e)
      with True st ok show ?thesis by (simp add: with_key_def reject_eq [OF assms(4)] opens_failed)
    next
      case (Inr d)
      let ?s = "storeDeviceInfo info (new_device_session (w_now c) uri i ?key (so_Bridges cfg) c d)"
      have d: "messages_ok (db_tables d)" "\<And>t. files (StatePrefix u ?key) = Some t \<Longrightarrow> grows t (db_tables d)" using ok Inr by auto
      note p = first_poll_ok [OF assms(4) d(1), of info "w_now c" uri i ?key "so_Bridges cfg"]
      have "with_key u now faults uri cfg i known files1 info c = and_then (refreshDeviceStatsCache ?s) (\<lambda>(_, s). Finished (Inr s, files2))"
        using True st Inr by (simp add: with_key_def)
      with p ok d(2) show ?thesis
        by (cases "refreshDeviceStatsCache ?s") (auto simp: opens_def intro: grows_trans)
    qed
  qed
qed

lemma opens_with_client:
  assumes "unicode_ok u" and "files_ok files" and "open_known u now faults (normalizePublicKey u (so_PublicKey cfg)) files = (Inr known, files1)"
    and "client_ok c"
  shows "opens u i files (with_client u now faults uri cfg i known files1 c)"
proof (cases "Client_DeviceInfo c")
  case (Finished y)
  obtain r c1 where y: "y = (r, c1)" by force
  have c1: "client_ok c1" using Client_DeviceInfo_ok(2) [OF assms(4)] Finished y by blast
  with Finished y opens_with_key [OF assms(1-3) c1] open_known_ok [OF assms(2, 3)] show ?thesis
    by (cases r) (simp_all add: with_client_def reject_eq opens_failed)
qed (use Client_DeviceInfo_ok(1) [OF assms(4)] in \<open>simp_all add: with_client_def opens_def\<close>)

lemma newSession_opens:
  assumes "unicode_ok u" and "files_ok files" and "dial_ok dialed"
  shows "opens u (if so_ID cfg = [] then sessionSlug uri else so_ID cfg) files (newSession u now faults dialed uri cfg files)"
proof -
  obtain opened files1 where o: "open_known u now faults (normalizePublicKey u (so_PublicKey cfg)) files = (opened, files1)" by force
  have f1: "files_ok files1" "disk_le files files1" using open_known_ok [OF assms(2) o] by simp_all
  show ?thesis
  proof (cases opened)
    case (Inr known)
    note o = o [unfolded Inr]
    show ?thesis
    proof (cases dialed)
      case (Finished x)
      with assms(3) opens_with_client [OF assms(1, 2) o] show ?thesis
        by (cases x) (auto simp: newSession_eq o opens_failed [OF f1] dial_ok_def)
    qed (use assms(3) in \<open>simp_all add: newSession_eq o opens_def dial_ok_def\<close>)
  qed (simp add: newSession_eq o opens_failed [OF f1])
qed

end
