(* ===== verification/Bridge.thy ===== *)
theory Bridge
  imports Device_Session
begin

text \<open>
  The traffic of a bridge (\<open>backend/bridge.go\<close>): an application on the host speaks the serial framing of the
  radio to the backend, and two loops copy its packets to the radio and those of the radio to it. The
  connection to the radio is the argument \<open>send\<close>, which accepts a packet or fails, and the list of what its
  reads return; the stream of the host is the list of bytes it sends and a writer. A copy loop that waits
  for the next packet of the radio has the result \<open>None\<close>.
\<close>

section \<open>Copy loops\<close>

datatype bridge_end =
    RadioOpenFailed transport_error
  | HostRead read_error
  | RadioWrite transport_error
  | RadioRead transport_error
  | HostWrite "string write_error"

lemma ReadHostFrameResync_sound:
  "ReadHostFrameResync r = (Inr p, r') \<Longrightarrow> length p \<le> MaxLen \<and> length r' < length r"
  by (auto simp: ReadHostFrameResync_def readFrameWithMarkerMode_def ReadResync_def dest!: read_frame_sound)

function host_to_device :: "('c \<Rightarrow> bytes \<Rightarrow> transport_error option \<times> 'c) \<Rightarrow> bytes \<Rightarrow> 'c \<Rightarrow> bridge_end \<times> 'c" where
  "host_to_device send r c =
     (case ReadHostFrameResync r of
        (Inl err, _) \<Rightarrow> (HostRead err, c)
      | (Inr packet, r') \<Rightarrow>
          (case send c packet of
             (Some err, c') \<Rightarrow> (RadioWrite err, c')
           | (None, c') \<Rightarrow> host_to_device send r' c'))"
  by pat_completeness auto
termination
  by (relation "measure (\<lambda>(send, r, c). length r)") (auto dest!: ReadHostFrameResync_sound [OF sym])

declare host_to_device.simps [simp del]

text \<open>\<open>first\<close> is the packet that woke the bridge of a pseudo terminal, empty for other bridges.\<close>

definition bridgeHostToDevice :: "('c \<Rightarrow> bytes \<Rightarrow> transport_error option \<times> 'c) \<Rightarrow> bytes \<Rightarrow> bytes \<Rightarrow> 'c \<Rightarrow> bridge_end \<times> 'c" where
  "bridgeHostToDevice send r first c =
     (if 0 < length first then
        (case send c first of
           (Some err, c') \<Rightarrow> (RadioWrite err, c')
         | (None, c') \<Rightarrow> host_to_device send r c')
      else host_to_device send r c)"

fun bridgeDeviceToHost :: "('s \<Rightarrow> bytes \<Rightarrow> string option \<times> 's) \<Rightarrow> (transport_error + bytes) list \<Rightarrow> 's \<Rightarrow> bridge_end option \<times> 's" where
  "bridgeDeviceToHost w [] s = (None, s)"
| "bridgeDeviceToHost w (Inl err # reads) s = (Some (RadioRead err), s)"
| "bridgeDeviceToHost w (Inr packet # reads) s =
     (case WriteDeviceFrame w s packet of
        (Some err, s') \<Rightarrow> (Some (HostWrite err), s')
      | (None, s') \<Rightarrow> bridgeDeviceToHost w reads s')"

section \<open>A bridge connection\<close>

text \<open>The errors that are not reported: the end of a stream and a cancelled context.\<close>

fun quiet_end :: "bridge_end \<Rightarrow> bool" where
  "quiet_end (HostRead err) = (err = EOF)"
| "quiet_end (RadioRead err) = (err = StreamFailed EOF \<or> err = ContextEnded Canceled)"
| "quiet_end (RadioWrite err) = (err = StreamFailed EOF \<or> err = ContextEnded Canceled)"
| "quiet_end _ = False"

text \<open>A bridge connection from its acceptance to its end: \<open>opened\<close> is the error of dialing and opening the
  radio, \<open>ended\<close> what the first of the two loops to end returned, and \<open>message\<close> gives the text of an error.\<close>

definition runBridgeConn :: "(bridge_end \<Rightarrow> string) \<Rightarrow> transport_error option \<Rightarrow> bridge_end \<Rightarrow> bridge_status \<Rightarrow> bridge_status sess" where
  "runBridgeConn message opened ended rt =
     s_try (enterBridge rt) (\<lambda>r s. case r of
         Inl e \<Rightarrow> (let (rt, s) = setBridgeError e rt s in s_ret rt s)
       | Inr rt \<Rightarrow>
           (let failed = (case opened of Some e \<Rightarrow> Some (RadioOpenFailed e) | None \<Rightarrow> if quiet_end ended then None else Some ended);
                (rt, s) = (case failed of None \<Rightarrow> (rt, s) | Some e \<Rightarrow> setBridgeError (BridgeFailed (message e)) rt s)
            in s_ret (rt\<lparr>bs_Active := False\<rparr>) (leaveBridge rt s)))"

section \<open>What the loops transfer\<close>

text \<open>The reference: packets handed over one after the other, up to the first that is refused.\<close>

fun send_each :: "('c \<Rightarrow> bytes \<Rightarrow> transport_error option \<times> 'c) \<Rightarrow> bytes list \<Rightarrow> 'c \<Rightarrow> transport_error option \<times> 'c" where
  "send_each send [] c = (None, c)"
| "send_each send (p # ps) c =
     (case send c p of (Some err, c') \<Rightarrow> (Some err, c') | (None, c') \<Rightarrow> send_each send ps c')"

definition host_stream :: "(bytes \<times> bytes) list \<Rightarrow> bytes" where
  "host_stream items = concat (map (\<lambda>(noise, p). noise @ frame_bytes ToDevice p) items)"

definition clean :: "bytes \<times> bytes \<Rightarrow> bool" where
  "clean item \<longleftrightarrow> ToDevice \<notin> set (fst item) \<and> length (snd item) \<le> MaxLen"

lemma read_host_item:
  assumes "clean (noise, p)"
  shows "ReadHostFrameResync (noise @ frame_bytes ToDevice p @ rest) = (Inr p, rest)"
  using assms read_frame_written [of p ToDevice noise rest True]
  by (simp add: clean_def ReadHostFrameResync_def readFrameWithMarkerMode_def ReadResync_def)

lemma read_host_empty: "ReadHostFrameResync [] = (Inl EOF, [])"
  by (simp add: ReadHostFrameResync_def readFrameWithMarkerMode_def ReadResync_def read_frame.simps [of "[]"])

lemma host_to_device_sends:
  assumes "list_all clean items"
  shows "host_to_device send (host_stream items) c =
    (case send_each send (map snd items) c of (Some err, c') \<Rightarrow> (RadioWrite err, c') | (None, c') \<Rightarrow> (HostRead EOF, c'))"
  using assms
proof (induction items arbitrary: c)
  case Nil
  show ?case by (simp add: host_stream_def host_to_device.simps [of send "[]"] read_host_empty)
next
  case (Cons item items)
  obtain noise p where item: "item = (noise, p)" by (cases item)
  with Cons.prems have "ReadHostFrameResync (host_stream (item # items)) = (Inr p, host_stream items)"
    using read_host_item [of noise p "host_stream items"] by (simp add: host_stream_def)
  with Cons item show ?case
    by (simp add: host_to_device.simps [of send "host_stream ((noise, p) # items)"] split: prod.split option.split)
qed

lemma bridgeDeviceToHost_writes:
  assumes "list_all (\<lambda>p. length p \<le> MaxLen) ps"
  shows "bridgeDeviceToHost buffer_write (map Inr ps @ reads) s =
    bridgeDeviceToHost buffer_write reads (s @ concat (map (frame_bytes ToHost) ps))"
  using assms
  by (induction ps arbitrary: s) (simp_all add: WriteDeviceFrame_def Write_buffer)

text \<open>Whatever the host sends, even without any frame in it, the loop ends with the stream or with the radio, and
  a packet it passes on has an admissible length.\<close>

lemma host_to_device_ends:
  "fst (host_to_device send r c) \<in> {HostRead EOF, HostRead ErrUnexpectedEOF} \<union> range RadioWrite"
proof (induction send r c rule: host_to_device.induct)
  case (1 send r c)
  have "ReadHostFrameResync r \<noteq> (Inl (FrameLengthExceedsMaximum n), r')" for n r'
    using read_frame_resync_no_length_error [of r ToDevice n r']
    by (simp add: ReadHostFrameResync_def readFrameWithMarkerMode_def ReadResync_def)
  then have "err = EOF \<or> err = ErrUnexpectedEOF" if "ReadHostFrameResync r = (Inl err, r')" for err r'
    using that by (cases err) auto
  with 1 show ?case
    by (subst host_to_device.simps) (auto split: prod.split sum.split option.split)
qed

section \<open>Properties\<close>

text \<open>C15: A bridge is transparent. The packets an application frames, with any noise between them, are handed to
  the radio unchanged, completely and in order, after the packet that woke the bridge; the loop ends when the
  stream of the application does, or with the first packet the radio refuses. The packets of the radio reach
  the application as frames that read back to exactly these packets, and a read that fails ends the bridge
  after the packets before it are written; a packet that is too large for a frame is not written in part.\<close>

theorem bridge_transparent:
  assumes "list_all clean items" and "list_all (\<lambda>p. length p \<le> MaxLen) ps"
  shows "bridgeHostToDevice send (host_stream items) first c =
      (case send_each send ((if first = [] then [] else [first]) @ map snd items) c of
         (Some err, c') \<Rightarrow> (RadioWrite err, c') | (None, c') \<Rightarrow> (HostRead EOF, c')) \<and>
    (\<exists>out. bridgeDeviceToHost buffer_write (map Inr ps @ [Inl err]) [] = (Some (RadioRead err), out) \<and> frames out = ps) \<and>
    (MaxLen < length big \<longrightarrow>
      (\<exists>out. bridgeDeviceToHost buffer_write (map Inr ps @ Inr big # reads) [] = (Some (HostWrite (PayloadTooLarge (length big))), out) \<and>
        frames out = ps))"
proof -
  have "bridgeDeviceToHost buffer_write (map Inr ps @ Inr big # reads) [] =
      (Some (HostWrite (PayloadTooLarge (length big))), concat (map (frame_bytes ToHost) ps))" if "MaxLen < length big"
    using that by (simp add: bridgeDeviceToHost_writes [OF assms(2)] WriteDeviceFrame_def Write_def)
  with assms(1) show ?thesis
    by (auto simp: bridgeHostToDevice_def host_to_device_sends bridgeDeviceToHost_writes [OF assms(2)] frames_written [OF assms(2)]
        split: prod.split option.split)
qed

theorem bridge_transparent_witness:
  "bridgeHostToDevice (\<lambda>c p. (None, c @ [p])) ([1, 2] @ frame_bytes ToDevice [7] @ frame_bytes ToDevice [8, 9]) [5] [] =
     (HostRead EOF, [[5], [7], [8, 9]]) \<and>
   (\<exists>out. bridgeDeviceToHost buffer_write [Inr [4], Inl NotOpen] [] = (Some (RadioRead NotOpen), out) \<and> frames out = [[4]])"
proof -
  have c: "list_all clean [([1, 2], [7]), ([], [8, 9])]" "list_all (\<lambda>p. length p \<le> MaxLen) [[4 :: byte]]"
    by (simp_all add: clean_def ToDevice_def MaxLen_def)
  from bridge_transparent [OF c, of "\<lambda>c p. (None, c @ [p])" "[5]" "[]" NotOpen "[]" "[]"] show ?thesis
    by (simp add: host_stream_def)
qed

text \<open>One bridge has the radio at a time, and gives it back. A connection to a bridge while another one is
  active changes nothing but the error shown for it. Otherwise the client of the session is closed while the
  bridge runs; afterwards the bridge is shown as inactive, with an error only if it ended with one that is no
  end of stream, and the session is degraded and without a client, so that the next reconnection restores it.
  Nothing panics and the stored data stays as it was.\<close>

theorem bridge_has_radio_alone:
  assumes "session_ok s"
  shows "\<exists>rt' s'. runBridgeConn message opened ended rt s = Finished (Inr rt', s') \<and> session_ok s' \<and>
    ss_store s' = ss_store s \<and> map_of (ss_bridgeStatuses s') (bs_Name rt) = Some rt' \<and>
    (if ss_state s = StateBridge
     then ss_state s' = StateBridge \<and> ss_client s' = ss_client s \<and> rt' = rt\<lparr>bs_Error := Some AnotherBridge\<rparr>
     else ss_state s' = StateDegraded \<and> ss_client s' = None \<and> ss_lastError s' = Some BridgeDisconnected \<and> \<not> bs_Active rt' \<and>
       bs_Error rt' = (case opened of
           Some e \<Rightarrow> Some (BridgeFailed (message (RadioOpenFailed e)))
         | None \<Rightarrow> if quiet_end ended then bs_Error rt else Some (BridgeFailed (message ended))))"
proof (cases "ss_state s = StateBridge")
  case True
  with assms show ?thesis
    by (auto simp: runBridgeConn_def s_try_def enterBridge_def s_err_def s_ret_def setBridgeError_def addBridgeRuntime_def
        session_ok_def update_conv' Let_def)
next
  case False
  with assms show ?thesis
    by (auto simp: runBridgeConn_def s_try_def enterBridge_def s_ret_def setBridgeError_def addBridgeRuntime_def update_conv'
        leaveBridge_def close_old_ok Let_def session_ok_def split: option.splits)
qed

theorem bridge_has_radio_alone_witness:
  "\<exists>rt' s'. runBridgeConn (\<lambda>_. ''lost'') None (RadioRead ClosedConn) (\<lparr>bs_Name = ''b'', bs_Type = ''tcp'', bs_Listen = [], bs_Path = [], bs_Active = False, bs_Error = None, bs_Note = []\<rparr>)
      (new_device_session zero_time ''tcp://h'' ''a'' ''0123456789abcdef'' [] (demo []) empty_db) = Finished (Inr rt', s') \<and>
    ss_state s' = StateDegraded \<and> bs_Error rt' = Some (BridgeFailed ''lost'')"
proof -
  let ?s = "new_device_session zero_time ''tcp://h'' ''a'' ''0123456789abcdef'' [] (demo []) empty_db"
  have "session_ok ?s" "ss_state ?s = StateReady"
    using demo_live [of "[]"] messages_ok_empty by (simp_all add: live_def session_ok_def new_device_session_def empty_db_def)
  with bridge_has_radio_alone [of ?s "\<lambda>_. ''lost''" None "RadioRead ClosedConn"] show ?thesis by fastforce
qed

end
