(* ===== verification/Session_Messages.thy ===== *)
theory Session_Messages
  imports Device_Session
begin

text \<open>
  How a session keeps messages (\<open>backend/messages.go\<close>): draining the inbox of the radio into the database,
  recording what is sent, acknowledgements, and serving the unread messages. The functions that only use
  the database are statements; their errors are logged and dropped. What \<open>time.Now\<close> returns is an argument.
\<close>

section \<open>Definitions\<close>

definition attempt :: "'a stm \<Rightarrow> (store_error + 'a \<Rightarrow> 'b stm) \<Rightarrow> 'b stm" where
  "attempt m f d = (let (r, d) = m d in f r d)"

definition empty_record :: message_record where
  "empty_record =
     \<lparr>ms_ID = 0, ms_Direction = MessageIn, ms_Kind = MessageDirect, ms_Peer = [], ms_PeerName = [], ms_Channel = [], ms_Text = [],
      ms_TxtType = 0, ms_Timestamp = zero_time, ms_SNR = 0, ms_Read = False, ms_Status = NoStatus, ms_AckCode = [],
      ms_AcknowledgedAt = zero_time, ms_Receptions = [], ms_CreatedAt = zero_time\<rparr>"

text \<open>The record of a received message and how its peer is resolved.\<close>

definition incoming_record :: "msg \<Rightarrow> message_record" where
  "incoming_record m =
     empty_record\<lparr>ms_Direction := MessageIn, ms_Kind := MessageDirect, ms_Peer := m_From m, ms_Text := m_Text m,
       ms_TxtType := m_TxtType m, ms_Timestamp := m_Timestamp m, ms_SNR := m_SNR m, ms_Status := StatusReceived\<rparr>"

definition resolve_peer :: "unicode \<Rightarrow> msg \<Rightarrow> message_record \<Rightarrow> message_record stm" where
  "resolve_peer u m rec =
     (if m_Channel m \<noteq> [] then
        (let rec = rec\<lparr>ms_Kind := MessageChannel, ms_Channel := m_Channel m, ms_Peer := []\<rparr> in
         attempt (Channel_store u (m_Channel m)) (\<lambda>r. give (case r of
             Inl _ \<Rightarrow> rec
           | Inr entry \<Rightarrow> rec\<lparr>ms_Peer := he_Key entry, ms_PeerName := cn_Name (he_Channel entry)\<rparr>)))
      else
        attempt (Contact_store u (m_From m)) (\<lambda>r. give (case r of
            Inl _ \<Rightarrow> rec
          | Inr entry \<Rightarrow>
              (let rec = (if ct_PublicKey (ce_Contact entry) \<noteq> [] then rec\<lparr>ms_Peer := ct_PublicKey (ce_Contact entry)\<rparr> else rec)
               in rec\<lparr>ms_PeerName := ct_Name (ce_Contact entry)\<rparr>))))"

definition persistIncoming :: "unicode \<Rightarrow> go_time \<Rightarrow> msg \<Rightarrow> unit stm" where
  "persistIncoming u now m =
     seq (resolve_peer u m (incoming_record m)) (\<lambda>rec.
       attempt (RecordReceivedMessage now rec \<lparr>re_At = now, re_SNR = m_SNR m, re_PathLen = uint (m_PathLen m), re_RTTMs = 0\<rparr>)
         (\<lambda>_. give ()))"

definition persistOutgoing :: "go_time \<Rightarrow> message_record \<Rightarrow> int stm" where
  "persistOutgoing now rec0 =
     (let rec = rec0\<lparr>ms_Direction := MessageOut, ms_Read := True,
            ms_Status := (if ms_Status rec0 = NoStatus then StatusQueued else ms_Status rec0),
            ms_Timestamp := (if IsZero (ms_Timestamp rec0) then now else ms_Timestamp rec0)\<rparr>
      in attempt (InsertMessage now rec) (\<lambda>r. give (case r of Inl _ \<Rightarrow> 0 | Inr rec \<Rightarrow> ms_ID rec)))"

definition setMessageStatus :: "int \<Rightarrow> status \<Rightarrow> string \<Rightarrow> unit stm" where
  "setMessageStatus i s ackCode = (if i = 0 then give () else attempt (SetMessageStatus i s ackCode) (\<lambda>_. give ()))"

definition recordAck :: "go_time \<Rightarrow> string \<Rightarrow> duration \<Rightarrow> unit stm" where
  "recordAck now ackCode rtt =
     (if ackCode = [] then give ()
      else attempt (AppendAck ackCode \<lparr>re_At = now, re_SNR = 0, re_PathLen = 0, re_RTTMs = Milliseconds rtt\<rparr>) (\<lambda>_. give ()))"

definition markUnconfirmed :: "string \<Rightarrow> unit stm" where
  "markUnconfirmed ackCode = (if ackCode = [] then give () else attempt (MarkUnconfirmed ackCode) (\<lambda>_. give ()))"

definition inbox_msg :: "message_record \<Rightarrow> msg" where
  "inbox_msg rec =
     \<lparr>m_From = (if ms_PeerName rec \<noteq> [] then ms_PeerName rec else ms_Peer rec), m_Channel = ms_Channel rec, m_Text = ms_Text rec,
      m_TxtType = ms_TxtType rec, m_Timestamp = ms_Timestamp rec, m_SNR = ms_SNR rec,
      m_PathLen = (case ms_Receptions rec of [] \<Rightarrow> 0 | r # _ \<Rightarrow> word_of_int (re_PathLen r))\<rparr>"

definition unread_filter :: message_filter where
  "unread_filter = \<lparr>mf_Direction = Some MessageIn, mf_Kind = None, mf_Peer = [], mf_Channel = [], mf_UnreadOnly = True, mf_Limit = 0\<rparr>"

definition storedInbox :: "msg list stm" where
  "storedInbox =
     seq (Messages unread_filter) (\<lambda>records.
       attempt (MarkMessagesRead (map ms_ID records)) (\<lambda>_. give (map inbox_msg records)))"

text \<open>\<open>clock n\<close> is the time of the \<open>n\<close>-th reading of the clock during a drain.\<close>

definition persist_nth :: "unicode \<Rightarrow> (nat \<Rightarrow> go_time) \<Rightarrow> msg \<Rightarrow> nat \<times> db \<Rightarrow> nat \<times> db" where
  "persist_nth u clock m p = (Suc (fst p), snd (persistIncoming u (clock (fst p)) m (snd p)))"

definition requestDrain :: "device_session \<Rightarrow> device_session" where
  "requestDrain s = s\<lparr>ss_drainReq := True\<rparr>"

definition runDrain :: "unicode \<Rightarrow> (nat \<Rightarrow> go_time) \<Rightarrow> unit sess" where
  "runDrain u clock s =
     (if ss_state s = StateBridge then s_ret () s
      else case ss_client s of
          None \<Rightarrow> s_ret () s
        | Some c \<Rightarrow>
            if \<not> healthy s then s_ret () s
            else and_then (DrainMessages (\<lambda>m p. (None, persist_nth u clock m p)) (0, ss_store s) c) (\<lambda>(_, (_, d), c).
              s_ret () (s\<lparr>ss_client := Some c, ss_store := d, ss_now := w_now c\<rparr>)))"

text \<open>The loop takes a request when there is one, and ends when the session is stopped.\<close>

definition drainLoop_turn :: "unicode \<Rightarrow> (nat \<Rightarrow> go_time) \<Rightarrow> unit sess" where
  "drainLoop_turn u clock s =
     (if ss_stopped s \<or> \<not> ss_drainReq s then s_ret () s else runDrain u clock (s\<lparr>ss_drainReq := False\<rparr>))"

section \<open>The history keeps growing\<close>

lemma attempt_eq [simp]: "m d = (r, d') \<Longrightarrow> attempt m f d = f r d'"
  by (simp add: attempt_def)

lemma keeps_attempt [keeps_intros]:
  assumes "keeps m" and "\<And>r. keeps (f r)"
  shows "keeps (attempt m f)"
  unfolding keeps_def
proof (intro allI impI)
  fix d :: db
  assume ok: "messages_ok (db_tables d)"
  obtain r d1 where m: "m d = (r, d1)" by force
  have g: "grows (db_tables d) (db_tables d1)" using keepsD [OF assms(1) ok] m by simp
  then have "grows (db_tables d1) (db_tables (snd (f r d1)))" using keepsD [OF assms(2)] by (simp add: grows_def)
  with g m show "grows (db_tables d) (db_tables (snd (attempt m f d)))" by (simp add: grows_trans [OF g])
qed

lemma keeps_scan [keeps_intros]: "keeps (\<lambda>d. (f x, d))"
  by (simp add: keeps_def grows_refl)

lemma keeps_reads [keeps_intros]:
  "keeps Contacts_store" "keeps Channels_store" "keeps (Messages flt)" "keeps (metaGet k)" "keeps (RepeaterSession_store q)"
  unfolding Contacts_store_def Channels_store_def Messages_def metaGet_def RepeaterSession_store_def
  by (intro keeps_intros)+

lemma keeps_lookups [keeps_intros]: "keeps (Contact_store u q)" "keeps (Channel_store u q)" "keeps ContactLastMod"
  unfolding Contact_store_def Channel_store_def ContactLastMod_def Let_def
  by (auto intro!: keeps_intros split: sum.splits list.splits option.splits)

lemma keeps_messages [keeps_intros]:
  "keeps (persistIncoming u now m)" "keeps (persistOutgoing now rec)" "keeps (recordAck now code rtt)"
  "keeps (markUnconfirmed code)" "keeps storedInbox"
  unfolding persistIncoming_def resolve_peer_def persistOutgoing_def recordAck_def markUnconfirmed_def storedInbox_def Let_def
  by (auto intro!: keeps_intros)

lemma persist_nth_keeps:
  "messages_ok (db_tables (snd p)) \<Longrightarrow> grows (db_tables (snd p)) (db_tables (snd (persist_nth u clock m p)))"
  by (simp add: persist_nth_def keepsD keeps_messages)

lemma persist_fold_keeps:
  "messages_ok (db_tables (snd p)) \<Longrightarrow> grows (db_tables (snd p)) (db_tables (snd (fold (persist_nth u clock) ms p)))"
proof (induction ms arbitrary: p)
  case (Cons m ms)
  from persist_nth_keeps [OF Cons.prems] have g: "grows (db_tables (snd p)) (db_tables (snd (persist_nth u clock m p)))" .
  with Cons.IH [of "persist_nth u clock m p"] show ?case by (simp add: grows_def) (metis grows_def grows_trans g)
qed (simp add: grows_refl)

section \<open>Draining\<close>

text \<open>A drain hands the messages it fetches to its callback one by one, however it ends.\<close>

lemma DrainMessages_fold:
  assumes "DrainMessages (\<lambda>m out. (None, out @ [m])) out c = Finished (e, ms, c')"
  shows "\<exists>new. ms = out @ new \<and> DrainMessages (\<lambda>m s. (None, g m s)) s c = Finished (e, fold g new s, c')"
  using assms
proof (induction "length (w_env c)" arbitrary: out s c rule: less_induct)
  case less
  show ?case
  proof (cases "syncNext c")
    case (Finished x)
    obtain r c1 where x: "x = (r, c1)" by force
    show ?thesis
    proof (cases "\<exists>m. r = Inr (Some m)")
      case True
      then obtain m where m: "r = Inr (Some m)" by blast
      obtain c2 where c2: "emitEvent (messageEvent m) c1 = Some c2"
        using less.prems Finished x m by (subst (asm) DrainMessages.simps) (auto split: option.splits)
      have "length (w_env c2) < length (w_env c)"
        using syncNext_consumes [of c "Some m" c1] emitEvent_env [OF c2] Finished x m by simp
      from less.hyps [OF this, of "out @ [m]" "g m s"] less.prems Finished x m c2
      obtain new where "ms = (out @ [m]) @ new" "DrainMessages (\<lambda>m s. (None, g m s)) (g m s) c2 = Finished (e, fold g new (g m s), c')"
        by (subst (asm) (2) DrainMessages.simps) auto
      then show ?thesis using Finished x m c2
        by (intro exI [of _ "m # new"]) (subst DrainMessages.simps, simp)
    next
      case False
      with less.prems Finished x show ?thesis
        by (cases r) (auto simp: DrainMessages.simps [of _ _ c])
    qed
  qed (use less.prems in \<open>auto simp: DrainMessages.simps [of _ _ c]\<close>)
qed

lemma DrainMessages_folds:
  assumes "DrainMessages (\<lambda>m s. (None, g m s)) s c = Finished (e, s', c')"
  shows "\<exists>ms. s' = fold g ms s"
  using assms
proof (induction "length (w_env c)" arbitrary: s c rule: less_induct)
  case less
  then obtain r c1 where x: "syncNext c = Finished (r, c1)" by (subst (asm) DrainMessages.simps) (auto split: outcome.splits prod.splits)
  show ?case
  proof (cases "\<exists>m. r = Inr (Some m)")
    case True
    then obtain m where m: "r = Inr (Some m)" by blast
    with less.prems x obtain c2 where c2: "emitEvent (messageEvent m) c1 = Some c2"
      by (subst (asm) DrainMessages.simps) (auto split: option.splits)
    have "length (w_env c2) < length (w_env c)"
      using syncNext_consumes [of c "Some m" c1] emitEvent_env [OF c2] x m by simp
    moreover have "DrainMessages (\<lambda>m s. (None, g m s)) (g m s) c2 = Finished (e, s', c')"
      using less.prems x m c2 by (subst (asm) DrainMessages.simps) simp
    ultimately obtain ms where "s' = fold g ms (g m s)" using less.hyps by blast
    then show ?thesis by (intro exI [of _ "m # ms"]) simp
  next
    case False
    with less.prems x show ?thesis by (intro exI [of _ "[]"]) (cases r; auto simp: DrainMessages.simps [of _ _ c])
  qed
qed

lemma runDrain_ok:
  assumes "session_ok s"
  shows "life_ok (runDrain u clock) s"
proof (cases "ss_state s = StateReady")
  case True
  then obtain c where c: "ss_client s = Some c" "client_ok c" using assms by (auto simp: session_ok_def)
  let ?m = "DrainMessages (\<lambda>m p. (None, persist_nth u clock m p)) (0, ss_store s) c"
  note safe = DrainMessages_safe [OF c(2), of "\<lambda>m p. (None, persist_nth u clock m p)" "(0, ss_store s)"]
  show ?thesis
  proof (cases ?m)
    case (Finished x)
    obtain e p c' where x: "x = (e, p, c')" by (metis prod_cases3)
    obtain ms where p: "p = fold (persist_nth u clock) ms (0, ss_store s)" using DrainMessages_folds [of "persist_nth u clock" "(0, ss_store s)" c e p c'] Finished x by auto
    have "client_ok c'" using safe Finished x by blast
    moreover have "grows (db_tables (ss_store s)) (db_tables (snd p))"
      using persist_fold_keeps [of "(0, ss_store s)" u clock ms] assms p by (simp add: session_ok_def)
    ultimately show ?thesis using True c(1) Finished x assms
      by (cases p) (auto simp: life_ok_def runDrain_def healthy_def s_ret_def session_ok_def grows_def)
  qed (use True c(1) safe in \<open>simp_all add: life_ok_def runDrain_def healthy_def\<close>)
next
  case False
  with assms show ?thesis
    by (auto simp: life_ok_def runDrain_def healthy_def s_ret_def session_ok_def grows_refl split: option.splits)
qed

text \<open>A row that holds a hearing of a message.\<close>

definition holds :: "msg \<Rightarrow> message_row \<Rightarrow> bool" where
  "holds m r \<longleftrightarrow> ms_Direction (mw_rec r) = MessageIn \<and> ms_Text (mw_rec r) = m_Text m \<and>
     (\<not> IsZero (m_Timestamp m) \<longrightarrow> mw_timestamp r = rfc3339 (m_Timestamp m)) \<and>
     list_ex (\<lambda>h. re_SNR h = m_SNR m \<and> re_PathLen h = uint (m_PathLen m)) (ms_Receptions (mw_rec r))"

lemma holds_le: "msg_le r r' \<Longrightarrow> holds m r \<Longrightarrow> holds m r'"
  by (auto simp: msg_le_def holds_def list_ex_iff prefix_def)

lemma holds_grows:
  assumes "grows t t'" and "list_ex (holds m) (tb_messages t)"
  shows "list_ex (holds m) (tb_messages t')"
proof -
  from assms(1) obtain upd new where "tb_messages t' = upd @ new" "list_all2 msg_le (tb_messages t) upd"
    by (auto simp: grows_def rows_le_def)
  moreover from this(2) assms(2) have "list_ex (holds m) upd"
    by (induction rule: list_all2_induct) (auto intro: holds_le)
  ultimately show ?thesis by simp
qed

definition incoming :: "msg \<Rightarrow> message_record \<Rightarrow> bool" where
  "incoming m rec \<longleftrightarrow> ms_Direction rec = MessageIn \<and> ms_Text rec = m_Text m \<and> ms_Timestamp rec = m_Timestamp m"

lemma resolve_peer_ok:
  assumes "db_faults d = []"
  shows "\<exists>rec. resolve_peer u m (incoming_record m) d = (Inr rec, d) \<and> incoming m rec"
proof -
  have quiet: "\<exists>r. Contact_store u q d = (r, d)" "\<exists>r. Channel_store u q d = (r, d)" for q
    using assms by (auto simp: Contact_store_def Contacts_store_def Channel_store_def Channels_store_def seq_def Let_def
        give_def throw_def split: sum.splits list.splits option.splits)
  show ?thesis
  proof (cases "m_Channel m = []")
    case True
    obtain r where "Contact_store u (m_From m) d = (r, d)" using quiet by blast
    with True show ?thesis by (cases r) (auto simp: resolve_peer_def incoming_record_def empty_record_def incoming_def Let_def)
  next
    case False
    obtain r where "Channel_store u (m_Channel m) d = (r, d)" using quiet by blast
    with False show ?thesis by (cases r) (auto simp: resolve_peer_def incoming_record_def empty_record_def incoming_def Let_def)
  qed
qed

lemma persistIncoming_holds:
  assumes "db_faults d = []"
  shows "db_faults (snd (persistIncoming u now m d)) = [] \<and> list_ex (holds m) (tb_messages (db_tables (snd (persistIncoming u now m d))))"
proof -
  let ?h = "\<lparr>re_At = now, re_SNR = m_SNR m, re_PathLen = uint (m_PathLen m), re_RTTMs = 0\<rparr>"
  obtain rec where rec: "resolve_peer u m (incoming_record m) d = (Inr rec, d)" "incoming m rec" using resolve_peer_ok [OF assms] by blast
  show ?thesis
  proof (cases "find (same_hearing rec) (tb_messages (db_tables d))")
    case None
    with assms rec show ?thesis
      by (auto simp: persistIncoming_def RecordReceivedMessage_def InsertMessage_def Let_def holds_def incoming_def message_row_of_def)
  next
    case (Some r)
    then have r: "r \<in> set (tb_messages (db_tables d))" "same_hearing rec r" by (auto simp: find_Some_iff)
    from r(1) have "set_receptions (ms_Receptions (mw_rec r) @ [h]) r \<in> set (tb_messages (update_messages (\<lambda>x. ms_ID (mw_rec x) = ms_ID (mw_rec r))
        (set_receptions (ms_Receptions (mw_rec r) @ [h])) (db_tables d)))" for h
      by (auto simp: update_messages_def image_iff intro!: bexI [of _ r])
    moreover have "holds m (set_receptions (ms_Receptions (mw_rec r) @ [?h]) r)" "holds m (set_receptions (ms_Receptions (mw_rec r) @ [?h\<lparr>re_At := now\<rparr>]) r)"
      using r(2) rec(2) by (auto simp: holds_def same_hearing_def set_receptions_def incoming_def)
    ultimately show ?thesis using assms rec Some
      by (auto simp: persistIncoming_def RecordReceivedMessage_def Let_def list_ex_iff)
  qed
qed

lemma drained_all:
  assumes "db_faults (snd p) = []" and "messages_ok (db_tables (snd p))"
  shows "list_all (\<lambda>m. list_ex (holds m) (tb_messages (db_tables (snd (fold (persist_nth u clock) ms p))))) ms"
  using assms
proof (induction ms arbitrary: p)
  case (Cons m ms)
  let ?p = "persist_nth u clock m p"
  have "db_faults (snd ?p) = []" "list_ex (holds m) (tb_messages (db_tables (snd ?p)))"
    using persistIncoming_holds [OF Cons.prems(1), of u "clock (fst p)" m] by (simp_all add: persist_nth_def)
  moreover have "messages_ok (db_tables (snd ?p))" using persist_nth_keeps [OF Cons.prems(2)] by (simp add: grows_def)
  ultimately show ?case
    using Cons.IH [of ?p] persist_fold_keeps [of ?p u clock ms] holds_grows by (simp add: list_all_iff)
qed simp



section \<open>The inbox\<close>

definition read_row :: "message_row \<Rightarrow> message_row" where
  "read_row r = r\<lparr>mw_rec := (mw_rec r)\<lparr>ms_Read := True\<rparr>\<rparr>"

lemma row_id_read [simp]: "row_id (read_row r) = row_id r"
  by (simp add: row_id_def read_row_def)

lemma mark_all_read:
  "tb_messages (fold (\<lambda>i. update_messages (\<lambda>r. ms_ID (mw_rec r) = i) (\<lambda>r. r\<lparr>mw_rec := (mw_rec r)\<lparr>ms_Read := True\<rparr>\<rparr>)) ids t) =
     map (\<lambda>r. if row_id r \<in> set ids then read_row r else r) (tb_messages t)"
proof (induction ids arbitrary: t)
  case (Cons i ids)
  then show ?case by (auto simp: update_messages_def row_id_def read_row_def)
qed simp

lemma MarkMessagesRead_ok:
  assumes "db_faults d = []"
  shows "\<exists>d'. MarkMessagesRead ids d = (Inr (), d') \<and> db_faults d' = [] \<and>
    tb_messages (db_tables d') = map (\<lambda>r. if row_id r \<in> set ids then read_row r else r) (tb_messages (db_tables d))"
proof (cases "ids = []")
  case False
  let ?f = "\<lambda>i. update_messages (\<lambda>r. ms_ID (mw_rec r) = i) (\<lambda>r. r\<lparr>mw_rec := (mw_rec r)\<lparr>ms_Read := True\<rparr>\<rparr>)"
  have "transaction (seq fault (\<lambda>_. for_each (\<lambda>i. exec (?f i)) ids)) d = (Inr (), d\<lparr>db_tables := fold ?f ids (db_tables d)\<rparr>)"
    by (rule transaction_ok) (use assms in simp_all)
  with assms False show ?thesis by (simp add: MarkMessagesRead_def mark_all_read)
qed (use assms in \<open>simp add: MarkMessagesRead_def\<close>)

definition unread :: "message_row \<Rightarrow> bool" where
  "unread r \<longleftrightarrow> ms_Direction (mw_rec r) = MessageIn \<and> \<not> ms_Read (mw_rec r)"

lemma passes_unread: "passes unread_filter = unread"
  by (auto simp: fun_eq_iff passes_def unread_filter_def unread_def)

definition unread_rows :: "tables \<Rightarrow> message_row list" where
  "unread_rows t = sort_key (\<lambda>r. (mw_timestamp r, ms_ID (mw_rec r))) (filter unread (tb_messages t))"

lemma Messages_unread:
  "db_faults d = [] \<Longrightarrow> Messages unread_filter d = (Inr (map record_of_row (unread_rows (db_tables d))), d)"
  by (simp add: Messages_def passes_unread unread_rows_def Let_def) (simp add: unread_filter_def)

lemma storedInbox_eq:
  "db_faults d = [] \<Longrightarrow> MarkMessagesRead (map ms_ID (map record_of_row (unread_rows (db_tables d)))) d = (r, d') \<Longrightarrow>
   storedInbox d = (Inr (map (inbox_msg \<circ> record_of_row) (unread_rows (db_tables d))), d')"
  by (simp add: storedInbox_def Messages_unread)



end
