(* ===== verification/Session_Sync.thy ===== *)
theory Session_Sync
  imports Session_Messages
begin

text \<open>
  The local copies a session keeps of what its radio knows: contacts, channels and logins to repeaters
  (\<open>backend/server.go\<close>, \<open>backend/contact_sync.go\<close>, \<open>backend/config_sessions.go\<close>). The mutexes that keep two
  synchronisations apart are left out, as methods run one after the other. The files of the configuration
  directory are an argument.
\<close>

section \<open>Lookup\<close>

definition contact_of :: "unicode \<Rightarrow> string \<Rightarrow> contact sess" where
  "contact_of u q =
     s_try (in_store (Contact_store u q)) (\<lambda>r. case r of
         Inl e \<Rightarrow> s_err (if e = StoreError NoRows then NoLocalContact q else e)
       | Inr entry \<Rightarrow> s_ret (ce_Contact entry))"

definition replicaContact :: "unicode \<Rightarrow> string \<Rightarrow> contact sess" where
  "replicaContact u q = contact_of u q"

definition replicaContacts :: "contact list sess" where
  "replicaContacts = s_bind (in_store Contacts_store) (\<lambda>entries. s_ret (map ce_Contact entries))"

definition replicaChannels :: "channel list sess" where
  "replicaChannels = s_bind (in_store Channels_store) (\<lambda>entries. s_ret (map he_Channel entries))"

definition channel_named :: "unicode \<Rightarrow> string \<Rightarrow> channel sess" where
  "channel_named u q =
     s_try (in_store (Channel_store u q)) (\<lambda>r. case r of
         Inl e \<Rightarrow> s_err (if e = StoreError NoRows then NoLocalChannel q else e)
       | Inr entry \<Rightarrow> s_ret (he_Channel entry))"

section \<open>Contacts\<close>

definition recordContactSyncError :: "session_error \<Rightarrow> device_session \<Rightarrow> device_session" where
  "recordContactSyncError e s = s\<lparr>ss_contactError := Some e\<rparr>"

definition begin_contact_sync :: "device_session \<Rightarrow> device_session" where
  "begin_contact_sync s = s\<lparr>ss_contactSyncing := True, ss_contactSyncRecv := 0, ss_contactSyncTotal := 0, ss_contactError := None\<rparr>"

definition finishContactSync :: "device_session \<Rightarrow> device_session" where
  "finishContactSync s = s\<lparr>ss_contactSyncing := False, ss_contactSyncRecv := 0, ss_contactSyncTotal := 0\<rparr>"

text \<open>A deferred call, and a step whose error is recorded.\<close>

definition s_finally :: "(device_session \<Rightarrow> device_session) \<Rightarrow> 'a sess \<Rightarrow> 'a sess" where
  "s_finally g m s = and_then (m s) (\<lambda>(r, s). Finished (r, g s))"

definition recording :: "(session_error \<Rightarrow> device_session \<Rightarrow> device_session) \<Rightarrow> 'a sess \<Rightarrow> 'a sess" where
  "recording rec m = s_try m (\<lambda>r. case r of Inl e \<Rightarrow> s_put (rec e) (s_err e) | Inr x \<Rightarrow> s_ret x)"

definition note_progress :: "(nat \<times> nat) list \<Rightarrow> device_session \<Rightarrow> device_session" where
  "note_progress ps s = (case rev ps of [] \<Rightarrow> s | (got, n) # _ \<Rightarrow> s\<lparr>ss_contactSyncRecv := got, ss_contactSyncTotal := n\<rparr>)"

definition contacts_since :: "bool \<Rightarrow> uint32 sess" where
  "contacts_since full =
     (if \<not> full then in_store ContactLastMod else s_bind (in_store ClearContacts) (\<lambda>_. s_ret 0))"

definition store_synced :: "unicode \<Rightarrow> bool \<Rightarrow> contact_sync_result \<Rightarrow> contact list sess" where
  "store_synced u full result =
     s_bind (recording recordContactSyncError
       (if csr_Contacts result \<noteq> [] then s_get (\<lambda>s. in_store (UpsertContacts u (ss_now s) (csr_Contacts result))) else s_ret ())) (\<lambda>_.
     s_bind (recording recordContactSyncError
       (if csr_LastMod result \<noteq> 0 \<or> full then in_store (SetContactLastMod (csr_LastMod result)) else s_ret ())) (\<lambda>_.
     s_bind (recording recordContactSyncError replicaContacts) (\<lambda>contacts.
     s_put (\<lambda>s. s\<lparr>ss_contactCount := length contacts, ss_contactSyncedAt := ss_now s, ss_contactError := None\<rparr>) (s_ret contacts))))"

definition syncContacts :: "unicode \<Rightarrow> bool \<Rightarrow> contact list sess" where
  "syncContacts u full = s_get (\<lambda>s.
     if ss_client s = None then recording recordContactSyncError (s_err (Unavailable NoActiveClient))
     else s_put begin_contact_sync (s_finally finishContactSync (
       s_bind (recording recordContactSyncError (contacts_since full)) (\<lambda>since.
       s_bind (recording recordContactSyncError (on_client (ContactsSince since True))) (\<lambda>(result, progress).
       s_put (note_progress progress) (store_synced u full result))))))"

record contacts_params =
  cp_Cached :: bool
  cp_Refresh :: bool
  cp_Wait :: bool
  cp_Full :: bool

text \<open>The answer to a request for contacts: the list, or that a refresh was started in the background.\<close>

datatype contacts_reply = ContactList "contact list" | RefreshStarted bool bool

definition startContactRefresh :: "contacts_reply sess" where
  "startContactRefresh = s_get (\<lambda>s.
     if ss_contactSyncing s then s_ret (RefreshStarted False True) else s_ret (RefreshStarted True True))"

definition contacts_call :: "unicode \<Rightarrow> contacts_params \<Rightarrow> contacts_reply sess" where
  "contacts_call u opts = s_get (\<lambda>s.
     if cp_Refresh opts \<and> \<not> cp_Wait opts then
       (if ss_client s = None \<or> \<not> healthy s then s_err (Unavailable (lastErr s)) else startContactRefresh)
     else if cp_Refresh opts then
       (if ss_client s = None \<or> \<not> healthy s then s_err (Unavailable (lastErr s))
        else s_bind (syncContacts u (cp_Full opts)) (\<lambda>cs. s_ret (ContactList cs)))
     else s_bind replicaContacts (\<lambda>cs. s_ret (ContactList cs)))"

text \<open>The background refresh; \<open>ss_refreshCancel\<close> tells whether a running one can be interrupted.\<close>

definition setContactRefreshCancel :: "device_session \<Rightarrow> device_session" where
  "setContactRefreshCancel s = s\<lparr>ss_refreshCancel := True\<rparr>"

definition clearContactRefreshCancel :: "device_session \<Rightarrow> device_session" where
  "clearContactRefreshCancel s = s\<lparr>ss_refreshCancel := False\<rparr>"

definition interruptContactRefresh :: "device_session \<Rightarrow> bool \<times> device_session" where
  "interruptContactRefresh s = (ss_refreshCancel s, s\<lparr>ss_refreshCancel := False\<rparr>)"

definition runContactRefresh :: "unicode \<Rightarrow> bool \<Rightarrow> unit sess" where
  "runContactRefresh u full =
     s_put setContactRefreshCancel (s_finally clearContactRefreshCancel (s_get (\<lambda>s.
       if ss_client s = None \<or> \<not> healthy s then s_ret () else s_try (syncContacts u full) (\<lambda>_. s_ret ()))))"

text \<open>A contact heard in an advertisement, completed from what is stored.\<close>

definition merge_observed :: "go_time \<Rightarrow> contact option \<Rightarrow> contact \<Rightarrow> contact" where
  "merge_observed now existing ct0 =
     (let ct1 = (if ct_Name ct0 = [] then (case existing of Some e \<Rightarrow> ct0\<lparr>ct_Name := ct_Name e\<rparr> | None \<Rightarrow> ct0) else ct0);
          ct2 = (if IsZero (ct_LastAdvert ct1) then ct1\<lparr>ct_LastAdvert := now\<rparr> else ct1);
          ct3 = (if ct_Type ct2 = ContactUnset then ct2\<lparr>ct_Type := ContactUnknown\<rparr> else ct2)
      in case existing of
           None \<Rightarrow> ct3
         | Some e \<Rightarrow>
             (let ct4 = (if ct_Type ct3 = ContactUnknown \<and> ct_Type e \<noteq> ContactUnset then ct3\<lparr>ct_Type := ct_Type e\<rparr> else ct3);
                  ct5 = (if \<not> ct_HasPath ct4 \<and> ct_HasPath e
                         then ct4\<lparr>ct_HasPath := ct_HasPath e, ct_OutPathEnc := ct_OutPathEnc e, ct_OutPath := ct_OutPath e\<rparr> else ct4)
              in if ct_Latitude ct5 = 0 \<and> ct_Longitude ct5 = 0
                 then ct5\<lparr>ct_Latitude := ct_Latitude e, ct_Longitude := ct_Longitude e\<rparr> else ct5))"

definition note_last_mod :: "uint32 \<Rightarrow> unit sess" where
  "note_last_mod lm =
     (if lm = 0 then s_ret ()
      else s_try (in_store ContactLastMod) (\<lambda>r. case r of
          Inl e \<Rightarrow> s_put (recordContactSyncError e) (s_ret ())
        | Inr current \<Rightarrow>
            if lm > current then
              s_try (in_store (SetContactLastMod lm)) (\<lambda>r. case r of
                  Inl e \<Rightarrow> s_put (recordContactSyncError e) (s_ret ())
                | Inr _ \<Rightarrow> s_ret ())
            else s_ret ()))"

definition upsertObservedContact :: "unicode \<Rightarrow> contact \<Rightarrow> unit sess" where
  "upsertObservedContact u ct =
     s_try (in_store (Contact_store u (ct_PublicKey ct))) (\<lambda>found.
       let existing = (case found of Inl _ \<Rightarrow> None | Inr e \<Rightarrow> Some (ce_Contact e)) in
       if ct_Name ct = [] \<and> existing = None then s_ret ()
       else s_get (\<lambda>s. let merged = merge_observed (ss_now s) existing ct in
         s_try (in_store (UpsertContact u (ss_now s) merged)) (\<lambda>r. case r of
             Inl e \<Rightarrow> s_put (recordContactSyncError e) (s_ret ())
           | Inr _ \<Rightarrow>
               s_bind (note_last_mod (ct_LastMod merged)) (\<lambda>_.
               s_try replicaContacts (\<lambda>r. case r of
                   Inl _ \<Rightarrow> s_ret ()
                 | Inr contacts \<Rightarrow> s_put (\<lambda>s. s\<lparr>ss_contactCount := length contacts\<rparr>) (s_ret ()))))))"

section \<open>Channels\<close>

definition recordChannelSyncError :: "session_error \<Rightarrow> device_session \<Rightarrow> device_session" where
  "recordChannelSyncError e s = s\<lparr>ss_channelError := Some e\<rparr>"

definition finishChannelSync :: "device_session \<Rightarrow> device_session" where
  "finishChannelSync s = s\<lparr>ss_channelSyncing := False\<rparr>"

definition syncChannels :: "crypto \<Rightarrow> channel list sess" where
  "syncChannels cr = s_get (\<lambda>s.
     if ss_client s = None then recording recordChannelSyncError (s_err (Unavailable NoActiveClient))
     else s_put (\<lambda>s. s\<lparr>ss_channelSyncing := True, ss_channelError := None\<rparr>) (s_finally finishChannelSync (
       s_bind (recording recordChannelSyncError (on_client Channels)) (\<lambda>channels.
       s_bind (recording recordChannelSyncError (s_get (\<lambda>s. in_store (UpsertChannels cr (ss_now s) channels)))) (\<lambda>_.
       s_put (\<lambda>s. s\<lparr>ss_channelCount := length channels, ss_channelSyncedAt := ss_now s, ss_channelError := None\<rparr>)
         (s_ret channels))))))"

definition channels_call :: "crypto \<Rightarrow> bool \<Rightarrow> channel list sess" where
  "channels_call cr refresh = s_get (\<lambda>s.
     if refresh then
       (if ss_client s = None \<or> \<not> healthy s then s_err (Unavailable (lastErr s)) else syncChannels cr)
     else replicaChannels)"

definition initial_sync :: "unicode \<Rightarrow> crypto \<Rightarrow> unit sess" where
  "initial_sync u cr = s_get (\<lambda>s.
     if ss_client s = None \<or> \<not> healthy s then s_ret ()
     else s_try (syncContacts u False) (\<lambda>_. s_try (syncChannels cr) (\<lambda>_. s_ret ())))"

section \<open>Logins to repeaters\<close>

definition repeaterLogin :: "unicode \<Rightarrow> string \<Rightarrow> string \<Rightarrow> repeater_session sess" where
  "repeaterLogin u repeater password =
     s_bind (replicaContact u repeater) (\<lambda>ct.
     s_try (on_client (RepeaterLoginContact u ct password)) (\<lambda>r. case r of
         Inl e \<Rightarrow> s_try (in_store (ClearRepeaterSession repeater)) (\<lambda>_. s_err e)
       | Inr session \<Rightarrow> s_try (in_store (UpsertRepeaterSession session)) (\<lambda>_. s_ret session)))"

record file_session =
  fs_Name :: string
  fs_PublicKey :: string
  fs_LoggedInAt :: go_time
  fs_ExpiresAt :: go_time

definition HasSuffix :: "string \<Rightarrow> string \<Rightarrow> bool" where
  "HasSuffix s suf = suffix suf s"

text \<open>An entry of the directory: its name, whether it is a directory, and its content when it can be read.\<close>

type_synonym config_entry = "string \<times> bool \<times> file_session option"

definition configSessionActive :: "go_time \<Rightarrow> file_session \<Rightarrow> bool" where
  "configSessionActive now sess \<longleftrightarrow> \<not> IsZero (fs_ExpiresAt sess) \<and> time_Before now (fs_ExpiresAt sess)"

definition config_matches :: "unicode \<Rightarrow> string \<Rightarrow> file_session \<Rightarrow> bool" where
  "config_matches u q sess \<longleftrightarrow>
     (let queryKey = normalizePublicKey u q; key = normalizePublicKey u (fs_PublicKey sess)
      in q = [] \<or> EqualFold u (fs_Name sess) q \<or> key = queryKey \<or> (queryKey \<noteq> [] \<and> HasPrefix key queryKey))"

fun config_loop :: "unicode \<Rightarrow> go_time \<Rightarrow> string \<Rightarrow> config_entry list \<Rightarrow> repeater_session option" where
  "config_loop u now q [] = None"
| "config_loop u now q ((name, isDir, content) # es) =
     (if isDir \<or> \<not> HasSuffix name ''.json'' then config_loop u now q es
      else case content of
          None \<Rightarrow> config_loop u now q es
        | Some sess \<Rightarrow>
            if \<not> configSessionActive now sess then config_loop u now q es
            else if config_matches u q sess then
              Some \<lparr>ses_Repeater = fs_Name sess, ses_PublicKey = fs_PublicKey sess, ses_LoggedInAt = fs_LoggedInAt sess,
                ses_ExpiresAt = fs_ExpiresAt sess, ses_Permissions = 0, ses_Tag = 0\<rparr>
            else config_loop u now q es)"

definition loadConfigRepeaterSession :: "unicode \<Rightarrow> go_time \<Rightarrow> config_entry list \<Rightarrow> string \<Rightarrow> repeater_session option" where
  "loadConfigRepeaterSession u now entries q = config_loop u now (TrimSpace q) entries"

text \<open>The part of \<open>ensureRepeaterSession\<close> after the database and the configuration were consulted.\<close>

definition session_on_radio :: "unicode \<Rightarrow> string \<Rightarrow> string \<Rightarrow> unit sess" where
  "session_on_radio u repeater password =
     (let login = (if password = [] then s_ret () else s_bind (repeaterLogin u repeater password) (\<lambda>_. s_ret ())) in
      s_try (replicaContact u repeater) (\<lambda>r. case r of
          Inl _ \<Rightarrow> login
        | Inr ct \<Rightarrow>
            s_try (on_client (RepeaterHasConnectionContact ct)) (\<lambda>r.
              if r = Inr True then
                s_get (\<lambda>s. s_try (in_store (UpsertRepeaterSession
                    \<lparr>ses_Repeater = ct_Name ct, ses_PublicKey = ct_PublicKey ct, ses_LoggedInAt = ss_now s,
                     ses_ExpiresAt = time_Add (ss_now s) (30 * minute), ses_Permissions = 0, ses_Tag = 0\<rparr>)) (\<lambda>_. s_ret ()))
              else login)))"

definition ensureRepeaterSession :: "unicode \<Rightarrow> config_entry list \<Rightarrow> string \<Rightarrow> string \<Rightarrow> unit sess" where
  "ensureRepeaterSession u entries repeater password =
     s_try (in_store (RepeaterSession_store repeater)) (\<lambda>stored. s_get (\<lambda>s.
       if (case stored of Inr session \<Rightarrow> Active (ss_now s) session | Inl _ \<Rightarrow> False) then s_ret ()
       else case loadConfigRepeaterSession u (ss_now s) entries repeater of
           Some sess \<Rightarrow> s_try (in_store (UpsertRepeaterSession sess)) (\<lambda>_. s_ret ())
         | None \<Rightarrow> session_on_radio u repeater password))"

section \<open>Safety\<close>

lemma s_safe_finally [sess_safe]:
  assumes "plain g" and "s_safe b m"
  shows "s_safe b (s_finally g m)"
  unfolding s_safe_def
proof (intro allI impI)
  fix s
  assume s: "session_ok s" "b \<longrightarrow> ss_client s \<noteq> None"
  show "s_finally g m s \<noteq> Panicked \<and> (\<forall>r s'. s_finally g m s = Finished (r, s') \<longrightarrow> keep s s')"
  proof (cases "m s")
    case (Finished p)
    obtain r s1 where p: "p = (r, s1)" by force
    with Finished s_safeD(2) [OF assms(2) s(1)] s(2) have k: "keep s s1" by blast
    then have "keep s1 (g s1)" by (intro keep_plain assms(1)) (simp add: keep_def)
    with k Finished p show ?thesis by (auto simp: s_finally_def intro: keep_trans)
  qed (use s s_safeD(1) [OF assms(2) s(1)] in \<open>simp_all add: s_finally_def\<close>)
qed

lemma s_safe_mono: "s_safe False m \<Longrightarrow> s_safe b m"
  by (simp add: s_safe_def)

text \<open>A method that first makes sure that there is a client.\<close>

lemma s_safe_guard:
  assumes "\<And>s. ss_client s = None \<Longrightarrow> s_safe b (f s)" and "\<And>s. ss_client s \<noteq> None \<Longrightarrow> s_safe True (f s)"
  shows "s_safe b (s_get f)"
  unfolding s_safe_def
proof (intro allI impI)
  fix s
  assume s: "session_ok s" "b \<longrightarrow> ss_client s \<noteq> None"
  show "s_get f s \<noteq> Panicked \<and> (\<forall>r s'. s_get f s = Finished (r, s') \<longrightarrow> keep s s')"
    using s_safeD [OF assms(1) [of s] s(1)] s_safeD [OF assms(2) [of s] s(1)] s(2) unfolding s_get_def
    by (cases "ss_client s = None") (metis, metis)
qed

lemma s_safe_recording [sess_safe]: "(\<And>e. plain (rec e)) \<Longrightarrow> s_safe b m \<Longrightarrow> s_safe b (recording rec m)"
  unfolding recording_def by (intro sess_safe)

lemma s_safe_case_prod [sess_safe]: "(\<And>x y. p = (x, y) \<Longrightarrow> s_safe b (f x y)) \<Longrightarrow> s_safe b (case p of (x, y) \<Rightarrow> f x y)"
  by (cases p) simp

lemma plain_sync [simp]:
  "plain (recordContactSyncError e)" "plain begin_contact_sync" "plain finishContactSync" "plain (note_progress ps)"
  "plain (recordChannelSyncError e)" "plain finishChannelSync" "plain setContactRefreshCancel" "plain clearContactRefreshCancel"
  "plain (\<lambda>s. s\<lparr>ss_contactCount := n, ss_contactSyncedAt := ss_now s, ss_contactError := None\<rparr>)"
  "plain (\<lambda>s. s\<lparr>ss_contactCount := n\<rparr>)" "plain (\<lambda>s. s\<lparr>ss_channelSyncing := True, ss_channelError := None\<rparr>)"
  "plain (\<lambda>s. s\<lparr>ss_channelCount := n, ss_channelSyncedAt := ss_now s, ss_channelError := None\<rparr>)"
  by (simp_all add: plain_def recordContactSyncError_def begin_contact_sync_def finishContactSync_def note_progress_def
      recordChannelSyncError_def finishChannelSync_def setContactRefreshCancel_def clearContactRefreshCancel_def split: list.split)

lemma s_safe_lookups [sess_safe]:
  "s_safe b (contact_of u q)" "s_safe b (replicaContact u q)" "s_safe b replicaContacts" "s_safe b replicaChannels" "s_safe b (channel_named u q)"
  unfolding contact_of_def replicaContact_def replicaContacts_def replicaChannels_def channel_named_def
  by (intro sess_safe keeps_intros)+

lemma s_safe_syncContacts [sess_safe]: "s_safe b (syncContacts u full)"
  unfolding syncContacts_def contacts_since_def store_synced_def
proof (rule s_safe_guard, goal_cases)
  case (2 s)
  then show ?case by (simp only: if_False) (intro sess_safe keeps_intros plain_sync plain_updates api_safe | assumption)+
qed (simp add: sess_safe)

lemma s_safe_contacts [sess_safe]:
  "s_safe b (contacts_call u opts)" "s_safe b (runContactRefresh u full)" "s_safe b (note_last_mod lm)"
  unfolding contacts_call_def runContactRefresh_def startContactRefresh_def note_last_mod_def
  by (intro sess_safe keeps_intros plain_sync | assumption)+

lemma s_safe_upsertObservedContact [sess_safe]: "s_safe b (upsertObservedContact u ct)"
  unfolding upsertObservedContact_def Let_def by (intro sess_safe keeps_intros plain_sync | assumption)+

lemma s_safe_syncChannels [sess_safe]: "s_safe b (syncChannels cr)"
  unfolding syncChannels_def
proof (rule s_safe_guard, goal_cases)
  case (2 s)
  then show ?case by (simp only: if_False) (intro sess_safe keeps_intros plain_sync plain_updates api_safe | assumption)+
qed (simp add: sess_safe)

lemma s_safe_channels [sess_safe]: "s_safe b (channels_call cr refresh)" "s_safe b (initial_sync u cr)"
  unfolding channels_call_def initial_sync_def by (intro sess_safe | assumption)+

lemma s_safe_repeaterLogin [sess_safe]: "s_safe True (repeaterLogin u q pw)"
  unfolding repeaterLogin_def by (intro sess_safe keeps_intros api_safe | assumption)+

lemma s_safe_ensureRepeaterSession [sess_safe]: "s_safe True (ensureRepeaterSession u entries q pw)"
  unfolding ensureRepeaterSession_def session_on_radio_def Let_def by (intro sess_safe keeps_intros api_safe | assumption)+

section \<open>What a synchronisation leaves behind\<close>

lemma s_bind_ok: "m s = Finished (Inr x, s') \<Longrightarrow> s_bind m f s = f x s'"
  by (simp add: s_bind_def)

lemma recording_ok: "m s = Finished (Inr x, s') \<Longrightarrow> recording rec m s = Finished (Inr x, s')"
  by (simp add: recording_def s_try_def s_ret_def)

lemma s_finally_ok: "m s = Finished (r, s') \<Longrightarrow> s_finally g m s = Finished (r, g s')"
  by (simp add: s_finally_def)

lemma in_store_ok: "m (ss_store s) = (Inr x, d) \<Longrightarrow> in_store m s = Finished (Inr x, s\<lparr>ss_store := d\<rparr>)"
  by (simp add: in_store_def)

text \<open>The tables after a full refresh has cleared the contacts.\<close>

definition cleared :: "db \<Rightarrow> db" where
  "cleared d = d\<lparr>db_tables := (db_tables d)\<lparr>tb_contacts := []\<rparr>\<rparr>"

lemma syncContacts_radio_error:
  assumes "ss_client s = Some c" and "db_faults (ss_store s) = []"
    and "\<not> full \<Longrightarrow> fst (ContactLastMod (ss_store s)) = Inr since" and "full \<Longrightarrow> since = 0"
    and "ContactsSince since True c = Finished (Inl e, c')"
  shows "syncContacts u full s = Finished (Inl (RadioError e),
    s\<lparr>ss_client := Some c', ss_store := (if full then cleared (ss_store s) else ss_store s), ss_now := w_now c',
      ss_contactSyncing := False, ss_contactSyncRecv := 0, ss_contactSyncTotal := 0, ss_contactError := Some (RadioError e)\<rparr>)"
proof -
  have "snd (ContactLastMod (ss_store s)) = ss_store s"
    using assms(2) by (auto simp: ContactLastMod_def metaGet_def seq_def throw_def give_def split: option.splits)
  with assms show ?thesis
    by (cases full; cases "ContactLastMod (ss_store s)")
      (simp_all add: syncContacts_def s_get_def s_put_def s_finally_def s_bind_def recording_def s_try_def contacts_since_def
        begin_contact_sync_def in_store_def on_client_def ClearContacts_def s_ret_def s_err_def recordContactSyncError_def
        finishContactSync_def cleared_def)
qed

text \<open>The stored marker.\<close>

definition marker :: "db \<Rightarrow> uint32" where
  "marker d = (case map_of (tb_meta (db_tables d)) metaContactLastMod of
     None \<Rightarrow> 0 | Some v \<Rightarrow> (case ParseUint 32 v of Some n \<Rightarrow> word_of_nat n | None \<Rightarrow> 0))"

definition marker_ok :: "db \<Rightarrow> bool" where
  "marker_ok d \<longleftrightarrow> (\<forall>v. map_of (tb_meta (db_tables d)) metaContactLastMod = Some v \<longrightarrow> v \<noteq> [] \<and> ParseUint 32 v \<noteq> None)"

lemma ContactLastMod_ok: "db_faults d = [] \<Longrightarrow> marker_ok d \<Longrightarrow> ContactLastMod d = (Inr (marker d), d)"
  by (auto simp: ContactLastMod_def metaGet_def marker_def marker_ok_def split: option.splits)

lemma map_of_update: "map_of (AList.update k v xs) = (map_of xs)(k \<mapsto> v)"
  by (simp add: update_conv')

lemma SetContactLastMod_ok:
  assumes "db_faults d = []"
  shows "\<exists>d'. SetContactLastMod lm d = (Inr (), d') \<and> db_faults d' = [] \<and> tb_contacts (db_tables d') = tb_contacts (db_tables d) \<and>
    marker d' = lm \<and> marker_ok d'"
proof -
  have "ParseUint 32 (show_nat (unat lm)) = Some (unat lm)" using unsigned_less [of lm] by (intro ParseUint_show) simp
  with assms show ?thesis by (simp add: SetContactLastMod_def metaSet_def marker_def marker_ok_def map_of_update)
qed

lemma marker_upsert:
  "tb_meta (fold (\<lambda>ct t. t\<lparr>tb_contacts := f ct (tb_contacts t)\<rparr>) cts t) = tb_meta t"
  by (induction cts arbitrary: t) simp_all

lemma stored_contact_cong: "tb_contacts (db_tables d) = tb_contacts (db_tables d') \<Longrightarrow> stored_contact d = stored_contact d'"
  by (simp add: stored_contact_def fun_eq_iff)

lemma contacts_ok_cong: "tb_contacts (db_tables d) = tb_contacts (db_tables d') \<Longrightarrow> contacts_ok d = contacts_ok d'"
  by (simp add: contacts_ok_def)

definition overlay :: "contact list \<Rightarrow> (string \<Rightarrow> contact option) \<Rightarrow> string \<Rightarrow> contact option" where
  "overlay cts m = fold (\<lambda>ct m. m(ct_PublicKey ct \<mapsto> ct\<lparr>ct_LastMod := 0\<rparr>)) cts m"

lemma upsert_stored:
  assumes "db_faults d = []" and "contacts_ok d" and "list_all contact_ok cts"
  shows "\<exists>d'. UpsertContacts u now cts d = (Inr (), d') \<and> db_faults d' = [] \<and> contacts_ok d' \<and>
    stored_contact d' = overlay cts (stored_contact d) \<and> marker d' = marker d \<and> marker_ok d' = marker_ok d"
  using UpsertContacts_ok [OF assms(1)] contacts_ok_upsert [OF assms(2, 3), of u now] stored_contact_upsert [OF assms(3), of u now d] assms(1)
  by (simp add: overlay_def marker_def marker_ok_def marker_upsert [of "\<lambda>ct. upsert cw_public_key (contact_row_of u now ct)"])

lemma store_synced_ok:
  assumes "db_faults (ss_store s) = []" and "contacts_ok (ss_store s)" and "marker_ok (ss_store s)" and "list_all contact_ok (csr_Contacts res)"
  shows "\<exists>contacts d. store_synced u full res s = Finished (Inr contacts,
        s\<lparr>ss_store := d, ss_contactCount := length contacts, ss_contactSyncedAt := ss_now s, ss_contactError := None\<rparr>) \<and>
    db_faults d = [] \<and> stored_contact d = overlay (csr_Contacts res) (stored_contact (ss_store s)) \<and> set contacts = ran (stored_contact d) \<and>
    marker_ok d \<and> marker d = (if csr_LastMod res \<noteq> 0 \<or> full then csr_LastMod res else marker (ss_store s))"
proof -
  let ?cts = "csr_Contacts res" and ?lm = "csr_LastMod res"
  let ?up = "if ?cts \<noteq> [] then s_get (\<lambda>s. in_store (UpsertContacts u (ss_now s) ?cts)) else s_ret ()"
  obtain d1 where d1: "?up s = Finished (Inr (), s\<lparr>ss_store := d1\<rparr>)" "db_faults d1 = []" "contacts_ok d1"
    "stored_contact d1 = overlay ?cts (stored_contact (ss_store s))" "marker d1 = marker (ss_store s)" "marker_ok d1"
  proof (cases "?cts = []")
    case True
    with assms that [of "ss_store s"] show ?thesis by (simp add: s_ret_def overlay_def)
  next
    case False
    with upsert_stored [OF assms(1, 2, 4), of u "ss_now s"] assms(3) that show ?thesis
      by (auto simp: s_get_def in_store_ok)
  qed
  let ?set = "if ?lm \<noteq> 0 \<or> full then in_store (SetContactLastMod ?lm) else s_ret ()"
  obtain d2 where d2: "?set (s\<lparr>ss_store := d1\<rparr>) = Finished (Inr (), s\<lparr>ss_store := d2\<rparr>)" "db_faults d2 = []" "marker_ok d2"
    "tb_contacts (db_tables d2) = tb_contacts (db_tables d1)" "marker d2 = (if ?lm \<noteq> 0 \<or> full then ?lm else marker (ss_store s))"
  proof (cases "?lm \<noteq> 0 \<or> full")
    case True
    with SetContactLastMod_ok [OF d1(2), of ?lm] that show ?thesis by (auto simp: in_store_ok)
  qed (use d1 that [of d1] in \<open>simp add: s_ret_def\<close>)
  have "contacts_ok d2" and st: "stored_contact d2 = stored_contact d1"
    using contacts_ok_cong [OF d2(4)] stored_contact_cong [OF d2(4)] d1(3) by simp_all
  with Contacts_store_lists [OF d2(2)] obtain es where es: "Contacts_store d2 = (Inr es, d2)" "set (map ce_Contact es) = ran (stored_contact d2)" by blast
  have "store_synced u full res s = Finished (Inr (map ce_Contact es),
      s\<lparr>ss_store := d2, ss_contactCount := length (map ce_Contact es), ss_contactSyncedAt := ss_now s, ss_contactError := None\<rparr>)"
    unfolding store_synced_def recording_def s_bind_def s_try_def d1(1)
    by (simp only: and_then.simps prod.case sum.case s_ret_def d2(1) s_put_def replicaContacts_def s_bind_def)
      (simp add: in_store_ok es s_ret_def)
  with d1 d2 st es show ?thesis by (intro exI [of _ "map ce_Contact es"] exI [of _ d2]) simp
qed

lemma cleared_facts:
  "db_faults (cleared d) = db_faults d" "contacts_ok (cleared d)" "marker (cleared d) = marker d" "marker_ok (cleared d) = marker_ok d"
  "stored_contact (cleared d) = Map.empty"
  by (simp_all add: cleared_def contacts_ok_def marker_def marker_ok_def stored_contact_def fun_eq_iff)

lemma contacts_since_ok:
  assumes "db_faults (ss_store s) = []" and "marker_ok (ss_store s)"
  shows "contacts_since full s = Finished (Inr (if full then 0 else marker (ss_store s)), s\<lparr>ss_store := if full then cleared (ss_store s) else ss_store s\<rparr>)"
  using assms ContactLastMod_ok [OF assms]
  by (cases full) (simp_all add: contacts_since_def in_store_def s_bind_def ClearContacts_def cleared_def s_ret_def)

lemma note_progress_eq: "\<exists>a b. note_progress ps s = s\<lparr>ss_contactSyncRecv := a, ss_contactSyncTotal := b\<rparr>"
proof (cases "rev ps")
  case Nil
  then show ?thesis by (intro exI [of _ "ss_contactSyncRecv s"] exI [of _ "ss_contactSyncTotal s"]) (simp add: note_progress_def)
next
  case (Cons p qs)
  then show ?thesis by (cases p) (auto simp: note_progress_def)
qed

lemma syncContacts_ok:
  assumes "ss_client s = Some c" and "db_faults (ss_store s) = []" and "contacts_ok (ss_store s)" and "marker_ok (ss_store s)"
    and "ContactsSince (if full then 0 else marker (ss_store s)) True c = Finished (Inr (res, ps), c')"
    and "list_all contact_ok (csr_Contacts res)"
  shows "\<exists>s' contacts. syncContacts u full s = Finished (Inr contacts, s') \<and> ss_client s' = Some c' \<and>
    stored_contact (ss_store s') = overlay (csr_Contacts res) (if full then Map.empty else stored_contact (ss_store s)) \<and>
    set contacts = ran (stored_contact (ss_store s')) \<and> ss_contactCount s' = length contacts \<and>
    ss_contactError s' = None \<and> \<not> ss_contactSyncing s' \<and> ss_contactSyncedAt s' = w_now c' \<and>
    marker (ss_store s') = (if csr_LastMod res \<noteq> 0 \<or> full then csr_LastMod res else marker (ss_store s))"
proof -
  let ?d = "if full then cleared (ss_store s) else ss_store s"
  let ?s1 = "(begin_contact_sync s)\<lparr>ss_store := ?d\<rparr>"
  have s1: "contacts_since full (begin_contact_sync s) = Finished (Inr (if full then 0 else marker (ss_store s)), ?s1)"
    using contacts_since_ok [of "begin_contact_sync s" full] assms(2, 4) by (simp add: begin_contact_sync_def)
  let ?s2 = "?s1\<lparr>ss_client := Some c', ss_now := w_now c'\<rparr>"
  have s2: "on_client (ContactsSince (if full then 0 else marker (ss_store s)) True) ?s1 = Finished (Inr (res, ps), ?s2)"
    using assms(1, 5) by (simp add: on_client_def begin_contact_sync_def)
  obtain a b where ab: "note_progress ps ?s2 = ?s2\<lparr>ss_contactSyncRecv := a, ss_contactSyncTotal := b\<rparr>" using note_progress_eq by blast
  let ?s3 = "?s2\<lparr>ss_contactSyncRecv := a, ss_contactSyncTotal := b\<rparr>"
  have "db_faults (ss_store ?s3) = []" "contacts_ok (ss_store ?s3)" "marker_ok (ss_store ?s3)"
    using assms(2-4) by (simp_all add: cleared_facts)
  from store_synced_ok [OF this assms(6), of u full] obtain contacts d where d:
    "store_synced u full res ?s3 = Finished (Inr contacts,
        ?s3\<lparr>ss_store := d, ss_contactCount := length contacts, ss_contactSyncedAt := ss_now ?s3, ss_contactError := None\<rparr>)"
    "stored_contact d = overlay (csr_Contacts res) (stored_contact ?d)" "set contacts = ran (stored_contact d)"
    "marker d = (if csr_LastMod res \<noteq> 0 \<or> full then csr_LastMod res else marker ?d)" by auto
  have r: "recording recordContactSyncError (contacts_since full) (begin_contact_sync s) =
      Finished (Inr (if full then 0 else marker (ss_store s)), ?s1)"
    "recording recordContactSyncError (on_client (ContactsSince (if full then 0 else marker (ss_store s)) True)) ?s1 = Finished (Inr (res, ps), ?s2)"
    by (rule recording_ok, fact)+
  have "syncContacts u full s = Finished (Inr contacts, finishContactSync
      (?s3\<lparr>ss_store := d, ss_contactCount := length contacts, ss_contactSyncedAt := ss_now ?s3, ss_contactError := None\<rparr>))"
    using assms(1) unfolding syncContacts_def s_get_def s_put_def
    by (simp only: option.simps if_False) (rule s_finally_ok,
      simp only: s_bind_def r and_then.simps prod.case sum.case ab d(1))
  with d cleared_facts [of "ss_store s"] show ?thesis by (cases full) (simp_all add: finishContactSync_def begin_contact_sync_def)
qed

text \<open>C21: Synchronising contacts brings the local copy up to date. When the radio answers, an incremental
  synchronisation asks for the changes since the stored marker and lays the contacts received over the
  stored ones, a full one replaces them; the marker of the answer is stored, and the contacts returned are
  exactly those stored. When the radio fails or the request is cancelled, an incremental synchronisation
  changes neither contacts nor marker and the error is recorded. In both cases no synchronisation is under way
  afterwards.\<close>

theorem contacts_synchronised:
  assumes "ss_client s = Some c" and "db_faults (ss_store s) = []" and "contacts_ok (ss_store s)" and "marker_ok (ss_store s)"
  shows "(ContactsSince (if full then 0 else marker (ss_store s)) True c = Finished (Inr (res, ps), c') \<longrightarrow>
      list_all contact_ok (csr_Contacts res) \<longrightarrow>
      (\<exists>s' contacts. syncContacts u full s = Finished (Inr contacts, s') \<and>
         stored_contact (ss_store s') = overlay (csr_Contacts res) (if full then Map.empty else stored_contact (ss_store s)) \<and>
         set contacts = ran (stored_contact (ss_store s')) \<and> ss_contactCount s' = length contacts \<and>
         ss_contactError s' = None \<and> \<not> ss_contactSyncing s' \<and>
         marker (ss_store s') = (if csr_LastMod res \<noteq> 0 \<or> full then csr_LastMod res else marker (ss_store s)))) \<and>
    (ContactsSince (marker (ss_store s)) True c = Finished (Inl e, c') \<longrightarrow>
      (\<exists>s'. syncContacts u False s = Finished (Inl (RadioError e), s') \<and> ss_store s' = ss_store s \<and>
         ss_contactError s' = Some (RadioError e) \<and> \<not> ss_contactSyncing s'))"
proof (intro conjI impI)
  assume "ContactsSince (if full then 0 else marker (ss_store s)) True c = Finished (Inr (res, ps), c')" "list_all contact_ok (csr_Contacts res)"
  from syncContacts_ok [OF assms this, of u]
  show "\<exists>s' contacts. syncContacts u full s = Finished (Inr contacts, s') \<and>
         stored_contact (ss_store s') = overlay (csr_Contacts res) (if full then Map.empty else stored_contact (ss_store s)) \<and>
         set contacts = ran (stored_contact (ss_store s')) \<and> ss_contactCount s' = length contacts \<and>
         ss_contactError s' = None \<and> \<not> ss_contactSyncing s' \<and>
         marker (ss_store s') = (if csr_LastMod res \<noteq> 0 \<or> full then csr_LastMod res else marker (ss_store s))" by blast
next
  assume "ContactsSince (marker (ss_store s)) True c = Finished (Inl e, c')"
  with syncContacts_radio_error [OF assms(1, 2), of False "marker (ss_store s)" e c' u] ContactLastMod_ok [OF assms(2, 4)]
  show "\<exists>s'. syncContacts u False s = Finished (Inl (RadioError e), s') \<and> ss_store s' = ss_store s \<and>
         ss_contactError s' = Some (RadioError e) \<and> \<not> ss_contactSyncing s'" by simp
qed

text \<open>A session for the witnesses: one stored contact and the marker 7.\<close>

definition sample_contact :: contact where
  "sample_contact = (named_contact ''bob'')\<lparr>ct_PublicKey := ''ab''\<rparr>"

definition sample_store :: db where
  "sample_store = empty_db\<lparr>db_tables := empty_tables\<lparr>tb_meta := [(metaContactLastMod, ''7'')],
     tb_contacts := [contact_row_of ascii_text zero_time sample_contact]\<rparr>\<rparr>"

definition sample_session :: "client \<Rightarrow> device_session" where
  "sample_session c = new_device_session zero_time [] [] [] [] c sample_store"

lemma sample_session_facts:
  "ss_client (sample_session c) = Some c" "db_faults (ss_store (sample_session c)) = []" "contacts_ok (ss_store (sample_session c))"
  "marker_ok (ss_store (sample_session c))" "marker sample_store = 7" "ss_store (sample_session c) = sample_store"
  "stored_contact sample_store ''ab'' = Some sample_contact" "client_ok c \<Longrightarrow> session_ok (sample_session c)"
proof -
  have "show_nat 7 = ''7''" by code_simp
  with ParseUint_show [of 7 32] have p: "ParseUint 32 ''7'' = Some 7" by simp
  have ok: "contact_ok sample_contact" by (simp add: sample_contact_def contact_ok_def named_contact_def IsZero_def)
  have k: "cw_public_key (contact_row_of ascii_text zero_time sample_contact) = ''ab''"
    by (simp add: contact_row_of_def contact_key_def sample_contact_def)
  have l: "ct_LastMod sample_contact = 0" by (simp add: sample_contact_def named_contact_def)
  note r = scan_contact_row [OF ok, of ascii_text zero_time]
  show "contacts_ok (ss_store (sample_session c))" "stored_contact sample_store ''ab'' = Some sample_contact"
    using r k l by (simp_all add: contacts_ok_def stored_contact_def sample_session_def new_device_session_def sample_store_def)
  show "marker_ok (ss_store (sample_session c))" "marker sample_store = 7"
    using p by (simp_all add: marker_ok_def marker_def sample_session_def new_device_session_def sample_store_def)
qed (simp_all add: sample_session_def new_device_session_def sample_store_def empty_db_def session_ok_def messages_ok_def empty_tables_def)

lemma sample_lookup:
  "Contact_store ascii_text ''ab'' sample_store = (Inr \<lparr>ce_Contact = sample_contact, ce_StoredAt = format_time zero_time\<rparr>, sample_store)"
  "Contact_store ascii_text ''bob'' sample_store = (Inr \<lparr>ce_Contact = sample_contact, ce_StoredAt = format_time zero_time\<rparr>, sample_store)"
proof -
  have ok: "contact_ok sample_contact" by (simp add: sample_contact_def contact_ok_def named_contact_def IsZero_def)
  have k: "ct_PublicKey sample_contact = ''ab''" "ct_Name sample_contact = ''bob''" "ct_LastMod sample_contact = 0"
    by (simp_all add: sample_contact_def named_contact_def)
  have "Contacts_store sample_store = (Inr [\<lparr>ce_Contact = sample_contact, ce_StoredAt = format_time zero_time\<rparr>], sample_store)"
    using scan_contact_row [OF ok, of ascii_text zero_time] k(3) by (simp add: Contacts_store_def sample_store_def empty_db_def)
  moreover have "ToLower ascii_text (TrimSpace ''ab'') = ''ab''" "ToLower ascii_text ''ab'' = ''ab''"
    "ToLower ascii_text (TrimSpace ''bob'') = ''bob''" "ToLower ascii_text ''bob'' = ''bob''" by code_simp+
  ultimately show "Contact_store ascii_text ''ab'' sample_store = (Inr \<lparr>ce_Contact = sample_contact, ce_StoredAt = format_time zero_time\<rparr>, sample_store)"
    "Contact_store ascii_text ''bob'' sample_store = (Inr \<lparr>ce_Contact = sample_contact, ce_StoredAt = format_time zero_time\<rparr>, sample_store)"
    using k by (simp_all add: Contact_store_def Let_def)
qed

theorem contacts_synchronised_witness:
  "\<exists>contacts s'. syncContacts ascii_text False (sample_session (demo ([Recv [2, 0, 0, 0, 0], Recv [0x83]] @ Recv [4, 9, 0, 0, 0] # [Tick]))) =
     Finished (Inr contacts, s') \<and> sample_contact \<in> set contacts \<and> ss_contactCount s' = length contacts"
proof -
  let ?es = "[Recv [2, 0, 0, 0, 0], Recv [0x83]]"
  let ?c = "demo (?es @ Recv [4, 9, 0, 0, 0] # [Tick])"
  obtain n where n: "decode [2, 0, 0, 0, 0] = Some (ContactsStart n)" by (simp add: decode_def run_time_checks Let_def)
  obtain lm where lm: "decode [4, 9, 0, 0, 0] = Some (EndOfContacts lm)" by (simp add: decode_def run_time_checks Let_def)
  obtain ps c' where "ContactsSince 7 True ?c = Finished (Inr (\<lparr>csr_Contacts = [], csr_LastMod = lm\<rparr>, ps), c')"
    using ContactsSince_answered [where c = ?c and es = ?es and n = n and fs = "[]" and since = 7, OF demo_live _ _ lm] n
    by (auto simp: Has_Capabilities decode_samples map_filter_simps)
  with contacts_synchronised [OF sample_session_facts(1-4), of False ?c "\<lparr>csr_Contacts = [], csr_LastMod = lm\<rparr>" ps c' ascii_text]
  obtain contacts s' where "syncContacts ascii_text False (sample_session ?c) = Finished (Inr contacts, s')"
    "stored_contact (ss_store s') = overlay [] (stored_contact sample_store)" "set contacts = ran (stored_contact (ss_store s'))"
    "ss_contactCount s' = length contacts" by (auto simp: sample_session_facts)
  moreover from this(2) have "sample_contact \<in> ran (stored_contact (ss_store s'))"
    using sample_session_facts(7) by (auto simp: overlay_def intro: ranI)
  ultimately show ?thesis by blast
qed

text \<open>C23: An interrupted full refresh loses contacts. A full refresh empties the table before it asks the
  radio but leaves the marker, so that when the radio fails or the refresh is interrupted, the table stays
  empty; a later incremental refresh asks only for changes since the old marker, and when there are none it
  succeeds with no contacts at all.\<close>

theorem interrupted_refresh_loses_contacts:
  assumes "ss_client s = Some c" and "db_faults (ss_store s) = []" and "marker_ok (ss_store s)"
    and "ContactsSince 0 True c = Finished (Inl e, c')"
  shows "\<exists>s'. syncContacts u True s = Finished (Inl (RadioError e), s') \<and> stored_contact (ss_store s') = Map.empty \<and>
    marker (ss_store s') = marker (ss_store s) \<and>
    (ContactsSince (marker (ss_store s)) True c' = Finished (Inr (\<lparr>csr_Contacts = [], csr_LastMod = lm\<rparr>, ps), c'') \<longrightarrow>
      (\<exists>s''. syncContacts u False s' = Finished (Inr [], s'') \<and> stored_contact (ss_store s'') = Map.empty \<and> ss_contactError s'' = None))"
proof -
  let ?d = "cleared (ss_store s)"
  let ?s = "s\<lparr>ss_client := Some c', ss_store := ?d, ss_now := w_now c', ss_contactSyncing := False,
    ss_contactSyncRecv := 0, ss_contactSyncTotal := 0, ss_contactError := Some (RadioError e)\<rparr>"
  have r: "syncContacts u True s = Finished (Inl (RadioError e), ?s)"
    using syncContacts_radio_error [OF assms(1, 2), of True 0 e c' u] assms(4) by simp
  have "\<exists>s''. syncContacts u False ?s = Finished (Inr [], s'') \<and> stored_contact (ss_store s'') = Map.empty \<and> ss_contactError s'' = None"
    if "ContactsSince (marker (ss_store s)) True c' = Finished (Inr (\<lparr>csr_Contacts = [], csr_LastMod = lm\<rparr>, ps), c'')"
  proof -
    have "ContactsSince (if False then 0 else marker (ss_store ?s)) True c' = Finished (Inr (\<lparr>csr_Contacts = [], csr_LastMod = lm\<rparr>, ps), c'')"
      using that by (simp add: cleared_facts)
    from syncContacts_ok [of ?s c' False, OF _ _ _ _ this, of u] assms(2, 3) obtain s'' contacts where
      "syncContacts u False ?s = Finished (Inr contacts, s'')" "stored_contact (ss_store s'') = overlay [] (stored_contact (ss_store ?s))"
      "set contacts = ran (stored_contact (ss_store s''))" "ss_contactError s'' = None" by (auto simp: cleared_facts)
    then show ?thesis by (simp add: overlay_def cleared_facts)
  qed
  with r cleared_facts [of "ss_store s"] show ?thesis by auto
qed

lemma write_fails:
  "\<exists>c'. ContactsSince since True ((demo [])\<lparr>w_writes := [Some e]\<rparr>) = Finished (Inl e, c')"
proof -
  let ?c = "(demo [])\<lparr>w_writes := [Some e]\<rparr>"
  let ?c1 = "?c\<lparr>cl_waiter := Some (make_chan streamBuffer), cl_overflow := False\<rparr>"
  obtain raw where raw: "encode (w_now ?c) (GetContacts since) = Some (Inr raw)"
    using encode_accepts [of "GetContacts since" "w_now ?c"] by auto
  have "client_ok ?c1" using demo_live [of "[]"] by (simp add: live_def client_ok_def waiter_ok_def)
  then obtain c2 where c2: "emitOutbound raw ?c1 = Some c2" "w_writes c2 = [Some e]"
    using emitOutbound_some [of ?c1 raw] by (auto simp: core_def)
  then have "run_queue raw f x ?c = Finished (Inl e, (snd (WritePacket raw c2))\<lparr>cl_waiter := None\<rparr>)" for f and x :: "go_error option \<times> sync_state"
    by (simp add: run_queue_def WritePacket_def)
  with raw show ?thesis
    by (simp add: ContactsSince_def require_def requireCapability_def Has_Capabilities requestStream_def bind_ok_def)
qed

theorem interrupted_refresh_loses_contacts_witness:
  "\<exists>s'. syncContacts ascii_text True (sample_session ((demo [])\<lparr>w_writes := [Some (IOError ''gone'')]\<rparr>)) =
     Finished (Inl (RadioError (IOError ''gone'')), s') \<and> stored_contact (ss_store s') = Map.empty \<and> marker (ss_store s') = 7"
proof -
  obtain c' where c': "ContactsSince 0 True ((demo [])\<lparr>w_writes := [Some (IOError ''gone'')]\<rparr>) = Finished (Inl (IOError ''gone''), c')"
    using write_fails by blast
  from interrupted_refresh_loses_contacts [OF sample_session_facts(1, 2, 4) this, of ascii_text 0 "[]" c'] show ?thesis
    by (auto simp: sample_session_facts)
qed

section \<open>Observed contacts\<close>

text \<open>Hearing an advertisement never loses what is known of a contact. When the advertisement of a
  stored contact is heard, the contact is stored again under its key with the type, the path and the
  position of the advertisement where it has them and the stored ones where it does not, and with the
  stored name when it has none; every other contact is left as it is.\<close>

theorem observed_contact_keeps_knowledge:
  assumes "db_faults (ss_store s) = []" and "contacts_ok (ss_store s)" and "marker_ok (ss_store s)" and "contact_ok ct" and "time_ok (ss_now s)"
    and "Contact_store u (ct_PublicKey ct) (ss_store s) = (Inr e, ss_store s)"
  shows "\<exists>s' new. upsertObservedContact u ct s = Finished (Inr (), s') \<and>
    stored_contact (ss_store s') = (stored_contact (ss_store s))(ct_PublicKey ct \<mapsto> new) \<and> ct_PublicKey new = ct_PublicKey ct \<and>
    ct_Name new = (if ct_Name ct = [] then ct_Name (ce_Contact e) else ct_Name ct) \<and>
    ct_HasPath new = (ct_HasPath ct \<or> ct_HasPath (ce_Contact e)) \<and>
    (ct_OutPathEnc new, ct_OutPath new) =
      (if \<not> ct_HasPath ct \<and> ct_HasPath (ce_Contact e) then (ct_OutPathEnc (ce_Contact e), ct_OutPath (ce_Contact e))
       else (ct_OutPathEnc ct, ct_OutPath ct)) \<and>
    (ct_Latitude new, ct_Longitude new) =
      (if ct_Latitude ct = 0 \<and> ct_Longitude ct = 0 then (ct_Latitude (ce_Contact e), ct_Longitude (ce_Contact e))
       else (ct_Latitude ct, ct_Longitude ct)) \<and>
    (ct_Type ct \<notin> {ContactUnset, ContactUnknown} \<longrightarrow> ct_Type new = ct_Type ct) \<and>
    (ct_Type ct \<in> {ContactUnset, ContactUnknown} \<and> ct_Type (ce_Contact e) \<noteq> ContactUnset \<longrightarrow> ct_Type new = ct_Type (ce_Contact e))"
proof -
  define new where "new = merge_observed (ss_now s) (Some (ce_Contact e)) ct"
  have facts: "ct_PublicKey new = ct_PublicKey ct" "ct_Name new = (if ct_Name ct = [] then ct_Name (ce_Contact e) else ct_Name ct)"
    "ct_HasPath new = (ct_HasPath ct \<or> ct_HasPath (ce_Contact e))"
    "(ct_OutPathEnc new, ct_OutPath new) =
      (if \<not> ct_HasPath ct \<and> ct_HasPath (ce_Contact e) then (ct_OutPathEnc (ce_Contact e), ct_OutPath (ce_Contact e))
       else (ct_OutPathEnc ct, ct_OutPath ct))"
    "(ct_Latitude new, ct_Longitude new) =
      (if ct_Latitude ct = 0 \<and> ct_Longitude ct = 0 then (ct_Latitude (ce_Contact e), ct_Longitude (ce_Contact e))
       else (ct_Latitude ct, ct_Longitude ct))"
    "ct_LastAdvert new = (if IsZero (ct_LastAdvert ct) then ss_now s else ct_LastAdvert ct)"
    by (auto simp: new_def merge_observed_def Let_def)
  have types: "ct_Type ct \<notin> {ContactUnset, ContactUnknown} \<Longrightarrow> ct_Type new = ct_Type ct"
    "ct_Type ct \<in> {ContactUnset, ContactUnknown} \<and> ct_Type (ce_Contact e) \<noteq> ContactUnset \<Longrightarrow> ct_Type new = ct_Type (ce_Contact e)"
    by (auto simp: new_def merge_observed_def Let_def)
  have ok: "list_all contact_ok [new]"
    using assms(4, 5) facts(1, 6) by (auto simp: contact_ok_def)
  obtain d where d: "UpsertContacts u (ss_now s) [new] (ss_store s) = (Inr (), d)" "db_faults d = []" "contacts_ok d" "marker_ok d"
    "stored_contact d = (stored_contact (ss_store s))(ct_PublicKey new \<mapsto> new\<lparr>ct_LastMod := 0\<rparr>)"
    using upsert_stored [OF assms(1, 2) ok, of u "ss_now s"] assms(3) by (auto simp: overlay_def)
  have "\<exists>d'. note_last_mod lm (s\<lparr>ss_store := d\<rparr>) = Finished (Inr (), s\<lparr>ss_store := d'\<rparr>) \<and> db_faults d' = [] \<and>
      tb_contacts (db_tables d') = tb_contacts (db_tables d)" for lm
  proof (cases "lm \<noteq> 0 \<and> lm > marker d")
    case True
    obtain d' where "SetContactLastMod lm d = (Inr (), d')" "db_faults d' = []" "tb_contacts (db_tables d') = tb_contacts (db_tables d)"
      using SetContactLastMod_ok [OF d(2), of lm] by blast
    with True ContactLastMod_ok [OF d(2, 4)] show ?thesis
      by (intro exI [of _ d']) (simp add: note_last_mod_def s_try_def in_store_def s_ret_def)
  next
    case False
    with ContactLastMod_ok [OF d(2, 4)] d(2) show ?thesis
      by (intro exI [of _ d]) (auto simp: note_last_mod_def s_try_def in_store_def s_ret_def)
  qed
  then obtain d' where d': "note_last_mod (ct_LastMod new) (s\<lparr>ss_store := d\<rparr>) = Finished (Inr (), s\<lparr>ss_store := d'\<rparr>)" "db_faults d' = []"
    "tb_contacts (db_tables d') = tb_contacts (db_tables d)" by blast
  obtain es where es: "Contacts_store d' = (Inr es, d')"
    using Contacts_store_lists [OF d'(2)] contacts_ok_cong [OF d'(3)] d(3) by blast
  have "upsertObservedContact u ct s = Finished (Inr (), s\<lparr>ss_store := d', ss_contactCount := length es\<rparr>)"
    using assms(6) d(1) d'(1) es
    by (simp add: upsertObservedContact_def s_try_def in_store_def s_get_def s_bind_def new_def [symmetric] UpsertContact_def
        replicaContacts_def s_ret_def s_put_def Let_def)
  moreover have "stored_contact d' = (stored_contact (ss_store s))(ct_PublicKey ct \<mapsto> new\<lparr>ct_LastMod := 0\<rparr>)"
    using stored_contact_cong [OF d'(3)] d(5) facts(1) by simp
  ultimately show ?thesis using facts types by (intro exI [of _ "s\<lparr>ss_store := d', ss_contactCount := length es\<rparr>"] exI [of _ "new\<lparr>ct_LastMod := 0\<rparr>"]) simp
qed

theorem observed_contact_keeps_knowledge_witness:
  "\<exists>s' new. upsertObservedContact ascii_text (sample_contact\<lparr>ct_Name := [], ct_Type := ContactRepeater\<rparr>)
       ((sample_session (demo []))\<lparr>ss_now := time_Unix 1700000000\<rparr>) = Finished (Inr (), s') \<and>
     stored_contact (ss_store s') ''ab'' = Some new \<and> ct_Name new = ''bob'' \<and> ct_Type new = ContactRepeater"
proof -
  let ?ct = "sample_contact\<lparr>ct_Name := [], ct_Type := ContactRepeater\<rparr>" and ?s = "(sample_session (demo []))\<lparr>ss_now := time_Unix 1700000000\<rparr>"
  have k: "ct_PublicKey ?ct = ''ab''" "ct_Name sample_contact = ''bob''" "ct_LastMod sample_contact = 0"
    by (simp_all add: sample_contact_def named_contact_def)
  have "Contact_store ascii_text (ct_PublicKey ?ct) sample_store = (Inr \<lparr>ce_Contact = sample_contact, ce_StoredAt = format_time zero_time\<rparr>, sample_store)"
    unfolding k(1) by (rule sample_lookup)
  moreover have "contact_ok ?ct" by (simp add: contact_ok_def sample_contact_def named_contact_def IsZero_def)
  ultimately show ?thesis
    using observed_contact_keeps_knowledge [where s = ?s and ct = ?ct and u = ascii_text and
        e = "\<lparr>ce_Contact = sample_contact, ce_StoredAt = format_time zero_time\<rparr>"] sample_session_facts(2-4) [where c = "demo []"] sample_session_facts(5-7) k time_ok_sample by auto
qed

end
