(* ===== verification/Session_Dispatch.thy ===== *)
theory Session_Dispatch
  imports Session_Sync
begin

text \<open>
  The requests a session serves (\<open>dispatch\<close>, \<open>serve\<close> and the streams of \<open>backend/server.go\<close>, with the parameters
  of \<open>backend/protocol.go\<close>) and the events it observes. The parameters of a request are given as the JSON
  decoder leaves them: an error and the value decoded so far. What is outside of the session is collected in
  \<open>backend_env\<close>: the Unicode tables, the hash functions, the next random tag, the configuration directory, the
  state of the radio lock and the JSON encoder.
\<close>

section \<open>Requests and replies\<close>

datatype 'p parsed = Parsed (parse_error: "string option") (value_of: 'p)

record messages_params =
  mp_Direction :: string
  mp_Kind :: string
  mp_Peer :: string
  mp_Channel :: string
  mp_Limit :: int

datatype ipc_request =
    RStatus | RStop
  | RContacts "contacts_params parsed"
  | RContact "string parsed"
  | RChannels "bool parsed"
  | RChannel "string parsed"
  | RMessages "messages_params parsed"
  | RDeviceInfo
  | RStats "bool parsed"
  | RInbox
  | RSendText "(string \<times> string) parsed"
  | RWaitAck "receipt parsed"
  | RTrace "string parsed"
  | RSendChannelText "(string \<times> string) parsed"
  | RChannelAdd "(string \<times> bytes) parsed"
  | RChannelRemove "string parsed"
  | RAdvert "bool parsed"
  | RRawSend "bytes parsed"
  | RSendMeshPacket "(byte \<times> bytes) parsed"
  | RHasConnection "string parsed"
  | RLogin "(string \<times> string) parsed"
  | RRepeaterStatus "string parsed"
  | RNeighbours "string parsed"
  | RExec "(string \<times> string) parsed"
  | RWatch string
  | RDiscover "node_discover_options parsed"
  | RUnknown string

datatype raw_result = RawPacket byte bool bytes | DecodedMessage message

datatype reply =
    StatusReply status_result
  | Stopping
  | ContactsReply contacts_reply
  | ContactReply contact
  | ChannelsReply "channel list"
  | ChannelReply channel
  | MessagesReply "message_record list"
  | InfoReply client_device_info
  | StatsReply local_stats
  | InboxReply "msg list"
  | ReceiptReply receipt
  | AckReply ack
  | TraceReply trace
  | Sent
  | RawReply raw_result
  | HasConnectionReply bool
  | LoginReply repeater_session
  | RepeaterReply repeater_response

record backend_env =
  be_unicode :: unicode
  be_crypto :: crypto
  be_secretLen :: nat
  be_tag :: uint32
  be_config :: "config_entry list"
  be_radio :: radio_executor
  be_marshal :: "reply \<Rightarrow> session_error option"

definition RawResultFromMessage :: "message \<Rightarrow> raw_result" where
  "RawResultFromMessage m = (case m of RawMessage t payload push \<Rightarrow> RawPacket t push payload | _ \<Rightarrow> DecodedMessage m)"

definition with_params :: "'p parsed \<Rightarrow> ('p \<Rightarrow> 'a sess) \<Rightarrow> 'a sess" where
  "with_params p f = (case parse_error p of Some e \<Rightarrow> s_err (BadParams e) | None \<Rightarrow> f (value_of p))"

section \<open>Messages\<close>

definition direction_named :: "string \<Rightarrow> direction option" where
  "direction_named t = (if t = ''in'' then Some MessageIn else if t = ''out'' then Some MessageOut else None)"

definition kind_named :: "string \<Rightarrow> kind option" where
  "kind_named t = (if t = ''direct'' then Some MessageDirect else if t = ''channel'' then Some MessageChannel else None)"

text \<open>An unknown direction or kind matches no row.\<close>

definition messages_call :: "messages_params \<Rightarrow> message_record list sess" where
  "messages_call p =
     (if (mp_Direction p \<noteq> [] \<and> direction_named (mp_Direction p) = None) \<or> (mp_Kind p \<noteq> [] \<and> kind_named (mp_Kind p) = None)
      then in_store (query (\<lambda>_. []))
      else in_store (Messages \<lparr>mf_Direction = direction_named (mp_Direction p), mf_Kind = kind_named (mp_Kind p),
             mf_Peer = mp_Peer p, mf_Channel = mp_Channel p, mf_UnreadOnly = False, mf_Limit = mp_Limit p\<rparr>))"

definition outgoing_text :: "contact \<Rightarrow> string \<Rightarrow> message_record" where
  "outgoing_text ct text = empty_record\<lparr>ms_Kind := MessageDirect, ms_Peer := ct_PublicKey ct, ms_PeerName := ct_Name ct, ms_Text := text\<rparr>"

definition outgoing_channel :: "string \<Rightarrow> string \<Rightarrow> channel_entry option \<Rightarrow> message_record" where
  "outgoing_channel channel text entry =
     (let rec = empty_record\<lparr>ms_Kind := MessageChannel, ms_Channel := channel, ms_Text := text\<rparr> in
      case entry of
        None \<Rightarrow> rec
      | Some e \<Rightarrow> rec\<lparr>ms_Peer := he_Key e, ms_PeerName := cn_Name (he_Channel e), ms_Channel := show_int (cn_Index (he_Channel e))\<rparr>)"

text \<open>Store the message, send it, and record how that went; \<open>code\<close> is the acknowledgement code of a receipt.\<close>

definition send_recorded :: "message_record \<Rightarrow> (client \<Rightarrow> receipt result) \<Rightarrow> (receipt \<Rightarrow> string) \<Rightarrow> receipt sess" where
  "send_recorded rec send code = s_get (\<lambda>s.
     s_bind (in_store (persistOutgoing (ss_now s) rec)) (\<lambda>i.
     s_try (on_client send) (\<lambda>r. case r of
         Inl e \<Rightarrow> s_bind (in_store (setMessageStatus i StatusFailed [])) (\<lambda>_. s_err e)
       | Inr receipt \<Rightarrow> s_bind (in_store (setMessageStatus i StatusSent (code receipt))) (\<lambda>_. s_ret receipt))))"

definition send_text :: "unicode \<Rightarrow> string \<Rightarrow> string \<Rightarrow> receipt sess" where
  "send_text u recipient text =
     s_bind (contact_of u recipient) (\<lambda>ct. send_recorded (outgoing_text ct text) (SendTextToContact ct text) ID)"

definition send_channel_text :: "unicode \<Rightarrow> string \<Rightarrow> string \<Rightarrow> receipt sess" where
  "send_channel_text u channel text =
     s_try (in_store (Channel_store u channel)) (\<lambda>r.
       send_recorded (outgoing_channel channel text (case r of Inl _ \<Rightarrow> None | Inr e \<Rightarrow> Some e)) (SendChannelText u channel text) (\<lambda>_. []))"

definition wait_ack :: "receipt \<Rightarrow> ack sess" where
  "wait_ack receipt =
     s_try (on_client (WaitForAcknowledgement receipt)) (\<lambda>r. case r of
         Inl e \<Rightarrow> s_bind (in_store (markUnconfirmed (ID receipt))) (\<lambda>_. s_err e)
       | Inr a \<Rightarrow> s_ret a)"

definition trace_call :: "unicode \<Rightarrow> uint32 \<Rightarrow> string \<Rightarrow> trace sess" where
  "trace_call u tag q =
     (if IsHexTraceTarget q then on_client (Client_Trace u tag q)
      else s_bind (contact_of u q) (\<lambda>ct. on_client (TraceContactWithHint tag ct 0)))"

section \<open>Dispatch\<close>

definition device_info_call :: "client_device_info sess" where
  "device_info_call = s_get (\<lambda>s.
     case deviceInfoSnapshot s of
       Some info \<Rightarrow> s_ret info
     | None \<Rightarrow> s_bind (on_client Client_DeviceInfo) (\<lambda>info. s_put (storeDeviceInfo info) (s_ret info)))"

definition stats_call :: "bool \<Rightarrow> local_stats sess" where
  "stats_call refresh = s_get (\<lambda>s.
     case (if refresh then None else deviceStatsSnapshot s) of
       Some stats \<Rightarrow> s_ret stats
     | None \<Rightarrow> s_bind (on_client Stats) (\<lambda>stats. s_put (storeDeviceStats stats) (s_ret stats)))"

text \<open>The methods that need a healthy session.\<close>

fun radio_dispatch :: "backend_env \<Rightarrow> ipc_request \<Rightarrow> reply sess" where
  "radio_dispatch env RDeviceInfo = s_bind device_info_call (\<lambda>i. s_ret (InfoReply i))"
| "radio_dispatch env (RStats p) = s_bind (stats_call (value_of p)) (\<lambda>x. s_ret (StatsReply x))"
| "radio_dispatch env RInbox = s_bind (in_store storedInbox) (\<lambda>ms. s_ret (InboxReply ms))"
| "radio_dispatch env (RSendText p) = with_params p (\<lambda>(recipient, text).
     s_bind (send_text (be_unicode env) recipient text) (\<lambda>r. s_ret (ReceiptReply r)))"
| "radio_dispatch env (RWaitAck p) = with_params p (\<lambda>receipt. s_bind (wait_ack receipt) (\<lambda>a. s_ret (AckReply a)))"
| "radio_dispatch env (RTrace p) = with_params p (\<lambda>q. s_bind (trace_call (be_unicode env) (be_tag env) q) (\<lambda>t. s_ret (TraceReply t)))"
| "radio_dispatch env (RSendChannelText p) = with_params p (\<lambda>(channel, text).
     s_bind (send_channel_text (be_unicode env) channel text) (\<lambda>r. s_ret (ReceiptReply r)))"
| "radio_dispatch env (RChannelAdd p) = with_params p (\<lambda>(name, secret).
     s_bind (on_client (AddChannel (be_secretLen env) (be_unicode env) name secret)) (\<lambda>ch.
     s_try (syncChannels (be_crypto env)) (\<lambda>_. s_ret (ChannelReply ch))))"
| "radio_dispatch env (RChannelRemove p) = with_params p (\<lambda>channel.
     s_bind (on_client (RemoveChannel (be_unicode env) channel)) (\<lambda>ch.
     s_try (syncChannels (be_crypto env)) (\<lambda>_. s_ret (ChannelReply ch))))"
| "radio_dispatch env (RAdvert p) = with_params p (\<lambda>flood. s_bind (on_client (Advertise flood)) (\<lambda>_. s_ret Sent))"
| "radio_dispatch env (RRawSend p) = with_params p (\<lambda>payload.
     s_bind (on_client (RawSend payload)) (\<lambda>m. s_ret (RawReply (RawResultFromMessage m))))"
| "radio_dispatch env (RSendMeshPacket p) = with_params p (\<lambda>(priority, packet).
     s_bind (on_client (Client_SendMeshPacket priority packet)) (\<lambda>_. s_ret Sent))"
| "radio_dispatch env (RHasConnection p) = with_params p (\<lambda>q.
     s_bind (replicaContact (be_unicode env) q) (\<lambda>ct.
     s_bind (on_client (RepeaterHasConnectionContact ct)) (\<lambda>active. s_ret (HasConnectionReply active))))"
| "radio_dispatch env (RLogin p) = with_params p (\<lambda>(repeater, password).
     s_bind (repeaterLogin (be_unicode env) repeater password) (\<lambda>x. s_ret (LoginReply x)))"
| "radio_dispatch env (RRepeaterStatus p) = with_params p (\<lambda>q.
     s_bind (ensureRepeaterSession (be_unicode env) (be_config env) q []) (\<lambda>_.
     s_bind (replicaContact (be_unicode env) q) (\<lambda>ct.
     s_bind (on_client (RepeaterStatusContact (be_unicode env) ct)) (\<lambda>x. s_ret (RepeaterReply x)))))"
| "radio_dispatch env (RNeighbours p) = with_params p (\<lambda>q.
     s_bind (ensureRepeaterSession (be_unicode env) (be_config env) q []) (\<lambda>_.
     s_bind (replicaContact (be_unicode env) q) (\<lambda>ct.
     s_bind (on_client (RepeaterNeighboursContact (be_unicode env) ct)) (\<lambda>x. s_ret (RepeaterReply x)))))"
| "radio_dispatch env (RExec p) = with_params p (\<lambda>(repeater, command).
     s_bind (ensureRepeaterSession (be_unicode env) (be_config env) repeater []) (\<lambda>_.
     s_bind (replicaContact (be_unicode env) repeater) (\<lambda>ct.
     s_bind (on_client (RepeaterExecContact (be_unicode env) ct command)) (\<lambda>x. s_ret (RepeaterReply x)))))"
| "radio_dispatch env (RUnknown m) = s_err (UnknownMethod m)"
| "radio_dispatch env _ = s_err (UnknownMethod [])"

fun dispatch :: "backend_env \<Rightarrow> ipc_request \<Rightarrow> reply sess" where
  "dispatch env RStatus = s_get (\<lambda>s. s_ret (StatusReply (status_of (be_radio env) s)))"
| "dispatch env RStop = s_ret Stopping"
| "dispatch env (RContacts p) = with_params p (\<lambda>opts. s_bind (contacts_call (be_unicode env) opts) (\<lambda>r. s_ret (ContactsReply r)))"
| "dispatch env (RContact p) = with_params p (\<lambda>q. s_bind (contact_of (be_unicode env) q) (\<lambda>ct. s_ret (ContactReply ct)))"
| "dispatch env (RChannels p) = with_params p (\<lambda>refresh. s_bind (channels_call (be_crypto env) refresh) (\<lambda>chs. s_ret (ChannelsReply chs)))"
| "dispatch env (RChannel p) = with_params p (\<lambda>q. s_bind (channel_named (be_unicode env) q) (\<lambda>ch. s_ret (ChannelReply ch)))"
| "dispatch env (RMessages p) = with_params p (\<lambda>mp. s_bind (messages_call mp) (\<lambda>ms. s_ret (MessagesReply ms)))"
| "dispatch env r = s_get (\<lambda>s.
     if \<not> healthy s then s_err (Unavailable (lastErr s))
     else if ss_client s = None then s_err (Unavailable NoActiveClient)
     else radio_dispatch env r)"

fun methodUsesRadio :: "ipc_request \<Rightarrow> bool" where
  "methodUsesRadio RStatus = False"
| "methodUsesRadio RStop = False"
| "methodUsesRadio (RContacts p) = (cp_Refresh (value_of p) \<and> cp_Wait (value_of p))"
| "methodUsesRadio (RChannels p) = value_of p"
| "methodUsesRadio (RContact _) = False"
| "methodUsesRadio (RChannel _) = False"
| "methodUsesRadio RDeviceInfo = False"
| "methodUsesRadio (RMessages _) = False"
| "methodUsesRadio (RStats p) = value_of p"
| "methodUsesRadio _ = True"

section \<open>Streams\<close>

text \<open>What a stream writes after its first response: the items that can be encoded, until a write fails.
  The results of the writes are given, the last one for ever.\<close>

fun send_items :: "('i \<Rightarrow> 'o option) \<Rightarrow> bool list \<Rightarrow> 'i list \<Rightarrow> 'o list" where
  "send_items enc ws [] = []"
| "send_items enc ws (i # is) =
     (case enc i of
        None \<Rightarrow> send_items enc ws is
      | Some out \<Rightarrow>
          (case ws of
             [] \<Rightarrow> out # send_items enc [] is
           | w # ws' \<Rightarrow> if w then out # send_items enc ws' is else []))"

definition serveSessionStream :: "('i \<Rightarrow> 'o option) \<Rightarrow> bool list \<Rightarrow> 'i list \<Rightarrow> device_session \<Rightarrow> bool \<times> 'o list" where
  "serveSessionStream enc ws items s =
     (case ws of
        False # _ \<Rightarrow> (False, [])
      | _ \<Rightarrow> (True, if ss_client s = None then [] else send_items enc (tl ws) items))"

datatype ipc_event =
    EvMessage string string string go_time
  | EvAck string int
  | EvAdvert string string
  | EvDisconnected go_error

fun backendEvent :: "event \<Rightarrow> ipc_event option" where
  "backendEvent (MessageReceived m) =
     Some (EvMessage (if mr_Channel m \<noteq> [] then ''#'' @ mr_Channel m else ct_Name (mr_From m)) (mr_Channel m) (mr_Text m) (mr_Timestamp m))"
| "backendEvent (MessageAcknowledged code rtt) = Some (EvAck code (Milliseconds rtt))"
| "backendEvent (AdvertisementReceived ct) = Some (EvAdvert (ct_Name ct) (ct_PublicKey ct))"
| "backendEvent (Disconnected e) = Some (EvDisconnected e)"
| "backendEvent _ = None"

fun rf_event :: "event \<Rightarrow> rf_received option" where
  "rf_event (RFPacketReceived p) = Some p"
| "rf_event _ = None"

definition watch :: "bool list \<Rightarrow> event list \<Rightarrow> device_session \<Rightarrow> bool \<times> ipc_event list" where
  "watch = serveSessionStream backendEvent"

definition watchRaw :: "bool list \<Rightarrow> raw_packet list \<Rightarrow> device_session \<Rightarrow> bool \<times> raw_packet list" where
  "watchRaw = serveSessionStream Some"

definition watchRF :: "bool list \<Rightarrow> event list \<Rightarrow> device_session \<Rightarrow> bool \<times> rf_received list" where
  "watchRF = serveSessionStream rf_event"

definition watchRFLog :: "bool list \<Rightarrow> rf_packet list \<Rightarrow> device_session \<Rightarrow> bool \<times> rf_packet list" where
  "watchRFLog = serveSessionStream Some"

definition discover_call :: "uint32 \<Rightarrow> node_discover_options parsed \<Rightarrow> discovered_node list sess" where
  "discover_call tag p = s_get (\<lambda>s.
     if ss_client s = None \<or> parse_error p \<noteq> None then s_ret []
     else on_client (\<lambda>c. and_then (DiscoverNodes tag (value_of p) c) (\<lambda>((_, nodes), c). ret nodes c)))"

section \<open>Serving a request\<close>

record served =
  sv_OK :: bool
  sv_Result :: "reply option"
  sv_Error :: "session_error option"
  sv_Nodes :: "discovered_node list"
  sv_Stop :: bool
  sv_Refresh :: bool

definition failed_reply :: "session_error \<Rightarrow> served" where
  "failed_reply e = \<lparr>sv_OK = False, sv_Result = None, sv_Error = Some e, sv_Nodes = [], sv_Stop = False, sv_Refresh = False\<rparr>"

definition ok_reply :: served where
  "ok_reply = \<lparr>sv_OK = True, sv_Result = None, sv_Error = None, sv_Nodes = [], sv_Stop = False, sv_Refresh = False\<rparr>"

text \<open>The reply to a request that is not a stream. A reply that cannot be encoded counts as an error.\<close>

definition reply_of :: "backend_env \<Rightarrow> ipc_request \<Rightarrow> session_error + reply \<Rightarrow> served" where
  "reply_of env req r =
     (case (case r of Inl e \<Rightarrow> Inl e | Inr x \<Rightarrow> (case be_marshal env x of Some e \<Rightarrow> Inl e | None \<Rightarrow> Inr x)) of
        Inl e \<Rightarrow> failed_reply e
      | Inr x \<Rightarrow> ok_reply\<lparr>sv_Result := Some x, sv_Stop := (req = RStop),
          sv_Refresh := (methodUsesRadio req \<and> (case req of RContacts _ \<Rightarrow> False | RChannels _ \<Rightarrow> False | _ \<Rightarrow> True))\<rparr>)"

definition count_reply :: "served \<Rightarrow> device_session \<Rightarrow> device_session" where
  "count_reply r = (if sv_OK r then trackRequestOK else trackRequestFailed)"

definition serve_call :: "backend_env \<Rightarrow> ipc_request \<Rightarrow> served sess" where
  "serve_call env req =
     (let go = s_try (dispatch env req) (\<lambda>r. let reply = reply_of env req r in s_put (count_reply reply) (s_ret reply))
      in if methodUsesRadio req then s_put (snd \<circ> interruptContactRefresh) go else go)"

fun serve :: "backend_env \<Rightarrow> ipc_request \<Rightarrow> served sess" where
  "serve env (RWatch m) = s_put (trackIPCClient 1) (s_finally (trackIPCClient (-1)) (s_get (\<lambda>s.
     if \<not> healthy s then s_put trackRequestFailed (s_ret (failed_reply (Unavailable (lastErr s))))
     else s_put trackRequestOK (s_ret ok_reply))))"
| "serve env (RDiscover p) = s_put (trackIPCClient 1) (s_finally (trackIPCClient (-1)) (s_get (\<lambda>s.
     if \<not> healthy s then s_put trackRequestFailed (s_ret (failed_reply (Unavailable (lastErr s))))
     else s_put trackRequestOK (s_try (discover_call (be_tag env) p) (\<lambda>r.
       s_ret (ok_reply\<lparr>sv_Nodes := (case r of Inl _ \<Rightarrow> [] | Inr ns \<Rightarrow> ns)\<rparr>))))))"
| "serve env req = s_put (trackIPCClient 1) (s_finally (trackIPCClient (-1)) (serve_call env req))"

section \<open>Events\<close>

text \<open>The work an event starts in the background.\<close>

datatype job = RecordAck string duration | ObserveContact contact

fun observeEvent :: "event \<Rightarrow> device_session \<Rightarrow> job list \<times> device_session" where
  "observeEvent MessagesWaiting s = ([], requestDrain s)"
| "observeEvent (MessageAcknowledged code rtt) s = (if code = [] then [] else [RecordAck code rtt], s)"
| "observeEvent (AdvertisementReceived ct) s = (if ct_PublicKey ct = [] then [] else [ObserveContact ct], s)"
| "observeEvent _ s = ([], s)"

fun run_job :: "unicode \<Rightarrow> job \<Rightarrow> unit sess" where
  "run_job u (RecordAck code rtt) = s_get (\<lambda>s. in_store (recordAck (ss_now s) code rtt))"
| "run_job u (ObserveContact ct) = upsertObservedContact u ct"

section \<open>Safety\<close>

lemma safe_more_calls [api_safe]:
  assumes "client_ok c"
  shows "safe (RawSend raw c)" "safe (RepeaterNeighboursContact u ct c)"
    "safe (and_then (DiscoverNodes tag opts c) (\<lambda>((_, nodes), c). ret nodes c))"
proof -
  show "safe (RawSend raw c)" using Do_ok [OF assms, of raw] by (auto simp: RawSend_def safe_def)
  show "safe (RepeaterNeighboursContact u ct c)" unfolding RepeaterNeighboursContact_def by (intro api_safe assms)
  show "safe (and_then (DiscoverNodes tag opts c) (\<lambda>((_, nodes), c). ret nodes c))"
    using safe_DiscoverNodes [OF assms, of tag opts] by (cases "DiscoverNodes tag opts c") (auto simp: safe_def ret_def)
qed

lemma safe_Trace_hex:
  assumes "client_ok c" and "IsHexTraceTarget q"
  shows "safe (Client_Trace u tag q c)"
proof -
  have "safe (and_then (no_panic (logTracePlan plan)) (\<lambda>_. ret x d))" if "client_ok d" for plan x d
    using formatTraceHops_returns [of "tp_Path plan" "tp_HashSize plan"] that by (auto simp: logTracePlan_def safe_def ret_def)
  then show ?thesis
    unfolding Client_Trace_def resolveTracePath_def planTrace_def using assms
    by (auto intro!: safe_require safe_bind safe_from_sum safe_tracePath)
qed

text \<open>Messages that are being sent are not delivered yet.\<close>

definition undelivered :: "int \<Rightarrow> device_session \<Rightarrow> bool" where
  "undelivered i s \<longleftrightarrow>
     list_all (\<lambda>r. ms_ID (mw_rec r) = i \<longrightarrow> ms_Status (mw_rec r) \<noteq> StatusDelivered) (tb_messages (db_tables (ss_store s)))"

definition safe_sending :: "int \<Rightarrow> 'a sess \<Rightarrow> bool" where
  "safe_sending i m \<longleftrightarrow> (\<forall>s. session_ok s \<longrightarrow> ss_client s \<noteq> None \<longrightarrow> (i = 0 \<or> undelivered i s) \<longrightarrow>
     m s \<noteq> Panicked \<and> (\<forall>r s'. m s = Finished (r, s') \<longrightarrow> keep s s'))"

lemma safe_sending_status:
  assumes "\<And>x. s_safe True (f x)"
  shows "safe_sending i (s_bind (in_store (setMessageStatus i st code)) f)"
  unfolding safe_sending_def
proof (intro allI impI)
  fix s
  assume s: "session_ok s" "ss_client s \<noteq> None" "i = 0 \<or> undelivered i s"
  obtain r d where m: "setMessageStatus i st code (ss_store s) = (r, d)" by force
  have g: "grows (db_tables (ss_store s)) (db_tables d)"
  proof (cases "i = 0")
    case True
    with m s(1) show ?thesis by (simp add: setMessageStatus_def session_ok_def grows_refl)
  next
    case False
    with m have "d = snd (SetMessageStatus i st code (ss_store s))" by (auto simp: setMessageStatus_def attempt_def split: prod.splits)
    with keeps_SetMessageStatus [of "ss_store s" i st code] s False show ?thesis by (simp add: session_ok_def undelivered_def)
  qed
  then have k: "keep s (s\<lparr>ss_store := d\<rparr>)" using s by (auto simp: keep_def session_ok_def grows_def)
  have r: "r = Inr ()" using m by (auto simp: setMessageStatus_def attempt_def split: if_splits prod.splits)
  have "session_ok (s\<lparr>ss_store := d\<rparr>)" "ss_client (s\<lparr>ss_store := d\<rparr>) \<noteq> None" using k s(2) by (simp_all add: keep_def)
  from s_safeD [OF assms this(1), of "()"] this(2) k m r
  show "s_bind (in_store (setMessageStatus i st code)) f s \<noteq> Panicked \<and>
      (\<forall>r s'. s_bind (in_store (setMessageStatus i st code)) f s = Finished (r, s') \<longrightarrow> keep s s')"
    by (auto simp: s_bind_def in_store_def intro: keep_trans)
qed

lemma safe_sending_client:
  assumes "\<And>c. client_ok c \<Longrightarrow> safe (f c)" and "\<And>r. safe_sending i (g r)"
  shows "safe_sending i (s_try (on_client f) g)"
  unfolding safe_sending_def
proof (intro allI impI)
  fix s
  assume s: "session_ok s" "ss_client s \<noteq> None" "i = 0 \<or> undelivered i s"
  have sf: "s_safe True (on_client f)" by (intro sess_safe assms(1))
  show "s_try (on_client f) g s \<noteq> Panicked \<and> (\<forall>r s'. s_try (on_client f) g s = Finished (r, s') \<longrightarrow> keep s s')"
  proof (cases "on_client f s")
    case (Finished p)
    obtain r s1 where p: "p = (r, s1)" by force
    have k: "keep s s1" using s_safeD(2) [OF sf s(1)] s(2) Finished p by simp
    moreover have "ss_store s1 = ss_store s" using Finished p s(2) by (auto simp: on_client_def and_then_Finished_iff split: option.splits prod.splits)
    ultimately have "session_ok s1" "ss_client s1 \<noteq> None" "i = 0 \<or> undelivered i s1" using s by (auto simp: keep_def undelivered_def)
    with assms(2) [of r] have "g r s1 \<noteq> Panicked" "\<And>r' s2. g r s1 = Finished (r', s2) \<Longrightarrow> keep s1 s2" unfolding safe_sending_def by blast+
    with k Finished p show ?thesis by (auto simp: s_try_def intro: keep_trans)
  qed (use s s_safeD(1) [OF sf s(1)] in \<open>simp_all add: s_try_def\<close>)
qed

lemma persistOutgoing_undelivered:
  assumes "messages_ok (db_tables d)" and "ms_Status rec \<noteq> StatusDelivered" and "persistOutgoing now rec d = (r, d')"
  shows "\<exists>i. r = Inr i \<and> (i = 0 \<or> list_all (\<lambda>r. ms_ID (mw_rec r) = i \<longrightarrow> ms_Status (mw_rec r) \<noteq> StatusDelivered) (tb_messages (db_tables d')))"
proof -
  obtain q d1 where f: "fault d = (q, d1)" by force
  have t: "db_tables d1 = db_tables d" using fault_tables [OF f] by simp
  have "list_all (\<lambda>r. ms_ID (mw_rec r) \<noteq> tb_sequence (db_tables d) + 1) (tb_messages (db_tables d))"
    using assms(1) by (force simp: messages_ok_def list_all_iff)
  then have "list_all (\<lambda>r. ms_ID (mw_rec r) = tb_sequence (db_tables d) + 1 \<longrightarrow> ms_Status (mw_rec r) \<noteq> StatusDelivered) (tb_messages (db_tables d))"
    by (simp add: list_all_iff)
  with assms(2, 3) f t show ?thesis
    by (cases q) (auto simp: persistOutgoing_def attempt_def InsertMessage_def Let_def message_row_of_def split: if_splits)
qed

lemma s_safe_send_recorded [sess_safe]:
  assumes "\<And>c. client_ok c \<Longrightarrow> safe (send c)" and "ms_Status rec \<noteq> StatusDelivered"
  shows "s_safe True (send_recorded rec send code)"
  unfolding send_recorded_def
proof (rule s_safe_get)
  fix s0
  let ?g = "\<lambda>i. s_try (on_client send) (\<lambda>r. case r of
         Inl e \<Rightarrow> s_bind (in_store (setMessageStatus i StatusFailed [])) (\<lambda>_. s_err e)
       | Inr receipt \<Rightarrow> s_bind (in_store (setMessageStatus i StatusSent (code receipt))) (\<lambda>_. s_ret receipt))"
  have g: "safe_sending i (?g i)" for i
    by (rule safe_sending_client [OF assms(1)]) (auto split: sum.splits intro!: safe_sending_status s_safe_ret)
  show "s_safe True (s_bind (in_store (persistOutgoing (ss_now s0) rec)) ?g)"
    unfolding s_safe_def
  proof (intro allI impI)
    fix s
    assume s: "session_ok s" "True \<longrightarrow> ss_client s \<noteq> None"
    obtain r d where m: "persistOutgoing (ss_now s0) rec (ss_store s) = (r, d)" by force
    have "s_safe True (in_store (persistOutgoing (ss_now s0) rec))" by (intro sess_safe keeps_intros)
    from s_safeD(2) [OF this s(1)] s(2) m have k: "keep s (s\<lparr>ss_store := d\<rparr>)" by (simp add: in_store_def)
    obtain i where i: "r = Inr i" "i = 0 \<or> undelivered i (s\<lparr>ss_store := d\<rparr>)"
      using persistOutgoing_undelivered [OF _ assms(2) m] s(1) by (auto simp: session_ok_def undelivered_def)
    have "session_ok (s\<lparr>ss_store := d\<rparr>)" "ss_client (s\<lparr>ss_store := d\<rparr>) \<noteq> None" using k s(2) by (simp_all add: keep_def)
    with g [of i] i(2) have "?g i (s\<lparr>ss_store := d\<rparr>) \<noteq> Panicked" "\<And>r s'. ?g i (s\<lparr>ss_store := d\<rparr>) = Finished (r, s') \<Longrightarrow> keep (s\<lparr>ss_store := d\<rparr>) s'"
      unfolding safe_sending_def by blast+
    with k m i(1) show "s_bind (in_store (persistOutgoing (ss_now s0) rec)) ?g s \<noteq> Panicked \<and>
        (\<forall>r s'. s_bind (in_store (persistOutgoing (ss_now s0) rec)) ?g s = Finished (r, s') \<longrightarrow> keep s s')"
      by (auto simp: s_bind_def in_store_def intro: keep_trans)
  qed
qed

lemma outgoing_status [simp]: "ms_Status (outgoing_text ct text) = NoStatus" "ms_Status (outgoing_channel ch text e) = NoStatus"
  by (simp_all add: outgoing_text_def outgoing_channel_def empty_record_def Let_def split: option.split)

lemma s_safe_sending [sess_safe]: "s_safe True (send_text u q text)" "s_safe True (send_channel_text u q text)" "s_safe True (wait_ack receipt)"
  unfolding send_text_def send_channel_text_def wait_ack_def
  by (intro sess_safe keeps_intros api_safe | simp)+

lemma s_safe_with_params [sess_safe]: "(\<And>x. s_safe b (f x)) \<Longrightarrow> s_safe b (with_params p f)"
  by (simp add: with_params_def sess_safe)

lemma s_safe_calls [sess_safe]: "s_safe b (messages_call p)" "s_safe True device_info_call" "s_safe True (stats_call refresh)"
  unfolding messages_call_def device_info_call_def stats_call_def
  by (intro sess_safe keeps_intros api_safe plain_updates | assumption)+

text \<open>A trace to a contact with a short odd key may slice it out of range; see \<open>Tracing\<close>.\<close>

definition crash_free :: "ipc_request \<Rightarrow> bool" where
  "crash_free r = (case r of RTrace p \<Rightarrow> IsHexTraceTarget (value_of p) | _ \<Rightarrow> True)"

lemma s_safe_radio_dispatch: "crash_free r \<Longrightarrow> s_safe True (radio_dispatch env r)"
proof (cases r)
  case (RTrace p)
  assume "crash_free r"
  with RTrace show ?thesis
    by (auto simp: crash_free_def with_params_def trace_call_def intro!: sess_safe safe_Trace_hex split: option.splits)
qed (simp_all only: radio_dispatch.simps, (intro sess_safe keeps_intros api_safe plain_updates | assumption)+)

lemma s_safe_dispatch: "crash_free r \<Longrightarrow> s_safe False (dispatch env r)"
proof -
  assume r: "crash_free r"
  have radio: "s_safe False (s_get (\<lambda>s.
     if \<not> healthy s then s_err (Unavailable (lastErr s))
     else if ss_client s = None then s_err (Unavailable NoActiveClient)
     else radio_dispatch env r))"
    by (rule s_safe_guard) (auto intro: sess_safe s_safe_radio_dispatch [OF r])
  show ?thesis
    by (cases r) (use radio in \<open>simp_all only: dispatch.simps\<close>, (intro sess_safe | assumption)+)
qed

lemma plain_serve [simp]: "plain (snd \<circ> interruptContactRefresh)" "plain (count_reply r)" "plain requestDrain"
  by (simp_all add: plain_def interruptContactRefresh_def count_reply_def trackRequestOK_def trackRequestFailed_def requestDrain_def)

lemma s_safe_serve:
  assumes "crash_free r"
  shows "s_safe False (serve env r)"
proof -
  have call: "s_safe False (serve_call env r)"
    unfolding serve_call_def Let_def by (intro sess_safe plain_serve s_safe_dispatch assms)
  have "s_safe False (discover_call tag p)" for tag p
    unfolding discover_call_def by (rule s_safe_guard) (auto intro: sess_safe api_safe)
  with call show ?thesis by (cases r) (simp_all only: serve.simps, (intro sess_safe plain_updates | assumption)+)
qed

lemma s_safe_run_job: "s_safe False (run_job u j)"
  by (cases j) (simp_all only: run_job.simps, (intro sess_safe keeps_intros)+)

section \<open>Runs of a session\<close>

text \<open>The steps of a session with the background work it has started: requests, polls, drains, refreshes,
  reconnections, bridges, events, and what the outside does: time passes, the radio behaves in a new way,
  the database begins to fail.\<close>

inductive session_step :: "backend_env \<Rightarrow> device_session \<times> job list \<Rightarrow> device_session \<times> job list \<Rightarrow> bool" for env where
  request: "crash_free req \<Longrightarrow> serve env req s = Finished (r, s') \<Longrightarrow> session_step env (s, js) (s', js)"
| poll: "dial_ok dialed \<Longrightarrow> runStatsPoll free dialed s = Finished (r, s') \<Longrightarrow> session_step env (s, js) (s', js)"
| reconnect: "dial_ok dialed \<Longrightarrow> tryReconnect dialed s = Finished (r, s') \<Longrightarrow> session_step env (s, js) (s', js)"
| drain: "runDrain (be_unicode env) clock s = Finished (r, s') \<Longrightarrow> session_step env (s, js) (s', js)"
| refresh: "runContactRefresh (be_unicode env) full s = Finished (r, s') \<Longrightarrow> session_step env (s, js) (s', js)"
| initial: "initial_sync (be_unicode env) (be_crypto env) s = Finished (r, s') \<Longrightarrow> session_step env (s, js) (s', js)"
| event: "observeEvent ev s = (new, s') \<Longrightarrow> session_step env (s, js) (s', js @ new)"
| job: "run_job (be_unicode env) j s = Finished (r, s') \<Longrightarrow> session_step env (s, xs @ j # ys) (s', xs @ ys)"
| enter: "enterBridge rt s = Finished (r, s') \<Longrightarrow> session_step env (s, js) (s', js)"
| leave: "session_step env (s, js) (leaveBridge rt s, js)"
| stop: "stop_session s = Finished (r, s') \<Longrightarrow> session_step env (s, js) (s', js)"
| outside: "session_step env (s, js)
    (s\<lparr>ss_client := map_option (\<lambda>c. c\<lparr>w_env := es, w_writes := ws, w_now := t\<rparr>) (ss_client s), ss_now := t\<rparr>, js)"
| faults: "session_step env (s, js) (s\<lparr>ss_store := (ss_store s)\<lparr>db_faults := fs\<rparr>\<rparr>, js)"

lemma life_okD: "life_ok m s \<Longrightarrow> m s = Finished (r, s') \<Longrightarrow> session_ok s' \<and> ss_id s' = ss_id s \<and> ss_publicKey s' = ss_publicKey s \<and>
    grows (db_tables (ss_store s)) (db_tables (ss_store s'))"
  by (auto simp: life_ok_def)

lemma life_ok_returns: "life_ok m s \<Longrightarrow> m s \<noteq> Panicked"
  by (simp add: life_ok_def)

lemma client_ok_world [simp]: "client_ok (c\<lparr>w_env := es, w_writes := ws, w_now := t\<rparr>) = client_ok c"
  by (simp add: client_ok_def)

lemma observeEvent_plain: "observeEvent ev s = (new, s') \<Longrightarrow> s' = s \<or> s' = requestDrain s"
  by (cases ev) auto

lemma session_step_ok:
  assumes "session_step env x y" and "session_ok (fst x)"
  shows "session_ok (fst y) \<and> ss_id (fst y) = ss_id (fst x) \<and> ss_publicKey (fst y) = ss_publicKey (fst x) \<and>
    grows (db_tables (ss_store (fst x))) (db_tables (ss_store (fst y)))"
  using assms
proof (induction rule: session_step.induct)
  case (request req s r s' js)
  then have "session_ok s" by simp
  from life_okD [OF life_ok_safe [OF s_safe_serve [OF request(1)] this] request(2)] show ?case by simp
next
  case (poll dialed free s r s' js)
  then have "session_ok s" by simp
  from life_okD [OF runStatsPoll_ok [OF this poll(1)] poll(2)] show ?case by simp
next
  case (reconnect dialed s r s' js)
  then have "session_ok s" by simp
  from life_okD [OF tryReconnect_ok [OF this reconnect(1)] reconnect(2)] show ?case by simp
next
  case (drain clock s r s' js)
  then have "session_ok s" by simp
  from life_okD [OF runDrain_ok [OF this] drain(1)] show ?case by simp
next
  case (refresh full s r s' js)
  then have "session_ok s" by simp
  from life_okD [OF life_ok_safe [OF s_safe_contacts(2) [of False] this] refresh(1)] show ?case by simp
next
  case (initial s r s' js)
  then have "session_ok s" by simp
  from life_okD [OF life_ok_safe [OF s_safe_channels(2) [of False] this] initial(1)] show ?case by simp
next
  case (event ev s new s' js)
  then show ?case using observeEvent_plain [OF event(1)] by (auto simp: session_ok_def requestDrain_def grows_refl)
next
  case (job j s r s' xs ys)
  then have "session_ok s" by simp
  from life_okD [OF life_ok_safe [OF s_safe_run_job this] job(1)] show ?case by simp
next
  case (enter rt s r s' js)
  then have "session_ok s" by simp
  from life_okD [OF enterBridge_ok [OF this] enter(1)] show ?case by simp
next
  case (leave s js rt)
  then show ?case using leaveBridge_ok by auto
next
  case (stop s r s' js)
  then have "session_ok s" by simp
  from life_okD [OF stop_session_ok [OF this] stop(1)] show ?case by simp
qed (auto simp: session_ok_def grows_refl)





section \<open>From sending to delivery\<close>

lemma InsertMessage_ok:
  assumes "db_faults d = []"
  shows "\<exists>rec'. InsertMessage now rec d = (Inr rec', d\<lparr>db_tables := (db_tables d)\<lparr>tb_sequence := tb_sequence (db_tables d) + 1,
      tb_messages := tb_messages (db_tables d) @ [message_row_of rec']\<rparr>\<rparr>) \<and>
    ms_ID rec' = tb_sequence (db_tables d) + 1 \<and> ms_Text rec' = ms_Text rec \<and> ms_Peer rec' = ms_Peer rec \<and>
    ms_Direction rec' = ms_Direction rec \<and> ms_Receptions rec' = ms_Receptions rec"
proof -
  let ?r1 = "if IsZero (ms_CreatedAt rec) then rec\<lparr>ms_CreatedAt := now\<rparr> else rec"
  let ?r2 = "if IsZero (ms_Timestamp ?r1) then ?r1\<lparr>ms_Timestamp := now\<rparr> else ?r1"
  show ?thesis
    using assms by (intro exI [of _ "?r2\<lparr>ms_ID := tb_sequence (db_tables d) + 1\<rparr>"]) (simp add: InsertMessage_def Let_def)
qed

lemma persistOutgoing_ok:
  assumes "db_faults d = []"
  shows "\<exists>r. persistOutgoing now rec d = (Inr (row_id r), d\<lparr>db_tables := (db_tables d)\<lparr>tb_sequence := row_id r, tb_messages := tb_messages (db_tables d) @ [r]\<rparr>\<rparr>) \<and>
    row_id r = tb_sequence (db_tables d) + 1 \<and> ms_Text (mw_rec r) = ms_Text rec \<and> ms_Peer (mw_rec r) = ms_Peer rec \<and>
    ms_Direction (mw_rec r) = MessageOut \<and> ms_Receptions (mw_rec r) = ms_Receptions rec"
proof -
  let ?rec = "rec\<lparr>ms_Direction := MessageOut, ms_Read := True, ms_Status := (if ms_Status rec = NoStatus then StatusQueued else ms_Status rec),
            ms_Timestamp := (if IsZero (ms_Timestamp rec) then now else ms_Timestamp rec)\<rparr>"
  from InsertMessage_ok [OF assms, of now ?rec] obtain rec' where
    "InsertMessage now ?rec d = (Inr rec', d\<lparr>db_tables := (db_tables d)\<lparr>tb_sequence := tb_sequence (db_tables d) + 1,
      tb_messages := tb_messages (db_tables d) @ [message_row_of rec']\<rparr>\<rparr>)"
    "ms_ID rec' = tb_sequence (db_tables d) + 1" "ms_Text rec' = ms_Text rec" "ms_Peer rec' = ms_Peer rec"
    "ms_Direction rec' = MessageOut" "ms_Receptions rec' = ms_Receptions rec" by auto
  then show ?thesis
    by (intro exI [of _ "message_row_of rec'"]) (simp add: persistOutgoing_def Let_def row_id_def message_row_of_def)
qed

lemma setMessageStatus_ok:
  assumes "db_faults d = []" and "messages_ok (db_tables d)" and "tb_messages (db_tables d) = rows @ [r]" and "row_id r \<noteq> 0"
  shows "setMessageStatus (row_id r) st code d = (Inr (), d\<lparr>db_tables := (db_tables d)\<lparr>tb_messages := rows @ [r\<lparr>mw_rec := (mw_rec r)\<lparr>ms_Status := st,
    ms_AckCode := (if code = [] then ms_AckCode (mw_rec r) else code)\<rparr>\<rparr>]\<rparr>\<rparr>)"
  using assms update_last [OF assms(2, 3)]
  by (cases "code = []") (simp_all add: setMessageStatus_def SetMessageStatus_def row_id_def set_status_def)

lemma messages_ok_ids:
  assumes "map row_id (tb_messages t') = map row_id (tb_messages t)" and "tb_sequence t' = tb_sequence t"
  shows "messages_ok t' = messages_ok t"
proof -
  have "messages_ok x \<longleftrightarrow> distinct (map row_id (tb_messages x)) \<and> list_all (\<lambda>i. i \<le> tb_sequence x) (map row_id (tb_messages x))" for x
    by (simp add: messages_ok_def row_id_def [abs_def] list.pred_map comp_def)
  with assms show ?thesis by metis
qed

lemma send_recorded_ok:
  assumes "session_ok s" and "ss_client s = Some c" and "db_faults (ss_store s) = []" and "0 \<le> tb_sequence (db_tables (ss_store s))"
    and "send c = Finished (res, c')"
  shows "\<exists>s' r. send_recorded rec send code s = Finished (map_sum RadioError id res, s') \<and>
    tb_messages (db_tables (ss_store s')) = tb_messages (db_tables (ss_store s)) @ [r] \<and> db_faults (ss_store s') = [] \<and>
    messages_ok (db_tables (ss_store s')) \<and> ms_Text (mw_rec r) = ms_Text rec \<and> ms_Peer (mw_rec r) = ms_Peer rec \<and>
    ms_Direction (mw_rec r) = MessageOut \<and> ms_Receptions (mw_rec r) = ms_Receptions rec \<and>
    (case res of Inl _ \<Rightarrow> ms_Status (mw_rec r) = StatusFailed
     | Inr x \<Rightarrow> ms_Status (mw_rec r) = StatusSent \<and> (code x \<noteq> [] \<longrightarrow> ms_AckCode (mw_rec r) = code x))"
proof -
  let ?d = "ss_store s"
  obtain r where r: "persistOutgoing (ss_now s) rec ?d = (Inr (row_id r), ?d\<lparr>db_tables := (db_tables ?d)\<lparr>tb_sequence := row_id r,
      tb_messages := tb_messages (db_tables ?d) @ [r]\<rparr>\<rparr>)" "row_id r = tb_sequence (db_tables ?d) + 1" "ms_Text (mw_rec r) = ms_Text rec"
    "ms_Peer (mw_rec r) = ms_Peer rec" "ms_Direction (mw_rec r) = MessageOut" "ms_Receptions (mw_rec r) = ms_Receptions rec"
    using persistOutgoing_ok [OF assms(3), of "ss_now s" rec] by blast
  define d1 where "d1 = ?d\<lparr>db_tables := (db_tables ?d)\<lparr>tb_sequence := row_id r, tb_messages := tb_messages (db_tables ?d) @ [r]\<rparr>\<rparr>"
  have d1: "db_faults d1 = []" "tb_messages (db_tables d1) = tb_messages (db_tables ?d) @ [r]" using assms(3) by (simp_all add: d1_def)
  have ok: "messages_ok (db_tables d1)"
    using keepsD [OF keeps_messages(2), of ?d "ss_now s" rec] assms(1) r(1) by (simp add: d1_def session_ok_def grows_def)
  have nz: "row_id r \<noteq> 0" using r(2) assms(4) by simp
  note st = setMessageStatus_ok [OF d1(1) ok d1(2) nz]
  have ok2: "messages_ok ((db_tables d1)\<lparr>tb_messages := tb_messages (db_tables ?d) @ [x]\<rparr>)" if "row_id x = row_id r" for x
    using ok messages_ok_ids [of "(db_tables d1)\<lparr>tb_messages := tb_messages (db_tables ?d) @ [x]\<rparr>" "db_tables d1"] d1(2) that by simp
  let ?s1 = "s\<lparr>ss_store := d1, ss_client := Some c', ss_now := w_now c'\<rparr>"
  have sent: "send_recorded rec send code s = (case map_sum RadioError id res of
         Inl e \<Rightarrow> s_bind (in_store (setMessageStatus (row_id r) StatusFailed [])) (\<lambda>_. s_err e)
       | Inr receipt \<Rightarrow> s_bind (in_store (setMessageStatus (row_id r) StatusSent (code receipt))) (\<lambda>_. s_ret receipt)) ?s1"
    using r(1) assms(2, 5) by (simp add: send_recorded_def s_get_def s_bind_def in_store_def s_try_def on_client_def d1_def)
  show ?thesis
  proof (cases res)
    case (Inl e)
    then show ?thesis using sent r d1 st [of StatusFailed "[]"] ok2 [of "r\<lparr>mw_rec := (mw_rec r)\<lparr>ms_Status := StatusFailed\<rparr>\<rparr>"]
      by (simp add: s_bind_def in_store_def s_err_def row_id_def)
  next
    case (Inr x)
    then show ?thesis using sent r d1 st [of StatusSent "code x"]
        ok2 [of "r\<lparr>mw_rec := (mw_rec r)\<lparr>ms_Status := StatusSent, ms_AckCode := (if code x = [] then ms_AckCode (mw_rec r) else code x)\<rparr>\<rparr>"]
      by (simp add: s_bind_def in_store_def s_ret_def row_id_def)
  qed
qed

text \<open>The loop of \<open>AppendAck\<close> rewrites each waiting row.\<close>

lemma update_rows:
  assumes "messages_ok t" and "set rs \<subseteq> set (tb_messages t)" and "distinct (map row_id rs)" and "\<And>r. row_id (f r r) = row_id r"
  shows "tb_messages (fold (\<lambda>r. update_messages (\<lambda>x. ms_ID (mw_rec x) = ms_ID (mw_rec r)) (f r)) rs t) =
    map (\<lambda>x. if x \<in> set rs then f x x else x) (tb_messages t)"
  using assms(1-3)
proof (induction rs arbitrary: t)
  case (Cons r rs)
  let ?t = "update_messages (\<lambda>x. ms_ID (mw_rec x) = ms_ID (mw_rec r)) (f r) t"
  have t: "tb_messages ?t = map (\<lambda>x. if x = r then f r r else x) (tb_messages t)"
    using same_row [OF Cons.prems(1)] Cons.prems(2) by (auto simp: update_messages_def)
  have ids: "map row_id (tb_messages ?t) = map row_id (tb_messages t)" unfolding t using assms(4) by simp
  then have "messages_ok ?t" using Cons.prems(1) messages_ok_ids [of ?t t] by (simp add: update_messages_def)
  moreover have "r \<notin> set rs" "set rs \<subseteq> set (tb_messages t)" using Cons.prems(2, 3) by auto
  then have "set rs \<subseteq> set (tb_messages ?t)" unfolding t by auto
  moreover have "f r r \<notin> set rs" using Cons.prems(3) assms(4) [of r] by (metis distinct.simps(2) image_eqI list.simps(9) set_map)
  ultimately show ?case using Cons.IH [of ?t] Cons.prems(3) t \<open>r \<notin> set rs\<close> by auto
qed simp

lemma AppendAck_ok:
  assumes "db_faults d = []" and "messages_ok (db_tables d)" and "code \<noteq> []"
  shows "\<exists>d'. AppendAck code a d = (Inr (), d') \<and>
    tb_messages (db_tables d') = map (\<lambda>r. if awaits_ack code r then acked_row a r else r) (tb_messages (db_tables d))"
proof -
  let ?f = "\<lambda>r x. x\<lparr>mw_rec := (mw_rec x)\<lparr>ms_Status := StatusDelivered, ms_Receptions := ms_Receptions (mw_rec (acked_row a r))\<rparr>,
              mw_acknowledged_at := mw_acknowledged_at (acked_row a r)\<rparr>"
  have "distinct (map row_id (filter (awaits_ack code) (tb_messages (db_tables d))))"
    using assms(2) unfolding messages_ok_def row_id_def by (simp add: distinct_map inj_on_def)
  from update_rows [OF assms(2) _ this, of ?f]
  have "tb_messages (fold (\<lambda>r. update_messages (\<lambda>x. ms_ID (mw_rec x) = ms_ID (mw_rec r)) (?f r)) (filter (awaits_ack code) (tb_messages (db_tables d))) (db_tables d)) =
    map (\<lambda>r. if awaits_ack code r then acked_row a r else r) (tb_messages (db_tables d))"
    by (simp add: row_id_def acked_row_def)
  then show ?thesis using assms(1, 3) by (simp add: AppendAck_def)
qed

lemma recordAck_ok:
  assumes "db_faults d = []" and "messages_ok (db_tables d)" and "code \<noteq> []"
  shows "\<exists>d'. recordAck now code rtt d = (Inr (), d') \<and> tb_messages (db_tables d') = map (\<lambda>r. if awaits_ack code r
    then acked_row \<lparr>re_At = now, re_SNR = 0, re_PathLen = 0, re_RTTMs = Milliseconds rtt\<rparr> r else r) (tb_messages (db_tables d))"
  using AppendAck_ok [OF assms, of "\<lparr>re_At = now, re_SNR = 0, re_PathLen = 0, re_RTTMs = Milliseconds rtt\<rparr>"] assms(3)
  by (auto simp: recordAck_def)

text \<open>An acknowledgement that comes before the code of its message is stored changes nothing, and the
  message stays unacknowledged.\<close>

lemma early_ack_lost:
  assumes "db_faults d = []" and "messages_ok (db_tables d)" and "list_all (\<lambda>r. \<not> awaits_ack code r) (tb_messages (db_tables d))"
  shows "tb_messages (db_tables (snd (recordAck now code rtt d))) = tb_messages (db_tables d)"
proof (cases "code = []")
  case False
  have "map (\<lambda>r. if awaits_ack code r then f r else r) (tb_messages (db_tables d)) = tb_messages (db_tables d)" for f
    using assms(3) by (simp add: list_all_iff map_idI)
  with recordAck_ok [OF assms(1, 2) False, of now rtt] show ?thesis by auto
qed (simp add: recordAck_def)



end
