(* ===== verification/Daemon.thy ===== *)
theory Daemon
  imports Session_Dispatch
begin

text \<open>
  The backend daemon (\<open>backend/daemon.go\<close>): the registered profiles, the running sessions, and the requests
  it answers itself or hands to a session. A map of the source is a list of pairs with distinct keys.

  The database files are part of the daemon: what a session has stored is written to its file whenever the
  session returns to the daemon. Two profiles of the same device, which share a file, are not followed. What
  starting a session meets, the dialer and the failures of its database, is given by \<open>dial_env\<close>.
\<close>

section \<open>State\<close>

record session_profile =
  sp_ID :: string
  sp_URI :: string
  sp_PublicKey :: string
  sp_Bridges :: "bridge_config list"
  sp_Autostart :: bool

record daemon =
  dm_profiles :: "(string \<times> session_profile) list"
  dm_sessions :: "(string \<times> device_session) list"
  dm_order :: "string list"
  dm_defaultID :: string
  dm_listening :: bool
  dm_startedAt :: go_time
  dm_files :: files

datatype daemon_error =
    SessionFailed session_error
  | UnknownDevice string
  | DeviceNotRunning string
  | NoDeviceSelected
  | NotDecoded string

record dial_env =
  de_unicode :: unicode
  de_now :: go_time
  de_faults :: "string option list"
  de_dialed :: "(dial_error + client) outcome"

definition NewDaemon :: "files \<Rightarrow> daemon" where
  "NewDaemon files = \<lparr>dm_profiles = [], dm_sessions = [], dm_order = [], dm_defaultID = [], dm_listening = False,
     dm_startedAt = zero_time, dm_files = files\<rparr>"

definition Register_profile :: "session_profile \<Rightarrow> daemon \<Rightarrow> daemon" where
  "Register_profile p0 d =
     (let p = (if sp_ID p0 = [] then p0\<lparr>sp_ID := sessionSlug (sp_URI p0)\<rparr> else p0);
          d = (if map_of (dm_profiles d) (sp_ID p) = None then d\<lparr>dm_order := dm_order d @ [sp_ID p]\<rparr> else d);
          d = d\<lparr>dm_profiles := AList.update (sp_ID p) p (dm_profiles d)\<rparr>
      in if dm_defaultID d = [] then d\<lparr>dm_defaultID := sp_ID p\<rparr> else d)"

definition SetDefault :: "string \<Rightarrow> daemon \<Rightarrow> daemon" where
  "SetDefault i d = d\<lparr>dm_defaultID := i\<rparr>"

section \<open>Sessions\<close>

definition put_session :: "unicode \<Rightarrow> string \<Rightarrow> device_session \<Rightarrow> daemon \<Rightarrow> daemon" where
  "put_session u i s d =
     d\<lparr>dm_sessions := AList.update i s (dm_sessions d), dm_files := (dm_files d)(StatePrefix u (ss_publicKey s) \<mapsto> db_tables (ss_store s))\<rparr>"

definition startSession :: "dial_env \<Rightarrow> string \<Rightarrow> daemon \<Rightarrow> ((daemon_error + unit) \<times> daemon) outcome" where
  "startSession e i d =
     (if map_of (dm_sessions d) i \<noteq> None then Finished (Inr (), d)
      else case map_of (dm_profiles d) i of
        None \<Rightarrow> Finished (Inl (UnknownDevice i), d)
      | Some p \<Rightarrow>
          and_then (newSession (de_unicode e) (de_now e) (de_faults e) (de_dialed e) (sp_URI p)
              \<lparr>so_ID = i, so_PublicKey = sp_PublicKey p, so_Bridges = sp_Bridges p\<rparr> (dm_files d)) (\<lambda>(r, files).
            let d = d\<lparr>dm_files := files\<rparr> in
            case r of
              Inl err \<Rightarrow> Finished (Inl (SessionFailed err), d)
            | Inr s \<Rightarrow> Finished (Inr (), put_session (de_unicode e) i (snd (startBridges (de_unicode e) (snd (start_session s)))) d)))"

definition stopSession :: "string \<Rightarrow> daemon \<Rightarrow> ((daemon_error + bool) \<times> daemon) outcome" where
  "stopSession i d =
     (case map_of (dm_sessions d) i of
        None \<Rightarrow> Finished (if map_of (dm_profiles d) i = None then Inl (UnknownDevice i) else Inr False, d)
      | Some s \<Rightarrow> and_then (stop_session s) (\<lambda>_. Finished (Inr True, d\<lparr>dm_sessions := AList.delete i (dm_sessions d)\<rparr>)))"

definition runningSession :: "string \<Rightarrow> daemon \<Rightarrow> bool" where
  "runningSession i d = (map_of (dm_sessions d) i \<noteq> None)"

fun stop_each :: "device_session list \<Rightarrow> unit outcome" where
  "stop_each [] = Finished ()"
| "stop_each (s # ss) = and_then (stop_session s) (\<lambda>_. stop_each ss)"

definition stopAllSessions :: "daemon \<Rightarrow> daemon outcome" where
  "stopAllSessions d = and_then (stop_each (map snd (dm_sessions d))) (\<lambda>_. Finished (d\<lparr>dm_sessions := []\<rparr>))"

text \<open>The session a request is for, with the key it is kept under.\<close>

definition session_for :: "string \<Rightarrow> daemon \<Rightarrow> daemon_error + string \<times> device_session" where
  "session_for i0 d =
     (let i = (if i0 = [] then dm_defaultID d else i0) in
      if i = [] then Inl NoDeviceSelected
      else case map_of (dm_sessions d) i of
        Some s \<Rightarrow> Inr (i, s)
      | None \<Rightarrow> Inl (if map_of (dm_profiles d) i \<noteq> None then DeviceNotRunning i else UnknownDevice i))"

text \<open>The sessions that the daemon starts by itself; each is started in its own goroutine.\<close>

definition autostart_ids :: "daemon \<Rightarrow> string list" where
  "autostart_ids d = filter (\<lambda>i. case map_of (dm_profiles d) i of None \<Rightarrow> False | Some p \<Rightarrow> sp_Autostart p) (dm_order d)"

definition Serve :: "go_time \<Rightarrow> daemon \<Rightarrow> string list \<times> daemon" where
  "Serve now d = (autostart_ids d, d\<lparr>dm_listening := True, dm_startedAt := now\<rparr>)"

definition Stop_daemon :: "daemon \<Rightarrow> daemon" where
  "Stop_daemon d = d\<lparr>dm_listening := False\<rparr>"

section \<open>Lists of devices\<close>

definition stopped_entry :: "string \<Rightarrow> string \<Rightarrow> session_profile option \<Rightarrow> device_list_entry" where
  "stopped_entry defID i p =
     (let uri = (case p of None \<Rightarrow> [] | Some p \<Rightarrow> sp_URI p) in
      \<lparr>dl_ID = i, dl_Default = (i = defID), dl_Session = Stopped, dl_Connected = False, dl_Replica = [], dl_Contacts = None,
       dl_Channels = None, dl_Transport = Scheme uri, dl_URI = uri, dl_LastError = None\<rparr>)"

definition listed_ids :: "daemon \<Rightarrow> string list" where
  "listed_ids d =
     (if dm_defaultID d \<noteq> [] then dm_defaultID d # filter (\<lambda>i. i \<noteq> dm_defaultID d) (dm_order d) else dm_order d)"

definition deviceList :: "daemon \<Rightarrow> device_list_entry list" where
  "deviceList d =
     map (\<lambda>i. case map_of (dm_sessions d) i of
         Some s \<Rightarrow> listEntry (i = dm_defaultID d) s
       | None \<Rightarrow> stopped_entry (dm_defaultID d) i (map_of (dm_profiles d) i)) (listed_ids d)"

record daemon_status =
  ds_StartedAt :: go_time
  ds_UptimeSec :: int
  ds_DefaultID :: string
  ds_Devices :: "device_list_entry list"

definition backendStatus :: "go_time \<Rightarrow> daemon \<Rightarrow> daemon_status" where
  "backendStatus now d =
     \<lparr>ds_StartedAt = dm_startedAt d,
      ds_UptimeSec = (if IsZero (dm_startedAt d) then 0 else let e = time_Since now (dm_startedAt d) in sgn e * (\<bar>e\<bar> div second)),
      ds_DefaultID = dm_defaultID d, ds_Devices = deviceList d\<rparr>"

section \<open>Requests\<close>

text \<open>A decoded request. The methods of the daemon that act on a device carry the device of their
  parameters, empty when there is none.\<close>

datatype daemon_method =
    BackendStatus | DeviceList | DeviceStart string | DeviceStop string | DeviceRestart string | SessionMethod ipc_request

record ipc_call =
  rq_ID :: "64 word"
  rq_Device :: string
  rq_Method :: daemon_method

record device_action =
  da_Device :: string
  da_Running :: bool
  da_Changed :: bool

datatype daemon_reply =
    StopReply
  | DaemonStatusReply daemon_status
  | DeviceListReply "device_list_entry list"
  | ActionReply device_action
  | SessionReply served

record ipc_response =
  rp_ID :: "64 word"
  rp_Result :: "daemon_error + daemon_reply"

definition deviceArg :: "ipc_call \<Rightarrow> string \<Rightarrow> daemon \<Rightarrow> string" where
  "deviceArg req p d = (if rq_Device req \<noteq> [] then rq_Device req else if p \<noteq> [] then p else dm_defaultID d)"

text \<open>\<open>marshal\<close> is the JSON encoder, which may refuse a value. What a session answers it has encoded itself.\<close>

fun encoded :: "(daemon_reply \<Rightarrow> daemon_error option) \<Rightarrow> daemon_error + daemon_reply \<Rightarrow> daemon_error + daemon_reply" where
  "encoded marshal (Inl e) = Inl e"
| "encoded marshal (Inr (SessionReply x)) = Inr (SessionReply x)"
| "encoded marshal (Inr x) = (case marshal x of Some e \<Rightarrow> Inl e | None \<Rightarrow> Inr x)"

definition respond :: "(daemon_reply \<Rightarrow> daemon_error option) \<Rightarrow> ipc_call \<Rightarrow> daemon_error + daemon_reply \<Rightarrow> ipc_response" where
  "respond marshal req r = \<lparr>rp_ID = rq_ID req, rp_Result = encoded marshal r\<rparr>"

definition action_reply :: "string \<Rightarrow> bool \<Rightarrow> bool \<Rightarrow> daemon_error + 'a \<Rightarrow> daemon_error + daemon_reply" where
  "action_reply i running changed r = map_sum id (\<lambda>_. ActionReply \<lparr>da_Device = i, da_Running = running, da_Changed = changed\<rparr>) r"

definition served_reply :: "session_error + served \<Rightarrow> daemon_error + daemon_reply" where
  "served_reply r =
     (case r of
        Inl e \<Rightarrow> Inl (SessionFailed e)
      | Inr x \<Rightarrow> (case sv_Error x of Some e \<Rightarrow> Inl (SessionFailed e) | None \<Rightarrow> Inr (SessionReply x)))"

text \<open>Starting and restarting a device and handing a request to a session.\<close>

definition device_start :: "dial_env \<Rightarrow> string \<Rightarrow> daemon \<Rightarrow> ((daemon_error + daemon_reply) \<times> daemon) outcome" where
  "device_start e i d =
     and_then (startSession e i d) (\<lambda>(r, d'). Finished (action_reply i True (\<not> runningSession i d) r, d'))"

definition device_stop :: "string \<Rightarrow> daemon \<Rightarrow> ((daemon_error + daemon_reply) \<times> daemon) outcome" where
  "device_stop i d = and_then (stopSession i d) (\<lambda>(r, d'). Finished (action_reply i False (r = Inr True) r, d'))"

definition device_restart :: "dial_env \<Rightarrow> string \<Rightarrow> daemon \<Rightarrow> ((daemon_error + daemon_reply) \<times> daemon) outcome" where
  "device_restart e i d =
     and_then (stopSession i d) (\<lambda>(r, d'). case r of
         Inl err \<Rightarrow> Finished (Inl err, d')
       | Inr _ \<Rightarrow> and_then (startSession e i d') (\<lambda>(r, d''). Finished (action_reply i True True r, d'')))"

definition session_request :: "backend_env \<Rightarrow> string \<Rightarrow> ipc_request \<Rightarrow> daemon \<Rightarrow> ((daemon_error + daemon_reply) \<times> daemon) outcome" where
  "session_request env dev req d =
     (case session_for dev d of
        Inl e \<Rightarrow> Finished (Inl e, d)
      | Inr (i, s) \<Rightarrow> and_then (serve env req s) (\<lambda>(r, s'). Finished (served_reply r, put_session (be_unicode env) i s' d)))"

text \<open>The answer to a request and the daemon afterwards.\<close>

fun handle_method :: "backend_env \<Rightarrow> dial_env \<Rightarrow> ipc_call \<Rightarrow> daemon_method \<Rightarrow> daemon \<Rightarrow> ((daemon_error + daemon_reply) \<times> daemon) outcome" where
  "handle_method env e req (SessionMethod RStop) d = Finished (Inr StopReply, Stop_daemon d)"
| "handle_method env e req BackendStatus d = Finished (Inr (DaemonStatusReply (backendStatus (de_now e) d)), d)"
| "handle_method env e req DeviceList d = Finished (Inr (DeviceListReply (deviceList d)), d)"
| "handle_method env e req (DeviceStart p) d = device_start e (deviceArg req p d) d"
| "handle_method env e req (DeviceStop p) d = device_stop (deviceArg req p d) d"
| "handle_method env e req (DeviceRestart p) d = device_restart e (deviceArg req p d) d"
| "handle_method env e req (SessionMethod r) d = session_request env (rq_Device req) r d"

definition handle :: "(daemon_reply \<Rightarrow> daemon_error option) \<Rightarrow> backend_env \<Rightarrow> dial_env \<Rightarrow> string + ipc_call \<Rightarrow> daemon \<Rightarrow> (ipc_response \<times> daemon) outcome" where
  "handle marshal env e input d =
     (case input of
        Inl err \<Rightarrow> Finished (\<lparr>rp_ID = 0, rp_Result = Inl (NotDecoded err)\<rparr>, d)
      | Inr req \<Rightarrow> and_then (handle_method env e req (rq_Method req) d) (\<lambda>(r, d'). Finished (respond marshal req r, d')))"

section \<open>Well-formed daemons\<close>

definition daemon_ok :: "daemon \<Rightarrow> bool" where
  "daemon_ok d \<longleftrightarrow> distinct (dm_order d) \<and> [] \<notin> set (dm_order d) \<and> set (dm_order d) = dom (map_of (dm_profiles d)) \<and>
     distinct (map fst (dm_sessions d)) \<and> files_ok (dm_files d) \<and>
     (\<forall>i s. map_of (dm_sessions d) i = Some s \<longrightarrow> i \<in> set (dm_order d) \<and> session_ok s \<and> ss_id s = i)"

lemma daemon_ok_session:
  assumes "daemon_ok d" and "map_of (dm_sessions d) i = Some s"
  shows "i \<in> set (dm_order d)" and "session_ok s" and "ss_id s = i"
  using assms unfolding daemon_ok_def by blast+

lemma daemon_ok_New: "files_ok files \<Longrightarrow> daemon_ok (NewDaemon files)"
  by (simp add: daemon_ok_def NewDaemon_def)

lemma sessionSlug_neq_Nil [simp]: "sessionSlug uri \<noteq> []" "[] \<noteq> sessionSlug uri"
  by (simp_all add: sessionSlug_def Let_def)

lemma daemon_ok_Register: "daemon_ok d \<Longrightarrow> daemon_ok (Register_profile p d)"
  by (auto simp: daemon_ok_def Register_profile_def Let_def update_conv' split: if_splits)

lemma daemon_ok_flags [simp]:
  "daemon_ok (SetDefault i d) = daemon_ok d" "daemon_ok (Stop_daemon d) = daemon_ok d" "daemon_ok (snd (Serve now d)) = daemon_ok d"
  by (simp_all add: daemon_ok_def SetDefault_def Stop_daemon_def Serve_def)

lemma map_of_put_session [simp]: "map_of (dm_sessions (put_session u i s d)) = (map_of (dm_sessions d))(i \<mapsto> s)"
  by (simp add: put_session_def update_conv')

lemma put_session_simps [simp]:
  "dm_order (put_session u i s d) = dm_order d" "dm_profiles (put_session u i s d) = dm_profiles d"
  "dm_defaultID (put_session u i s d) = dm_defaultID d"
  "dm_files (put_session u i s d) = (dm_files d)(StatePrefix u (ss_publicKey s) \<mapsto> db_tables (ss_store s))"
  by (simp_all add: put_session_def)

lemma files_ok_upd: "files_ok files \<Longrightarrow> messages_ok t \<Longrightarrow> files_ok (files(n \<mapsto> t))"
  by (auto simp: files_ok_def)

lemma daemon_ok_put:
  assumes "daemon_ok d" and "session_ok s" and "ss_id s = i" and "i \<in> set (dm_order d)"
  shows "daemon_ok (put_session u i s d)"
proof -
  have "messages_ok (db_tables (ss_store s))" using assms(2) by (simp add: session_ok_def)
  with assms show ?thesis unfolding daemon_ok_def
    by (auto simp: files_ok_upd put_session_def distinct_update update_conv' split: if_splits)
qed

lemma daemon_ok_files: "daemon_ok d \<Longrightarrow> files_ok files \<Longrightarrow> daemon_ok (d\<lparr>dm_files := files\<rparr>)"
  unfolding daemon_ok_def by auto

lemma daemon_ok_delete: "daemon_ok d \<Longrightarrow> daemon_ok (d\<lparr>dm_sessions := AList.delete i (dm_sessions d)\<rparr>)"
  unfolding daemon_ok_def by (auto simp: delete_conv' distinct_delete split: if_splits)

section \<open>Requests keep the daemon well formed\<close>

text \<open>The step \<open>m\<close> of a daemon returns, keeps it well formed, and leaves every device but \<open>i\<close> and the profiles
  alone.\<close>

definition touches :: "string \<Rightarrow> daemon \<Rightarrow> daemon \<Rightarrow> bool" where
  "touches i d d' \<longleftrightarrow> dm_profiles d' = dm_profiles d \<and> dm_order d' = dm_order d \<and> dm_defaultID d' = dm_defaultID d \<and>
     (\<forall>j. j \<noteq> i \<longrightarrow> map_of (dm_sessions d') j = map_of (dm_sessions d) j)"

lemma touches_refl [simp]: "touches i d d"
  by (simp add: touches_def)

lemma touches_trans: "touches i d d' \<Longrightarrow> touches i d' d'' \<Longrightarrow> touches i d d''"
  by (simp add: touches_def)

definition step_ok :: "string \<Rightarrow> daemon \<Rightarrow> ('r \<times> daemon) outcome \<Rightarrow> bool" where
  "step_ok i d m \<longleftrightarrow> m \<noteq> Panicked \<and> (\<forall>r d'. m = Finished (r, d') \<longrightarrow> daemon_ok d' \<and> touches i d d')"

lemma step_ok_Finished [simp]: "step_ok i d (Finished (r, d')) \<longleftrightarrow> daemon_ok d' \<and> touches i d d'"
  by (auto simp: step_ok_def)

lemma step_ok_then:
  assumes "step_ok i d m" and "\<And>r d'. daemon_ok d' \<Longrightarrow> touches i d d' \<Longrightarrow> m = Finished (r, d') \<Longrightarrow> step_ok i d' (f (r, d'))"
  shows "step_ok i d (and_then m f)"
proof (cases m)
  case (Finished x)
  obtain r d' where x: "x = (r, d')" by force
  then have "daemon_ok d'" "touches i d d'" using assms(1) Finished by (simp_all add: step_ok_def)
  moreover from assms(2) [OF this] Finished x have "step_ok i d' (f (r, d'))" by simp
  ultimately show ?thesis using Finished x by (auto simp: step_ok_def intro: touches_trans)
qed (use assms(1) in \<open>simp_all add: step_ok_def\<close>)

definition env_ok :: "dial_env \<Rightarrow> bool" where
  "env_ok e \<longleftrightarrow> unicode_ok (de_unicode e) \<and> dial_ok (de_dialed e)"

lemma started_ok:
  assumes "session_ok s"
  shows "session_ok (snd (startBridges u (snd (start_session s))))" "ss_id (snd (startBridges u (snd (start_session s)))) = ss_id s"
    "ss_publicKey (snd (startBridges u (snd (start_session s)))) = ss_publicKey s"
    "ss_store (snd (startBridges u (snd (start_session s)))) = ss_store s"
proof -
  have "ss_state (snd (start_bridges u cfgs s)) = ss_state s \<and> ss_client (snd (start_bridges u cfgs s)) = ss_client s \<and>
      ss_store (snd (start_bridges u cfgs s)) = ss_store s \<and> ss_id (snd (start_bridges u cfgs s)) = ss_id s \<and>
      ss_publicKey (snd (start_bridges u cfgs s)) = ss_publicKey s" for cfgs s
  proof (induction cfgs arbitrary: s)
    case (Cons cfg cfgs)
    show ?case using Cons.IH [of s] Cons.IH [of "addBridgeRuntime (bridge_of u cfg) s"]
        Cons.IH [of "snd (setBridgeError (UnknownBridgeType (bc_Type cfg)) (bridge_of u cfg) (addBridgeRuntime (bridge_of u cfg) s))"]
      by (simp add: Let_def addBridgeRuntime_def setBridgeError_def case_prod_beta)
  qed simp
  with assms show "session_ok (snd (startBridges u (snd (start_session s))))" "ss_id (snd (startBridges u (snd (start_session s)))) = ss_id s"
    "ss_publicKey (snd (startBridges u (snd (start_session s)))) = ss_publicKey s"
    "ss_store (snd (startBridges u (snd (start_session s)))) = ss_store s"
    by (simp_all add: startBridges_def start_session_def session_ok_def)
qed

lemma startSession_ok:
  assumes "daemon_ok d" and "env_ok e"
  shows "step_ok i d (startSession e i d)"
proof (cases "map_of (dm_sessions d) i = None \<and> map_of (dm_profiles d) i \<noteq> None")
  case True
  then obtain p where p: "map_of (dm_profiles d) i = Some p" by auto
  have i: "i \<in> set (dm_order d)" "i \<noteq> []" using assms(1) p by (auto simp: daemon_ok_def)
  let ?cfg = "\<lparr>so_ID = i, so_PublicKey = sp_PublicKey p, so_Bridges = sp_Bridges p\<rparr>"
  let ?n = "newSession (de_unicode e) (de_now e) (de_faults e) (de_dialed e) (sp_URI p) ?cfg (dm_files d)"
  have n: "opens (de_unicode e) i (dm_files d) ?n"
    using newSession_opens [of "de_unicode e" "dm_files d" "de_dialed e" ?cfg] assms i(2) by (simp add: env_ok_def daemon_ok_def)
  show ?thesis
  proof (cases ?n)
    case (Finished x)
    obtain r files where x: "x = (r, files)" by force
    have ok: "daemon_ok (d\<lparr>dm_files := files\<rparr>)" using n Finished x daemon_ok_files [OF assms(1)] by (simp add: opens_def)
    show ?thesis
    proof (cases r)
      case (Inr s)
      then have s: "session_ok s" "ss_id s = i" using n Finished x by (simp_all add: opens_def)
      have "daemon_ok (put_session (de_unicode e) i (snd (startBridges (de_unicode e) (snd (start_session s)))) (d\<lparr>dm_files := files\<rparr>))"
        using started_ok [OF s(1)] s(2) i(1) by (intro daemon_ok_put [OF ok]) simp_all
      with Inr True p Finished x show ?thesis by (simp add: startSession_def touches_def)
    qed (use True p Finished x ok in \<open>simp add: startSession_def touches_def\<close>)
  qed (use True p n in \<open>simp_all add: startSession_def step_ok_def opens_def\<close>)
qed (use assms in \<open>auto simp: startSession_def split: option.split\<close>)

lemma stop_session_returns: "session_ok s \<Longrightarrow> \<exists>r s'. stop_session s = Finished (r, s')"
  by (auto simp: stop_session_def close_old_ok s_ret_def)

lemma stopSession_ok:
  assumes "daemon_ok d"
  shows "step_ok i d (stopSession i d)"
proof (cases "map_of (dm_sessions d) i")
  case (Some s)
  with stop_session_returns [OF daemon_ok_session(2) [OF assms Some]] daemon_ok_delete [OF assms] show ?thesis
    by (auto simp: stopSession_def touches_def delete_conv')
qed (use assms in \<open>simp add: stopSession_def\<close>)

lemma session_request_ok:
  assumes "daemon_ok d" and "crash_free req"
  shows "step_ok (if dev = [] then dm_defaultID d else dev) d (session_request env dev req d)"
proof (cases "session_for dev d")
  case (Inr x)
  obtain i s where x: "x = (i, s)" by force
  have i: "i = (if dev = [] then dm_defaultID d else dev)" "map_of (dm_sessions d) i = Some s"
    using Inr x by (auto simp: session_for_def Let_def split: if_splits option.splits)
  note s = daemon_ok_session [OF assms(1) i(2)]
  have sf: "s_safe False (serve env req)" by (rule s_safe_serve [OF assms(2)])
  show ?thesis
  proof (cases "serve env req s")
    case (Finished y)
    obtain r s' where y: "y = (r, s')" by force
    have "keep s s'" using s_safeD(2) [OF sf s(2)] Finished y by blast
    then have "daemon_ok (put_session (be_unicode env) i s' d)" using s by (intro daemon_ok_put [OF assms(1)]) (simp_all add: keep_def)
    with Inr x Finished y i(1) show ?thesis by (auto simp: session_request_def touches_def)
  qed (use s_safeD(1) [OF sf s(2)] Inr x in \<open>auto simp: session_request_def step_ok_def\<close>)
qed (use assms in \<open>simp add: session_request_def\<close>)

text \<open>The device a request is for.\<close>

definition target :: "ipc_call \<Rightarrow> daemon \<Rightarrow> string" where
  "target req d =
     (case rq_Method req of
        DeviceStart p \<Rightarrow> deviceArg req p d
      | DeviceStop p \<Rightarrow> deviceArg req p d
      | DeviceRestart p \<Rightarrow> deviceArg req p d
      | _ \<Rightarrow> if rq_Device req = [] then dm_defaultID d else rq_Device req)"

definition call_ok :: "ipc_call \<Rightarrow> bool" where
  "call_ok req = (case rq_Method req of SessionMethod r \<Rightarrow> crash_free r | _ \<Rightarrow> True)"

lemma Stop_daemon_ok: "daemon_ok d \<Longrightarrow> step_ok i d (Finished (r, Stop_daemon d))"
  by (simp add: touches_def) (simp add: Stop_daemon_def)

lemma handle_method_ok:
  assumes "daemon_ok d" and "env_ok e" and "call_ok req"
  shows "step_ok (target req d) d (handle_method env e req (rq_Method req) d)"
proof (cases "rq_Method req")
  case (DeviceStart p)
  then show ?thesis
    by (auto simp: target_def device_start_def intro!: step_ok_then [OF startSession_ok [OF assms(1, 2)]])
next
  case (DeviceStop p)
  then show ?thesis by (auto simp: target_def device_stop_def intro!: step_ok_then [OF stopSession_ok [OF assms(1)]])
next
  case (DeviceRestart p)
  have "step_ok i d (device_restart e i d)" for i
    unfolding device_restart_def
  proof (rule step_ok_then [OF stopSession_ok [OF assms(1)]])
    fix r d1
    assume ok: "daemon_ok d1"
    show "step_ok i d1 (case (r, d1) of (r, d') \<Rightarrow> case r of Inl err \<Rightarrow> Finished (Inl err, d')
       | Inr _ \<Rightarrow> and_then (startSession e i d') (\<lambda>(r, d''). Finished (action_reply i True True r, d'')))"
      using ok by (cases r) (auto intro!: step_ok_then [OF startSession_ok [OF ok assms(2)]])
  qed
  with DeviceRestart show ?thesis by (simp add: target_def)
next
  case (SessionMethod r)
  have "handle_method env e req (rq_Method req) d =
      (if r = RStop then Finished (Inr StopReply, Stop_daemon d) else session_request env (rq_Device req) r d)"
    using SessionMethod by (cases r) simp_all
  with SessionMethod session_request_ok [OF assms(1), of r "rq_Device req" env] Stop_daemon_ok [OF assms(1)] assms(3) show ?thesis
    by (simp add: target_def call_ok_def)
qed (use assms(1) in simp_all)

lemma handle_ok:
  assumes "daemon_ok d" and "env_ok e" and "call_ok req"
  shows "step_ok (target req d) d (handle marshal env e (Inr req) d)"
proof -
  have "step_ok (target req d) d (and_then (handle_method env e req (rq_Method req) d) (\<lambda>(r, d'). Finished (respond marshal req r, d')))"
    by (rule step_ok_then [OF handle_method_ok [OF assms]]) simp
  then show ?thesis by (simp add: handle_def)
qed

section \<open>Runs of the daemon\<close>

text \<open>Requests, starts in the background, the work of the sessions, and the end of the daemon, in any order.\<close>

inductive daemon_step :: "(daemon_reply \<Rightarrow> daemon_error option) \<Rightarrow> backend_env \<Rightarrow> daemon \<Rightarrow> daemon \<Rightarrow> bool" for marshal env where
  register: "daemon_step marshal env d (Register_profile p d)"
| default: "daemon_step marshal env d (SetDefault i d)"
| listen: "daemon_step marshal env d (snd (Serve now d))"
| bad_request: "handle marshal env e (Inl err) d = Finished (resp, d') \<Longrightarrow> daemon_step marshal env d d'"
| request: "env_ok e \<Longrightarrow> call_ok req \<Longrightarrow> handle marshal env e (Inr req) d = Finished (resp, d') \<Longrightarrow> daemon_step marshal env d d'"
| autostart: "env_ok e \<Longrightarrow> startSession e i d = Finished (r, d') \<Longrightarrow> daemon_step marshal env d d'"
| work: "map_of (dm_sessions d) i = Some s \<Longrightarrow> session_step env (s, js) (s', js') \<Longrightarrow>
    daemon_step marshal env d (put_session (be_unicode env) i s' d)"
| unwind: "stopAllSessions d = Finished d' \<Longrightarrow> daemon_step marshal env d d'"

lemma daemon_step_ok:
  assumes "daemon_step marshal env d d'" and "daemon_ok d"
  shows "daemon_ok d'"
  using assms
proof (induction rule: daemon_step.induct)
  case (request e req d resp d')
  with handle_ok [OF _ request(1, 2)] show ?case by (auto simp: step_ok_def)
next
  case (autostart e i d r d')
  with startSession_ok [OF _ autostart(1)] show ?case by (auto simp: step_ok_def)
next
  case (work d i s js s' js')
  note s = daemon_ok_session [OF work.prems work(1)]
  from session_step_ok [OF work(2)] s(2) have "session_ok s' \<and> ss_id s' = ss_id s" by simp
  with s show ?case by (intro daemon_ok_put [OF work.prems]) simp_all
next
  case (unwind d d')
  then have "d' = d\<lparr>dm_sessions := []\<rparr>" by (cases "stop_each (map snd (dm_sessions d))") (auto simp: stopAllSessions_def)
  with unwind.prems show ?case by (auto simp: daemon_ok_def)
qed (auto simp: daemon_ok_Register handle_def)

lemma listed_ids_set:
  assumes "daemon_ok d" and "dm_defaultID d = [] \<or> dm_defaultID d \<in> set (dm_order d)"
  shows "distinct (listed_ids d)" and "set (listed_ids d) = set (dm_order d)"
  using assms by (auto simp: listed_ids_def daemon_ok_def)

lemma deviceList_ids:
  assumes "daemon_ok d"
  shows "map dl_ID (deviceList d) = listed_ids d"
  using daemon_ok_session(3) [OF assms]
  by (auto simp: deviceList_def listEntry_def stopped_entry_def Let_def comp_def intro!: map_idI split: option.split)





section \<open>Restarts\<close>

lemma startSession_disk:
  assumes "daemon_ok d" and "env_ok e" and "map_of (dm_sessions d) i = None" and "startSession e i d = Finished (r, d')"
  shows "disk_le (dm_files d) (dm_files d') \<and> (case r of Inl _ \<Rightarrow> map_of (dm_sessions d') i = None
    | Inr _ \<Rightarrow> \<exists>s. map_of (dm_sessions d') i = Some s \<and> session_ok s \<and>
        dm_files d' (StatePrefix (de_unicode e) (ss_publicKey s)) = Some (db_tables (ss_store s)))"
proof (cases "map_of (dm_profiles d) i")
  case None
  with assms(1, 3, 4) show ?thesis by (auto simp: startSession_def daemon_ok_def intro: disk_le_refl)
next
  case (Some p)
  have "i \<noteq> []" using assms(1) Some by (auto simp: daemon_ok_def)
  let ?cfg = "\<lparr>so_ID = i, so_PublicKey = sp_PublicKey p, so_Bridges = sp_Bridges p\<rparr>"
  let ?n = "newSession (de_unicode e) (de_now e) (de_faults e) (de_dialed e) (sp_URI p) ?cfg (dm_files d)"
  have n: "opens (de_unicode e) i (dm_files d) ?n"
    using newSession_opens [of "de_unicode e" "dm_files d" "de_dialed e" ?cfg] assms(1, 2) \<open>i \<noteq> []\<close> by (simp add: env_ok_def daemon_ok_def)
  obtain r0 files where x: "?n = Finished (r0, files)" using assms(3, 4) Some by (cases ?n) (auto simp: startSession_def)
  have le: "disk_le (dm_files d) files" using n x by (simp add: opens_def)
  show ?thesis
  proof (cases r0)
    case (Inr s)
    let ?s = "snd (startBridges (de_unicode e) (snd (start_session s)))"
    have s: "session_ok s" "\<And>t. dm_files d (StatePrefix (de_unicode e) (ss_publicKey s)) = Some t \<Longrightarrow> grows t (db_tables (ss_store s))"
      using n x Inr by (simp_all add: opens_def)
    have d': "r = Inr ()" "d' = put_session (de_unicode e) i ?s (d\<lparr>dm_files := files\<rparr>)"
      using assms(3, 4) Some x Inr by (auto simp: startSession_def)
    from le s have "disk_le (dm_files d) (files(StatePrefix (de_unicode e) (ss_publicKey s) \<mapsto> db_tables (ss_store s)))"
      by (simp add: disk_le_def)
    with d' started_ok [OF s(1), of "de_unicode e"] show ?thesis by simp
  qed (use assms(3, 4) Some x le in \<open>auto simp: startSession_def\<close>)
qed



end
