(* ===== verification/Ipc_Client.thy ===== *)
theory Ipc_Client
  imports Daemon
begin

text \<open>
  The client of the daemon (\<open>backend/client.go\<close>). Each call opens a connection, sends one request with the next
  identifier and reads one response; a stream goes on to read items. Requests and responses are values here,
  not their JSON texts. The daemon is the argument \<open>link\<close>: what comes back for a request, and the daemon
  afterwards. A response without a result leaves the result variable of the caller as it was, which is \<open>None\<close>.
\<close>

section \<open>Calls\<close>

record ipc_client =
  ic_device :: string
  ic_nextID :: "64 word"

datatype ipc_error =
    NotReached string
  | NotExchanged string
  | MismatchedID "64 word"
  | Refused daemon_error
  | NotUnmarshaled

type_synonym 'd link = "ipc_call \<Rightarrow> 'd \<Rightarrow> ((string + ipc_response) \<times> 'd) outcome"

type_synonym ('d, 'a) ipc = "ipc_client \<Rightarrow> 'd \<Rightarrow> ((ipc_error + 'a) \<times> ipc_client \<times> 'd) outcome"

definition NewClient :: ipc_client where
  "NewClient = \<lparr>ic_device = [], ic_nextID = 0\<rparr>"

definition NewClientForDevice :: "string \<Rightarrow> ipc_client" where
  "NewClientForDevice device = NewClient\<lparr>ic_device := device\<rparr>"

text \<open>The identifier of the request and the request itself; \<open>dial\<close> is the error of opening the connection.\<close>

definition checked :: "64 word \<Rightarrow> string + ipc_response \<Rightarrow> ipc_error + daemon_reply" where
  "checked i r =
     (case r of
        Inl e \<Rightarrow> Inl (NotExchanged e)
      | Inr resp \<Rightarrow>
          if rp_ID resp \<noteq> i then Inl (MismatchedID (rp_ID resp))
          else case rp_Result resp of Inl e \<Rightarrow> Inl (Refused e) | Inr x \<Rightarrow> Inr x)"

definition client_call :: "string option \<Rightarrow> 'd link \<Rightarrow> daemon_method \<Rightarrow> ('d, daemon_reply) ipc" where
  "client_call dial link m c d =
     (case dial of
        Some e \<Rightarrow> Finished (Inl (NotReached e), c, d)
      | None \<Rightarrow>
          (let i = ic_nextID c + 1; c = c\<lparr>ic_nextID := i\<rparr> in
           and_then (link \<lparr>rq_ID = i, rq_Device = ic_device c, rq_Method = m\<rparr> d) (\<lambda>(r, d).
             Finished (checked i r, c, d))))"

text \<open>The result of a call, which \<open>pick\<close> unmarshals into the type the caller expects.\<close>

definition unmarshal :: "(daemon_reply \<Rightarrow> 'a option) \<Rightarrow> ('d, daemon_reply) ipc \<Rightarrow> ('d, 'a) ipc" where
  "unmarshal pick m c d = and_then (m c d) (\<lambda>(r, c, d).
     Finished (case r of Inl e \<Rightarrow> Inl e | Inr x \<Rightarrow> (case pick x of None \<Rightarrow> Inl NotUnmarshaled | Some y \<Rightarrow> Inr y), c, d))"

definition in_reply :: "(reply \<Rightarrow> 'a option) \<Rightarrow> daemon_reply \<Rightarrow> 'a option option" where
  "in_reply pick x =
     (case x of
        SessionReply sv \<Rightarrow> (case sv_Result sv of None \<Rightarrow> Some None | Some y \<Rightarrow> map_option Some (pick y))
      | _ \<Rightarrow> None)"

definition session_call :: "string option \<Rightarrow> 'd link \<Rightarrow> ipc_request \<Rightarrow> (reply \<Rightarrow> 'a option) \<Rightarrow> ('d, 'a option) ipc" where
  "session_call dial link r pick = unmarshal (in_reply pick) (client_call dial link (SessionMethod r))"

definition sent :: "'p \<Rightarrow> 'p parsed" where
  "sent p = Parsed None p"

section \<open>The daemon and its devices\<close>

definition ic_BackendStatus :: "string option \<Rightarrow> 'd link \<Rightarrow> ('d, daemon_status) ipc" where
  "ic_BackendStatus dial link =
     unmarshal (\<lambda>x. case x of DaemonStatusReply st \<Rightarrow> Some st | _ \<Rightarrow> None) (client_call dial link BackendStatus)"

definition ic_DeviceList :: "string option \<Rightarrow> 'd link \<Rightarrow> ('d, device_list_entry list) ipc" where
  "ic_DeviceList dial link =
     unmarshal (\<lambda>x. case x of DeviceListReply es \<Rightarrow> Some es | _ \<Rightarrow> None) (client_call dial link DeviceList)"

definition deviceAction :: "string option \<Rightarrow> 'd link \<Rightarrow> (string \<Rightarrow> daemon_method) \<Rightarrow> string \<Rightarrow> ('d, device_action) ipc" where
  "deviceAction dial link m device =
     unmarshal (\<lambda>x. case x of ActionReply a \<Rightarrow> Some a | _ \<Rightarrow> None) (client_call dial link (m device))"

definition ic_DeviceStart :: "string option \<Rightarrow> 'd link \<Rightarrow> string \<Rightarrow> ('d, device_action) ipc" where
  "ic_DeviceStart dial link = deviceAction dial link DeviceStart"

definition ic_DeviceStop :: "string option \<Rightarrow> 'd link \<Rightarrow> string \<Rightarrow> ('d, device_action) ipc" where
  "ic_DeviceStop dial link = deviceAction dial link DeviceStop"

definition ic_DeviceRestart :: "string option \<Rightarrow> 'd link \<Rightarrow> string \<Rightarrow> ('d, device_action) ipc" where
  "ic_DeviceRestart dial link = deviceAction dial link DeviceRestart"

text \<open>A call whose result is not looked at.\<close>

definition ignoring :: "('d, daemon_reply) ipc \<Rightarrow> ('d, unit) ipc" where
  "ignoring = unmarshal (\<lambda>_. Some ())"

definition ic_Stop :: "string option \<Rightarrow> 'd link \<Rightarrow> ('d, unit) ipc" where
  "ic_Stop dial link = ignoring (client_call dial link (SessionMethod RStop))"

section \<open>Status\<close>

text \<open>The status of a session as the client gives it out; the time of the statistics only if there are any.\<close>

record ipc_status =
  is_Healthy :: bool
  is_State :: session_state
  is_URI :: string
  is_StartedAt :: go_time
  is_UptimeSec :: int
  is_LastSeen :: go_time
  is_LastError :: "session_error option"
  is_LastErrorAt :: go_time
  is_Bridges :: "bridge_status list"
  is_Contacts :: sync_status
  is_Channels :: sync_status
  is_Device :: "client_device_info option"
  is_Stats :: "local_stats option"
  is_StatsOK :: bool
  is_StatsAt :: go_time
  is_Radio :: radio_status
  is_QueuePending :: "32 word"
  is_Reconnects :: "32 word"
  is_Clients :: "32 word"
  is_RequestsCompleted :: "64 word"
  is_RequestsFailed :: "64 word"

definition status_shown :: "status_result \<Rightarrow> ipc_status" where
  "status_shown res =
     \<lparr>is_Healthy = sr_Healthy res, is_State = sr_State res, is_URI = sr_URI res, is_StartedAt = sr_StartedAt res,
      is_UptimeSec = sr_UptimeSec res, is_LastSeen = sr_LastSeen res, is_LastError = sr_LastError res,
      is_LastErrorAt = sr_LastErrorAt res, is_Bridges = sr_Bridges res, is_Contacts = sr_Contacts res,
      is_Channels = sr_Channels res, is_Device = sr_Device res, is_Stats = sr_Stats res,
      is_StatsOK = (sr_Stats res \<noteq> None), is_StatsAt = (if sr_Stats res \<noteq> None then sr_StatsAt res else zero_time),
      is_Radio = sr_Radio res, is_QueuePending = sr_QueuePending res, is_Reconnects = sr_Reconnects res,
      is_Clients = sr_Clients res, is_RequestsCompleted = sr_RequestsCompleted res,
      is_RequestsFailed = sr_RequestsFailed res\<rparr>"

definition ic_Status :: "string option \<Rightarrow> 'd link \<Rightarrow> ('d, ipc_status option) ipc" where
  "ic_Status dial link =
     session_call dial link RStatus (\<lambda>x. case x of StatusReply st \<Rightarrow> Some (status_shown st) | _ \<Rightarrow> None)"

definition ic_Available :: "string option \<Rightarrow> 'd link \<Rightarrow> 'd \<Rightarrow> bool outcome" where
  "ic_Available dial link d = and_then (ic_Status dial link NewClient d) (\<lambda>(r, _). Finished (\<not> isl r))"

section \<open>The device\<close>

definition ic_DeviceInfo :: "string option \<Rightarrow> 'd link \<Rightarrow> ('d, client_device_info option) ipc" where
  "ic_DeviceInfo dial link = session_call dial link RDeviceInfo (\<lambda>x. case x of InfoReply i \<Rightarrow> Some i | _ \<Rightarrow> None)"

definition ic_StatsWithOptions :: "string option \<Rightarrow> 'd link \<Rightarrow> bool \<Rightarrow> ('d, local_stats option) ipc" where
  "ic_StatsWithOptions dial link refresh =
     session_call dial link (RStats (sent refresh)) (\<lambda>x. case x of StatsReply st \<Rightarrow> Some st | _ \<Rightarrow> None)"

definition ic_Stats :: "string option \<Rightarrow> 'd link \<Rightarrow> ('d, local_stats option) ipc" where
  "ic_Stats dial link = ic_StatsWithOptions dial link False"

definition ic_Advertise :: "string option \<Rightarrow> 'd link \<Rightarrow> bool \<Rightarrow> ('d, unit) ipc" where
  "ic_Advertise dial link flood = ignoring (client_call dial link (SessionMethod (RAdvert (sent flood))))"

definition ic_RawSend :: "string option \<Rightarrow> 'd link \<Rightarrow> bytes \<Rightarrow> ('d, raw_result option) ipc" where
  "ic_RawSend dial link payload =
     session_call dial link (RRawSend (sent payload)) (\<lambda>x. case x of RawReply r \<Rightarrow> Some r | _ \<Rightarrow> None)"

definition ic_SendMeshPacket :: "string option \<Rightarrow> 'd link \<Rightarrow> byte \<Rightarrow> bytes \<Rightarrow> ('d, unit) ipc" where
  "ic_SendMeshPacket dial link priority pkt =
     ignoring (client_call dial link (SessionMethod (RSendMeshPacket (sent (priority, pkt)))))"

section \<open>Contacts and channels\<close>

definition ic_ContactsWithOptions :: "string option \<Rightarrow> 'd link \<Rightarrow> bool \<Rightarrow> bool \<Rightarrow> bool \<Rightarrow> bool \<Rightarrow> ('d, contact list option) ipc" where
  "ic_ContactsWithOptions dial link cached refresh wait full =
     session_call dial link (RContacts (sent \<lparr>cp_Cached = cached, cp_Refresh = refresh, cp_Wait = wait, cp_Full = full\<rparr>))
       (\<lambda>x. case x of ContactsReply (ContactList cs) \<Rightarrow> Some cs | _ \<Rightarrow> None)"

definition ic_Contacts :: "string option \<Rightarrow> 'd link \<Rightarrow> ('d, contact list option) ipc" where
  "ic_Contacts dial link = ic_ContactsWithOptions dial link False False False False"

definition StartContactRefresh :: "string option \<Rightarrow> 'd link \<Rightarrow> bool \<Rightarrow> ('d, (bool \<times> bool) option) ipc" where
  "StartContactRefresh dial link full =
     session_call dial link (RContacts (sent \<lparr>cp_Cached = False, cp_Refresh = True, cp_Wait = False, cp_Full = full\<rparr>))
       (\<lambda>x. case x of ContactsReply (RefreshStarted started running) \<Rightarrow> Some (started, running) | _ \<Rightarrow> None)"

definition ic_Contact :: "string option \<Rightarrow> 'd link \<Rightarrow> string \<Rightarrow> ('d, contact option) ipc" where
  "ic_Contact dial link q = session_call dial link (RContact (sent q)) (\<lambda>x. case x of ContactReply ct \<Rightarrow> Some ct | _ \<Rightarrow> None)"

definition ic_Trace :: "string option \<Rightarrow> 'd link \<Rightarrow> string \<Rightarrow> ('d, trace option) ipc" where
  "ic_Trace dial link q = session_call dial link (RTrace (sent q)) (\<lambda>x. case x of TraceReply t \<Rightarrow> Some t | _ \<Rightarrow> None)"

definition ic_ChannelsWithOptions :: "string option \<Rightarrow> 'd link \<Rightarrow> bool \<Rightarrow> ('d, channel list option) ipc" where
  "ic_ChannelsWithOptions dial link refresh =
     session_call dial link (RChannels (sent refresh)) (\<lambda>x. case x of ChannelsReply chs \<Rightarrow> Some chs | _ \<Rightarrow> None)"

definition ic_Channels :: "string option \<Rightarrow> 'd link \<Rightarrow> ('d, channel list option) ipc" where
  "ic_Channels dial link = ic_ChannelsWithOptions dial link False"

definition the_channel :: "reply \<Rightarrow> channel option" where
  "the_channel x = (case x of ChannelReply ch \<Rightarrow> Some ch | _ \<Rightarrow> None)"

definition ic_Channel :: "string option \<Rightarrow> 'd link \<Rightarrow> string \<Rightarrow> ('d, channel option) ipc" where
  "ic_Channel dial link name = session_call dial link (RChannel (sent name)) the_channel"

definition ic_ChannelAdd :: "string option \<Rightarrow> 'd link \<Rightarrow> string \<Rightarrow> bytes \<Rightarrow> ('d, channel option) ipc" where
  "ic_ChannelAdd dial link name secret = session_call dial link (RChannelAdd (sent (name, secret))) the_channel"

definition ic_ChannelRemove :: "string option \<Rightarrow> 'd link \<Rightarrow> string \<Rightarrow> ('d, channel option) ipc" where
  "ic_ChannelRemove dial link channel = session_call dial link (RChannelRemove (sent channel)) the_channel"

section \<open>Messages\<close>

definition the_receipt :: "reply \<Rightarrow> receipt option" where
  "the_receipt x = (case x of ReceiptReply r \<Rightarrow> Some r | _ \<Rightarrow> None)"

definition ic_Inbox :: "string option \<Rightarrow> 'd link \<Rightarrow> ('d, msg list option) ipc" where
  "ic_Inbox dial link = session_call dial link RInbox (\<lambda>x. case x of InboxReply ms \<Rightarrow> Some ms | _ \<Rightarrow> None)"

definition ic_SendText :: "string option \<Rightarrow> 'd link \<Rightarrow> string \<Rightarrow> string \<Rightarrow> ('d, receipt option) ipc" where
  "ic_SendText dial link recipient text = session_call dial link (RSendText (sent (recipient, text))) the_receipt"

definition ic_SendChannelText :: "string option \<Rightarrow> 'd link \<Rightarrow> string \<Rightarrow> string \<Rightarrow> ('d, receipt option) ipc" where
  "ic_SendChannelText dial link channel text = session_call dial link (RSendChannelText (sent (channel, text))) the_receipt"

definition ic_WaitForAcknowledgement :: "string option \<Rightarrow> 'd link \<Rightarrow> receipt \<Rightarrow> ('d, ack option) ipc" where
  "ic_WaitForAcknowledgement dial link receipt =
     session_call dial link (RWaitAck (sent receipt)) (\<lambda>x. case x of AckReply a \<Rightarrow> Some a | _ \<Rightarrow> None)"

definition direction_text :: "direction option \<Rightarrow> string" where
  "direction_text d = (case d of None \<Rightarrow> [] | Some MessageIn \<Rightarrow> ''in'' | Some MessageOut \<Rightarrow> ''out'')"

definition kind_text :: "kind option \<Rightarrow> string" where
  "kind_text k = (case k of None \<Rightarrow> [] | Some MessageDirect \<Rightarrow> ''direct'' | Some MessageChannel \<Rightarrow> ''channel'')"

definition ic_Messages :: "string option \<Rightarrow> 'd link \<Rightarrow> message_filter \<Rightarrow> ('d, message_record list option) ipc" where
  "ic_Messages dial link f =
     session_call dial link (RMessages (sent \<lparr>mp_Direction = direction_text (mf_Direction f), mp_Kind = kind_text (mf_Kind f),
         mp_Peer = mf_Peer f, mp_Channel = mf_Channel f, mp_Limit = mf_Limit f\<rparr>))
       (\<lambda>x. case x of MessagesReply ms \<Rightarrow> Some ms | _ \<Rightarrow> None)"

section \<open>Repeaters\<close>

definition the_response :: "reply \<Rightarrow> repeater_response option" where
  "the_response x = (case x of RepeaterReply r \<Rightarrow> Some r | _ \<Rightarrow> None)"

definition ic_RepeaterHasConnection :: "string option \<Rightarrow> 'd link \<Rightarrow> string \<Rightarrow> ('d, bool option) ipc" where
  "ic_RepeaterHasConnection dial link repeater =
     session_call dial link (RHasConnection (sent repeater)) (\<lambda>x. case x of HasConnectionReply b \<Rightarrow> Some b | _ \<Rightarrow> None)"

definition ic_RepeaterLogin :: "string option \<Rightarrow> 'd link \<Rightarrow> string \<Rightarrow> string \<Rightarrow> ('d, repeater_session option) ipc" where
  "ic_RepeaterLogin dial link repeater password =
     session_call dial link (RLogin (sent (repeater, password))) (\<lambda>x. case x of LoginReply r \<Rightarrow> Some r | _ \<Rightarrow> None)"

definition ic_RepeaterStatus :: "string option \<Rightarrow> 'd link \<Rightarrow> string \<Rightarrow> ('d, repeater_response option) ipc" where
  "ic_RepeaterStatus dial link repeater = session_call dial link (RRepeaterStatus (sent repeater)) the_response"

definition ic_RepeaterNeighbours :: "string option \<Rightarrow> 'd link \<Rightarrow> string \<Rightarrow> ('d, repeater_response option) ipc" where
  "ic_RepeaterNeighbours dial link repeater = session_call dial link (RNeighbours (sent repeater)) the_response"

definition ic_RepeaterExec :: "string option \<Rightarrow> 'd link \<Rightarrow> string \<Rightarrow> string \<Rightarrow> ('d, repeater_response option) ipc" where
  "ic_RepeaterExec dial link repeater command = session_call dial link (RExec (sent (repeater, command))) the_response"

section \<open>Streams\<close>

text \<open>What the reader of a stream meets: an item, an item that cannot be decoded (which includes the end of the
  stream), or the end of the context while an item waits to be taken.\<close>

datatype 'i stream_event = Decoded 'i | Undecodable | CtxEnded 'i

fun stream_items :: "'i stream_event list \<Rightarrow> 'i list" where
  "stream_items [] = []"
| "stream_items (Decoded x # es) = x # stream_items es"
| "stream_items (Undecodable # es) = []"
| "stream_items (CtxEnded x # es) = []"

definition stream :: "string option \<Rightarrow> 'd link \<Rightarrow> ipc_request \<Rightarrow> 'i stream_event list \<Rightarrow> ('d, 'i list) ipc" where
  "stream dial link r es = unmarshal (\<lambda>_. Some (stream_items es)) (client_call dial link (SessionMethod r))"

definition ic_Watch :: "string option \<Rightarrow> 'd link \<Rightarrow> ipc_event stream_event list \<Rightarrow> ('d, ipc_event list) ipc" where
  "ic_Watch dial link = stream dial link (RWatch ''watch'')"

definition ic_WatchRaw :: "string option \<Rightarrow> 'd link \<Rightarrow> raw_packet stream_event list \<Rightarrow> ('d, raw_packet list) ipc" where
  "ic_WatchRaw dial link = stream dial link (RWatch ''watch_raw'')"

definition ic_WatchRF :: "string option \<Rightarrow> 'd link \<Rightarrow> rf_received stream_event list \<Rightarrow> ('d, rf_received list) ipc" where
  "ic_WatchRF dial link = stream dial link (RWatch ''watch_rf'')"

definition ic_WatchRFLog :: "string option \<Rightarrow> 'd link \<Rightarrow> rf_packet stream_event list \<Rightarrow> ('d, rf_packet list) ipc" where
  "ic_WatchRFLog dial link = stream dial link (RWatch ''watch_rf_log'')"

text \<open>The options travel with the timeout in whole milliseconds, and only a positive one is applied.\<close>

definition discover_options :: "byte \<Rightarrow> bool \<Rightarrow> duration \<Rightarrow> node_discover_options" where
  "discover_options nodes prefixOnly timeout =
     \<lparr>ndo_Filter = nodes, ndo_PrefixOnly = prefixOnly,
      ndo_Timeout = (if 0 < Milliseconds timeout then Milliseconds timeout * millisecond else 0)\<rparr>"

definition ic_Discover :: "string option \<Rightarrow> 'd link \<Rightarrow> byte \<Rightarrow> bool \<Rightarrow> duration \<Rightarrow> discovered_node stream_event list \<Rightarrow> ('d, discovered_node list) ipc" where
  "ic_Discover dial link nodes prefixOnly timeout = stream dial link (RDiscover (sent (discover_options nodes prefixOnly timeout)))"

section \<open>Calls to the daemon\<close>

definition daemon_link :: "(daemon_reply \<Rightarrow> daemon_error option) \<Rightarrow> backend_env \<Rightarrow> dial_env \<Rightarrow> daemon link" where
  "daemon_link marshal env e req d = and_then (handle marshal env e (Inr req) d) (\<lambda>(resp, d). Finished (Inr resp, d))"

lemma client_call_daemon:
  "client_call None (daemon_link marshal env e) m c d =
     and_then (handle_method env e \<lparr>rq_ID = ic_nextID c + 1, rq_Device = ic_device c, rq_Method = m\<rparr> m d) (\<lambda>(r, d').
       Finished (map_sum Refused id (encoded marshal r), c\<lparr>ic_nextID := ic_nextID c + 1\<rparr>, d'))"
  by (cases "handle_method env e \<lparr>rq_ID = ic_nextID c + 1, rq_Device = ic_device c, rq_Method = m\<rparr> m d")
    (auto simp: client_call_def daemon_link_def handle_def respond_def checked_def Let_def split: sum.splits)

text \<open>The session as a request that is neither a stream nor a stop finds it.\<close>

definition one_reply :: "ipc_request \<Rightarrow> bool" where
  "one_reply r = (case r of RStop \<Rightarrow> False | RWatch _ \<Rightarrow> False | RDiscover _ \<Rightarrow> False | _ \<Rightarrow> True)"

definition entered :: "ipc_request \<Rightarrow> device_session \<Rightarrow> device_session" where
  "entered r s = (if methodUsesRadio r then snd (interruptContactRefresh (trackIPCClient 1 s)) else trackIPCClient 1 s)"

lemma serve_one:
  assumes "one_reply r"
  shows "serve env r s = and_then (dispatch env r (entered r s)) (\<lambda>(x, s').
    Finished (Inr (reply_of env r x), trackIPCClient (-1) (count_reply (reply_of env r x) s')))"
proof -
  have "serve env r = s_put (trackIPCClient 1) (s_finally (trackIPCClient (-1)) (serve_call env r))"
    using assms by (cases r) (simp_all add: one_reply_def)
  then show ?thesis
    by (cases "dispatch env r (entered r s)")
      (auto simp: s_put_def s_finally_def serve_call_def s_try_def s_ret_def entered_def Let_def)
qed

lemma handle_method_session: "r \<noteq> RStop \<Longrightarrow> handle_method env e req (SessionMethod r) d = session_request env (rq_Device req) r d"
  by (cases r) simp_all

definition shown :: "backend_env \<Rightarrow> (reply \<Rightarrow> 'a option) \<Rightarrow> session_error + reply \<Rightarrow> ipc_error + 'a option" where
  "shown env pick x =
     (case x of
        Inl err \<Rightarrow> Inl (Refused (SessionFailed err))
      | Inr y \<Rightarrow>
          (case be_marshal env y of
             Some err \<Rightarrow> Inl (Refused (SessionFailed err))
           | None \<Rightarrow> (case pick y of None \<Rightarrow> Inl NotUnmarshaled | Some z \<Rightarrow> Inr (Some z))))"

lemma session_call_answered:
  assumes "session_for (ic_device c) d = Inr (i, s)" and "one_reply r" and "dispatch env r (entered r s) = Finished (x, s')"
  shows "session_call None (daemon_link marshal env e) r pick c d =
    Finished (shown env pick x, c\<lparr>ic_nextID := ic_nextID c + 1\<rparr>,
      put_session (be_unicode env) i (trackIPCClient (-1) (count_reply (reply_of env r x) s')) d)"
proof -
  have "r \<noteq> RStop" using assms(2) by (auto simp: one_reply_def)
  with assms show ?thesis
    by (auto simp: session_call_def unmarshal_def client_call_daemon handle_method_session session_request_def serve_one served_reply_def
        reply_of_def failed_reply_def ok_reply_def in_reply_def shown_def split: sum.splits option.splits)
qed

lemma counted_store [simp]: "ss_store (trackIPCClient k (count_reply r s)) = ss_store s" "ss_store (entered q s) = ss_store s"
  by (simp_all add: trackIPCClient_def count_reply_def trackRequestOK_def trackRequestFailed_def entered_def interruptContactRefresh_def)

lemma put_session_sessions [simp]: "map_of (dm_sessions (put_session u i s d)) j = (if j = i then Some s else map_of (dm_sessions d) j)"
  by (simp add: put_session_def update_conv')

section \<open>Properties\<close>


text \<open>What the client asks of the history is what it gets, but for one thing. Asking the daemon for messages
  returns the stored messages of the selected device that pass the filter, and nothing of the session changes;
  a filter for unread messages is not sent, so that read ones are returned too. Asking for contacts with a
  refresh that is not waited for never returns contacts: the daemon answers that a refresh was started, which
  is no list.\<close>

theorem client_queries_history:
  assumes "session_for (ic_device c) d = Inr (i, s)" and "be_marshal env = (\<lambda>_. None)"
    and "Messages (f\<lparr>mf_UnreadOnly := False\<rparr>) (ss_store s) = (x, db)"
  shows "\<exists>d'. ic_Messages None (daemon_link marshal env e) f c d =
      Finished (case x of Inl err \<Rightarrow> Inl (Refused (SessionFailed (StoreError err))) | Inr ms \<Rightarrow> Inr (Some ms), c\<lparr>ic_nextID := ic_nextID c + 1\<rparr>, d') \<and>
    map_option ss_store (map_of (dm_sessions d') i) = Some db \<and> db_tables db = db_tables (ss_store s) \<and>
    (ic_ContactsWithOptions None (daemon_link marshal env e) cached True False full c d = Finished (r, c', d'') \<longrightarrow> isl r)"
proof -
  let ?p = "sent \<lparr>mp_Direction = direction_text (mf_Direction f), mp_Kind = kind_text (mf_Kind f),
    mp_Peer = mf_Peer f, mp_Channel = mf_Channel f, mp_Limit = mf_Limit f\<rparr>"
  let ?q = "RContacts (sent \<lparr>cp_Cached = cached, cp_Refresh = True, cp_Wait = False, cp_Full = full\<rparr>)"
  have m: "messages_call (value_of ?p) = in_store (Messages (f\<lparr>mf_UnreadOnly := False\<rparr>))"
    by (cases f) (auto simp: messages_call_def sent_def direction_text_def kind_text_def direction_named_def kind_named_def
        split: option.split direction.split kind.split)
  have "dispatch env (RMessages ?p) (entered (RMessages ?p) s) =
      Finished (map_sum StoreError MessagesReply x, (entered (RMessages ?p) s)\<lparr>ss_store := db\<rparr>)"
    using m assms(3) by (cases x) (auto simp: with_params_def sent_def s_bind_def in_store_def s_ret_def)
  note m = session_call_answered [OF assms(1) _ this]
  have a: "ic_Messages None (daemon_link marshal env e) f c d = Finished
      (case x of Inl err \<Rightarrow> Inl (Refused (SessionFailed (StoreError err))) | Inr ms \<Rightarrow> Inr (Some ms), c\<lparr>ic_nextID := ic_nextID c + 1\<rparr>,
       put_session (be_unicode env) i (trackIPCClient (-1) (count_reply (reply_of env (RMessages ?p) (map_sum StoreError MessagesReply x))
         ((entered (RMessages ?p) s)\<lparr>ss_store := db\<rparr>))) d)"
    unfolding ic_Messages_def by (subst m) (auto simp: one_reply_def shown_def assms(2) split: sum.split)
  have t: "db_tables db = db_tables (ss_store s)"
    using assms(3) by (auto simp: Messages_def query_def seq_def fault_def Let_def split: list.splits option.splits)
  have "\<exists>y s'. dispatch env ?q (entered ?q s) = Finished (y, s') \<and> (\<forall>cs. y \<noteq> Inr (ContactsReply (ContactList cs)))"
    by (auto simp: with_params_def sent_def contacts_call_def startContactRefresh_def s_get_def s_bind_def s_err_def s_ret_def)
  then obtain y s' where y: "dispatch env ?q (entered ?q s) = Finished (y, s')" "\<And>cs. y \<noteq> Inr (ContactsReply (ContactList cs))" by blast
  have "ic_ContactsWithOptions None (daemon_link marshal env e) cached True False full c d = Finished (r, c', d'') \<longrightarrow> isl r"
    using y(2) unfolding ic_ContactsWithOptions_def
    by (subst session_call_answered [OF assms(1) _ y(1)]) (auto simp: one_reply_def shown_def split: sum.splits option.splits reply.splits contacts_reply.splits)
  with a t show ?thesis by simp
qed

text \<open>A client that has selected a device starts, stops and restarts that device, whichever device it names.\<close>

lemma deviceAction_selected:
  assumes "ic_device c \<noteq> []"
  shows "ic_DeviceStop None (daemon_link marshal env e) i c d = ic_DeviceStop None (daemon_link marshal env e) j c d"
  using assms by (simp add: ic_DeviceStop_def deviceAction_def unmarshal_def client_call_daemon deviceArg_def)

section \<open>Witnesses\<close>

text \<open>A daemon with one session.\<close>

definition demo_env :: backend_env where
  "demo_env = \<lparr>be_unicode = ascii_text, be_crypto = \<lparr>Sum256 = id, DeriveChannelSecret = \<lambda>_. []\<rparr>, be_secretLen = 16, be_tag = 1,
     be_config = [], be_radio = NewRadioExecutor, be_marshal = \<lambda>_. None\<rparr>"

definition demo_session :: device_session where
  "demo_session = new_device_session zero_time ''tcp://h'' ''a'' ''0123456789abcdef'' [] (demo []) empty_db"

definition demo_daemon :: daemon where
  "demo_daemon = (NewDaemon Map.empty)\<lparr>dm_sessions := [(''a'', demo_session)], dm_defaultID := ''a''\<rparr>"

definition demo_link :: "daemon link" where
  "demo_link = daemon_link (\<lambda>_. None) demo_env \<lparr>de_unicode = ascii_text, de_now = zero_time, de_faults = [], de_dialed = Blocked\<rparr>"

lemma demo_selected: "session_for (ic_device NewClient) demo_daemon = Inr (''a'', demo_session)"
  by (simp add: session_for_def demo_daemon_def NewClient_def NewDaemon_def)


theorem client_queries_history_witness:
  "\<exists>d'. ic_Messages None demo_link \<lparr>mf_Direction = None, mf_Kind = Some MessageDirect, mf_Peer = [], mf_Channel = [], mf_UnreadOnly = True, mf_Limit = 5\<rparr>
     NewClient demo_daemon = Finished (Inr (Some []), NewClient\<lparr>ic_nextID := 1\<rparr>, d')"
proof -
  let ?f = "\<lparr>mf_Direction = None, mf_Kind = Some MessageDirect, mf_Peer = [], mf_Channel = [], mf_UnreadOnly = True, mf_Limit = 5\<rparr>"
  have "be_marshal demo_env = (\<lambda>_. None)" by (simp add: demo_env_def)
  moreover have "Messages (?f\<lparr>mf_UnreadOnly := False\<rparr>) (ss_store demo_session) = (Inr [], ss_store demo_session)"
    by (simp add: demo_session_def new_device_session_def empty_db_def empty_tables_def Messages_def query_def seq_def fault_def)
  ultimately show ?thesis
    using client_queries_history [OF demo_selected, of demo_env ?f] by (fastforce simp: demo_link_def NewClient_def)
qed

end
