(* ===== verification/Shell_Words.thy ===== *)
theory Shell_Words
  imports Client_Types Go_Fmt
begin

text \<open>
  The words of a line of the interactive shell: splitting it into arguments (\<open>splitShellFields\<close> of
  \<open>cmd/mc/internal/cli/shell.go\<close>), and quoting and matching completions (\<open>shell_complete.go\<close>). A loop over the
  runes of a text sees each rune with the bytes that \<open>WriteRune\<close> writes for it; a byte that is not part of a
  valid encoding becomes the replacement character.
\<close>

section \<open>Runes\<close>

definition rune_len :: "string \<Rightarrow> nat" where
  "rune_len s = rune_size (map of_char (take 4 s) @ [0, 0, 0])"

lemma rune_len_pos: "0 < rune_len s"
  by (simp add: rune_len_def rune_size_def Let_def split: list.split)

definition replacement :: string where
  "replacement = [CHR 0xEF, CHR 0xBF, CHR 0xBD]"

function runes :: "string \<Rightarrow> string list" where
  "runes s =
     (if s = [] then []
      else (if rune_len s = 1 \<and> 128 \<le> (of_char (hd s) :: nat) then replacement else take (rune_len s) s) # runes (drop (rune_len s) s))"
  by pat_completeness auto
termination
  by (relation "measure length") (simp_all add: rune_len_pos)

declare runes.simps [simp del]

lemma runes_Nil [simp]: "runes [] = []"
  by (simp add: runes.simps)

text \<open>The valid encodings of one rune.\<close>

definition is_rune :: "string \<Rightarrow> bool" where
  "is_rune r \<longleftrightarrow> r \<noteq> [] \<and> rune_len r = length r \<and> (length r = 1 \<longrightarrow> of_char (hd r) < (128 :: nat))"

lemma rune_size_bound: "rune_size bs \<le> 4"
  by (simp add: rune_size_def Let_def split: list.split)

lemma rune_cases:
  assumes "is_rune r"
  obtains c where "r = [c]" | c d where "r = [c, d]" | c d e where "r = [c, d, e]" | c d e f where "r = [c, d, e, f]"
proof -
  have "rune_len r = length r" "r \<noteq> []" using assms by (simp_all add: is_rune_def)
  then have "length r \<le> 4" "r \<noteq> []" using rune_size_bound by (metis rune_len_def)+
  with that show ?thesis
    by (cases r; cases "tl r"; cases "tl (tl r)"; cases "tl (tl (tl r))"; cases "tl (tl (tl (tl r)))") auto
qed

lemma rune_len_append:
  assumes "is_rune r"
  shows "rune_len (r @ t) = length r"
  using assms
  by (cases rule: rune_cases [OF assms]) (auto simp: is_rune_def rune_len_def rune_size_def Let_def split: if_splits list.splits)

lemma runes_rune:
  assumes "is_rune r"
  shows "runes (r @ t) = r # runes t"
proof -
  have "r \<noteq> []" "\<not> (length r = 1 \<and> 128 \<le> (of_char (hd (r @ t)) :: nat))" using assms by (auto simp: is_rune_def)
  with rune_len_append [OF assms, of t] show ?thesis by (subst runes.simps) auto
qed

lemma is_rune_ascii: "of_char c < (128 :: nat) \<Longrightarrow> is_rune [c]"
  by (auto simp: is_rune_def rune_len_def rune_size_def)

lemma runes_ascii: "of_char c < (128 :: nat) \<Longrightarrow> runes (c # t) = [c] # runes t"
  using runes_rune [OF is_rune_ascii, of c t] by simp

section \<open>Splitting a line\<close>

datatype shell_error = UnfinishedEscape | UnterminatedQuote

definition quotes :: "string list" where
  "quotes = [[CHR 0x27], [CHR 0x22]]"

definition blanks :: "string list" where
  "blanks = ['' '', [CHR 0x09]]"

definition backslash :: string where
  "backslash = [CHR 0x5C]"

text \<open>The loop over the runes: the open quote, whether the last rune was an escape, whether a field has begun, the
  field so far and the fields before it.\<close>

fun split_loop :: "string option \<Rightarrow> bool \<Rightarrow> bool \<Rightarrow> string \<Rightarrow> string list \<Rightarrow> string list \<Rightarrow> shell_error + string list" where
  "split_loop quote escaped inField b parts [] =
     (if escaped then Inl UnfinishedEscape
      else if quote \<noteq> None then Inl UnterminatedQuote
      else Inr (if inField then parts @ [b] else parts))"
| "split_loop quote escaped inField b parts (r # rs) =
     (if escaped then split_loop quote False True (b @ r) parts rs
      else if r = backslash then split_loop quote True True b parts rs
      else case quote of
        Some q \<Rightarrow> if r = q then split_loop None False inField b parts rs else split_loop quote False inField (b @ r) parts rs
      | None \<Rightarrow>
          if r \<in> set quotes then split_loop (Some r) False True b parts rs
          else if r \<in> set blanks then
            (if inField then split_loop None False False [] (parts @ [b]) rs else split_loop None False False b parts rs)
          else split_loop None False True (b @ r) parts rs)"

definition splitShellFields :: "string \<Rightarrow> shell_error + string list" where
  "splitShellFields s = split_loop None False False [] [] (runes s)"

section \<open>Completion\<close>

fun words_loop :: "string option \<Rightarrow> bool \<Rightarrow> string \<Rightarrow> string list \<Rightarrow> string list \<Rightarrow> string list" where
  "words_loop quote escaped current words [] = (if current = [] then words else words @ [current])"
| "words_loop quote escaped current words (r # rs) =
     (if escaped then words_loop quote False (current @ r) words rs
      else if r = backslash then words_loop quote True current words rs
      else case quote of
        Some q \<Rightarrow> if r = q then words_loop None False current words rs else words_loop quote False (current @ r) words rs
      | None \<Rightarrow>
          if r \<in> set quotes then words_loop (Some r) False current words rs
          else if r \<in> set blanks then words_loop None False [] (if current = [] then words else words @ [current]) rs
          else words_loop None False (current @ r) words rs)"

definition completionWords :: "string \<Rightarrow> string list" where
  "completionWords input = words_loop None False [] [] (runes input)"

definition completingArgIndex :: "string list \<Rightarrow> bool \<Rightarrow> nat" where
  "completingArgIndex args endsWithSpace =
     (if length args = 0 then 0 else if endsWithSpace then length args else length args - 1)"

definition completionPrefix :: "string list \<Rightarrow> bool \<Rightarrow> string" where
  "completionPrefix args endsWithSpace = (if length args = 0 \<or> endsWithSpace then [] else last args)"

definition quoteCompletion :: "string \<Rightarrow> string" where
  "quoteCompletion value =
     (if value = [] then [CHR 0x22, CHR 0x22]
      else if \<exists>c \<in> set value. c \<in> set ([CHR '' '', CHR 0x09, CHR 0x22, CHR 0x27, CHR 0x5C]) then
        [CHR 0x22] @ concat (map (\<lambda>c. if c = CHR 0x22 then [CHR 0x5C, CHR 0x22] else [c]) value) @ [CHR 0x22]
      else value)"

definition stringsHasPrefixFold :: "unicode \<Rightarrow> string \<Rightarrow> string \<Rightarrow> bool" where
  "stringsHasPrefixFold u s p \<longleftrightarrow> length p \<le> length s \<and> EqualFold u (take (length p) s) p"

text \<open>\<open>strings.Trim\<close> of quotation marks.\<close>

definition trim_quotes :: "string \<Rightarrow> string" where
  "trim_quotes s =
     (let q = (\<lambda>c. c = CHR 0x22 \<or> c = CHR 0x27) in rev (dropWhile q (rev (dropWhile q s))))"

record completion_item =
  co_Value :: string
  co_Description :: string

definition filterCompletionItems :: "unicode \<Rightarrow> completion_item list \<Rightarrow> string \<Rightarrow> completion_item list" where
  "filterCompletionItems u items p =
     (if p = [] then items else filter (\<lambda>i. stringsHasPrefixFold u (trim_quotes (co_Value i)) p) items)"

section \<open>The shell and its completer see the same words\<close>

lemma loops_agree:
  assumes "split_loop quote escaped inField b parts rs = Inr fs" and "inField \<or> b = [] \<and> quote = None \<and> \<not> escaped"
  shows "words_loop quote escaped b (filter (\<lambda>f. f \<noteq> []) parts) rs = filter (\<lambda>f. f \<noteq> []) fs"
  using assms
proof (induction rs arbitrary: quote escaped inField b parts)
  case Nil
  then show ?case by (auto split: if_splits)
next
  case (Cons r rs)
  show ?case
  proof (cases "escaped \<or> r = backslash \<or> quote \<noteq> None \<or> r \<in> set quotes \<or> r \<notin> set blanks")
    case True
    with Cons.prems show ?thesis by (cases quote) (auto split: if_splits dest!: Cons.IH)
  next
    case False
    with Cons.prems Cons.IH [of None False False "[]" "if inField then parts @ [b] else parts"] show ?thesis by (cases inField) auto
  qed
qed

section \<open>Quoting\<close>

text \<open>The runes of a quoted text.\<close>

definition escaped_runes :: "string \<Rightarrow> string list" where
  "escaped_runes r = (if r = [CHR 0x22] then [backslash, r] else [r])"

definition escaped_text :: "string \<Rightarrow> string" where
  "escaped_text v = concat (map (\<lambda>c. if c = CHR 0x22 then [CHR 0x5C, CHR 0x22] else [c]) v)"

lemma rune_byte:
  assumes "is_rune r" and "c \<in> set r" and "of_char c < (128 :: nat)"
  shows "r = [c]"
  using assms
  by (cases rule: rune_cases [OF assms(1)]) (auto simp: is_rune_def rune_len_def rune_size_def Let_def split: if_splits)

lemma escaped_rune:
  assumes "is_rune r"
  shows "escaped_text r = concat (escaped_runes r)"
proof (cases "CHR 0x22 \<in> set r")
  case True
  then have "r = [CHR 0x22]" by (rule rune_byte [OF assms]) simp
  then show ?thesis by (simp add: escaped_text_def escaped_runes_def backslash_def)
next
  case False
  then have "escaped_text r = r" unfolding escaped_text_def by (induction r) auto
  with False show ?thesis by (auto simp: escaped_runes_def)
qed

lemma runes_escaped:
  assumes "list_all is_rune rs"
  shows "runes (escaped_text (concat rs) @ t) = concat (map escaped_runes rs) @ runes t"
  using assms
proof (induction rs)
  case (Cons r rs)
  have "escaped_text (concat (r # rs)) = concat (escaped_runes r) @ escaped_text (concat rs)"
    using escaped_rune [of r] Cons.prems by (simp add: escaped_text_def)
  moreover have "runes (concat (escaped_runes r) @ x) = escaped_runes r @ runes x" for x
    using Cons.prems by (auto simp: escaped_runes_def backslash_def runes_ascii runes_rune)
  ultimately show ?case using Cons by simp
qed (simp add: escaped_text_def)

lemma runes_plain: "list_all is_rune rs \<Longrightarrow> runes (concat rs @ t) = rs @ runes t"
  by (induction rs) (simp_all add: runes_rune)

text \<open>The loop over the runes of a text inside quotation marks, and outside of them.\<close>

lemma split_quoted:
  assumes "backslash \<notin> set rs"
  shows "split_loop (Some [CHR 0x22]) False True b parts (concat (map escaped_runes rs) @ ts) =
    split_loop (Some [CHR 0x22]) False True (b @ concat rs) parts ts"
  using assms
  by (induction rs arbitrary: b) (auto simp: escaped_runes_def backslash_def)

lemma split_plain:
  assumes "list_all (\<lambda>r. r \<noteq> backslash \<and> r \<notin> set quotes \<and> r \<notin> set blanks) rs" and "rs \<noteq> []"
  shows "split_loop None False inField b parts (rs @ ts) = split_loop None False True (b @ concat rs) parts ts"
  using assms
proof (induction rs arbitrary: inField b)
  case (Cons r rs)
  then show ?case using Cons.IH [of True "b @ r"] by (cases "rs = []") auto
qed simp

text \<open>A text without a backslash, given by its runes.\<close>

definition plain_text :: "string list \<Rightarrow> bool" where
  "plain_text rs \<longleftrightarrow> list_all is_rune rs \<and> backslash \<notin> set rs"

lemma split_completion:
  assumes "plain_text rs"
  shows "split_loop None False False [] parts (runes (quoteCompletion (concat rs) @ t)) =
    split_loop None False True (concat rs) parts (runes t)"
proof -
  have rs: "list_all is_rune rs" "backslash \<notin> set rs" using assms by (simp_all add: plain_text_def)
  have q: "[CHR 0x22] \<noteq> backslash" "[CHR 0x22] \<in> set quotes" by (simp_all add: backslash_def quotes_def)
  consider (empty) "concat rs = []" | (quoted) "concat rs \<noteq> []" "\<exists>c \<in> set (concat rs). c \<in> set [CHR '' '', CHR 0x09, CHR 0x22, CHR 0x27, CHR 0x5C]"
    | (plain) "concat rs \<noteq> []" "\<not> (\<exists>c \<in> set (concat rs). c \<in> set [CHR '' '', CHR 0x09, CHR 0x22, CHR 0x27, CHR 0x5C])" by blast
  then show ?thesis
  proof cases
    case empty
    then have "quoteCompletion (concat rs) = [CHR 0x22, CHR 0x22]" unfolding quoteCompletion_def by (rule if_P)
    then show ?thesis unfolding empty using q by (simp add: runes_ascii)
  next
    case quoted
    then have "quoteCompletion (concat rs) @ t = CHR 0x22 # escaped_text (concat rs) @ CHR 0x22 # t"
      unfolding quoteCompletion_def escaped_text_def by (simp only: if_True if_False simp_thms append_Cons append_Nil append_assoc)
    then have "runes (quoteCompletion (concat rs) @ t) = [CHR 0x22] # concat (map escaped_runes rs) @ [CHR 0x22] # runes t"
      by (simp add: runes_ascii runes_escaped [OF rs(1)])
    then show ?thesis using q by (simp add: split_quoted [OF rs(2)])
  next
    case plain
    then have "quoteCompletion (concat rs) = concat rs" unfolding quoteCompletion_def by (simp only: if_False)
    moreover have "r \<noteq> [c]" if "r \<in> set rs" and "c \<in> set [CHR '' '', CHR 0x09, CHR 0x22, CHR 0x27, CHR 0x5C]" for r c
    proof
      assume "r = [c]"
      with that(1) have "c \<in> set (concat rs)" by (metis UN_I list.set_intros(1) set_concat)
      with that(2) plain(2) show False by blast
    qed
    then have "list_all (\<lambda>r. r \<noteq> backslash \<and> r \<notin> set quotes \<and> r \<notin> set blanks) rs"
      by (simp add: list_all_iff backslash_def quotes_def blanks_def)
    moreover have "rs \<noteq> []" using plain(1) by auto
    ultimately show ?thesis using split_plain [of rs False "[]" parts "runes t"] by (simp add: runes_plain [OF rs(1)])
  qed
qed

fun joined :: "string list \<Rightarrow> string" where
  "joined [] = []"
| "joined [w] = w"
| "joined (w # ws) = w @ '' '' @ joined ws"

lemma split_joined:
  assumes "list_all plain_text vs"
  shows "split_loop None False False [] parts (runes (joined (map (quoteCompletion \<circ> concat) vs))) = Inr (parts @ map concat vs)"
  using assms
proof (induction vs arbitrary: parts rule: induct_list012)
  case (2 v)
  then show ?case using split_completion [of v parts "[]"] by simp
next
  case (3 v w ws)
  have b: "runes ('' '' @ t) = '' '' # runes t" "'' '' \<in> set blanks" "'' '' \<noteq> backslash" "'' '' \<notin> set quotes" for t
    using runes_ascii [of "CHR '' ''" t] by (simp_all add: blanks_def backslash_def quotes_def)
  with 3 split_completion [of v parts] show ?case by simp
qed simp

section \<open>Properties\<close>



text \<open>C39: The shell and its completer see the same words. For every line the shell can split, the completer works on
  the same words without the empty ones, which it does not count as arguments.\<close>

theorem completion_words_agree:
  assumes "splitShellFields s = Inr ws"
  shows "completionWords s = filter (\<lambda>w. w \<noteq> []) ws"
  using loops_agree [of None False False "[]" "[]"] assms by (simp add: splitShellFields_def completionWords_def)

theorem completion_words_agree_witness:
  "completionWords ([CHR 0x22, CHR 0x22] @ '' a'') = [''a'']"
proof -
  have "splitShellFields ([CHR 0x22, CHR 0x22] @ '' a'') = Inr [[], ''a'']"
    by (simp add: splitShellFields_def runes_ascii backslash_def quotes_def blanks_def)
  from completion_words_agree [OF this] show ?thesis by simp
qed

end
