(* ===== verification/Cli_Config.thy ===== *)
theory Cli_Config
  imports Ipc_Client Shell_Words
begin

text \<open>
  The configuration of the command line tool (\<open>cmd/mc/internal/config/config.go\<close>), the commands that edit it and
  resolve a device from it (\<open>cli/resolve.go\<close>, \<open>connect.go\<close>, \<open>device.go\<close>, \<open>session.go\<close>), and the daemon that
  \<open>mc backend serve\<close> builds from it (\<open>backend_cmd.go\<close>). A map of the source is a list of pairs with distinct keys, in
  the order in which a loop happens to visit it. Reading and writing the file are not modelled: a command gets
  the configuration and returns the one it saves.
\<close>

section \<open>Configuration\<close>

record cli_device =
  cd_Name :: string
  cd_PublicKey :: string
  cd_PublicKeyPrefix :: string
  cd_PreferredTransport :: string
  cd_Transports :: "string list"
  cd_Autostart :: bool
  cd_Bridges :: "bridge_config list"

record cli_repeater =
  cr_Name :: string
  cr_Password :: string

record cli_config =
  cc_Version :: int
  cc_Current :: string
  cc_CurrentRepeater :: string
  cc_Bridges :: "bridge_config list"
  cc_Devices :: "(string \<times> cli_device) list"
  cc_Repeaters :: "(string \<times> cli_repeater) list"

datatype cli_error =
    Usage string
  | NoDeviceSelectedHint
  | UnknownProfile string
  | NoEndpoint string

text \<open>\<open>Load\<close>: no file gives the default, and a file without a version has the first one.\<close>

definition Load :: "cli_config option \<Rightarrow> cli_config" where
  "Load parsed =
     (case parsed of
        None \<Rightarrow> \<lparr>cc_Version = 1, cc_Current = [], cc_CurrentRepeater = [], cc_Bridges = [], cc_Devices = [], cc_Repeaters = []\<rparr>
      | Some c \<Rightarrow> if cc_Version c = 0 then c\<lparr>cc_Version := 1\<rparr> else c)"

definition PrimaryURI :: "cli_device \<Rightarrow> string" where
  "PrimaryURI d =
     (case find (\<lambda>uri. cd_PreferredTransport d = [] \<or> Scheme uri = cd_PreferredTransport d) (cd_Transports d) of
        Some uri \<Rightarrow> uri
      | None \<Rightarrow> (case cd_Transports d of uri # _ \<Rightarrow> uri | [] \<Rightarrow> []))"

definition Put :: "string \<Rightarrow> cli_device \<Rightarrow> bool \<Rightarrow> cli_config \<Rightarrow> cli_config" where
  "Put name dev makeCurrent c =
     (let c = c\<lparr>cc_Devices := AList.update name dev (cc_Devices c)\<rparr>
      in if makeCurrent \<or> cc_Current c = [] then c\<lparr>cc_Current := name\<rparr> else c)"

definition Remove :: "string \<Rightarrow> cli_config \<Rightarrow> bool \<times> cli_config" where
  "Remove name c =
     (if map_of (cc_Devices c) name = None then (False, c)
      else let c = c\<lparr>cc_Devices := AList.delete name (cc_Devices c)\<rparr>
        in (True, if cc_Current c = name then c\<lparr>cc_Current := []\<rparr> else c))"

section \<open>Repeaters\<close>

definition NormalizePublicKey :: "unicode \<Rightarrow> string \<Rightarrow> string" where
  "NormalizePublicKey u key = ToLower u (TrimSpace key)"

definition IsPublicKey :: "unicode \<Rightarrow> string \<Rightarrow> bool" where
  "IsPublicKey u s =
     (let s = NormalizePublicKey u s in
      length s = 64 \<and> list_all (\<lambda>c. let n = of_char c :: nat in (48 \<le> n \<and> n \<le> 57) \<or> (97 \<le> n \<and> n \<le> 102)) s)"

definition PutRepeater :: "unicode \<Rightarrow> string \<Rightarrow> cli_repeater \<Rightarrow> bool \<Rightarrow> cli_config \<Rightarrow> cli_config" where
  "PutRepeater u publicKey rep makeCurrent c =
     (let key = NormalizePublicKey u publicKey;
          c = c\<lparr>cc_Repeaters := AList.update key rep (cc_Repeaters c)\<rparr>
      in if makeCurrent \<or> cc_CurrentRepeater c = [] then c\<lparr>cc_CurrentRepeater := key\<rparr> else c)"

definition RepeaterByKey :: "unicode \<Rightarrow> string \<Rightarrow> cli_config \<Rightarrow> cli_repeater option" where
  "RepeaterByKey u publicKey c = map_of (cc_Repeaters c) (NormalizePublicKey u publicKey)"

definition MatchRepeater :: "unicode \<Rightarrow> string \<Rightarrow> cli_config \<Rightarrow> (string \<times> cli_repeater) option" where
  "MatchRepeater u wanted c =
     (let text = TrimSpace wanted; q = ToLower u text in
      if text = [] then None
      else find (\<lambda>(key, rep). let nk = NormalizePublicKey u key in
        EqualFold u nk text \<or> EqualFold u (cr_Name rep) text \<or> EqualFold u key text \<or> (6 \<le> length q \<and> HasPrefix nk q)) (cc_Repeaters c))"

definition RemoveRepeater :: "unicode \<Rightarrow> string \<Rightarrow> cli_config \<Rightarrow> (string \<times> cli_repeater) option \<times> cli_config" where
  "RemoveRepeater u wanted c =
     (case MatchRepeater u wanted c of
        None \<Rightarrow> (None, c)
      | Some (key, rep) \<Rightarrow>
          (let c = c\<lparr>cc_Repeaters := AList.delete key (cc_Repeaters c)\<rparr>
           in (Some (key, rep),
               if NormalizePublicKey u (cc_CurrentRepeater c) = NormalizePublicKey u key then c\<lparr>cc_CurrentRepeater := []\<rparr> else c)))"

definition CurrentRepeaterName :: "unicode \<Rightarrow> cli_config \<Rightarrow> string" where
  "CurrentRepeaterName u c =
     (if cc_CurrentRepeater c = [] then []
      else case map_of (cc_Repeaters c) (cc_CurrentRepeater c) of
        Some rep \<Rightarrow> if cr_Name rep \<noteq> [] then cr_Name rep else if \<not> IsPublicKey u (cc_CurrentRepeater c) then cc_CurrentRepeater c else []
      | None \<Rightarrow> if \<not> IsPublicKey u (cc_CurrentRepeater c) then cc_CurrentRepeater c else [])"

section \<open>Commands\<close>

text \<open>The endpoint and the profile a command uses; the flags \<open>--uri\<close> and \<open>--device\<close> are empty when not given.\<close>

definition resolveURI :: "string \<Rightarrow> string \<Rightarrow> cli_config \<Rightarrow> cli_error + string \<times> string" where
  "resolveURI uri device c =
     (if uri \<noteq> [] then Inr (uri, [])
      else let name = (if device = [] then cc_Current c else device) in
        if name = [] then Inl NoDeviceSelectedHint
        else case map_of (cc_Devices c) name of
          None \<Rightarrow> Inl (UnknownProfile name)
        | Some dev \<Rightarrow> if PrimaryURI dev = [] then Inl (NoEndpoint name) else Inr (PrimaryURI dev, name))"

definition sessionTarget :: "string \<Rightarrow> string \<Rightarrow> cli_config \<Rightarrow> cli_error + string" where
  "sessionTarget arg device c =
     (let name = (if arg \<noteq> [] then arg else if device \<noteq> [] then device else cc_Current c)
      in if name = [] then Inl NoDeviceSelectedHint else Inr name)"

definition cmdUse :: "string \<Rightarrow> cli_config \<Rightarrow> cli_error + cli_config" where
  "cmdUse name c =
     (if name = [] then Inl (Usage ''mc use <profile>'')
      else if map_of (cc_Devices c) name = None then Inl (UnknownProfile name)
      else Inr (c\<lparr>cc_Current := name\<rparr>))"

definition setDeviceAutostart :: "string \<Rightarrow> bool \<Rightarrow> cli_config \<Rightarrow> cli_error + cli_config" where
  "setDeviceAutostart name v c =
     (case map_of (cc_Devices c) name of
        None \<Rightarrow> Inl (UnknownProfile name)
      | Some dev \<Rightarrow> Inr (c\<lparr>cc_Devices := AList.update name (dev\<lparr>cd_Autostart := v\<rparr>) (cc_Devices c)\<rparr>))"

definition keyPrefix :: "string \<Rightarrow> string" where
  "keyPrefix key = (if 8 \<le> length key then take 8 key else key)"

definition defaultProfileName :: "unicode \<Rightarrow> string \<Rightarrow> string \<Rightarrow> string" where
  "defaultProfileName u publicKey uri =
     (let p = ToLower u (keyPrefix publicKey); p = (if p = [] then ''radio'' else p); scheme = Scheme uri
      in if scheme \<noteq> [] then scheme @ '':'' @ p else p)"

text \<open>The profile that \<open>mc connect\<close> saves for a radio it has reached.\<close>

definition connected_profile :: "unicode \<Rightarrow> string \<Rightarrow> string \<Rightarrow> string \<Rightarrow> cli_device" where
  "connected_profile u uri name publicKey =
     \<lparr>cd_Name = name, cd_PublicKey = ToLower u (TrimSpace publicKey), cd_PublicKeyPrefix = keyPrefix publicKey,
      cd_PreferredTransport = Scheme uri, cd_Transports = [uri], cd_Autostart = False, cd_Bridges = []\<rparr>"

definition save_connected :: "unicode \<Rightarrow> string \<Rightarrow> string \<Rightarrow> string \<Rightarrow> string \<Rightarrow> cli_config \<Rightarrow> cli_config" where
  "save_connected u as_name uri name publicKey c =
     Put (if as_name = [] then defaultProfileName u publicKey uri else as_name) (connected_profile u uri name publicKey) True c"

section \<open>Serving the configuration\<close>

text \<open>The first profile in the order of the map that has this endpoint.\<close>

definition deviceNameForURI :: "cli_config \<Rightarrow> string \<Rightarrow> string" where
  "deviceNameForURI c uri =
     (case find (\<lambda>(name, dev). PrimaryURI dev = uri \<or> uri \<in> set (cd_Transports dev)) (cc_Devices c) of
        None \<Rightarrow> [] | Some (name, _) \<Rightarrow> name)"

definition primaryBridges :: "cli_config \<Rightarrow> string \<Rightarrow> bridge_config list" where
  "primaryBridges c profile =
     (case (if profile = [] then None else map_of (cc_Devices c) profile) of
        Some dev \<Rightarrow> if cd_Bridges dev \<noteq> [] then cd_Bridges dev else cc_Bridges c
      | None \<Rightarrow> cc_Bridges c)"

definition profile_of :: "string \<Rightarrow> cli_device \<Rightarrow> session_profile" where
  "profile_of name dev =
     \<lparr>sp_ID = name, sp_URI = PrimaryURI dev, sp_PublicKey = cd_PublicKey dev, sp_Bridges = cd_Bridges dev, sp_Autostart = cd_Autostart dev\<rparr>"

text \<open>The loop that registers the saved devices; one that is given explicitly is passed over.\<close>

fun register_devices :: "string option \<Rightarrow> (string \<times> cli_device) list \<Rightarrow> daemon \<Rightarrow> daemon" where
  "register_devices given [] d = d"
| "register_devices given ((name, dev) # devs) d =
     register_devices given devs
       (if given = Some name \<or> PrimaryURI dev = [] then d else Register_profile (profile_of name dev) d)"

definition backendServe :: "string \<Rightarrow> string \<Rightarrow> cli_config \<Rightarrow> files \<Rightarrow> cli_error + daemon" where
  "backendServe uri device c files =
     (if uri \<noteq> [] \<or> device \<noteq> [] then
        (case resolveURI uri device c of
           Inl e \<Rightarrow> Inl e
         | Inr (uri, profile) \<Rightarrow>
             (let i = (if profile \<noteq> [] then profile else deviceNameForURI c uri);
                  i = (if i = [] then ''default'' else i);
                  key = (case map_of (cc_Devices c) i of Some dev \<Rightarrow> cd_PublicKey dev | None \<Rightarrow> []);
                  d = Register_profile \<lparr>sp_ID = i, sp_URI = uri, sp_PublicKey = key, sp_Bridges = primaryBridges c i, sp_Autostart = True\<rparr> (NewDaemon files)
              in Inr (SetDefault i (register_devices (Some i) (cc_Devices c) d))))
      else let d = register_devices None (cc_Devices c) (NewDaemon files)
        in Inr (if cc_Current c \<noteq> [] then SetDefault (cc_Current c) d else d))"

section \<open>The selection stays valid\<close>

text \<open>The commands that edit the configuration, in any order.\<close>

inductive config_step :: "unicode \<Rightarrow> cli_config \<Rightarrow> cli_config \<Rightarrow> bool" for u where
  connect: "config_step u c (save_connected u as_name uri name publicKey c)"
| select: "cmdUse name c = Inr c' \<Longrightarrow> config_step u c c'"
| remove: "Remove name c = (r, c') \<Longrightarrow> config_step u c c'"
| autostart: "setDeviceAutostart name v c = Inr c' \<Longrightarrow> config_step u c c'"
| repeater: "config_step u c (PutRepeater u key rep makeCurrent c)"
| forget: "RemoveRepeater u wanted c = (r, c') \<Longrightarrow> config_step u c c'"

definition config_ok :: "cli_config \<Rightarrow> bool" where
  "config_ok c \<longleftrightarrow> distinct (map fst (cc_Devices c)) \<and> distinct (map fst (cc_Repeaters c)) \<and>
     (cc_Current c = [] \<or> map_of (cc_Devices c) (cc_Current c) \<noteq> None) \<and>
     (cc_CurrentRepeater c = [] \<or> map_of (cc_Repeaters c) (cc_CurrentRepeater c) \<noteq> None)"

lemma config_step_ok:
  assumes "config_step u c c'" and "config_ok c"
  shows "config_ok c'"
  using assms
proof cases
  case (remove name r)
  with assms(2) show ?thesis
    by (auto simp: config_ok_def Remove_def Let_def delete_conv' distinct_delete simp del: map_of_eq_Some_iff split: if_splits)
next
  case (forget wanted r)
  with assms(2) show ?thesis
    by (auto simp: config_ok_def RemoveRepeater_def Let_def delete_conv' distinct_delete simp del: map_of_eq_Some_iff split: if_splits option.splits)
qed (use assms(2) in \<open>auto simp: config_ok_def save_connected_def Put_def cmdUse_def setDeviceAutostart_def PutRepeater_def Let_def
    update_conv' distinct_update simp del: map_of_eq_Some_iff split: if_splits option.splits\<close>)

text \<open>The preferred endpoint of a profile is one of its own, and of the preferred transport if it has one of that.\<close>

lemma find_member: "find P xs = Some x \<Longrightarrow> x \<in> set xs \<and> P x"
  by (induction xs) (auto split: if_splits)

lemma PrimaryURI_own: "cd_Transports d \<noteq> [] \<Longrightarrow> PrimaryURI d \<in> set (cd_Transports d)"
  by (auto simp: PrimaryURI_def dest: find_member split: option.split list.split)

lemma PrimaryURI_preferred:
  assumes "uri \<in> set (cd_Transports d)" and "Scheme uri = cd_PreferredTransport d"
  shows "cd_PreferredTransport d = [] \<or> Scheme (PrimaryURI d) = cd_PreferredTransport d"
  using assms by (auto simp: PrimaryURI_def find_None_iff dest: find_member split: option.split list.split)

text \<open>C36: The selected device is always a saved one. Whatever sequence of connecting, selecting, removing and changing
  profiles edits the configuration, the current device and the current repeater are saved or there is none, so
  that a command without flags never fails for an unknown profile. A radio just connected is the current device,
  and a command without flags uses the endpoint it was reached at.\<close>

theorem selected_device_saved:
  assumes "(config_step u)\<^sup>*\<^sup>* (Load None) c"
  shows "config_ok c \<and> resolveURI [] [] c \<noteq> Inl (UnknownProfile name) \<and>
    (uri \<noteq> [] \<and> as_name \<noteq> [] \<longrightarrow> resolveURI [] [] (save_connected u as_name uri nm publicKey c) = Inr (uri, as_name))"
proof -
  have "config_ok c"
    using assms
  proof (induction rule: rtranclp_induct)
    case base
    show ?case by (simp add: config_ok_def Load_def)
  next
    case (step c c')
    then show ?case using config_step_ok by blast
  qed
  then show ?thesis
    by (auto simp: resolveURI_def config_ok_def save_connected_def Put_def connected_profile_def PrimaryURI_def Let_def update_conv'
        split: option.splits if_splits)
qed

theorem selected_device_saved_witness:
  "resolveURI [] [] (save_connected ascii_text ''home'' ''tcp://h:1'' ''R'' ''AB'' (snd (Remove ''x'' (Load None)))) = Inr (''tcp://h:1'', ''home'')"
proof -
  have "(config_step ascii_text)\<^sup>*\<^sup>* (Load None) (snd (Remove ''x'' (Load None)))"
    using config_step.remove [of "''x''" "Load None" "fst (Remove ''x'' (Load None))" "snd (Remove ''x'' (Load None))"] by auto
  from selected_device_saved [OF this, of _ "''tcp://h:1''" "''home''"] show ?thesis by simp
qed

section \<open>The daemon has the saved devices\<close>

lemma Register_profile_of:
  assumes "name \<noteq> []"
  shows "map_of (dm_profiles (Register_profile (profile_of name dev) d)) = (map_of (dm_profiles d))(name \<mapsto> profile_of name dev)"
  using assms by (simp add: Register_profile_def profile_of_def Let_def update_conv')

lemma register_devices_profiles:
  assumes "distinct (map fst devs)" and "[] \<notin> set (map fst devs)"
  shows "map_of (dm_profiles (register_devices given devs d)) i =
    (case map_of devs i of
       Some dev \<Rightarrow> if given = Some i \<or> PrimaryURI dev = [] then map_of (dm_profiles d) i else Some (profile_of i dev)
     | None \<Rightarrow> map_of (dm_profiles d) i)"
  using assms
proof (induction given devs d rule: register_devices.induct)
  case (2 given name dev devs d)
  then have n: "name \<noteq> []" "map_of devs name = None" by (auto simp: map_of_eq_None_iff)
  show ?case using 2 Register_profile_of [OF n(1), of dev d] n(2) by (cases "i = name") (auto split: option.splits)
qed simp



end
