(* ===== verification/Contact_List.thy ===== *)
theory Contact_List
  imports State_Store "HOL-Library.Multiset"
begin

text \<open>
  Filtering and sorting the contact list (\<open>cmd/mc/internal/cli/contacts_filter.go\<close>). The great-circle distance
  (\<open>ui.DistanceKM\<close>) is the argument \<open>arc\<close>; a distance that is not a number is \<open>None\<close>. \<open>sort.SliceStable\<close> is a
  stable insertion sort by the comparison it is given. Which results that has is a matter of the comparison, so
  each order is shown to be the order of a key.
\<close>

section \<open>Queries\<close>

record contact_query =
  cq_typeFilter :: "contact_type option"
  cq_withinKM :: "f64 option"
  cq_routeFilter :: "string option"
  cq_sortBy :: string

datatype query_error = UnknownSort string | UnknownRoute string | UnknownType string | NoCoordinates

definition filtered :: "contact_query \<Rightarrow> bool" where
  "filtered q \<longleftrightarrow> cq_typeFilter q \<noteq> None \<or> cq_withinKM q \<noteq> None \<or> cq_routeFilter q \<noteq> None"

definition parseContactSort :: "unicode \<Rightarrow> string \<Rightarrow> query_error + string" where
  "parseContactSort u s =
     (let t = ToLower u (TrimSpace s) in
      if t \<in> set [''name'', ''type'', ''age'', ''adv'', ''route'', ''key'', ''distance''] then Inr t else Inl (UnknownSort s))"

definition parseContactRouteFilter :: "unicode \<Rightarrow> string \<Rightarrow> query_error + string" where
  "parseContactRouteFilter u s =
     (let t = ToLower u (TrimSpace s) in
      if t \<in> set [''direct'', ''flood'', ''static''] then Inr t else Inl (UnknownRoute s))"

definition parseContactTypeFilter :: "unicode \<Rightarrow> string \<Rightarrow> query_error + contact_type" where
  "parseContactTypeFilter u s =
     (let t = ToLower u (TrimSpace s) in
      if t \<in> set [''companion'', ''chat'', ''client''] then Inr ContactChat
      else if t = ''repeater'' then Inr ContactRepeater
      else if t = ''room'' then Inr ContactRoom
      else if t = ''sensor'' then Inr ContactSensor
      else Inl (UnknownType s))"

section \<open>What contacts are compared by\<close>

definition HasCoordinates :: "f64 \<Rightarrow> f64 \<Rightarrow> bool" where
  "HasCoordinates lat lon \<longleftrightarrow> lat \<noteq> 0 \<or> lon \<noteq> 0"

definition HumanContactType :: "contact_type \<Rightarrow> string" where
  "HumanContactType t =
     (case t of ContactChat \<Rightarrow> ''companion'' | ContactRepeater \<Rightarrow> ''repeater'' | ContactRoom \<Rightarrow> ''room'' | ContactSensor \<Rightarrow> ''sensor''
      | _ \<Rightarrow> ''unknown'')"

definition contactRouteKind :: "contact \<Rightarrow> string" where
  "contactRouteKind ct =
     (if ct_OutPathEnc ct = OutPathUnknown then ''flood''
      else if HopCountFromPathMeta (ct_OutPathEnc ct) = 0 then ''direct'' else ''static'')"

definition instant :: "go_time \<Rightarrow> int \<times> nat" where
  "instant t = (t_unix t, t_nsec t)"

definition contactAgeRank :: "go_time \<Rightarrow> go_time \<Rightarrow> int" where
  "contactAgeRank now t = (if IsZero t then 2 else if instant now < instant t then 1 else 0)"

definition contactAdvRank :: "contact \<Rightarrow> int" where
  "contactAdvRank ct = (if ct_OutPathEnc ct = OutPathUnknown then 0 else HashSizeFromPathMeta (ct_OutPathEnc ct))"

definition contactRouteRank :: "contact \<Rightarrow> int" where
  "contactRouteRank ct = (if ct_OutPathEnc ct = OutPathUnknown then 1000 else HopCountFromPathMeta (ct_OutPathEnc ct))"

type_synonym distance = "f64 \<Rightarrow> f64 \<Rightarrow> f64 \<Rightarrow> f64 \<Rightarrow> f64"

definition contactDistanceKM :: "distance \<Rightarrow> f64 \<times> f64 \<Rightarrow> contact \<Rightarrow> f64 option" where
  "contactDistanceKM arc origin ct =
     (if \<not> HasCoordinates (fst origin) (snd origin) \<or> \<not> HasCoordinates (ct_Latitude ct) (ct_Longitude ct) then None
      else Some (arc (fst origin) (snd origin) (ct_Latitude ct) (ct_Longitude ct)))"

definition contactNameLess :: "unicode \<Rightarrow> contact \<Rightarrow> contact \<Rightarrow> bool" where
  "contactNameLess u a b =
     (let an = ToLower u (ct_Name a); bn = ToLower u (ct_Name b)
      in if an \<noteq> bn then an < bn else ToLower u (ct_PublicKey a) < ToLower u (ct_PublicKey b))"

text \<open>The comparison of \<open>sortContacts\<close>.\<close>

definition contact_less :: "unicode \<Rightarrow> go_time \<Rightarrow> distance \<Rightarrow> f64 \<times> f64 \<Rightarrow> string \<Rightarrow> contact \<Rightarrow> contact \<Rightarrow> bool" where
  "contact_less u now arc origin sortBy a b =
     (if sortBy = ''type'' then
        (let ta = HumanContactType (ct_Type a); tb = HumanContactType (ct_Type b)
         in if ta \<noteq> tb then ta < tb else contactNameLess u a b)
      else if sortBy = ''age'' then
        (let ra = contactAgeRank now (ct_LastAdvert a); rb = contactAgeRank now (ct_LastAdvert b)
         in if ra \<noteq> rb then ra < rb
            else if ra < 2 \<and> instant (ct_LastAdvert a) \<noteq> instant (ct_LastAdvert b) then instant (ct_LastAdvert a) < instant (ct_LastAdvert b)
            else contactNameLess u a b)
      else if sortBy = ''adv'' then
        (if contactAdvRank a \<noteq> contactAdvRank b then contactAdvRank a < contactAdvRank b else contactNameLess u a b)
      else if sortBy = ''route'' then
        (if contactRouteRank a \<noteq> contactRouteRank b then contactRouteRank a < contactRouteRank b else contactNameLess u a b)
      else if sortBy = ''key'' then
        (let ka = ToLower u (ct_PublicKey a); kb = ToLower u (ct_PublicKey b)
         in if ka = [] \<and> kb = [] then contactNameLess u a b
            else if ka = [] then False
            else if kb = [] then True
            else if ka \<noteq> kb then ka < kb
            else contactNameLess u a b)
      else if sortBy = ''distance'' then
        (case (contactDistanceKM arc origin a, contactDistanceKM arc origin b) of
           (None, None) \<Rightarrow> contactNameLess u a b
         | (None, Some _) \<Rightarrow> False
         | (Some _, None) \<Rightarrow> True
         | (Some da, Some db) \<Rightarrow> if da \<noteq> db then da < db else contactNameLess u a b)
      else contactNameLess u a b)"

section \<open>Sorting and filtering\<close>

fun insert_stable :: "('a \<Rightarrow> 'a \<Rightarrow> bool) \<Rightarrow> 'a \<Rightarrow> 'a list \<Rightarrow> 'a list" where
  "insert_stable before x [] = [x]"
| "insert_stable before x (y # ys) = (if before y x then y # insert_stable before x ys else x # y # ys)"

fun sort_SliceStable :: "('a \<Rightarrow> 'a \<Rightarrow> bool) \<Rightarrow> 'a list \<Rightarrow> 'a list" where
  "sort_SliceStable before [] = []"
| "sort_SliceStable before (x # xs) = insert_stable before x (sort_SliceStable before xs)"

definition sortContacts :: "unicode \<Rightarrow> go_time \<Rightarrow> distance \<Rightarrow> f64 \<times> f64 \<Rightarrow> string \<Rightarrow> contact list \<Rightarrow> contact list" where
  "sortContacts u now arc origin sortBy = sort_SliceStable (contact_less u now arc origin sortBy)"

definition filterContacts :: "unicode \<Rightarrow> go_time \<Rightarrow> distance \<Rightarrow> contact_query \<Rightarrow> f64 \<times> f64 \<Rightarrow> contact list \<Rightarrow> query_error + contact list" where
  "filterContacts u now arc q origin contacts =
     (if cq_withinKM q \<noteq> None \<and> \<not> HasCoordinates (fst origin) (snd origin) then Inl NoCoordinates
      else if cq_sortBy q = ''distance'' \<and> \<not> HasCoordinates (fst origin) (snd origin) then Inl NoCoordinates
      else
        let out = (case cq_typeFilter q of None \<Rightarrow> contacts | Some t \<Rightarrow> filter (\<lambda>ct. ct_Type ct = t) contacts);
            out = (case cq_withinKM q of
                None \<Rightarrow> out
              | Some km \<Rightarrow> filter (\<lambda>ct. HasCoordinates (ct_Latitude ct) (ct_Longitude ct) \<and>
                  (case contactDistanceKM arc origin ct of None \<Rightarrow> False | Some d \<Rightarrow> d \<le> km)) out);
            out = (case cq_routeFilter q of None \<Rightarrow> out | Some r \<Rightarrow> filter (\<lambda>ct. contactRouteKind ct = r) out)
        in Inr (sortContacts u now arc origin (cq_sortBy q) out))"

section \<open>Orders given by a key\<close>

text \<open>The contract of a comparison that a stable sort can rely on: it compares a key.\<close>

locale keyed =
  fixes before :: "'a \<Rightarrow> 'a \<Rightarrow> bool" and key :: "'a \<Rightarrow> 'k :: linorder"
  assumes less_key: "before a b \<longleftrightarrow> key a < key b"
begin

lemma insert_stable_key: "insert_stable before x xs = insort_key key x xs"
  by (induction xs) (auto simp: less_key)

lemma sort_SliceStable_key: "sort_SliceStable before xs = sort_key key xs"
  by (induction xs) (simp_all add: insert_stable_key)

end

definition name_key :: "unicode \<Rightarrow> contact \<Rightarrow> string \<times> string" where
  "name_key u ct = (ToLower u (ct_Name ct), ToLower u (ct_PublicKey ct))"

lemma contactNameLess_key: "contactNameLess u a b \<longleftrightarrow> name_key u a < name_key u b"
  by (auto simp: contactNameLess_def name_key_def Let_def)

definition age_key :: "unicode \<Rightarrow> go_time \<Rightarrow> contact \<Rightarrow> int \<times> (int \<times> nat) \<times> string \<times> string" where
  "age_key u now ct =
     (let r = contactAgeRank now (ct_LastAdvert ct) in (r, if r < 2 then instant (ct_LastAdvert ct) else (0, 0), name_key u ct))"

definition key_key :: "unicode \<Rightarrow> contact \<Rightarrow> bool \<times> string \<times> string \<times> string" where
  "key_key u ct = (ToLower u (ct_PublicKey ct) = [], ToLower u (ct_PublicKey ct), name_key u ct)"

definition distance_key :: "unicode \<Rightarrow> distance \<Rightarrow> f64 \<times> f64 \<Rightarrow> contact \<Rightarrow> bool \<times> f64 \<times> string \<times> string" where
  "distance_key u arc origin ct =
     (case contactDistanceKM arc origin ct of None \<Rightarrow> (True, 0, name_key u ct) | Some d \<Rightarrow> (False, d, name_key u ct))"

interpretation by_name: keyed "contact_less u now arc origin ''name''" "name_key u" for u now arc origin
  by unfold_locales (simp add: contact_less_def contactNameLess_key)

interpretation by_type: keyed "contact_less u now arc origin ''type''" "\<lambda>ct. (HumanContactType (ct_Type ct), name_key u ct)" for u now arc origin
  by unfold_locales (auto simp: contact_less_def contactNameLess_key Let_def)

interpretation by_age: keyed "contact_less u now arc origin ''age''" "age_key u now" for u now arc origin
  by unfold_locales (auto simp: contact_less_def contactNameLess_key age_key_def Let_def)

interpretation by_adv: keyed "contact_less u now arc origin ''adv''" "\<lambda>ct. (contactAdvRank ct, name_key u ct)" for u now arc origin
  by unfold_locales (auto simp: contact_less_def contactNameLess_key)

interpretation by_route: keyed "contact_less u now arc origin ''route''" "\<lambda>ct. (contactRouteRank ct, name_key u ct)" for u now arc origin
  by unfold_locales (auto simp: contact_less_def contactNameLess_key)

interpretation by_key: keyed "contact_less u now arc origin ''key''" "key_key u" for u now arc origin
  by unfold_locales (auto simp: contact_less_def contactNameLess_key key_key_def Let_def)

interpretation by_distance: keyed "contact_less u now arc origin ''distance''" "distance_key u arc origin" for u now arc origin
  by unfold_locales (auto simp: contact_less_def contactNameLess_key distance_key_def Let_def split: option.split)

lemmas sorts_by_key =
  by_name.sort_SliceStable_key by_type.sort_SliceStable_key by_age.sort_SliceStable_key by_adv.sort_SliceStable_key
  by_route.sort_SliceStable_key by_key.sort_SliceStable_key by_distance.sort_SliceStable_key

section \<open>Properties\<close>

text \<open>What the filters of a query let pass.\<close>

definition selected :: "distance \<Rightarrow> contact_query \<Rightarrow> f64 \<times> f64 \<Rightarrow> contact \<Rightarrow> bool" where
  "selected arc q origin ct \<longleftrightarrow>
     (\<forall>t. cq_typeFilter q = Some t \<longrightarrow> ct_Type ct = t) \<and>
     (\<forall>km. cq_withinKM q = Some km \<longrightarrow> (\<exists>d. contactDistanceKM arc origin ct = Some d \<and> d \<le> km)) \<and>
     (\<forall>r. cq_routeFilter q = Some r \<longrightarrow> contactRouteKind ct = r)"

lemma filter_same: "(\<And>x. P x = Q x) \<Longrightarrow> filter P xs = filter Q xs"
  by (rule filter_cong) simp_all

lemma filterContacts_selected:
  assumes "filterContacts u now arc q origin contacts = Inr out"
  shows "out = sortContacts u now arc origin (cq_sortBy q) (filter (selected arc q origin) contacts)"
proof -
  have "filter (selected arc q origin) contacts =
      (let out = (case cq_typeFilter q of None \<Rightarrow> contacts | Some t \<Rightarrow> filter (\<lambda>ct. ct_Type ct = t) contacts);
           out = (case cq_withinKM q of
                None \<Rightarrow> out
              | Some km \<Rightarrow> filter (\<lambda>ct. HasCoordinates (ct_Latitude ct) (ct_Longitude ct) \<and>
                  (case contactDistanceKM arc origin ct of None \<Rightarrow> False | Some d \<Rightarrow> d \<le> km)) out)
       in case cq_routeFilter q of None \<Rightarrow> out | Some r \<Rightarrow> filter (\<lambda>ct. contactRouteKind ct = r) out)"
    by (auto simp: Let_def selected_def contactDistanceKM_def filter_empty_conv split: option.splits if_splits intro!: filter_same)
  with assms show ?thesis by (auto simp: filterContacts_def Let_def split: if_splits)
qed

text \<open>C40: The contact list shows what was asked for, in the order asked for. It has exactly the contacts that have the
  type, the route and the distance of the query, each as often as it is stored; and it is the list that is stable
  and ordered by the key of the order chosen: by name, type, age with unknown ages last and clocks ahead of ours
  before them, width, hops, key with missing ones last, or distance with unknown ones last, and then by name.\<close>

theorem contact_list_as_asked:
  assumes "filterContacts u now arc q origin contacts = Inr out"
  shows "mset out = mset (filter (selected arc q origin) contacts) \<and>
    (cq_sortBy q = ''name'' \<longrightarrow> out = sort_key (name_key u) (filter (selected arc q origin) contacts)) \<and>
    (cq_sortBy q = ''type'' \<longrightarrow> out = sort_key (\<lambda>ct. (HumanContactType (ct_Type ct), name_key u ct)) (filter (selected arc q origin) contacts)) \<and>
    (cq_sortBy q = ''age'' \<longrightarrow> out = sort_key (age_key u now) (filter (selected arc q origin) contacts)) \<and>
    (cq_sortBy q = ''adv'' \<longrightarrow> out = sort_key (\<lambda>ct. (contactAdvRank ct, name_key u ct)) (filter (selected arc q origin) contacts)) \<and>
    (cq_sortBy q = ''route'' \<longrightarrow> out = sort_key (\<lambda>ct. (contactRouteRank ct, name_key u ct)) (filter (selected arc q origin) contacts)) \<and>
    (cq_sortBy q = ''key'' \<longrightarrow> out = sort_key (key_key u) (filter (selected arc q origin) contacts)) \<and>
    (cq_sortBy q = ''distance'' \<longrightarrow> out = sort_key (distance_key u arc origin) (filter (selected arc q origin) contacts))"
proof -
  have i: "mset (insert_stable before x xs) = add_mset x (mset xs)" for before and x :: contact and xs by (induction xs) auto
  have m: "mset (sort_SliceStable before xs) = mset xs" for before and xs :: "contact list" by (induction xs) (simp_all add: i)
  show ?thesis
    unfolding filterContacts_selected [OF assms] sortContacts_def by (auto simp: m sorts_by_key)
qed

theorem contact_list_as_asked_witness:
  "\<exists>out. filterContacts ascii_text zero_time (\<lambda>_ _ _ _. 5) \<lparr>cq_typeFilter = Some ContactChat, cq_withinKM = Some 10, cq_routeFilter = None, cq_sortBy = ''name''\<rparr> (1, 1)
      [(named_contact ''b'')\<lparr>ct_Type := ContactChat, ct_Latitude := 2\<rparr>, named_contact ''x'', (named_contact ''A'')\<lparr>ct_Type := ContactChat, ct_Latitude := 3\<rparr>] = Inr out \<and>
     map ct_Name out = [''A'', ''b'']"
proof -
  let ?q = "\<lparr>cq_typeFilter = Some ContactChat, cq_withinKM = Some 10, cq_routeFilter = None, cq_sortBy = ''name''\<rparr>"
  let ?a = "(named_contact ''A'')\<lparr>ct_Type := ContactChat, ct_Latitude := 3\<rparr>" and ?b = "(named_contact ''b'')\<lparr>ct_Type := ContactChat, ct_Latitude := 2\<rparr>"
  obtain out where f: "filterContacts ascii_text zero_time (\<lambda>_ _ _ _. 5) ?q (1, 1) [?b, named_contact ''x'', ?a] = Inr out"
    by (simp add: filterContacts_def HasCoordinates_def Let_def)
  have s: "filter (selected (\<lambda>_ _ _ _. 5) ?q (1, 1)) [?b, named_contact ''x'', ?a] = [?b, ?a]"
    by (simp add: selected_def named_contact_def contactDistanceKM_def HasCoordinates_def)
  have "name_key ascii_text ?a < name_key ascii_text ?b" by code_simp
  then have "sort_key (name_key ascii_text) [?b, ?a] = [?a, ?b]" by simp
  moreover have "out = sort_key (name_key ascii_text) [?b, ?a]" using contact_list_as_asked [OF f] unfolding s by simp
  ultimately show ?thesis using f by (simp add: named_contact_def)
qed

end
