(* ===== verification/Session_Starts.thy ===== *)
theory Session_Starts
  imports Radio_Executor
begin

text \<open>
  Concurrent starts and stops of one device (\<open>startSession\<close> and \<open>stopSession\<close> of \<open>backend/daemon.go\<close>). A start
  looks for the session, takes the lock of the device, looks again, dials, enters the session and releases the
  lock; a stop removes the session and then closes it. The steps are these actions of any number of
  goroutines in any order. The state has what the goroutines share: whether the device has a session, its
  lock, and the number of connections to the radio that are open.
\<close>

section \<open>Goroutines\<close>

datatype start_phase =
    WantStart | WaitLock | Checking | Dialing | Dialed | Releasing
  | WantStop | Closing | Done

record starts =
  st_session :: bool
  st_lock :: bool
  st_live :: nat
  st_phases :: "start_phase list"

text \<open>The next action of a goroutine; \<open>ok\<close> says whether dialing succeeds, \<open>None\<close> that the goroutine waits.\<close>

fun start_action :: "bool \<Rightarrow> start_phase \<Rightarrow> starts \<Rightarrow> (start_phase \<times> starts) option" where
  "start_action ok WantStart g = Some (if st_session g then Done else WaitLock, g)"
| "start_action ok WaitLock g = (if st_lock g then None else Some (Checking, g\<lparr>st_lock := True\<rparr>))"
| "start_action ok Checking g = Some (if st_session g then Releasing else Dialing, g)"
| "start_action ok Dialing g = Some (if ok then (Dialed, g\<lparr>st_live := st_live g + 1\<rparr>) else (Releasing, g))"
| "start_action ok Dialed g = Some (Releasing, g\<lparr>st_session := True\<rparr>)"
| "start_action ok Releasing g = Some (Done, g\<lparr>st_lock := False\<rparr>)"
| "start_action ok WantStop g = Some (if st_session g then (Closing, g\<lparr>st_session := False\<rparr>) else (Done, g))"
| "start_action ok Closing g = Some (Done, g\<lparr>st_live := st_live g - 1\<rparr>)"
| "start_action ok Done g = None"

inductive start_step :: "starts \<Rightarrow> starts \<Rightarrow> bool" where
  start: "start_step g (g\<lparr>st_phases := st_phases g @ [WantStart]\<rparr>)"
| stop: "start_step g (g\<lparr>st_phases := st_phases g @ [WantStop]\<rparr>)"
| act: "i < length (st_phases g) \<Longrightarrow> start_action ok (st_phases g ! i) g = Some (p, g') \<Longrightarrow>
    start_step g (g'\<lparr>st_phases := (st_phases g)[i := p]\<rparr>)"

definition no_session :: starts where
  "no_session = \<lparr>st_session = False, st_lock = False, st_live = 0, st_phases = []\<rparr>"

section \<open>Invariant\<close>

fun locked :: "start_phase \<Rightarrow> bool" where
  "locked Checking = True"
| "locked Dialing = True"
| "locked Dialed = True"
| "locked Releasing = True"
| "locked _ = False"

definition count :: "(start_phase \<Rightarrow> bool) \<Rightarrow> start_phase list \<Rightarrow> nat" where
  "count P ps = length (filter P ps)"

lemma count_update:
  "i < length ps \<Longrightarrow> count P (ps[i := p]) + (if P (ps ! i) then 1 else 0) = count P ps + (if P p then 1 else 0)"
  unfolding count_def by (rule length_filter_update)

lemma count_append [simp]: "count P (ps @ [p]) = count P ps + (if P p then 1 else 0)"
  by (simp add: count_def)

lemma count_le: "(\<And>p. P p \<Longrightarrow> Q p) \<Longrightarrow> count P ps \<le> count Q ps"
  by (induction ps) (auto simp: count_def)

text \<open>One goroutine holds the lock; while it dials there is no session; the open connections are the one of
  the session, the one just dialed, and those being closed.\<close>

definition starts_inv :: "starts \<Rightarrow> bool" where
  "starts_inv g \<longleftrightarrow> count locked (st_phases g) = (if st_lock g then 1 else 0) \<and>
     count (\<lambda>p. p = Dialing \<or> p = Dialed) (st_phases g) + (if st_session g then 1 else 0) \<le> 1 \<and>
     st_live g = (if st_session g then 1 else 0) + count (\<lambda>p. p = Dialed) (st_phases g) + count (\<lambda>p. p = Closing) (st_phases g)"

lemma locked_self:
  assumes "starts_inv g" and "i < length (st_phases g)" and "locked (st_phases g ! i)"
  shows "st_lock g" and "count locked ((st_phases g)[i := Done]) = 0"
proof -
  have "0 < count locked (st_phases g)" using assms(2, 3) nth_mem by (auto simp: count_def filter_empty_conv)
  with assms(1) show "st_lock g" by (simp add: starts_inv_def split: if_splits)
  with count_update [OF assms(2), of locked Done] assms(1, 3) show "count locked ((st_phases g)[i := Done]) = 0"
    by (simp add: starts_inv_def)
qed

text \<open>The goroutine that checks again is the only one that could dial.\<close>

lemma checking_alone:
  assumes "starts_inv g" and "i < length (st_phases g)" and "st_phases g ! i = Checking"
  shows "count (\<lambda>p. p = Dialing \<or> p = Dialed) (st_phases g) = 0"
proof -
  have "count (\<lambda>p. p = Dialing \<or> p = Dialed) ((st_phases g)[i := Done]) \<le> count locked ((st_phases g)[i := Done])"
    by (rule count_le) auto
  with locked_self(2) [OF assms(1, 2)] assms(3) count_update [OF assms(2), of "\<lambda>p. p = Dialing \<or> p = Dialed" Done]
  show ?thesis by simp
qed

lemma start_step_inv:
  assumes "start_step g g'" and "starts_inv g"
  shows "starts_inv g'"
  using assms
proof (induction rule: start_step.induct)
  case (act i g ok p g')
  note u = count_update [OF act(1), of _ p]
  note counts = u [of locked] u [of "\<lambda>p. p = Dialing \<or> p = Dialed"] u [of "\<lambda>p. p = Dialed"] u [of "\<lambda>p. p = Closing"]
  note chk = checking_alone [OF act.prems act(1)]
  note lk = locked_self(1) [OF act.prems act(1)]
  from act(2) act.prems counts show ?case
    by (cases "st_phases g ! i") (use chk lk in \<open>auto simp: starts_inv_def split: if_splits\<close>)
qed (auto simp: starts_inv_def)

lemma starts_reachable:
  assumes "start_step\<^sup>*\<^sup>* no_session g"
  shows "starts_inv g"
  using assms
proof (induction rule: rtranclp_induct)
  case base
  show ?case by (simp add: starts_inv_def no_session_def count_def)
next
  case (step g g')
  then show ?case using start_step_inv by blast
qed

text \<open>C12: A device is dialed once. However many goroutines start and stop a device, and in whatever order their
  actions come, at most one connection to its radio is open besides those a stop is just closing; a device
  with a session is not being dialed; and one goroutine at a time holds the lock of the device, which can
  always go on and give it back.\<close>

theorem device_dialed_once:
  assumes "start_step\<^sup>*\<^sup>* no_session g"
  shows "st_live g \<le> 1 + count (\<lambda>p. p = Closing) (st_phases g) \<and>
    (st_session g \<longrightarrow> Dialing \<notin> set (st_phases g) \<and> Dialed \<notin> set (st_phases g)) \<and>
    count locked (st_phases g) \<le> 1 \<and>
    (p \<in> set (st_phases g) \<and> locked p \<longrightarrow> (\<exists>p' g'. start_action ok p g = Some (p', g')))"
proof -
  have inv: "starts_inv g" by (rule starts_reachable [OF assms])
  have le: "count (\<lambda>p. p = Dialed) (st_phases g) \<le> count (\<lambda>p. p = Dialing \<or> p = Dialed) (st_phases g)" by (rule count_le) simp
  have none: "count (\<lambda>p. p = Dialing \<or> p = Dialed) (st_phases g) = 0 \<longleftrightarrow> Dialing \<notin> set (st_phases g) \<and> Dialed \<notin> set (st_phases g)"
    by (auto simp: count_def filter_empty_conv)
  have "\<exists>p' g'. start_action ok p g = Some (p', g')" if "locked p" using that by (cases p) auto
  with inv le none show ?thesis by (auto simp: starts_inv_def split: if_splits)
qed

text \<open>A stop removes the session before it closes the connection, so that a start in between dials a radio
  that is still connected.\<close>

lemma restart_overlaps: "\<exists>g. start_step\<^sup>*\<^sup>* no_session g \<and> st_live g = 2 \<and> st_phases g = [Done, Closing, Dialed]"
proof -
  let ?st = "\<lambda>s l n ps. \<lparr>st_session = s, st_lock = l, st_live = n, st_phases = ps\<rparr>"
  have a: "start_step (?st s l n ps) (?st s' l' n' (ps[i := p]))"
    if "i < length ps" "start_action True (ps ! i) (?st s l n ps) = Some (p, ?st s' l' n' ps)" for s l n ps s' l' n' i p
    using start_step.act [of i "?st s l n ps" True] that by simp
  have "start_step\<^sup>*\<^sup>* no_session (?st False False 0 [WantStart])"
    using start_step.start [of no_session] by (simp add: no_session_def r_into_rtranclp)
  also have "start_step (?st False False 0 [WantStart]) (?st False False 0 [WaitLock])" using a [of 0 "[WantStart]" False False 0 WaitLock False False 0] by simp
  also have "start_step \<dots> (?st False True 0 [Checking])" using a [of 0 "[WaitLock]" False False 0 Checking False True 0] by simp
  also have "start_step \<dots> (?st False True 0 [Dialing])" using a [of 0 "[Checking]" False True 0 Dialing False True 0] by simp
  also have "start_step \<dots> (?st False True 1 [Dialed])" using a [of 0 "[Dialing]" False True 0 Dialed False True 1] by simp
  also have "start_step \<dots> (?st True True 1 [Releasing])" using a [of 0 "[Dialed]" False True 1 Releasing True True 1] by simp
  also have "start_step \<dots> (?st True False 1 [Done])" using a [of 0 "[Releasing]" True True 1 Done True False 1] by simp
  also have "start_step \<dots> (?st True False 1 [Done, WantStop])" using start_step.stop [of "?st True False 1 [Done]"] by simp
  also have "start_step \<dots> (?st False False 1 [Done, Closing])" using a [of 1 "[Done, WantStop]" True False 1 Closing False False 1] by simp
  also have "start_step \<dots> (?st False False 1 [Done, Closing, WantStart])" using start_step.start [of "?st False False 1 [Done, Closing]"] by simp
  also have "start_step \<dots> (?st False False 1 [Done, Closing, WaitLock])" using a [of 2 "[Done, Closing, WantStart]" False False 1 WaitLock False False 1] by simp
  also have "start_step \<dots> (?st False True 1 [Done, Closing, Checking])" using a [of 2 "[Done, Closing, WaitLock]" False False 1 Checking False True 1] by simp
  also have "start_step \<dots> (?st False True 1 [Done, Closing, Dialing])" using a [of 2 "[Done, Closing, Checking]" False True 1 Dialing False True 1] by simp
  also have "start_step \<dots> (?st False True 2 [Done, Closing, Dialed])" using a [of 2 "[Done, Closing, Dialing]" False True 1 Dialed False True 2] by simp
  finally show ?thesis by (intro exI [of _ "?st False True 2 [Done, Closing, Dialed]"]) simp
qed

theorem device_dialed_once_witness:
  "\<exists>g. start_step\<^sup>*\<^sup>* no_session g \<and> st_live g = 2 \<and> st_live g \<le> 1 + count (\<lambda>p. p = Closing) (st_phases g)"
proof -
  obtain g where g: "start_step\<^sup>*\<^sup>* no_session g" "st_live g = 2" using restart_overlaps by blast
  with device_dialed_once [OF g(1), of Done True] show ?thesis by blast
qed

end
