(* ===== verification/State_Files.thy ===== *)
theory State_Files
  imports State_Store
begin

text \<open>
  The files the backend leaves behind: removing them (\<open>backend/reset.go\<close>, \<open>PurgeState\<close>) and summaries of the device
  databases (\<open>backend/state_info.go\<close>). The file system is the list of paths of existing files, with the failures
  of its next removals; what listing a directory returns is the argument \<open>readdir\<close>, since other processes may
  change the directory between its listing and a removal.
\<close>

section \<open>File system\<close>

record fs =
  fs_paths :: "string list"
  fs_faults :: "string option list"

datatype removal = Removed | NotExist | RemovalFailed string

datatype dir_result = DirMissing | DirFailed string | DirEntries "(string \<times> bool) list"

definition os_Remove :: "string \<Rightarrow> fs \<Rightarrow> removal \<times> fs" where
  "os_Remove path f =
     (if path \<notin> set (fs_paths f) then (NotExist, f)
      else case fs_faults f of
        Some e # es \<Rightarrow> (RemovalFailed e, f\<lparr>fs_faults := es\<rparr>)
      | es \<Rightarrow> (Removed, f\<lparr>fs_paths := filter (\<lambda>p. p \<noteq> path) (fs_paths f), fs_faults := tl es\<rparr>))"

text \<open>\<open>filepath.Join\<close> of a clean directory and a file name, and \<open>filepath.Base\<close>.\<close>

definition path_join :: "string \<Rightarrow> string \<Rightarrow> string" where
  "path_join dir name = dir @ ''/'' @ name"

definition path_base :: "string \<Rightarrow> string" where
  "path_base p =
     (if p = [] then ''.''
      else let q = dropWhile (\<lambda>c. c = CHR ''/'') (rev p) in
        if q = [] then ''/'' else rev (takeWhile (\<lambda>c. c \<noteq> CHR ''/'') q))"

definition HasSuffix :: "string \<Rightarrow> string \<Rightarrow> bool" where
  "HasSuffix s t = suffix t s"

definition TrimSuffix :: "string \<Rightarrow> string \<Rightarrow> string" where
  "TrimSuffix s t = (if HasSuffix s t then take (length s - length t) s else s)"

section \<open>Removing state\<close>

datatype state_error = RemovingFailed string string | ReadingDirFailed string

text \<open>The loop that removes paths; a path that does not exist is passed over.\<close>

fun remove_paths :: "string list \<Rightarrow> fs \<Rightarrow> (state_error option \<times> string list) \<times> fs" where
  "remove_paths [] f = ((None, []), f)"
| "remove_paths (p # ps) f =
     (case os_Remove p f of
        (NotExist, f) \<Rightarrow> remove_paths ps f
      | (RemovalFailed e, f) \<Rightarrow> ((Some (RemovingFailed p e), []), f)
      | (Removed, f) \<Rightarrow> (let ((r, ps'), f) = remove_paths ps f in ((r, p # ps'), f)))"

definition is_database :: "string \<times> bool \<Rightarrow> bool" where
  "is_database e \<longleftrightarrow> \<not> snd e \<and>
     (HasSuffix (fst e) ''.db'' \<or> HasSuffix (fst e) ''.db-wal'' \<or> HasSuffix (fst e) ''.db-shm'')"

definition databases_in :: "string \<Rightarrow> dir_result \<Rightarrow> string list" where
  "databases_in dir listed =
     (case listed of DirEntries es \<Rightarrow> map (\<lambda>e. path_join dir (fst e)) (filter is_database es) | _ \<Rightarrow> [])"

definition removeDatabasesIn :: "(string \<Rightarrow> dir_result) \<Rightarrow> string \<Rightarrow> fs \<Rightarrow> (state_error option \<times> string list) \<times> fs" where
  "removeDatabasesIn readdir dir f =
     (case readdir dir of
        DirMissing \<Rightarrow> ((None, []), f)
      | DirFailed e \<Rightarrow> ((Some (ReadingDirFailed e), []), f)
      | DirEntries es \<Rightarrow> remove_paths (databases_in dir (DirEntries es)) f)"

text \<open>One removal after another: the second runs when the first succeeded, what was removed adds up.\<close>

definition and_remove :: "(fs \<Rightarrow> (state_error option \<times> string list) \<times> fs) \<Rightarrow> (fs \<Rightarrow> (state_error option \<times> string list) \<times> fs) \<Rightarrow>
    fs \<Rightarrow> (state_error option \<times> string list) \<times> fs" where
  "and_remove m n f =
     (case m f of
        ((Some e, ps), f) \<Rightarrow> ((Some e, ps), f)
      | ((None, ps), f) \<Rightarrow> (let ((r, qs), f) = n f in ((r, ps @ qs), f)))"

record state_paths =
  sp_devicesDir :: string
  sp_capturesDir :: string
  sp_logPath :: string
  sp_socketPath :: string

text \<open>The databases of a directory that fails half way are not in the list that is returned.\<close>

definition databases_step :: "(string \<Rightarrow> dir_result) \<Rightarrow> string \<Rightarrow> fs \<Rightarrow> (state_error option \<times> string list) \<times> fs" where
  "databases_step readdir dir f =
     (case removeDatabasesIn readdir dir f of
        ((Some e, ps), f) \<Rightarrow> ((Some e, []), f)
      | ((None, ps), f) \<Rightarrow> ((None, ps), f))"

definition ResetState :: "(string \<Rightarrow> dir_result) \<Rightarrow> state_paths \<Rightarrow> fs \<Rightarrow> (state_error option \<times> string list) \<times> fs" where
  "ResetState readdir p =
     and_remove (databases_step readdir (sp_devicesDir p))
       (and_remove (databases_step readdir (sp_capturesDir p)) (remove_paths [sp_logPath p, sp_socketPath p]))"

definition PurgeState :: "string \<Rightarrow> fs \<Rightarrow> (state_error option \<times> string list) \<times> fs" where
  "PurgeState path = remove_paths [path, path @ ''-wal'', path @ ''-shm'']"

section \<open>Summaries\<close>

record state_summary =
  sm_Path :: string
  sm_Prefix :: string
  sm_PublicKey :: string
  sm_CreatedAt :: go_time
  sm_SchemaVersion :: string
  sm_Contacts :: nat
  sm_Channels :: nat
  sm_RepeaterSessions :: nat

definition meta_value :: "tables \<Rightarrow> string \<Rightarrow> string" where
  "meta_value t key = (case map_of (tb_meta t) key of None \<Rightarrow> [] | Some v \<Rightarrow> v)"

text \<open>\<open>opened\<close> gives the tables of a database, or the error of opening it. A query that fails counts as one without
  rows, so that a file that is no database has empty tables. Its size and time are left out.\<close>

definition ReadStateSummary :: "(string \<Rightarrow> string + tables) \<Rightarrow> string \<Rightarrow> string + state_summary" where
  "ReadStateSummary opened path =
     (case opened path of
        Inl e \<Rightarrow> Inl e
      | Inr t \<Rightarrow> Inr \<lparr>sm_Path = path, sm_Prefix = TrimSuffix (path_base path) ''.db'', sm_PublicKey = meta_value t metaPublicKey,
          sm_CreatedAt = (case parse_time (meta_value t metaCreatedAt) of Some created \<Rightarrow> created | None \<Rightarrow> zero_time), sm_SchemaVersion = meta_value t metaSchemaVersion,
          sm_Contacts = length (tb_contacts t), sm_Channels = length (tb_channels t), sm_RepeaterSessions = length (tb_sessions t)\<rparr>)"

definition ListStateSummaries :: "(string \<Rightarrow> dir_result) \<Rightarrow> (string \<Rightarrow> string + tables) \<Rightarrow> string \<Rightarrow> state_error + state_summary list" where
  "ListStateSummaries readdir opened dir =
     (case readdir dir of
        DirMissing \<Rightarrow> Inr []
      | DirFailed e \<Rightarrow> Inl (ReadingDirFailed e)
      | DirEntries es \<Rightarrow>
          Inr (sort_key sm_Prefix (concat (map (\<lambda>e. case ReadStateSummary opened (path_join dir (fst e)) of Inl _ \<Rightarrow> [] | Inr y \<Rightarrow> [y])
            (filter (\<lambda>e. \<not> snd e \<and> HasSuffix (fst e) ''.db'') es)))))"

section \<open>Which files are removed\<close>

text \<open>A removal that may touch the paths \<open>T\<close>: those gone afterwards are among them, those it reports are gone,
  and if it succeeds all of \<open>T\<close> is gone and was reported, as far as it existed.\<close>

definition removes :: "(fs \<Rightarrow> (state_error option \<times> string list) \<times> fs) \<Rightarrow> string set \<Rightarrow> bool" where
  "removes m T \<longleftrightarrow> (\<forall>f r rs f'. m f = ((r, rs), f') \<longrightarrow>
     (\<exists>gone. gone \<subseteq> T \<inter> set (fs_paths f) \<and> fs_paths f' = filter (\<lambda>p. p \<notin> gone) (fs_paths f) \<and> set rs \<subseteq> gone \<and>
       (r = None \<longrightarrow> gone = T \<inter> set (fs_paths f) \<and> set rs = gone)))"

lemma removesE:
  assumes "removes m T" and "m f = ((r, rs), f')"
  obtains gone where "gone \<subseteq> T \<inter> set (fs_paths f)" and "fs_paths f' = filter (\<lambda>p. p \<notin> gone) (fs_paths f)" and "set rs \<subseteq> gone"
    and "r = None \<Longrightarrow> gone = T \<inter> set (fs_paths f) \<and> set rs = gone"
  using assms unfolding removes_def by meson

lemma removes_nothing: "removes (\<lambda>f. ((r, []), f)) T" if "r = None \<Longrightarrow> T = {}"
  unfolding removes_def using that by (auto intro!: exI [of _ "{}"])

lemma removes_and:
  assumes "removes m S" and "removes n T"
  shows "removes (and_remove m n) (S \<union> T)"
  unfolding removes_def
proof (intro allI impI)
  fix f r rs f'
  assume a: "and_remove m n f = ((r, rs), f')"
  obtain r1 rs1 f1 where m: "m f = ((r1, rs1), f1)" by (metis prod.collapse)
  obtain r2 rs2 f2 where n: "n f1 = ((r2, rs2), f2)" by (metis prod.collapse)
  obtain g where g: "g \<subseteq> S \<inter> set (fs_paths f)" "fs_paths f1 = filter (\<lambda>p. p \<notin> g) (fs_paths f)" "set rs1 \<subseteq> g"
    "r1 = None \<Longrightarrow> g = S \<inter> set (fs_paths f) \<and> set rs1 = g" by (rule removesE [OF assms(1) m]) blast
  obtain h where h: "h \<subseteq> T \<inter> set (fs_paths f1)" "fs_paths f2 = filter (\<lambda>p. p \<notin> h) (fs_paths f1)" "set rs2 \<subseteq> h"
    "r2 = None \<Longrightarrow> h = T \<inter> set (fs_paths f1) \<and> set rs2 = h" by (rule removesE [OF assms(2) n]) blast
  show "\<exists>gone. gone \<subseteq> (S \<union> T) \<inter> set (fs_paths f) \<and> fs_paths f' = filter (\<lambda>p. p \<notin> gone) (fs_paths f) \<and> set rs \<subseteq> gone \<and>
      (r = None \<longrightarrow> gone = (S \<union> T) \<inter> set (fs_paths f) \<and> set rs = gone)"
  proof (cases r1)
    case None
    with a m n have eq: "r = r2" "rs = rs1 @ rs2" "f' = f2" by (auto simp: and_remove_def)
    have "fs_paths f' = filter (\<lambda>p. p \<notin> g \<union> h) (fs_paths f)" using eq g(2) h(2) by (simp add: conj_commute)
    with eq g h None show ?thesis by (intro exI [of _ "g \<union> h"]) auto
  next
    case (Some e)
    with a m g show ?thesis by (intro exI [of _ g]) (auto simp: and_remove_def)
  qed
qed

lemma removes_one:
  "removes (\<lambda>f. case os_Remove p f of (NotExist, f) \<Rightarrow> ((None, []), f) | (RemovalFailed e, f) \<Rightarrow> ((Some (RemovingFailed p e), []), f)
     | (Removed, f) \<Rightarrow> ((None, [p]), f)) {p}" (is "removes ?m _")
  unfolding removes_def
proof (intro allI impI)
  fix f r rs f'
  assume a: "?m f = ((r, rs), f')"
  let ?gone = "if p \<in> set (fs_paths f) \<and> r = None then {p} else {}"
  have "?gone \<subseteq> {p} \<inter> set (fs_paths f) \<and> fs_paths f' = filter (\<lambda>q. q \<notin> ?gone) (fs_paths f) \<and> set rs \<subseteq> ?gone \<and>
      (r = None \<longrightarrow> ?gone = {p} \<inter> set (fs_paths f) \<and> set rs = ?gone)"
    using a by (auto simp: os_Remove_def split: if_splits list.splits option.splits)
  then show "\<exists>gone. gone \<subseteq> {p} \<inter> set (fs_paths f) \<and> fs_paths f' = filter (\<lambda>q. q \<notin> gone) (fs_paths f) \<and> set rs \<subseteq> gone \<and>
      (r = None \<longrightarrow> gone = {p} \<inter> set (fs_paths f) \<and> set rs = gone)" by blast
qed

lemma removes_paths: "removes (remove_paths ps) (set ps)"
proof (induction ps)
  case Nil
  show ?case using removes_nothing [of None "{}"] by simp
next
  case (Cons p ps)
  have "remove_paths (p # ps) = and_remove (\<lambda>f. case os_Remove p f of (NotExist, f) \<Rightarrow> ((None, []), f)
      | (RemovalFailed e, f) \<Rightarrow> ((Some (RemovingFailed p e), []), f) | (Removed, f) \<Rightarrow> ((None, [p]), f)) (remove_paths ps)"
    by (rule ext) (auto simp: and_remove_def split: prod.split removal.split)
  with removes_and [OF removes_one Cons.IH] show ?case by simp
qed

lemma removes_databases: "removes (databases_step readdir dir) (set (databases_in dir (readdir dir)))"
proof (cases "readdir dir")
  case (DirEntries es)
  have "removes (databases_step readdir dir) T" if "removes (remove_paths (databases_in dir (DirEntries es))) T" for T
    unfolding removes_def
  proof (intro allI impI)
    fix f r rs f'
    assume a: "databases_step readdir dir f = ((r, rs), f')"
    obtain r1 rs1 f1 where m: "remove_paths (databases_in dir (DirEntries es)) f = ((r1, rs1), f1)" by (metis prod.collapse)
    with a DirEntries have "r = r1" "f' = f1" "rs = (if r1 = None then rs1 else [])"
      by (auto simp: databases_step_def removeDatabasesIn_def split: option.splits)
    with removesE [OF that m] show "\<exists>gone. gone \<subseteq> T \<inter> set (fs_paths f) \<and> fs_paths f' = filter (\<lambda>p. p \<notin> gone) (fs_paths f) \<and> set rs \<subseteq> gone \<and>
        (r = None \<longrightarrow> gone = T \<inter> set (fs_paths f) \<and> set rs = gone)" by (metis empty_subsetI list.set(1))
  qed
  from this [OF removes_paths] DirEntries show ?thesis by simp
qed (use removes_nothing [of None "{}"] removes_nothing [of "Some e" "{}" for e] in
    \<open>auto simp: databases_step_def [abs_def] removeDatabasesIn_def databases_in_def\<close>)

section \<open>Properties\<close>

text \<open>C37: A reset removes the local state and nothing else. Only the databases listed in the two directories of the
  backend, its log and its socket can be gone after a reset, and every path it reports is gone. When it
  succeeds, all of these are gone and exactly those that existed are reported, whatever other processes have
  removed meanwhile.\<close>

theorem reset_removes_state_only:
  assumes "ResetState readdir p f = ((r, removed), f')"
  shows "\<exists>gone. fs_paths f' = filter (\<lambda>q. q \<notin> gone) (fs_paths f) \<and> set removed \<subseteq> gone \<and>
    gone \<subseteq> set (databases_in (sp_devicesDir p) (readdir (sp_devicesDir p))) \<union>
      set (databases_in (sp_capturesDir p) (readdir (sp_capturesDir p))) \<union> {sp_logPath p, sp_socketPath p} \<and>
    (r = None \<longrightarrow> set removed = gone \<and>
      gone = (set (databases_in (sp_devicesDir p) (readdir (sp_devicesDir p))) \<union>
        set (databases_in (sp_capturesDir p) (readdir (sp_capturesDir p))) \<union> {sp_logPath p, sp_socketPath p}) \<inter> set (fs_paths f))"
proof -
  have "removes (ResetState readdir p) (set (databases_in (sp_devicesDir p) (readdir (sp_devicesDir p))) \<union>
      (set (databases_in (sp_capturesDir p) (readdir (sp_capturesDir p))) \<union> set [sp_logPath p, sp_socketPath p]))"
    unfolding ResetState_def by (intro removes_and removes_databases removes_paths)
  from removesE [OF this assms] obtain gone where "gone \<subseteq> (set (databases_in (sp_devicesDir p) (readdir (sp_devicesDir p))) \<union>
      (set (databases_in (sp_capturesDir p) (readdir (sp_capturesDir p))) \<union> set [sp_logPath p, sp_socketPath p])) \<inter> set (fs_paths f)"
    and "fs_paths f' = filter (\<lambda>p. p \<notin> gone) (fs_paths f)" and "set removed \<subseteq> gone"
    and "r = None \<Longrightarrow> gone = (set (databases_in (sp_devicesDir p) (readdir (sp_devicesDir p))) \<union>
      (set (databases_in (sp_capturesDir p) (readdir (sp_capturesDir p))) \<union> set [sp_logPath p, sp_socketPath p])) \<inter> set (fs_paths f) \<and> set removed = gone"
    by blast
  then show ?thesis by (intro exI [of _ gone]) auto
qed

definition demo_paths :: state_paths where
  "demo_paths = \<lparr>sp_devicesDir = ''d'', sp_capturesDir = ''c'', sp_logPath = ''l'', sp_socketPath = ''s''\<rparr>"

definition demo_readdir :: "string \<Rightarrow> dir_result" where
  "demo_readdir dir = (if dir = ''d'' then DirEntries [(''a.db'', False), (''b'', False)] else DirMissing)"

theorem reset_removes_state_only_witness:
  "\<exists>f' gone. ResetState demo_readdir demo_paths \<lparr>fs_paths = [''d/a.db'', ''d/b'', ''s''], fs_faults = []\<rparr> = ((None, [''d/a.db'', ''s'']), f') \<and>
     fs_paths f' = filter (\<lambda>q. q \<notin> gone) [''d/a.db'', ''d/b'', ''s''] \<and> set [''d/a.db'', ''s''] = gone"
proof -
  have r: "ResetState demo_readdir demo_paths \<lparr>fs_paths = [''d/a.db'', ''d/b'', ''s''], fs_faults = []\<rparr> =
      ((None, [''d/a.db'', ''s'']), \<lparr>fs_paths = [''d/b''], fs_faults = []\<rparr>)" by code_simp
  obtain gone where "set [''d/a.db'', ''s''] = gone"
    "[''d/b''] = filter (\<lambda>q. q \<notin> gone) [''d/a.db'', ''d/b'', ''s'']"
    using reset_removes_state_only [OF r] unfolding fs.select_convs by blast
  with r show ?thesis by (metis fs.select_convs(1))
qed

text \<open>Purging removes the database of a device with its side files.\<close>

lemma PurgeState_exact:
  assumes "PurgeState path f = ((None, removed), f')"
  shows "fs_paths f' = filter (\<lambda>q. q \<notin> {path, path @ ''-wal'', path @ ''-shm''}) (fs_paths f)"
proof -
  have "removes (PurgeState path) (set [path, path @ ''-wal'', path @ ''-shm''])" unfolding PurgeState_def by (rule removes_paths)
  from removesE [OF this assms] obtain gone where "fs_paths f' = filter (\<lambda>p. p \<notin> gone) (fs_paths f)"
    "gone = set [path, path @ ''-wal'', path @ ''-shm''] \<inter> set (fs_paths f)" by blast
  then show ?thesis by (auto intro: filter_cong)
qed

text \<open>The summaries are sorted, and there is one for every database of the directory that can be opened.\<close>

lemma ListStateSummaries_complete:
  assumes "readdir dir = DirEntries es" and "ListStateSummaries readdir opened dir = Inr xs"
  shows "sorted (map sm_Prefix xs)"
    and "sm \<in> set xs \<longleftrightarrow> (\<exists>name. (name, False) \<in> set es \<and> HasSuffix name ''.db'' \<and> ReadStateSummary opened (path_join dir name) = Inr sm)"
  using assms by (auto simp: ListStateSummaries_def split: sum.splits) force+

end
