(* ===== verification/Spec2Isabelle.thy ===== *)
theory Spec2Isabelle
  imports Bridge Cli_Config Contact_List Session_Starts State_Files
begin

text \<open>
  A verification library for \<open>meshcore-go\<close>, a Go SDK, backend and command line tool for MeshCore companion radios.
  A program talks to a radio over a serial line, TCP or Bluetooth; the radio speaks the companion protocol, a
  request/response protocol with asynchronous pushes; the SDK's client turns it into calls and events. The
  backend keeps one session per radio with a database of messages, contacts and channels behind a local socket,
  and the command line tool asks the backend or a radio directly.

  \<^bold>\<open>Parts, theories and sources.\<close> Paths are relative to \<open>src/\<close>.

  \<^item> \<^emph>\<open>Go.\<close> \<open>Go_Prelude\<close> (machine integers, slices, little-endian fields), \<open>Go_Strings\<close>, \<open>Go_Strconv\<close>, \<open>Go_Fmt\<close>,
    \<open>Go_Float\<close>, \<open>Go_Duration\<close>, \<open>Go_Time\<close>, \<open>Go_Url\<close> and \<open>Go_Channel\<close> model what the sources use of the language and its
    library. A run-time panic is the value \<open>None\<close> (or \<open>Panicked\<close>), an error a value of a datatype.
  \<^item> \<^emph>\<open>Wire formats.\<close> \<open>Pathhash\<close> (\<open>protocol/pathhash\<close>), \<open>Companion_Types\<close>, \<open>Companion_Decode\<close> and
    \<open>Companion_Encode\<close> (\<open>protocol/companion\<close>), \<open>Streamframe\<close> (\<open>transport/internal/streamframe\<close>). Decoding is total and
    never panics; encodings can be told apart; frames survive noise and pieces.
  \<^item> \<^emph>\<open>Concurrency.\<close> \<open>Dispatcher\<close> (\<open>internal/dispatcher\<close>, channels in an explicit heap) and \<open>Request_Queue\<close>
    (\<open>internal/queue\<close>, a step relation with all interleavings of callers and the read loop); in the backend
    \<open>Radio_Executor\<close> (\<open>backend/radio_activity.go\<close>, the lock around the radio) and \<open>Session_Starts\<close> (concurrent starts and
    stops of a device in \<open>backend/daemon.go\<close>).
  \<^item> \<^emph>\<open>Client.\<close> \<open>Client_Types\<close>, \<open>Companion_Session\<close> (\<open>protocol/companion/protocol.go\<close>, \<open>protocol/*.go\<close>), \<open>Client\<close>
    (\<open>client.go\<close>, \<open>events.go\<close>), \<open>Client_Push\<close> (the loops that wait for pushes), \<open>Client_Api\<close> (\<open>device.go\<close>, \<open>stats.go\<close>,
    \<open>channels.go\<close>, \<open>messages.go\<close>, \<open>contacts.go\<close>, \<open>mesh_packet.go\<close>), \<open>Tracing\<close> (\<open>paths.go\<close>, \<open>node_discover.go\<close>),
    \<open>Repeater_Report\<close> (\<open>neighbours.go\<close>) and \<open>Repeaters\<close> (\<open>repeaters.go\<close>). No call panics on a well-formed client, a
    call returns its own answer, and waiting ends with the context.
  \<^item> \<^emph>\<open>Transports.\<close> \<open>Transport\<close> (\<open>transport/*.go\<close>), \<open>Serial_Conn\<close>, \<open>Tcp_Conn\<close>, \<open>Ble_Conn\<close>, \<open>Dialing\<close> (\<open>dial.go\<close>, \<open>discover.go\<close>).
  \<^item> \<^emph>\<open>Local state.\<close> \<open>State_Store\<close> and \<open>Message_History\<close> (\<open>backend/sqlite_store.go\<close>, \<open>store.go\<close>, \<open>paths.go\<close>): tables, and
    that no message is lost or altered whatever statements fail. \<open>State_Files\<close> (\<open>backend/reset.go\<close>, \<open>state_info.go\<close>).
  \<^item> \<^emph>\<open>Sessions.\<close> \<open>Device_Session\<close> (state, opening, reconnecting, polling), \<open>Session_Messages\<close> (\<open>backend/messages.go\<close>),
    \<open>Session_Sync\<close> (contacts and channels), \<open>Session_Dispatch\<close> (requests, streams and events; all of \<open>backend/server.go\<close>)
    and \<open>Bridge\<close> (\<open>backend/bridge.go\<close>). \<open>session_step\<close> is the relation of everything that can happen to a session.
  \<^item> \<^emph>\<open>Daemon and its client.\<close> \<open>Daemon\<close> (\<open>backend/daemon.go\<close>) and \<open>Ipc_Client\<close> (\<open>backend/client.go\<close>), with the composition of
    both: a call of the client is answered by the session it selects.
  \<^item> \<^emph>\<open>Command line tool.\<close> \<open>Cli_Config\<close> (\<open>config/config.go\<close>, \<open>cli/resolve.go\<close>, and the commands that edit the configuration
    or build the daemon from it), \<open>Shell_Words\<close> (\<open>cli/shell.go\<close>, \<open>shell_complete.go\<close>) and \<open>Contact_List\<close>
    (\<open>cli/contacts_filter.go\<close>), all under \<open>cmd/mc/internal\<close>.

  \<^bold>\<open>How the outside is modelled.\<close> What the device, the network, the clock and other goroutines do to a client
  is a script \<open>w_env\<close> of events, consumed in order by whoever waits; theorems are about all scripts. A call
  that needs another event when the script ends is \<open>Blocked\<close>, so that a theorem that a call returns says
  that it is \<open>Finished\<close>. The serial, TCP and Bluetooth libraries are arguments of the definitions that use
  them; where several cases of a \<open>select\<close> may be ready, all are listed or an argument chooses. The failures of
  database statements are a list in the database (\<open>db_faults\<close>), those of removing files a list in the file system;
  the Unicode tables, hash functions, random tags and the JSON encoder are fields of \<open>backend_env\<close>, and what dialing
  meets is \<open>dial_env\<close>. JSON texts are the values they encode. Requests to a session run one after the other, as the
  locks of the source make them; what runs beside them are the steps of \<open>session_step\<close>. Recursion ends with the
  data or the script, and no definition takes fuel.

  \<^bold>\<open>Interfaces.\<close> \<open>drop_oldest_buffer\<close> (\<open>Go_Channel\<close>) is the bounded buffer of the dispatcher, of channels and of
  the Bluetooth notification handler; \<open>packet_framing\<close> (\<open>Streamframe\<close>) is a stream of frames; \<open>polling\<close> (\<open>Client\<close>) and \<open>push_channel\<close> (\<open>Client_Push\<close>) are the wait loops for confirmations,
  traces and discovery replies; \<open>packet_conn\<close> (\<open>Transport\<close>) is the contract of the three connections; \<open>keyed\<close>
  (\<open>Contact_List\<close>) is what a stable sort needs of a comparison. Each is interpreted on the definitions of the model.

  \<^bold>\<open>Not modelled.\<close> Log output and the text of tables and status screens. The web server of the backend and the
  terminal user interfaces, which are glue over HTTP, cobra and bubbletea. The sockets, pseudo terminals and YAML
  files themselves. Two profiles of one radio that share a database file. Channel keys are derived from names
  in a module outside the sources.
\<close>

end
